(* ===== verification/Prelude.thy ===== *)
theory Prelude
  imports Main "HOL-Library.Word" "HOL-Library.Char_ord" "HOL-Library.Sublist"
begin

text \<open>
  Shared vocabulary of the development: bytes and Go strings, Go errors as values, the
  either monad the fallible operations are written in, fixed-width big-endian integers,
  decimal printing and parsing, and two interfaces (\<open>codec\<close>, \<open>partial_codec\<close>) that the
  encoders and decoders of the components implement.
\<close>

unbundle bit_operations_syntax

section \<open>Types\<close>

text \<open>
  A Go \<open>string\<close> is a byte sequence, here a list of \<open>char\<close>, which is a byte as well. Binary
  data (\<open>[]byte\<close>) is a list of 8-bit words; a Go \<open>int64\<close> that is never driven past its
  bounds is an \<open>int\<close>, and where the code converts between widths the model uses words.
\<close>

type_synonym byte = "8 word"
type_synonym bytes = "byte list"

definition bytes_of_string :: "string \<Rightarrow> bytes" where
  "bytes_of_string s = map (\<lambda>c. of_nat (of_char c)) s"

definition string_of_bytes :: "bytes \<Rightarrow> string" where
  "string_of_bytes bs = map (\<lambda>b. char_of (unat b)) bs"

lemma string_of_bytes_of_string [simp]: "string_of_bytes (bytes_of_string s) = s"
proof -
  have "char_of (unat (of_nat (of_char c :: nat) :: byte)) = c" for c
  proof -
    show ?thesis by (simp add: unat_of_nat)
  qed
  then show ?thesis by (simp add: bytes_of_string_def string_of_bytes_def comp_def)
qed

lemma length_bytes_of_string [simp]: "length (bytes_of_string s) = length s"
  by (simp add: bytes_of_string_def)

lemma bytes_of_string_inj: "bytes_of_string s = bytes_of_string t \<longleftrightarrow> s = t"
  by (metis string_of_bytes_of_string)

lemma bytes_of_string_append: "bytes_of_string (s @ t) = bytes_of_string s @ bytes_of_string t"
  by (simp add: bytes_of_string_def)

section \<open>Errors as values\<close>

text \<open>
  An error of the program: \<open>Problem\<close> is a message with a remedy (package \<open>problem\<close>), given
  by its format string; \<open>Internal\<close> is a plain \<open>fmt.Errorf\<close>; the others are the sentinel
  errors and error types the code tests with \<open>errors.Is\<close> and \<open>errors.As\<close>.
\<close>

datatype err =
    Problem string
  | Internal string
  | Incomplete string
  | WrongPassword
  | Corrupted
  | EOF
  | UnexpectedEOF
  | IOError string
  | YubiKeyRequired
  | YubiKeyError err
  | PasswordEmpty
  | PasswordMismatch
  | MissingParts "nat list"
  | NameMismatch
  | Cancelled string
  | LockUnavailable
  | Wrapped string err

type_synonym 'a result = "err + 'a"

section \<open>The either monad\<close>

definition bindE :: "'e + 'a \<Rightarrow> ('a \<Rightarrow> 'e + 'b) \<Rightarrow> 'e + 'b" where
  "bindE m f = (case m of Inl e \<Rightarrow> Inl e | Inr x \<Rightarrow> f x)"

definition checkE :: "bool \<Rightarrow> 'e \<Rightarrow> 'e + unit" where
  "checkE b e = (if b then Inr () else Inl e)"

text \<open>\<open>e_iff\<close> collects the inversions of monadic results; \<open>e_simp\<close> their evaluation.\<close>

named_theorems e_iff
named_theorems e_simp

lemma bindE_Inl [e_simp, simp]: "bindE (Inl e) f = Inl e"
  by (simp add: bindE_def)

lemma bindE_Inr [e_simp, simp]: "bindE (Inr x) f = f x"
  by (simp add: bindE_def)

lemma bindE_eq_Inr [e_iff]: "bindE m f = Inr y \<longleftrightarrow> (\<exists>x. m = Inr x \<and> f x = Inr y)"
  by (cases m) auto

lemma bindE_eq_Inl [e_iff]:
  "bindE m f = Inl e \<longleftrightarrow> m = Inl e \<or> (\<exists>x. m = Inr x \<and> f x = Inl e)"
  by (cases m) auto

lemma checkE_eq_Inr [e_iff]: "checkE b e = Inr u \<longleftrightarrow> b"
  by (simp add: checkE_def)

lemma checkE_eq_Inl [e_iff]: "checkE b e = Inl e' \<longleftrightarrow> \<not> b \<and> e' = e"
  by (auto simp: checkE_def)

lemma checkE_True [e_simp, simp]: "checkE True e = Inr ()"
  by (simp add: checkE_def)

lemma checkE_False [e_simp, simp]: "checkE False e = Inl e"
  by (simp add: checkE_def)

lemma case_sum_eq_Inr [e_iff]:
  "(case m of Inl e \<Rightarrow> Inl (f e) | Inr x \<Rightarrow> g x) = Inr y \<longleftrightarrow> (\<exists>x. m = Inr x \<and> g x = Inr y)"
  by (cases m) auto

definition is_ok :: "'e + 'a \<Rightarrow> bool" where
  "is_ok m = (case m of Inl _ \<Rightarrow> False | Inr _ \<Rightarrow> True)"

lemma is_ok_simps [simp]: "is_ok (Inr x)" "\<not> is_ok (Inl e)"
  by (simp_all add: is_ok_def)

lemma is_ok_iff: "is_ok m \<longleftrightarrow> (\<exists>x. m = Inr x)"
  by (cases m) auto

section \<open>Interfaces: encoders and decoders\<close>

text \<open>
  \<open>codec\<close>: on well-formed values, decoding what the encoder printed gives the value back.
  \<open>canonical_codec\<close> adds the other direction: whatever the decoder accepts is well formed
  and is exactly what the encoder prints.
\<close>

locale codec =
  fixes enc :: "'a \<Rightarrow> 'b"
    and dec :: "'b \<Rightarrow> 'e + 'a"
    and valid :: "'a \<Rightarrow> bool"
  assumes dec_enc: "valid x \<Longrightarrow> dec (enc x) = Inr x"
begin

lemma enc_inj: "valid x \<Longrightarrow> valid y \<Longrightarrow> enc x = enc y \<longleftrightarrow> x = y"
  by (metis dec_enc sum.inject(2))

lemma enc_inj_on: "inj_on enc {x. valid x}"
  by (rule inj_onI) (simp add: enc_inj)

lemma map_enc_inj: "list_all valid xs \<Longrightarrow> list_all valid ys \<Longrightarrow> map enc xs = map enc ys \<longleftrightarrow> xs = ys"
  by (rule inj_on_map_eq_map [OF inj_on_subset [OF enc_inj_on]]) (auto simp: list_all_iff)

end

locale canonical_codec = codec +
  assumes dec_sound: "dec b = Inr x \<Longrightarrow> valid x \<and> enc x = b"
begin

lemma dec_iff: "dec b = Inr x \<longleftrightarrow> valid x \<and> enc x = b"
  using dec_enc dec_sound by blast

lemma dec_inj: "dec b = Inr x \<Longrightarrow> dec c = Inr x \<Longrightarrow> b = c"
  by (auto dest: dec_sound)

lemma accepted_iff: "is_ok (dec b) \<longleftrightarrow> (\<exists>x. valid x \<and> enc x = b)"
  by (auto simp: is_ok_iff dec_iff)

end

section \<open>Readers and writers\<close>

text \<open>
  An \<open>io.Reader\<close> is the bytes it still delivers and the error it ends with (\<open>None\<close>: a plain
  end of file). \<open>read_full n\<close> is \<open>io.ReadFull\<close> into a buffer of \<open>n\<close> bytes: the error, the bytes
  read and the reader afterwards.
\<close>

type_synonym source = "bytes \<times> err option"

definition read_full :: "nat \<Rightarrow> source \<Rightarrow> err option \<times> bytes \<times> source" where
  "read_full n src = (case src of (bs, e) \<Rightarrow>
     if n \<le> length bs then (None, take n bs, (drop n bs, e))
     else (Some (case e of Some x \<Rightarrow> x | None \<Rightarrow> if bs = [] then EOF else UnexpectedEOF), bs, ([], e)))"

text \<open>
  An \<open>io.Writer\<close> is a function from its state and the bytes to an error and the new state. The
  contract \<open>byte_sink\<close>: from a good state every write succeeds and appends the bytes to what the
  writer holds. Its clients are the encryption stream and the container writer; its providers the
  in-memory buffer, the counting writer and the split writer.
\<close>

type_synonym 'w writer = "'w \<Rightarrow> bytes \<Rightarrow> err option \<times> 'w"

definition write_all :: "'w writer \<Rightarrow> bytes list \<Rightarrow> 'w \<Rightarrow> err option \<times> 'w" where
  "write_all wr ps w = foldl (\<lambda>(e, w) p. case e of None \<Rightarrow> wr w p | Some x \<Rightarrow> (Some x, w)) (None, w) ps"

locale byte_sink =
  fixes wr :: "'w writer"
    and content :: "'w \<Rightarrow> bytes"
    and good :: "'w \<Rightarrow> bool"
  assumes write_ok: "good w \<Longrightarrow> fst (wr w p) = None"
    and write_good: "good w \<Longrightarrow> good (snd (wr w p))"
    and write_content: "good w \<Longrightarrow> content (snd (wr w p)) = content w @ p"
begin

lemma write_all_sink:
  "good w \<Longrightarrow> fst (write_all wr ps w) = None \<and> good (snd (write_all wr ps w))
     \<and> content (snd (write_all wr ps w)) = content w @ concat ps"
proof (induction ps rule: rev_induct)
  case Nil
  then show ?case by (simp add: write_all_def)
next
  case (snoc p ps)
  obtain e w' where eq: "write_all wr ps w = (e, w')" by fastforce
  with snoc have "e = None" "good w'" "content w' = content w @ concat ps" by auto
  moreover have "write_all wr (ps @ [p]) w = wr w' p"
    using eq \<open>e = None\<close> by (simp add: write_all_def)
  ultimately show ?case by (simp add: write_ok write_good write_content)
qed

end

definition buf_write :: "bytes writer" where
  "buf_write w p = (None, w @ p)"

interpretation buffer: byte_sink buf_write "\<lambda>w. w" "\<lambda>_. True"
  by unfold_locales (simp_all add: buf_write_def)

section \<open>Big-endian integers\<close>

text \<open>
  \<open>binary.BigEndian\<close>: the low \<open>n\<close> bytes of a natural number, most significant first.
\<close>

fun be_bytes :: "nat \<Rightarrow> nat \<Rightarrow> bytes" where
  "be_bytes 0 x = []"
| "be_bytes (Suc n) x = be_bytes n (x div 256) @ [of_nat (x mod 256)]"

fun be_nat :: "bytes \<Rightarrow> nat" where
  "be_nat bs = foldl (\<lambda>a b. 256 * a + unat b) 0 bs"

declare be_nat.simps [simp del]

lemma length_be_bytes [simp]: "length (be_bytes n x) = n"
  by (induction n arbitrary: x) auto

lemma be_nat_Nil [simp]: "be_nat [] = 0"
  by (simp add: be_nat.simps)

lemma be_nat_snoc [simp]: "be_nat (bs @ [b]) = 256 * be_nat bs + unat b"
  by (simp add: be_nat.simps)

lemma unat_byte_less [simp]: "unat (b :: byte) < 256"
  using unsigned_less [of b] by simp

lemma unat_byte_mod: "unat (of_nat (x mod 256) :: byte) = x mod 256"
  by (simp add: unat_of_nat)

lemma be_nat_be_bytes: "be_nat (be_bytes n x) = x mod 256 ^ n"
proof (induction n arbitrary: x)
  case 0
  then show ?case by simp
next
  case (Suc n)
  have "x mod 256 ^ Suc n = 256 * (x div 256 mod 256 ^ n) + x mod 256"
    by (simp add: mod_mult2_eq)
  with Suc show ?case by (simp add: unat_byte_mod del: of_nat_mod)
qed

lemma be_nat_be_bytes_id: "x < 256 ^ n \<Longrightarrow> be_nat (be_bytes n x) = x"
  by (simp add: be_nat_be_bytes)

lemma be_nat_lt: "be_nat bs < 256 ^ length bs"
proof (induction bs rule: rev_induct)
  case Nil
  then show ?case by simp
next
  case (snoc b bs)
  have step: "x < m \<Longrightarrow> y < 256 \<Longrightarrow> 256 * x + y < 256 * m" for x y m :: nat by linarith
  from step [OF snoc unat_byte_less] show ?case by simp
qed

lemma be_bytes_be_nat: "be_bytes (length bs) (be_nat bs) = bs"
proof (induction bs rule: rev_induct)
  case Nil
  then show ?case by simp
next
  case (snoc b bs)
  have b: "unat b < 256" by simp
  have "(256 * be_nat bs + unat b) div 256 = be_nat bs"
    "(256 * be_nat bs + unat b) mod 256 = unat b"
    using b by simp_all
  with snoc show ?case by (simp del: be_nat.simps)
qed

lemma be_bytes_inj: "x < 256 ^ n \<Longrightarrow> y < 256 ^ n \<Longrightarrow> be_bytes n x = be_bytes n y \<longleftrightarrow> x = y"
  by (metis be_nat_be_bytes_id)

section \<open>Decimal digits\<close>

definition is_digit :: "char \<Rightarrow> bool" where
  "is_digit c \<longleftrightarrow> 48 \<le> (of_char c :: nat) \<and> (of_char c :: nat) \<le> 57"

definition digit_char :: "nat \<Rightarrow> char" where
  "digit_char d = char_of (48 + d)"

definition digit_val :: "char \<Rightarrow> nat" where
  "digit_val c = of_char c - 48"

definition is_upper_alnum :: "char \<Rightarrow> bool" where
  "is_upper_alnum c \<longleftrightarrow> is_digit c \<or> (65 \<le> (of_char c :: nat) \<and> (of_char c :: nat) \<le> 90)"

lemma of_char_digit_char: "d < 10 \<Longrightarrow> (of_char (digit_char d) :: nat) = 48 + d"
  by (simp add: digit_char_def)

lemma is_digit_digit_char [simp]: "d < 10 \<Longrightarrow> is_digit (digit_char d)"
  by (simp add: is_digit_def of_char_digit_char)

lemma digit_val_digit_char [simp]: "d < 10 \<Longrightarrow> digit_val (digit_char d) = d"
  by (simp add: digit_val_def of_char_digit_char)

lemma digit_char_digit_val [simp]: "is_digit c \<Longrightarrow> digit_char (digit_val c) = c"
  by (simp add: is_digit_def digit_val_def digit_char_def)

lemma digit_val_less [simp]: "is_digit c \<Longrightarrow> digit_val c < 10"
  by (auto simp: is_digit_def digit_val_def)

text \<open>\<open>strconv.Atoi\<close> on a string of digits, and \<open>fmt.Sprintf("%d")\<close> on a natural number.\<close>

definition dec_val :: "string \<Rightarrow> nat" where
  "dec_val s = foldl (\<lambda>a c. 10 * a + digit_val c) 0 s"

fun show_nat :: "nat \<Rightarrow> string" where
  "show_nat n = (if n < 10 then [digit_char n] else show_nat (n div 10) @ [digit_char (n mod 10)])"

declare show_nat.simps [simp del]

lemma dec_val_snoc: "dec_val (s @ [c]) = 10 * dec_val s + digit_val c"
  by (simp add: dec_val_def)

lemma dec_val_show_nat [simp]: "dec_val (show_nat n) = n"
proof (induction n rule: show_nat.induct)
  case (1 n)
  show ?case
  proof (cases "n < 10")
    case True
    then show ?thesis by (simp add: show_nat.simps [of n] dec_val_def)
  next
    case False
    with 1 show ?thesis by (simp add: show_nat.simps [of n] dec_val_snoc)
  qed
qed

lemma show_nat_digits: "list_all is_digit (show_nat n)"
proof (induction n rule: show_nat.induct)
  case (1 n)
  then show ?case by (cases "n < 10") (simp_all add: show_nat.simps [of n])
qed

lemma show_nat_not_Nil [simp]: "show_nat n \<noteq> []"
  by (simp add: show_nat.simps [of n])

lemma length_show_nat_less: "n < 10 ^ Suc k \<Longrightarrow> length (show_nat n) \<le> Suc k"
proof (induction k arbitrary: n)
  case 0
  then show ?case by (simp add: show_nat.simps [of n])
next
  case (Suc k)
  show ?case
  proof (cases "n < 10")
    case True
    then show ?thesis by (simp add: show_nat.simps [of n])
  next
    case False
    have "n div 10 < 10 ^ Suc k" using Suc.prems by (simp add: less_mult_imp_div_less)
    from Suc.IH [OF this] False show ?thesis by (simp add: show_nat.simps [of n])
  qed
qed

lemma length_show_nat_ge: "10 ^ k \<le> n \<Longrightarrow> Suc k \<le> length (show_nat n)"
proof (induction k arbitrary: n)
  case 0
  then show ?case by (simp add: Suc_le_eq)
next
  case (Suc k)
  have "10 ^ k \<le> n div 10" using Suc.prems by (simp add: less_eq_div_iff_mult_less_eq mult.commute)
  from Suc.IH [OF this] have "Suc k \<le> length (show_nat (n div 10))" .
  moreover have "\<not> n < 10"
  proof -
    have "(10::nat) * 1 \<le> 10 * 10 ^ k" by (intro mult_le_mono2 one_le_power) simp
    from le_trans [OF this Suc.prems [unfolded power_Suc]] show ?thesis by simp
  qed
  ultimately show ?case by (simp add: show_nat.simps [of n])
qed

text \<open>\<open>fmt.Sprintf("%03d")\<close>: at least three digits, padded with zeros.\<close>

definition show_pad3 :: "nat \<Rightarrow> string" where
  "show_pad3 n = replicate (3 - length (show_nat n)) (CHR ''0'') @ show_nat n"

lemma is_digit_0 [simp]: "is_digit (CHR ''0'')"
  by (simp add: is_digit_def)

lemma digit_val_0 [simp]: "digit_val (CHR ''0'') = 0"
  by (simp add: digit_val_def)

lemma dec_val_zeros: "dec_val (replicate k (CHR ''0'') @ s) = dec_val s"
  by (induction k) (simp_all add: dec_val_def)

lemma dec_val_show_pad3 [simp]: "dec_val (show_pad3 n) = n"
  by (simp add: show_pad3_def dec_val_zeros)

lemma show_pad3_digits: "list_all is_digit (show_pad3 n)"
  using show_nat_digits [of n] by (auto simp: show_pad3_def list_all_iff)

lemma length_show_pad3: "n < 1000 \<Longrightarrow> length (show_pad3 n) = 3"
  using length_show_nat_less [of n 2] by (simp add: show_pad3_def)

lemma length_show_pad3_ge: "1000 \<le> n \<Longrightarrow> 4 \<le> length (show_pad3 n)"
  using length_show_nat_ge [of 3 n] by (simp add: show_pad3_def)

lemma dec_val_inj:
  assumes "list_all is_digit s" "list_all is_digit t" "length s = length t" "dec_val s = dec_val t"
  shows "s = t"
  using assms
proof (induction s arbitrary: t rule: rev_induct)
  case Nil
  then show ?case by simp
next
  case (snoc c s)
  then obtain t' d where t: "t = t' @ [d]" by (cases t rule: rev_cases) auto
  have c: "digit_val c < 10" "digit_val d < 10" using snoc.prems t by auto
  have eq: "10 * dec_val s + digit_val c = 10 * dec_val t' + digit_val d"
    using snoc.prems t by (simp add: dec_val_snoc)
  then have "dec_val s = dec_val t'" "digit_val c = digit_val d" using c by presburger+
  moreover have "digit_char (digit_val c) = c" "digit_char (digit_val d) = d"
    using snoc.prems t by auto
  ultimately show ?case using snoc t by (metis append_same_eq length_append_singleton list_all_append nat.inject)
qed

lemma dec_val_less_pow: "list_all is_digit s \<Longrightarrow> dec_val s < 10 ^ length s"
proof (induction s rule: rev_induct)
  case Nil
  then show ?case by (simp add: dec_val_def)
next
  case (snoc c s)
  then have "digit_val c < 10" "dec_val s < 10 ^ length s" by auto
  then show ?case by (simp add: dec_val_snoc)
qed

lemma show_pad3_dec_val:
  assumes "list_all is_digit s" "length s = 3"
  shows "show_pad3 (dec_val s) = s"
proof (rule dec_val_inj)
  have "dec_val s < 1000" using dec_val_less_pow [OF assms(1)] assms(2) by simp
  then show "length (show_pad3 (dec_val s)) = length s" using assms by (simp add: length_show_pad3)
qed (use assms show_pad3_digits in simp_all)

end
