(* ===== verification/Encoding.thy ===== *)
theory Encoding
  imports Prelude
begin

text \<open>
  The text encodings of the standard library that the container uses: \<open>encoding/hex\<close>, the padded
  \<open>base64.StdEncoding\<close> and \<open>strconv.Itoa\<close>. Each is an instance of the interface \<open>codec\<close>.
\<close>

section \<open>Integers\<close>

definition show_int :: "int \<Rightarrow> string" where
  "show_int i = (if i < 0 then ''-'' @ show_nat (nat (- i)) else show_nat (nat i))"

lemma show_nat_inj: "show_nat m = show_nat n \<longleftrightarrow> m = n"
  by (metis dec_val_show_nat)

section \<open>Hexadecimal\<close>

definition hex_char :: "nat \<Rightarrow> char" where
  "hex_char n = (if n < 10 then char_of (48 + n) else char_of (87 + n))"

definition hex_val :: "char \<Rightarrow> nat option" where
  "hex_val c = (let k = (of_char c :: nat) in
     if 48 \<le> k \<and> k \<le> 57 then Some (k - 48)
     else if 97 \<le> k \<and> k \<le> 102 then Some (k - 87)
     else if 65 \<le> k \<and> k \<le> 70 then Some (k - 55) else None)"

text \<open>\<open>hex.EncodeToString\<close> and \<open>hex.DecodeString\<close> (an odd length is an error).\<close>

fun hex_encode :: "bytes \<Rightarrow> string" where
  "hex_encode [] = []"
| "hex_encode (b # bs) = hex_char (unat b div 16) # hex_char (unat b mod 16) # hex_encode bs"

fun hex_decode :: "string \<Rightarrow> bytes option" where
  "hex_decode [] = Some []"
| "hex_decode [c] = None"
| "hex_decode (c # d # s) = (case (hex_val c, hex_val d) of
     (Some h, Some l) \<Rightarrow> map_option (\<lambda>bs. of_nat (16 * h + l) # bs) (hex_decode s)
   | _ \<Rightarrow> None)"

lemma hex_val_hex_char: "n < 16 \<Longrightarrow> hex_val (hex_char n) = Some n"
  by (auto simp: hex_val_def hex_char_def Let_def)

lemma length_hex_encode [simp]: "length (hex_encode bs) = 2 * length bs"
  by (induction bs) auto

lemma hex_decode_encode [simp]: "hex_decode (hex_encode bs) = Some bs"
proof (induction bs)
  case (Cons b bs)
  have "unat b div 16 < 16" "unat b mod 16 < 16" using unat_byte_less [of b] by linarith+
  with Cons show ?case by (simp add: hex_val_hex_char)
qed simp

definition opt_result :: "'a option \<Rightarrow> unit + 'a" where
  "opt_result r = (case r of None \<Rightarrow> Inl () | Some x \<Rightarrow> Inr x)"

interpretation hex_codec: codec hex_encode "\<lambda>s. opt_result (hex_decode s)" "\<lambda>_. True"
  by unfold_locales (simp add: opt_result_def)

text \<open>The digits the encoder prints: lower case, as the manifest's hash check wants them.\<close>

definition is_hex_lower :: "char \<Rightarrow> bool" where
  "is_hex_lower c \<longleftrightarrow> is_digit c \<or> (97 \<le> (of_char c :: nat) \<and> (of_char c :: nat) \<le> 102)"

lemma hex_char_lower: "n < 16 \<Longrightarrow> is_hex_lower (hex_char n)"
  by (auto simp: is_hex_lower_def is_digit_def hex_char_def)

lemma hex_encode_lower: "list_all is_hex_lower (hex_encode bs)"
proof (induction bs)
  case (Cons b bs)
  have "unat b div 16 < 16" "unat b mod 16 < 16" using unat_byte_less [of b] by linarith+
  with Cons show ?case by (simp add: hex_char_lower)
qed simp

section \<open>Base64\<close>

definition b64_digit :: "nat \<Rightarrow> char" where
  "b64_digit k = (if k < 26 then char_of (65 + k) else if k < 52 then char_of (71 + k)
     else if k < 62 then char_of (k - 4) else if k = 62 then CHR ''+'' else CHR ''/'')"

definition b64_val :: "char \<Rightarrow> nat option" where
  "b64_val c = (let k = (of_char c :: nat) in
     if 65 \<le> k \<and> k \<le> 90 then Some (k - 65)
     else if 97 \<le> k \<and> k \<le> 122 then Some (k - 71)
     else if 48 \<le> k \<and> k \<le> 57 then Some (k + 4)
     else if c = CHR ''+'' then Some 62 else if c = CHR ''/'' then Some 63 else None)"

fun b64_encode :: "bytes \<Rightarrow> string" where
  "b64_encode [] = []"
| "b64_encode [a] = (let n = unat a * 16 in
     [b64_digit (n div 64), b64_digit (n mod 64), CHR ''='', CHR ''=''])"
| "b64_encode [a, b] = (let n = (unat a * 256 + unat b) * 4 in
     [b64_digit (n div 4096), b64_digit (n div 64 mod 64), b64_digit (n mod 64), CHR ''=''])"
| "b64_encode (a # b # c # bs) = (let n = unat a * 65536 + unat b * 256 + unat c in
     b64_digit (n div 262144) # b64_digit (n div 4096 mod 64)
       # b64_digit (n div 64 mod 64) # b64_digit (n mod 64) # b64_encode bs)"

text \<open>
  \<open>DecodeString\<close> skips line breaks, wants the padding, and does not check the unused bits of the
  last digit.
\<close>

fun b64_quads :: "string \<Rightarrow> bytes option" where
  "b64_quads [] = Some []"
| "b64_quads (p # q # r # s # rest) = (case (b64_val p, b64_val q) of
     (Some x, Some y) \<Rightarrow>
        if r = CHR ''='' then
          (if s = CHR ''='' \<and> rest = [] then Some [of_nat ((x * 64 + y) div 16)] else None)
        else (case b64_val r of None \<Rightarrow> None | Some z \<Rightarrow>
          if s = CHR ''='' then
            (if rest = [] then let n = (x * 4096 + y * 64 + z) div 4 in Some [of_nat (n div 256), of_nat (n mod 256)]
             else None)
          else (case b64_val s of None \<Rightarrow> None | Some w \<Rightarrow>
            let n = x * 262144 + y * 4096 + z * 64 + w in
            map_option (\<lambda>bs. of_nat (n div 65536) # of_nat (n div 256 mod 256) # of_nat (n mod 256) # bs)
              (b64_quads rest)))
   | _ \<Rightarrow> None)"
| "b64_quads _ = None"

definition b64_decode :: "string \<Rightarrow> bytes option" where
  "b64_decode s = b64_quads (filter (\<lambda>c. c \<noteq> CHR 0x0A \<and> c \<noteq> CHR 0x0D) s)"

lemma b64_val_digit [simp]: "k < 64 \<Longrightarrow> b64_val (b64_digit k) = Some k"
  by (auto simp: b64_val_def b64_digit_def Let_def)

lemma b64_digit_char:
  assumes "k < 64"
  shows "b64_digit k \<noteq> CHR ''=''" and "b64_digit k \<noteq> CHR 0x0A" and "b64_digit k \<noteq> CHR 0x0D"
proof -
  have "b64_val (CHR ''='') = None" "b64_val (CHR 0x0A) = None" "b64_val (CHR 0x0D) = None"
    by code_simp+
  with b64_val_digit [OF assms]
  show "b64_digit k \<noteq> CHR ''=''" "b64_digit k \<noteq> CHR 0x0A" "b64_digit k \<noteq> CHR 0x0D" by auto
qed

lemma digits1: "(n::nat) div 64 * 64 + n mod 64 = n"
  by simp

lemma regroup:
  "q * 4096 + r * 64 + t = (q * 64 + r) * 64 + (t::nat)"
  "p * 262144 + q * 4096 + r * 64 + t = (p * 4096 + q * 64 + r) * 64 + (t::nat)"
  by simp_all

lemma digits2: "(n::nat) div 4096 * 4096 + n div 64 mod 64 * 64 + n mod 64 = n"
proof -
  have "n div 4096 = n div 64 div 64" by (simp add: div_mult2_eq [symmetric])
  then have "n div 4096 * 4096 + n div 64 mod 64 * 64 + n mod 64
      = (n div 64 div 64 * 64 + n div 64 mod 64) * 64 + n mod 64" by (simp only: regroup)
  then show ?thesis by (simp only: digits1)
qed

lemma digits3: "(n::nat) div 262144 * 262144 + n div 4096 mod 64 * 4096 + n div 64 mod 64 * 64 + n mod 64 = n"
proof -
  have "n div 262144 = n div 64 div 4096" "n div 4096 = n div 64 div 64"
    by (simp_all add: div_mult2_eq [symmetric])
  then have "n div 262144 * 262144 + n div 4096 mod 64 * 4096 + n div 64 mod 64 * 64 + n mod 64
      = (n div 64 div 4096 * 4096 + n div 64 div 64 mod 64 * 64 + n div 64 mod 64) * 64 + n mod 64" by (simp only: regroup)
  then show ?thesis by (simp only: digits1 digits2)
qed

lemma bytes3:
  "(unat (a :: byte) * 65536 + unat (b :: byte) * 256 + unat (c :: byte)) div 65536 = unat a"
  "(unat a * 65536 + unat b * 256 + unat c) div 256 mod 256 = unat b"
  "(unat a * 65536 + unat b * 256 + unat c) mod 256 = unat c"
proof -
  let ?n = "unat a * 65536 + unat b * 256 + unat c"
  have n: "?n = (unat a * 256 + unat b) * 256 + unat c" by simp
  then have d: "?n div 256 = unat a * 256 + unat b" by (simp only: div_mult_self3) simp
  show "?n mod 256 = unat c" by (simp only: n mod_mult_self3) simp
  show "?n div 256 mod 256 = unat b" by (simp only: d mod_mult_self3) simp
  have "?n div 65536 = ?n div 256 div 256" by (simp add: div_mult2_eq [symmetric])
  then show "?n div 65536 = unat a" by (simp only: d) simp
qed

lemma digit_bounds:
  "unat (a :: byte) * 16 div 64 < 64"
  "(unat a * 256 + unat (b :: byte)) * 4 div 4096 < 64"
  "(unat a * 65536 + unat b * 256 + unat (c :: byte)) div 262144 < 64"
proof -
  have "unat a \<le> 255" "unat b \<le> 255" "unat c \<le> 255"
    using unat_byte_less [of a] unat_byte_less [of b] unat_byte_less [of c] by linarith+
  then show "unat a * 16 div 64 < 64" "(unat a * 256 + unat b) * 4 div 4096 < 64"
    "(unat a * 65536 + unat b * 256 + unat c) div 262144 < 64"
    by (intro less_mult_imp_div_less; simp)+
qed

lemma b64_encode_no_breaks: "filter (\<lambda>c. c \<noteq> CHR 0x0A \<and> c \<noteq> CHR 0x0D) (b64_encode bs) = b64_encode bs"
  by (induction bs rule: b64_encode.induct) (simp_all only: b64_encode.simps Let_def list.simps filter.simps
      b64_digit_char digit_bounds if_True simp_thms mod_less_divisor char.inject zero_less_numeral)

lemma b64_quads_encode: "b64_quads (b64_encode bs) = Some bs"
proof (induction bs rule: b64_encode.induct)
  case (2 a)
  show ?case
    using digits1 [of "unat a * 16"] digit_bounds(1) [of a] by (simp add: Let_def b64_digit_char)
next
  case (3 a b)
  let ?m = "unat a * 256 + unat b"
  have "?m div 256 = unat a" "?m mod 256 = unat b" by simp_all
  then show ?case
    using digits2 [of "?m * 4"] digit_bounds(2) [of a b] by (simp add: Let_def b64_digit_char)
next
  case (4 a b c bs)
  let ?n = "unat a * 65536 + unat b * 256 + unat c"
  show ?case
    using digits3 [of ?n] bytes3 [of a b c] digit_bounds(3) [of a b c] 4
    by (simp add: Let_def b64_digit_char)
qed simp

lemma b64_decode_encode [simp]: "b64_decode (b64_encode bs) = Some bs"
  by (simp add: b64_decode_def b64_encode_no_breaks b64_quads_encode)

interpretation b64_codec: codec b64_encode "\<lambda>s. opt_result (b64_decode s)" "\<lambda>_. True"
  by unfold_locales (simp add: opt_result_def)

end
