(* ===== verification/Ordering.thy ===== *)
theory Ordering
  imports Prelude "HOL-Library.Multiset"
begin

text \<open>
  \<open>sort.Slice\<close> and \<open>sort.SliceStable\<close> with a comparison function. \<open>sort_by\<close> is a stable sort; the
  locale \<open>less_order\<close> holds what the library demands of the comparison (a strict weak order) and
  gives sortedness, and independence of the initial order where no two elements are tied. Also Go
  maps iterated in an unspecified order, as a shuffle of their entries.
\<close>

fun insert_by :: "('a \<Rightarrow> 'a \<Rightarrow> bool) \<Rightarrow> 'a \<Rightarrow> 'a list \<Rightarrow> 'a list" where
  "insert_by lt x [] = [x]"
| "insert_by lt x (y # ys) = (if lt y x then y # insert_by lt x ys else x # y # ys)"

definition sort_by :: "('a \<Rightarrow> 'a \<Rightarrow> bool) \<Rightarrow> 'a list \<Rightarrow> 'a list" where
  "sort_by lt xs = foldr (insert_by lt) xs []"

lemma sort_by_simps [simp]: "sort_by lt [] = []" "sort_by lt (x # xs) = insert_by lt x (sort_by lt xs)"
  by (simp_all add: sort_by_def)

lemma mset_insert_by [simp]: "mset (insert_by lt x xs) = add_mset x (mset xs)"
  by (induction xs) auto

lemma mset_sort_by [simp]: "mset (sort_by lt xs) = mset xs"
  by (induction xs) auto

lemma set_sort_by [simp]: "set (sort_by lt xs) = set xs"
  using mset_sort_by [of lt xs] by (metis set_mset_mset)

lemma length_sort_by [simp]: "length (sort_by lt xs) = length xs"
  using mset_sort_by [of lt xs] by (metis size_mset)

lemma distinct_sort_by [simp]: "distinct (sort_by lt xs) = distinct xs"
  using mset_sort_by [of lt xs] by (metis mset_eq_imp_distinct_iff)

lemma sort_by_Nil_iff [simp]: "sort_by lt xs = [] \<longleftrightarrow> xs = []"
  using length_sort_by [of lt xs] by (metis length_0_conv)

lemma distinct_map_sort_by [simp]: "distinct (map f (sort_by lt xs)) = distinct (map f xs)"
  by (metis mset_eq_imp_distinct_iff mset_map mset_sort_by)

text \<open>\<open>upto lt xs\<close>: no later element comes before an earlier one.\<close>

abbreviation ordered_by :: "('a \<Rightarrow> 'a \<Rightarrow> bool) \<Rightarrow> 'a list \<Rightarrow> bool" where
  "ordered_by lt xs \<equiv> sorted_wrt (\<lambda>a b. \<not> lt b a) xs"

locale less_order =
  fixes lt :: "'a \<Rightarrow> 'a \<Rightarrow> bool"
  assumes asym: "lt a b \<Longrightarrow> \<not> lt b a"
    and neg_trans: "lt a c \<Longrightarrow> lt a b \<or> lt b c"
begin

lemma irrefl [simp]: "\<not> lt a a"
  using asym by blast

lemma trans: "lt a b \<Longrightarrow> lt b c \<Longrightarrow> lt a c"
  using asym neg_trans by blast

lemma insert_by_ordered: "ordered_by lt xs \<Longrightarrow> ordered_by lt (insert_by lt x xs)"
proof (induction xs)
  case Nil
  then show ?case by simp
next
  case (Cons y ys)
  have "set (insert_by lt x ys) = insert x (set ys)" by (metis mset_insert_by set_mset_add_mset_insert set_mset_mset)
  moreover have "\<not> lt z x" if "z \<in> set ys" "\<not> lt y x" for z
    using that Cons.prems neg_trans [of z x y] by auto
  ultimately show ?case using Cons asym by auto
qed

lemma sort_by_ordered: "ordered_by lt (sort_by lt xs)"
  by (induction xs) (auto simp: insert_by_ordered)

text \<open>When any two different elements are ordered, the sorted list is determined by the elements.\<close>

lemma ordered_unique:
  "ordered_by lt xs \<Longrightarrow> ordered_by lt ys \<Longrightarrow> mset xs = mset ys \<Longrightarrow>
     \<forall>a \<in> set xs. \<forall>b \<in> set xs. a \<noteq> b \<longrightarrow> lt a b \<or> lt b a \<Longrightarrow> xs = ys"
proof (induction xs arbitrary: ys)
  case Nil
  then show ?case by simp
next
  case (Cons x xs)
  then obtain y ys' where y: "ys = y # ys'" by (cases ys) auto
  have s: "set (x # xs) = set ys" using Cons.prems(3) by (metis set_mset_mset)
  have "x = y"
  proof (rule ccontr)
    assume n: "x \<noteq> y"
    then have "x \<in> set ys'" "y \<in> set xs" using s y by auto
    then have "\<not> lt x y" "\<not> lt y x" using Cons.prems(1,2) y by auto
    then show False using Cons.prems(4) n \<open>y \<in> set xs\<close> by auto
  qed
  then show ?case using Cons y by simp
qed

lemma sort_by_unique:
  assumes "mset xs = mset ys" and "\<And>a b. a \<in> set xs \<Longrightarrow> b \<in> set xs \<Longrightarrow> a \<noteq> b \<Longrightarrow> lt a b \<or> lt b a"
  shows "sort_by lt xs = sort_by lt ys"
  by (rule ordered_unique) (use assms sort_by_ordered in auto)

text \<open>The first element of the sorted list that satisfies a condition: no other one comes before it.\<close>

lemma find_sorted:
  assumes "find P (sort_by lt xs) = Some a"
  shows "a \<in> set xs" and "P a" and "b \<in> set xs \<Longrightarrow> P b \<Longrightarrow> \<not> lt b a"
proof -
  let ?s = "sort_by lt xs"
  obtain i where i: "i < length ?s" "P (?s ! i)" "a = ?s ! i" "\<And>j. j < i \<Longrightarrow> \<not> P (?s ! j)"
    using assms by (auto simp: find_Some_iff)
  show "a \<in> set xs" using i(1,3) nth_mem [of i ?s] by simp
  show "P a" using i(2,3) by simp
  assume b: "b \<in> set xs" "P b"
  then obtain j where j: "j < length ?s" "b = ?s ! j" by (metis in_set_conv_nth set_sort_by)
  then have "i \<le> j" using i(4) b(2) not_less by blast
  then show "\<not> lt b a"
    using sorted_wrt_nth_less [OF sort_by_ordered [of xs]] i j by (cases "i = j") (auto simp: less_le)
qed

text \<open>What \<open>drop n\<close> cuts off a sorted list: elements with at least \<open>n\<close> others that do not come after them.\<close>

lemma in_drop_ordered:
  assumes "ordered_by lt xs" "distinct xs" "x \<in> set (drop n xs)"
  shows "n \<le> card {y \<in> set xs. y \<noteq> x \<and> \<not> lt x y}"
proof -
  obtain i where "i < length xs - n" and x: "x = xs ! (n + i)"
    using assms(3) by (auto simp: in_set_conv_nth)
  then have i: "n + i < length xs" "x = xs ! (n + i)" by simp_all
  have "y \<noteq> x \<and> \<not> lt x y" if y: "y \<in> set (take n xs)" for y
  proof -
    obtain j where j: "j < n" "j < length xs" "y = xs ! j" using y by (auto simp: in_set_conv_nth)
    then show ?thesis
      using sorted_wrt_nth_less [OF assms(1), of j "n + i"] i assms(2) by (auto simp: nth_eq_iff_index_eq)
  qed
  then have "set (take n xs) \<subseteq> {y \<in> set xs. y \<noteq> x \<and> \<not> lt x y}" by (auto dest: in_set_takeD)
  then have "card (set (take n xs)) \<le> card {y \<in> set xs. y \<noteq> x \<and> \<not> lt x y}" by (intro card_mono) auto
  moreover have "card (set (take n xs)) = n" using assms(2) i(1) by (simp add: distinct_card)
  ultimately show ?thesis by simp
qed

lemma in_drop_iff:
  assumes "ordered_by lt xs" "distinct xs" "x \<in> set xs"
    and total: "\<And>a b. a \<in> set xs \<Longrightarrow> b \<in> set xs \<Longrightarrow> a \<noteq> b \<Longrightarrow> lt a b \<or> lt b a"
  shows "x \<in> set (drop n xs) \<longleftrightarrow> n \<le> card {y \<in> set xs. lt y x}"
proof
  have eq: "{y \<in> set xs. lt y x} = {y \<in> set xs. y \<noteq> x \<and> \<not> lt x y}"
    using total assms(3) asym by auto
  then show "n \<le> card {y \<in> set xs. lt y x}" if "x \<in> set (drop n xs)"
    using in_drop_ordered [OF assms(1,2) that] by simp
  assume n: "n \<le> card {y \<in> set xs. lt y x}"
  show "x \<in> set (drop n xs)"
  proof (rule ccontr)
    assume "x \<notin> set (drop n xs)"
    then obtain i where i: "i < n" "i < length xs" "x = xs ! i"
      using assms(3) by (metis (no_types, lifting) Un_iff append_take_drop_id in_set_conv_nth length_take min_less_iff_conj nth_take set_append)
    have "y \<in> set (take i xs)" if y: "y \<in> set xs" "lt y x" for y
    proof -
      obtain j where j: "j < length xs" "y = xs ! j" using y(1) by (auto simp: in_set_conv_nth)
      have "\<not> i < j" using sorted_wrt_nth_less [OF assms(1), of i j] j i y(2) by auto
      moreover have "j \<noteq> i" using j i y(2) by auto
      ultimately have "j < i" by simp
      then show ?thesis using j i(2) by (auto simp: in_set_conv_nth intro!: exI [of _ j])
    qed
    then have "card {y \<in> set xs. lt y x} \<le> card (set (take i xs))" by (intro card_mono) auto
    also have "\<dots> \<le> i" using card_length [of "take i xs"] by simp
    finally show False using n i(1) by simp
  qed
qed

end

text \<open>The comparison of keys in ascending and in descending order.\<close>

interpretation asc: less_order "\<lambda>a b. f a < f b" for f :: "'a \<Rightarrow> 'b :: linorder"
  by unfold_locales auto

text \<open>Refining a comparison: where the first does not decide, the second one does.\<close>

definition then_by :: "('a \<Rightarrow> 'b :: linorder) \<Rightarrow> bool \<Rightarrow> ('a \<Rightarrow> 'a \<Rightarrow> bool) \<Rightarrow> 'a \<Rightarrow> 'a \<Rightarrow> bool" where
  "then_by f desc lt a b = (if f a \<noteq> f b then (if desc then f a > f b else f a < f b) else lt a b)"

lemma then_by_order: "less_order lt \<Longrightarrow> less_order (then_by f desc lt)"
proof
  assume o: "less_order lt"
  show "then_by f desc lt a b \<Longrightarrow> \<not> then_by f desc lt b a" for a b
    using less_order.asym [OF o] by (auto simp: then_by_def split: if_splits)
  show "then_by f desc lt a c \<Longrightarrow> then_by f desc lt a b \<or> then_by f desc lt b c" for a b c
    using less_order.neg_trans [OF o, of a c b] by (auto simp: then_by_def split: if_splits)
qed

lemma no_order: "less_order (\<lambda>_ _. False)"
  by unfold_locales auto

text \<open>A shuffle: the entries of a map in the order an iteration happens to visit them.\<close>

definition is_shuffle :: "('a list \<Rightarrow> 'a list) \<Rightarrow> bool" where
  "is_shuffle sh \<longleftrightarrow> (\<forall>xs. mset (sh xs) = mset xs)"

lemma shuffle_mset [simp]: "is_shuffle sh \<Longrightarrow> mset (sh xs) = mset xs"
  by (simp add: is_shuffle_def)

lemma shuffle_set [simp]: "is_shuffle sh \<Longrightarrow> set (sh xs) = set xs"
  by (metis shuffle_mset set_mset_mset)

lemma shuffle_id [simp]: "is_shuffle (\<lambda>xs. xs)" "is_shuffle rev"
  by (simp_all add: is_shuffle_def)

end
