(* ===== verification/Naming.thy ===== *)
theory Naming
  imports Prelude "HOL-Library.Monad_Syntax"
begin

text \<open>
  Package \<open>internal/format/naming\<close>: the names of the part files and of the log files. The
  regular expressions are matchers over byte strings (the classes of the patterns are ASCII, and
  \<open>.\<close> matches every byte but a newline); the printers are the \<open>Sprintf\<close> formats. The part file
  names and the log file names form canonical codecs: the parser accepts exactly what the
  printer prints, and 1.x names are disjoint from 2.0 names.
\<close>

section \<open>Identifiers and entries\<close>

definition idAlphabet :: string where
  "idAlphabet = ''ABCDEFGHIJKLMNOPQRSTUVWXYZ0123456789''"

definition idLength :: nat where "idLength = 6"

definition MaxPartSequence :: nat where "MaxPartSequence = 999"

definition MaxDiffNumber :: nat where "MaxDiffNumber = 999"

definition TempSuffix :: string where "TempSuffix = ''.tmp''"

text \<open>
  \<open>NewBackupID\<close>: the \<open>i\<close>-th draw \<open>rnd i\<close> is the result of the \<open>i\<close>-th
  \<open>rand.Int(rand.Reader, 36)\<close>, an error or a number.
\<close>

fun draw_id :: "(nat \<Rightarrow> nat result) \<Rightarrow> nat \<Rightarrow> nat \<Rightarrow> string result" where
  "draw_id rnd i 0 = Inr []"
| "draw_id rnd i (Suc k) =
     bindE (rnd i) (\<lambda>n. bindE (draw_id rnd (Suc i) k) (\<lambda>s. Inr ((idAlphabet ! n) # s)))"

definition NewBackupID :: "(nat \<Rightarrow> nat result) \<Rightarrow> string result" where
  "NewBackupID rnd = draw_id rnd 0 idLength"

record backup_entry =
  DirectoryName :: string
  ChainID :: string
  Date :: string
  DiffNumber :: nat

definition IsDiff :: "backup_entry \<Rightarrow> bool" where
  "IsDiff e \<longleftrightarrow> DiffNumber e > 0"

definition TypeLabel :: "backup_entry \<Rightarrow> string" where
  "TypeLabel e = (if IsDiff e then ''DIFF'' @ show_pad3 (DiffNumber e) else ''FULL'')"

definition EntryString :: "backup_entry \<Rightarrow> string" where
  "EntryString e = DirectoryName e @ ''_'' @ ChainID e @ ''_'' @ Date e @ ''_'' @ TypeLabel e"

definition ChainKey :: "backup_entry \<Rightarrow> string" where
  "ChainKey e = DirectoryName e @ ''|'' @ ChainID e"

text \<open>
  \<open>filepath.Join\<close> of a clean, non-empty directory path (no trailing separator unless it is a
  drive root) and a file name without separators.
\<close>

definition path_join :: "string \<Rightarrow> string \<Rightarrow> string" where
  "path_join dir name =
     (if dir = [] then name
      else if last dir = CHR 0x5C then dir @ name
      else dir @ [CHR 0x5C] @ name)"

definition part_base_name :: "backup_entry \<Rightarrow> nat \<Rightarrow> string" where
  "part_base_name e seq =
     ''['' @ DirectoryName e @ '']_'' @ ChainID e @ ''_'' @ Date e @ ''_'' @ TypeLabel e
       @ ''-'' @ show_pad3 seq @ ''.enc''"

definition PartFileName :: "string \<Rightarrow> backup_entry \<Rightarrow> nat \<Rightarrow> string" where
  "PartFileName dir e seq = path_join dir (part_base_name e seq)"

definition log_base_name :: "string \<Rightarrow> string \<Rightarrow> string" where
  "log_base_name date run_id = date @ ''_'' @ run_id @ ''.log''"

definition LogFileName :: "string \<Rightarrow> string \<Rightarrow> string \<Rightarrow> string" where
  "LogFileName dir date run_id = path_join dir (log_base_name date run_id)"

section \<open>Matching\<close>

text \<open>
  The pieces of the patterns: a literal, exactly \<open>n\<close> characters of a class, a date, and the
  lazy \<open>.+?\<close>, which takes the shortest non-empty name after which the rest matches.
\<close>

definition lit :: "string \<Rightarrow> string \<Rightarrow> string option" where
  "lit l s = (if take (length l) s = l then Some (drop (length l) s) else None)"

definition take_class :: "nat \<Rightarrow> (char \<Rightarrow> bool) \<Rightarrow> string \<Rightarrow> (string \<times> string) option" where
  "take_class n P s =
     (if n \<le> length s \<and> list_all P (take n s) then Some (take n s, drop n s) else None)"

definition match_date :: "string \<Rightarrow> (string \<times> string) option" where
  "match_date s = do {
     (y, s) \<leftarrow> take_class 4 is_digit s;
     s \<leftarrow> lit ''-'' s;
     (m, s) \<leftarrow> take_class 2 is_digit s;
     s \<leftarrow> lit ''-'' s;
     (d, s) \<leftarrow> take_class 2 is_digit s;
     Some (y @ ''-'' @ m @ ''-'' @ d, s)}"

fun lazy_name :: "(string \<Rightarrow> 'a option) \<Rightarrow> string \<Rightarrow> string \<Rightarrow> (string \<times> 'a) option" where
  "lazy_name p acc [] = None"
| "lazy_name p acc (c # cs) =
     (if c = CHR 0x0A then None
      else case p cs of
        Some r \<Rightarrow> Some (acc @ [c], r)
      | None \<Rightarrow> lazy_name p (acc @ [c]) cs)"

text \<open>The groups 4 and 5: \<open>FULL\<close>, or \<open>DIFF\<close> and its three digits.\<close>

definition match_type :: "string \<Rightarrow> (string option \<times> string) option" where
  "match_type s = (case lit ''FULL'' s of
       Some r \<Rightarrow> Some (None, r)
     | None \<Rightarrow> (case lit ''DIFF'' s of
         Some r \<Rightarrow> (case take_class 3 is_digit r of
             Some (d, r') \<Rightarrow> Some (Some d, r')
           | None \<Rightarrow> None)
       | None \<Rightarrow> None))"

text \<open>The pattern behind the name: chain ID, date, differential digits, part digits, \<open>.tmp\<close>.\<close>

definition match_part_rest :: "string \<Rightarrow> (string \<times> string \<times> string option \<times> string \<times> bool) option" where
  "match_part_rest s = do {
     s \<leftarrow> lit '']_'' s;
     (cid, s) \<leftarrow> take_class 6 is_upper_alnum s;
     s \<leftarrow> lit ''_'' s;
     (date, s) \<leftarrow> match_date s;
     s \<leftarrow> lit ''_'' s;
     (diff, s) \<leftarrow> match_type s;
     s \<leftarrow> lit ''-'' s;
     (seq, s) \<leftarrow> take_class 3 is_digit s;
     s \<leftarrow> lit ''.enc'' s;
     (if s = [] then Some (cid, date, diff, seq, False)
      else if s = TempSuffix then Some (cid, date, diff, seq, True)
      else None)}"

definition partFilePattern :: "string \<Rightarrow> (string \<times> string \<times> string \<times> string option \<times> string \<times> bool) option" where
  "partFilePattern s = do {
     s \<leftarrow> lit ''['' s;
     (name, r) \<leftarrow> lazy_name match_part_rest [] s;
     Some (name, r)}"

definition has_separator :: "string \<Rightarrow> bool" where
  "has_separator s \<longleftrightarrow> CHR ''/'' \<in> set s \<or> CHR 0x5C \<in> set s"

definition parsePartFileName :: "string \<Rightarrow> (backup_entry \<times> nat \<times> bool) option" where
  "parsePartFileName basename =
     (if has_separator basename then None
      else case partFilePattern basename of
        None \<Rightarrow> None
      | Some (name, cid, date, diff, seqs, temp) \<Rightarrow>
          (let seq = dec_val seqs in
           if seq < 1 then None
           else case diff of
             None \<Rightarrow> Some (\<lparr>DirectoryName = name, ChainID = cid, Date = date, DiffNumber = 0\<rparr>, seq, temp)
           | Some ds \<Rightarrow>
               (let d = dec_val ds in
                if d < 1 then None
                else Some (\<lparr>DirectoryName = name, ChainID = cid, Date = date, DiffNumber = d\<rparr>, seq, temp))))"

definition ParsePartFileName :: "string \<Rightarrow> (backup_entry \<times> nat) option" where
  "ParsePartFileName basename = (case parsePartFileName basename of
       Some (e, seq, temp) \<Rightarrow> if temp then None else Some (e, seq)
     | None \<Rightarrow> None)"

definition ParseTempPartFileName :: "string \<Rightarrow> (backup_entry \<times> nat) option" where
  "ParseTempPartFileName basename = (case parsePartFileName basename of
       Some (e, seq, temp) \<Rightarrow> if temp then Some (e, seq) else None
     | None \<Rightarrow> None)"

text \<open>RestoreSafe 1.x names: part and challenge files, and the log they belong to.\<close>

definition match_legacy_rest :: "string \<Rightarrow> (string \<times> string) option" where
  "match_legacy_rest s = do {
     s \<leftarrow> lit '']_'' s;
     (date, s) \<leftarrow> match_date s;
     s \<leftarrow> lit ''_'' s;
     (cid, s) \<leftarrow> take_class 6 is_upper_alnum s;
     (if s = ''.challenge'' then Some (date, cid)
      else do {
        s \<leftarrow> lit ''-'' s;
        (seq, s) \<leftarrow> take_class 3 is_digit s;
        (if s = ''.enc'' then Some (date, cid) else None)})}"

definition legacyFilePattern :: "string \<Rightarrow> (string \<times> string \<times> string) option" where
  "legacyFilePattern s = do {
     s \<leftarrow> lit ''['' s;
     lazy_name match_legacy_rest [] s}"

definition IsLegacyBackupFileName :: "string \<Rightarrow> bool" where
  "IsLegacyBackupFileName s \<longleftrightarrow> legacyFilePattern s \<noteq> None"

definition LegacyLogFileName :: "string \<Rightarrow> string option" where
  "LegacyLogFileName s = (case legacyFilePattern s of
       None \<Rightarrow> None
     | Some (name, date, cid) \<Rightarrow> Some (date @ ''_'' @ cid @ ''.log''))"

definition ParseLogFileName :: "string \<Rightarrow> (string \<times> string) option" where
  "ParseLogFileName s = do {
     (date, s) \<leftarrow> match_date s;
     s \<leftarrow> lit ''_'' s;
     (rid, s) \<leftarrow> take_class 6 is_upper_alnum s;
     (if s = ''.log'' then Some (date, rid) else None)}"

section \<open>Names that are safe to restore to\<close>

definition ascii_upper :: "char \<Rightarrow> char" where
  "ascii_upper c = (if 97 \<le> (of_char c :: nat) \<and> (of_char c :: nat) \<le> 122
                    then char_of ((of_char c :: nat) - 32) else c)"

definition reservedWindowsNames :: "string list" where
  "reservedWindowsNames =
     [''CON'', ''PRN'', ''AUX'', ''NUL'',
      ''COM1'', ''COM2'', ''COM3'', ''COM4'', ''COM5'', ''COM6'', ''COM7'', ''COM8'', ''COM9'',
      ''LPT1'', ''LPT2'', ''LPT3'', ''LPT4'', ''LPT5'', ''LPT6'', ''LPT7'', ''LPT8'', ''LPT9'']"

text \<open>
  The device names contain none of the two letters (\<open>I\<close>, \<open>S\<close>) that a character beyond ASCII has
  as its upper case, so the ASCII mapping decides the lookup of \<open>strings.ToUpper(base)\<close>.
\<close>

definition ValidateBackupEntryName :: "string \<Rightarrow> unit result" where
  "ValidateBackupEntryName name =
     (if name = [] then Inl (Problem ''Backup directory name is empty.'')
      else if name = ''.'' \<or> name = ''..''
        then Inl (Problem ''Backup directory name %q is a relative path element.'')
      else if CHR ''/'' \<in> set name \<or> CHR 0x5C \<in> set name \<or> CHR '':'' \<in> set name
        then Inl (Problem ''Backup directory name %q contains a path separator or drive marker.'')
      else if last name = CHR ''.'' \<or> last name = CHR '' ''
        then Inl (Problem ''Backup directory name %q ends with a dot or space.'')
      else if map ascii_upper (takeWhile (\<lambda>c. c \<noteq> CHR ''.'') name) \<in> set reservedWindowsNames
        then Inl (Problem ''Backup directory name %q is a reserved Windows device name.'')
      else Inr ())"

section \<open>What the matchers accept\<close>

lemma lit_eq_Some: "lit l s = Some r \<longleftrightarrow> s = l @ r"
  by (auto simp: lit_def) (metis append_take_drop_id)

lemma take_class_eq_Some:
  "take_class n P s = Some (a, r) \<longleftrightarrow> s = a @ r \<and> length a = n \<and> list_all P a"
  by (auto simp: take_class_def)

lemma lit_simps [simp]:
  "lit [] s = Some s"
  "lit (a # l) (b # s) = (if a = b then lit l s else None)"
  "lit (a # l) [] = None"
  by (auto simp: lit_def)

lemma take_class_app [simp]: "length a = n \<Longrightarrow> list_all P a \<Longrightarrow> take_class n P (a @ r) = Some (a, r)"
  by (simp add: take_class_eq_Some)

text \<open>The date pattern of the container header, and the six characters of an ID.\<close>

definition datePattern :: "string \<Rightarrow> bool" where
  "datePattern s \<longleftrightarrow> match_date s = Some (s, [])"

definition idPattern :: "string \<Rightarrow> bool" where
  "idPattern s \<longleftrightarrow> take_class 6 is_upper_alnum s = Some (s, [])"

lemma idPattern_iff: "idPattern s \<longleftrightarrow> length s = 6 \<and> list_all is_upper_alnum s"
  by (auto simp: idPattern_def take_class_eq_Some)

lemma match_date_eq_Some:
  "match_date s = Some (d, r) \<longleftrightarrow>
     (\<exists>y m dd. d = y @ ''-'' @ m @ ''-'' @ dd \<and> s = d @ r
        \<and> length y = 4 \<and> list_all is_digit y \<and> length m = 2 \<and> list_all is_digit m
        \<and> length dd = 2 \<and> list_all is_digit dd)"
  by (fastforce simp: match_date_def bind_eq_Some_conv lit_eq_Some take_class_eq_Some)

lemma datePattern_iff:
  "datePattern d \<longleftrightarrow>
     (\<exists>y m dd. d = y @ ''-'' @ m @ ''-'' @ dd \<and> length y = 4 \<and> list_all is_digit y
        \<and> length m = 2 \<and> list_all is_digit m \<and> length dd = 2 \<and> list_all is_digit dd)"
  by (auto simp: datePattern_def match_date_eq_Some)

lemma match_date_iff: "match_date s = Some (d, r) \<longleftrightarrow> s = d @ r \<and> datePattern d"
  by (auto simp: match_date_eq_Some datePattern_iff)

lemma match_date_app [simp]: "datePattern d \<Longrightarrow> match_date (d @ r) = Some (d, r)"
  by (simp add: match_date_iff)

lemma datePattern_length: "datePattern d \<Longrightarrow> length d = 10"
  by (auto simp: datePattern_iff)

lemma match_type_eq_Some:
  "match_type s = Some (t, r) \<longleftrightarrow>
     (case t of None \<Rightarrow> s = ''FULL'' @ r
      | Some d \<Rightarrow> s = ''DIFF'' @ d @ r \<and> length d = 3 \<and> list_all is_digit d)"
proof (cases "lit ''FULL'' s")
  case None
  then show ?thesis
    by (auto simp: match_type_def lit_eq_Some take_class_eq_Some split: option.splits)
next
  case (Some u)
  then show ?thesis by (auto simp: match_type_def lit_eq_Some split: option.splits)
qed

definition type_text :: "string option \<Rightarrow> string" where
  "type_text t = (case t of None \<Rightarrow> ''FULL'' | Some d \<Rightarrow> ''DIFF'' @ d)"

definition part_rest :: "string \<Rightarrow> string \<Rightarrow> string option \<Rightarrow> string \<Rightarrow> bool \<Rightarrow> string" where
  "part_rest cid date t seq temp =
     '']_'' @ cid @ ''_'' @ date @ ''_'' @ type_text t @ ''-'' @ seq @ ''.enc''
       @ (if temp then TempSuffix else [])"

definition part_groups_ok :: "string \<Rightarrow> string \<Rightarrow> string option \<Rightarrow> string \<Rightarrow> bool" where
  "part_groups_ok cid date t seq \<longleftrightarrow> idPattern cid \<and> datePattern date
     \<and> length seq = 3 \<and> list_all is_digit seq
     \<and> (\<forall>d. t = Some d \<longrightarrow> length d = 3 \<and> list_all is_digit d)"

lemma match_part_rest_eq_Some:
  "match_part_rest s = Some (cid, date, t, seq, temp) \<longleftrightarrow>
     s = part_rest cid date t seq temp \<and> part_groups_ok cid date t seq"
proof
  assume "match_part_rest s = Some (cid, date, t, seq, temp)"
  then show "s = part_rest cid date t seq temp \<and> part_groups_ok cid date t seq"
    by (auto simp: match_part_rest_def bind_eq_Some_conv lit_eq_Some take_class_eq_Some
        match_date_iff match_type_eq_Some part_rest_def part_groups_ok_def idPattern_iff type_text_def
        split: if_splits option.splits)
next
  assume "s = part_rest cid date t seq temp \<and> part_groups_ok cid date t seq"
  then show "match_part_rest s = Some (cid, date, t, seq, temp)"
    by (cases t) (auto simp: match_part_rest_def part_rest_def part_groups_ok_def idPattern_iff
        type_text_def TempSuffix_def match_type_def)
qed

lemma match_legacy_rest_eq_Some:
  "match_legacy_rest s = Some (date, cid) \<longleftrightarrow>
     (\<exists>t. s = '']_'' @ date @ ''_'' @ cid @ t \<and> datePattern date \<and> idPattern cid
        \<and> (t = ''.challenge'' \<or> (\<exists>q. t = ''-'' @ q @ ''.enc'' \<and> length q = 3 \<and> list_all is_digit q)))"
proof
  assume "match_legacy_rest s = Some (date, cid)"
  then show "\<exists>t. s = '']_'' @ date @ ''_'' @ cid @ t \<and> datePattern date \<and> idPattern cid
        \<and> (t = ''.challenge'' \<or> (\<exists>q. t = ''-'' @ q @ ''.enc'' \<and> length q = 3 \<and> list_all is_digit q))"
    by (auto simp: match_legacy_rest_def bind_eq_Some_conv lit_eq_Some take_class_eq_Some
        match_date_iff idPattern_iff split: if_splits)
next
  assume "\<exists>t. s = '']_'' @ date @ ''_'' @ cid @ t \<and> datePattern date \<and> idPattern cid
        \<and> (t = ''.challenge'' \<or> (\<exists>q. t = ''-'' @ q @ ''.enc'' \<and> length q = 3 \<and> list_all is_digit q))"
  then show "match_legacy_rest s = Some (date, cid)"
    by (auto simp: match_legacy_rest_def idPattern_iff)
qed

text \<open>
  The lazy name: what it returns is a split of the text without a newline in the name, and a
  split is returned when no shorter name lets the rest match.
\<close>

lemma lazy_name_sound:
  "lazy_name p acc s = Some (name, r) \<Longrightarrow>
     \<exists>n t. n \<noteq> [] \<and> name = acc @ n \<and> s = n @ t \<and> p t = Some r \<and> CHR 0x0A \<notin> set n"
proof (induction p acc s rule: lazy_name.induct)
  case (1 p acc)
  then show ?case by simp
next
  case (2 p acc c cs)
  show ?case
  proof (cases "p cs")
    case None
    with 2 obtain n t where "n \<noteq> []" "name = (acc @ [c]) @ n" "cs = n @ t" "p t = Some r" "CHR 0x0A \<notin> set n" "c \<noteq> CHR 0x0A"
      by (auto split: if_splits)
    then show ?thesis by (intro exI [of _ "c # n"] exI [of _ t]) auto
  next
    case (Some r')
    with "2.prems" show ?thesis by (intro exI [of _ "[c]"] exI [of _ cs]) (auto split: if_splits)
  qed
qed

lemma lazy_name_complete:
  assumes "p t = Some r" "CHR 0x0A \<notin> set n" "n \<noteq> []"
    and "\<And>u v. n = u @ v \<Longrightarrow> u \<noteq> [] \<Longrightarrow> v \<noteq> [] \<Longrightarrow> p (v @ t) = None"
  shows "lazy_name p acc (n @ t) = Some (acc @ n, r)"
  using assms(2-4)
proof (induction n arbitrary: acc)
  case Nil
  then show ?case by simp
next
  case (Cons c n)
  show ?case
  proof (cases "n = []")
    case True
    with Cons.prems assms(1) show ?thesis by auto
  next
    case False
    have "p (n @ t) = None" using Cons.prems(3) [of "[c]" n] False by simp
    moreover have "lazy_name p (acc @ [c]) (n @ t) = Some ((acc @ [c]) @ n, r)"
    proof (rule Cons.IH)
      show "p (v @ t) = None" if "n = u @ v" "u \<noteq> []" "v \<noteq> []" for u v
        using Cons.prems(3) [of "c # u" v] that by simp
    qed (use Cons.prems False in auto)
    ultimately show ?thesis using Cons.prems by auto
  qed
qed

section \<open>Part file names are a canonical codec\<close>

lemma length_part_rest:
  "part_groups_ok cid date t seq \<Longrightarrow>
     length (part_rest cid date t seq temp)
       = 32 + (case t of None \<Rightarrow> 0 | Some _ \<Rightarrow> 3) + (if temp then 4 else 0)"
  by (auto simp: part_rest_def part_groups_ok_def idPattern_iff type_text_def TempSuffix_def
      datePattern_length split: option.splits)

lemma part_rest_nth:
  assumes "part_groups_ok cid date t seq" and "i \<in> {1, 3, 4, 7}"
  shows "part_rest cid date t seq temp ! i \<noteq> CHR '']''"
proof (cases "i = 1")
  case True
  then show ?thesis by (simp add: part_rest_def)
next
  case False
  have id: "length cid = 6" "list_all is_upper_alnum cid"
    using assms(1) by (auto simp: part_groups_ok_def idPattern_iff)
  have i: "i - 2 < length cid" "2 \<le> i" using False assms(2) id by auto
  have "part_rest cid date t seq temp ! i = cid ! (i - 2)"
    using i by (cases i; cases "i - 1") (auto simp: part_rest_def nth_append)
  moreover have "is_upper_alnum (cid ! (i - 2))" using id i by (auto simp: list_all_length)
  moreover have "\<not> is_upper_alnum (CHR '']'')" by (simp add: is_upper_alnum_def is_digit_def)
  ultimately show ?thesis by metis
qed

lemma part_rest_Cons: "\<exists>r. part_rest cid date t seq temp = CHR '']'' # r"
  by (simp add: part_rest_def)

text \<open>No match starts earlier: a longer text that ends in a match is not itself a match.\<close>

lemma match_part_rest_unique:
  assumes ok: "part_groups_ok cid date t seq" and v: "v \<noteq> []"
  shows "match_part_rest (v @ part_rest cid date t seq temp) = None"
proof (rule ccontr)
  let ?R = "part_rest cid date t seq temp"
  assume "match_part_rest (v @ ?R) \<noteq> None"
  then obtain cid' date' t' seq' temp' where
    "match_part_rest (v @ ?R) = Some (cid', date', t', seq', temp')" by (metis option.exhaust prod_cases5)
  then have eq: "v @ ?R = part_rest cid' date' t' seq' temp'" and ok': "part_groups_ok cid' date' t' seq'"
    by (simp_all add: match_part_rest_eq_Some)
  have "length v + length ?R = length (part_rest cid' date' t' seq' temp')"
    by (metis eq length_append)
  then have "length v \<in> {1, 3, 4, 7}"
    using v length_part_rest [OF ok] length_part_rest [OF ok']
    by (auto split: option.splits if_splits)
  from part_rest_nth [OF ok' this, of temp']
  have "(v @ ?R) ! length v \<noteq> CHR '']''" by (simp add: eq)
  moreover obtain r where "?R = CHR '']'' # r" using part_rest_Cons by blast
  ultimately show False by (simp add: nth_append)
qed

text \<open>Well-formed names: a directory name that is a single path component, and three-digit numbers.\<close>

definition valid_part :: "backup_entry \<times> nat \<times> bool \<Rightarrow> bool" where
  "valid_part p \<longleftrightarrow> (case p of (e, seq, temp) \<Rightarrow>
      DirectoryName e \<noteq> [] \<and> CHR 0x0A \<notin> set (DirectoryName e) \<and> \<not> has_separator (DirectoryName e)
      \<and> idPattern (ChainID e) \<and> datePattern (Date e) \<and> DiffNumber e \<le> MaxDiffNumber
      \<and> 1 \<le> seq \<and> seq \<le> MaxPartSequence)"

definition part_name :: "backup_entry \<times> nat \<times> bool \<Rightarrow> string" where
  "part_name p = (case p of (e, seq, temp) \<Rightarrow>
      part_base_name e seq @ (if temp then TempSuffix else []))"

definition type_digits :: "backup_entry \<Rightarrow> string option" where
  "type_digits e = (if IsDiff e then Some (show_pad3 (DiffNumber e)) else None)"

lemma part_name_split:
  "part_name (e, seq, temp)
     = ''['' @ DirectoryName e @ part_rest (ChainID e) (Date e) (type_digits e) (show_pad3 seq) temp"
  by (simp add: part_name_def part_base_name_def part_rest_def TypeLabel_def type_digits_def type_text_def)

lemma valid_part_groups:
  "valid_part (e, seq, temp) \<Longrightarrow> part_groups_ok (ChainID e) (Date e) (type_digits e) (show_pad3 seq)"
  by (auto simp: valid_part_def part_groups_ok_def type_digits_def length_show_pad3 show_pad3_digits
      MaxPartSequence_def MaxDiffNumber_def)

lemma no_separator_simps [simp]:
  "\<not> has_separator []"
  "has_separator (c # s) \<longleftrightarrow> c = CHR ''/'' \<or> c = CHR 0x5C \<or> has_separator s"
  "has_separator (s @ t) \<longleftrightarrow> has_separator s \<or> has_separator t"
  by (auto simp: has_separator_def)

lemma no_separator_alnum: "list_all is_upper_alnum s \<Longrightarrow> \<not> has_separator s"
  by (auto simp: has_separator_def list_all_iff is_upper_alnum_def is_digit_def)

lemma no_separator_digits: "list_all is_digit s \<Longrightarrow> \<not> has_separator s"
  by (auto simp: has_separator_def list_all_iff is_digit_def)

lemma part_rest_no_separator:
  "part_groups_ok cid date t seq \<Longrightarrow> \<not> has_separator (part_rest cid date t seq temp)"
  by (auto simp: part_rest_def part_groups_ok_def idPattern_iff datePattern_iff type_text_def TempSuffix_def
      no_separator_alnum no_separator_digits split: option.splits)

lemma partFilePattern_part_name:
  assumes "valid_part (e, seq, temp)"
  shows "partFilePattern (part_name (e, seq, temp))
     = Some (DirectoryName e, ChainID e, Date e, type_digits e, show_pad3 seq, temp)"
proof -
  let ?R = "part_rest (ChainID e) (Date e) (type_digits e) (show_pad3 seq) temp"
  note ok = valid_part_groups [OF assms]
  have "lazy_name match_part_rest [] (DirectoryName e @ ?R)
      = Some ([] @ DirectoryName e, ChainID e, Date e, type_digits e, show_pad3 seq, temp)"
  proof (rule lazy_name_complete)
    show "match_part_rest ?R = Some (ChainID e, Date e, type_digits e, show_pad3 seq, temp)"
      by (simp add: match_part_rest_eq_Some ok)
    show "match_part_rest (v @ ?R) = None" if "v \<noteq> []" for v
      using match_part_rest_unique [OF ok that] .
  qed (use assms in \<open>auto simp: valid_part_def\<close>)
  then show ?thesis by (simp add: partFilePattern_def part_name_split)
qed

lemma parse_part_name:
  assumes "valid_part p"
  shows "parsePartFileName (part_name p) = Some p"
proof (cases p)
  case (fields e seq temp)
  note v = assms [unfolded fields]
  have "\<not> has_separator (part_name (e, seq, temp))"
    using v part_rest_no_separator [OF valid_part_groups [OF v]]
    by (simp add: part_name_split valid_part_def)
  then show ?thesis
    using v by (simp add: fields parsePartFileName_def partFilePattern_part_name [OF v] type_digits_def
        IsDiff_def valid_part_def)
qed

lemma parse_part_name_sound:
  assumes "parsePartFileName s = Some p"
  shows "valid_part p \<and> part_name p = s"
proof -
  obtain name cid date t seq temp where
    m: "partFilePattern s = Some (name, cid, date, t, seq, temp)" and sep: "\<not> has_separator s"
    using assms by (auto simp: parsePartFileName_def split: if_splits option.splits)
  then obtain u where u: "s = ''['' @ u"
    and lz: "lazy_name match_part_rest [] u = Some (name, cid, date, t, seq, temp)"
    by (auto simp: partFilePattern_def bind_eq_Some_conv lit_eq_Some)
  from lazy_name_sound [OF lz] obtain r where
    n: "name \<noteq> []" "u = name @ r" "CHR 0x0A \<notin> set name" "match_part_rest r = Some (cid, date, t, seq, temp)"
    by auto
  then have r: "r = part_rest cid date t seq temp" and ok: "part_groups_ok cid date t seq"
    by (simp_all add: match_part_rest_eq_Some)
  have digits: "show_pad3 (dec_val seq) = seq" "dec_val seq \<le> 999"
    "\<And>d. t = Some d \<Longrightarrow> show_pad3 (dec_val d) = d \<and> dec_val d \<le> 999"
    using ok dec_val_less_pow [of seq] dec_val_less_pow
    by (fastforce simp: part_groups_ok_def show_pad3_dec_val)+
  show ?thesis
    using assms m sep u n r ok digits
    by (auto simp: parsePartFileName_def Let_def valid_part_def part_name_split part_groups_ok_def
        type_digits_def IsDiff_def MaxDiffNumber_def MaxPartSequence_def split: if_splits option.splits)
qed

definition ok_or :: "'e \<Rightarrow> 'a option \<Rightarrow> 'e + 'a" where
  "ok_or e m = (case m of None \<Rightarrow> Inl e | Some x \<Rightarrow> Inr x)"

lemma ok_or_eq_Inr [e_iff]: "ok_or e m = Inr x \<longleftrightarrow> m = Some x"
  by (cases m) (auto simp: ok_or_def)

interpretation part_codec: canonical_codec part_name "\<lambda>s. ok_or () (parsePartFileName s)" valid_part
  by unfold_locales (auto simp: e_iff parse_part_name dest: parse_part_name_sound)

lemma parsePartFileName_iff: "parsePartFileName s = Some p \<longleftrightarrow> valid_part p \<and> s = part_name p"
  using part_codec.dec_iff [of s p] by (auto simp: e_iff)

lemma ParsePartFileName_parse:
  "ParsePartFileName s = Some (e, seq) \<longleftrightarrow> parsePartFileName s = Some (e, seq, False)"
  by (auto simp: ParsePartFileName_def split: option.splits if_splits)

lemma ParseTempPartFileName_parse:
  "ParseTempPartFileName s = Some (e, seq) \<longleftrightarrow> parsePartFileName s = Some (e, seq, True)"
  by (auto simp: ParseTempPartFileName_def split: option.splits if_splits)

text \<open>C30. The parser of complete part files accepts exactly the names the printer produces for a
  well-formed entry and a part number from 1 to 999, and gives that entry and number back.\<close>

theorem ParsePartFileName_iff:
  "ParsePartFileName s = Some (e, seq) \<longleftrightarrow> valid_part (e, seq, False) \<and> s = part_base_name e seq"
  by (simp add: ParsePartFileName_parse parsePartFileName_iff part_name_def)

lemma ParseTempPartFileName_iff:
  "ParseTempPartFileName s = Some (e, seq)
     \<longleftrightarrow> valid_part (e, seq, True) \<and> s = part_base_name e seq @ TempSuffix"
  by (simp add: ParseTempPartFileName_parse parsePartFileName_iff part_name_def)

text \<open>A name is never both a complete and a temporary part.\<close>

lemma part_not_temp: "ParsePartFileName s = Some p \<Longrightarrow> ParseTempPartFileName s = None"
  by (auto simp: ParsePartFileName_def ParseTempPartFileName_def split: option.splits if_splits)

text \<open>A part with a number above \<open>MaxPartSequence\<close> gets a name that no pattern discovers,
  neither as a complete nor as a temporary part: why preflight refuses such a backup.\<close>

lemma part_above_max_undiscoverable:
  assumes "MaxPartSequence < seq"
  shows "parsePartFileName (part_base_name e seq) = None"
proof (rule ccontr)
  assume "parsePartFileName (part_base_name e seq) \<noteq> None"
  then obtain p where "parsePartFileName (part_base_name e seq) = Some p" by auto
  then obtain e' q temp where v: "valid_part (e', q, temp)"
    and eq: "part_base_name e seq = part_name (e', q, temp)"
    by (cases p) (auto simp: parsePartFileName_iff)
  let ?A = "show_pad3 seq" and ?B = "show_pad3 q"
  have lenA: "4 \<le> length ?A" using assms length_show_pad3_ge [of seq] by (simp add: MaxPartSequence_def)
  have lenB: "length ?B = 3" using v by (simp add: valid_part_def MaxPartSequence_def length_show_pad3)
  obtain x where x: "part_base_name e seq = x @ ?A @ ''.enc''"
    by (simp add: part_base_name_def)
  obtain y where y: "part_base_name e' q = y @ ''-'' @ ?B @ ''.enc''"
    by (simp add: part_base_name_def)
  have "\<not> temp"
  proof
    assume temp
    with eq x y have "x @ ?A @ ''.enc'' = (y @ ''-'' @ ?B @ ''.enc'') @ TempSuffix" by (simp add: part_name_def)
    then have "last (x @ ?A @ ''.enc'') = last ((y @ ''-'' @ ?B @ ''.enc'') @ TempSuffix)" by (rule arg_cong)
    then show False by (simp add: TempSuffix_def)
  qed
  with eq x y have "x @ ?A @ ''.enc'' = (y @ ''-'' @ ?B) @ ''.enc''" by (simp add: part_name_def)
  then have xA: "x @ ?A = y @ ''-'' @ ?B" by (metis append.assoc append_same_eq)
  have "CHR ''-'' \<in> set ?A"
  proof -
    have "(x @ ?A) ! length y = CHR ''-''" unfolding xA by simp
    moreover have "length x \<le> length y" "length y < length (x @ ?A)"
      using arg_cong [OF xA, of length] lenA lenB by simp_all
    ultimately have "?A ! (length y - length x) = CHR ''-''" "length y - length x < length ?A"
      by (auto simp: nth_append)
    then show ?thesis by (metis nth_mem)
  qed
  moreover have "\<not> is_digit (CHR ''-'')" by (simp add: is_digit_def)
  ultimately show False using show_pad3_digits [of seq] by (auto simp: list_all_iff)
qed

lemma part_above_max_undiscoverable_witness:
  "MaxPartSequence < 1000 \<and>
   parsePartFileName (part_base_name \<lparr>DirectoryName = ''D'', ChainID = ''ABC123'',
     Date = ''2026-09-01'', DiffNumber = 0\<rparr> 1000) = None"
  using part_above_max_undiscoverable [of 1000] by (simp add: MaxPartSequence_def)

section \<open>1.x names and log names\<close>

lemma legacyFilePattern_sound:
  assumes "legacyFilePattern s = Some (name, date, cid)"
  shows "\<exists>t. s = ''['' @ name @ '']_'' @ date @ ''_'' @ cid @ t \<and> datePattern date \<and> idPattern cid
        \<and> (t = ''.challenge'' \<or> (\<exists>q. t = ''-'' @ q @ ''.enc'' \<and> length q = 3 \<and> list_all is_digit q))"
proof -
  obtain u where u: "s = ''['' @ u" and lz: "lazy_name match_legacy_rest [] u = Some (name, date, cid)"
    using assms by (auto simp: legacyFilePattern_def bind_eq_Some_conv lit_eq_Some)
  from lazy_name_sound [OF lz] obtain r where "u = name @ r" "match_legacy_rest r = Some (date, cid)" by auto
  with u show ?thesis by (auto simp: match_legacy_rest_eq_Some)
qed

text \<open>The type label is not six characters long, so a 1.x part name never is a 2.0 part name.\<close>

lemma type_text_neq_id:
  assumes "x @ ''_'' @ cid = y @ ''_'' @ type_text t" and "idPattern cid"
    and "\<forall>d. t = Some d \<longrightarrow> length d = 3 \<and> list_all is_digit d"
  shows False
proof -
  have id: "length cid = 6" "CHR ''_'' \<notin> set cid"
    using assms(2) by (auto simp: idPattern_iff list_all_iff is_upper_alnum_def is_digit_def)
  have tt: "CHR ''_'' \<notin> set (type_text t)" "length (type_text t) \<noteq> 6"
    using assms(3) by (fastforce simp: type_text_def list_all_iff is_digit_def split: option.splits)+
  have tw: "takeWhile (\<lambda>c. c \<noteq> CHR ''_'') (rev w @ CHR ''_'' # r) = rev w" if "CHR ''_'' \<notin> set w" for w r
    using that by (subst takeWhile_append2) auto
  have "cid = rev (takeWhile (\<lambda>c. c \<noteq> CHR ''_'') (rev (x @ ''_'' @ cid)))"
    using tw [OF id(2)] by simp
  also have "\<dots> = type_text t" unfolding assms(1) using tw [OF tt(1)] by simp
  finally show False using id tt by simp
qed

text \<open>No file name is both a RestoreSafe 1.x file and a 2.0 part, complete or temporary: the
  operations on 2.0 parts never touch a 1.x backup.\<close>

lemma legacy_disjoint: "\<not> (IsLegacyBackupFileName s \<and> parsePartFileName s \<noteq> None)"
proof
  assume "IsLegacyBackupFileName s \<and> parsePartFileName s \<noteq> None"
  then obtain name date cid p where l: "legacyFilePattern s = Some (name, date, cid)"
    and p: "parsePartFileName s = Some p"
    by (auto simp: IsLegacyBackupFileName_def)
  from legacyFilePattern_sound [OF l] obtain t where
    s: "s = ''['' @ name @ '']_'' @ date @ ''_'' @ cid @ t" and cid: "idPattern cid"
    and t: "t = ''.challenge'' \<or> (\<exists>q. t = ''-'' @ q @ ''.enc'' \<and> length q = 3 \<and> list_all is_digit q)"
    by blast
  obtain e seq temp where pv: "p = (e, seq, temp)" by (cases p)
  with p have v: "valid_part (e, seq, temp)" and sp: "s = part_name (e, seq, temp)"
    by (simp_all add: parsePartFileName_iff)
  note ok = valid_part_groups [OF v]
  let ?y = "''['' @ DirectoryName e @ '']_'' @ ChainID e @ ''_'' @ Date e"
  have sp': "s = ?y @ ''_'' @ type_text (type_digits e) @ ''-'' @ show_pad3 seq @ ''.enc''
      @ (if temp then TempSuffix else [])"
    by (simp add: sp part_name_split part_rest_def)
  show False
  proof (cases temp)
    case True
    have "last s = CHR ''p''" by (simp add: sp' True TempSuffix_def)
    moreover have "last s \<noteq> CHR ''p''" using t by (auto simp: s)
    ultimately show False by simp
  next
    case False
    have "last s = CHR ''c''" by (simp add: sp' False)
    with t obtain q where q: "t = ''-'' @ q @ ''.enc''" "length q = 3" by (auto simp: s)
    have "(''['' @ name @ '']_'' @ date @ ''_'' @ cid) @ (''-'' @ q @ ''.enc'')
        = (?y @ ''_'' @ type_text (type_digits e)) @ (''-'' @ show_pad3 seq @ ''.enc'')"
      using s sp' q False by simp
    moreover have "length (''-'' @ q @ ''.enc'') = length (''-'' @ show_pad3 seq @ ''.enc'')"
      using ok q by (simp add: part_groups_ok_def)
    ultimately have "''['' @ name @ '']_'' @ date @ ''_'' @ cid = ?y @ ''_'' @ type_text (type_digits e)"
      by (metis append_eq_append_conv)
    then show False
      using type_text_neq_id [of "''['' @ name @ '']_'' @ date" cid ?y "type_digits e"] cid ok
      by (simp add: part_groups_ok_def)
  qed
qed

definition valid_log :: "string \<times> string \<Rightarrow> bool" where
  "valid_log l \<longleftrightarrow> datePattern (fst l) \<and> idPattern (snd l)"

interpretation log_codec: canonical_codec "\<lambda>l. log_base_name (fst l) (snd l)"
  "\<lambda>s. ok_or () (ParseLogFileName s)" valid_log
proof
  show "ok_or () (ParseLogFileName (log_base_name (fst l) (snd l))) = Inr l" if "valid_log l" for l
    using that by (cases l) (simp add: e_iff valid_log_def ParseLogFileName_def log_base_name_def idPattern_iff)
  show "valid_log l \<and> log_base_name (fst l) (snd l) = s" if "ok_or () (ParseLogFileName s) = Inr l" for s l
    using that by (cases l) (auto simp: e_iff valid_log_def ParseLogFileName_def log_base_name_def idPattern_iff
        bind_eq_Some_conv match_date_iff lit_eq_Some take_class_eq_Some split: if_splits)
qed

lemma ParseLogFileName_iff:
  "ParseLogFileName s = Some (date, rid) \<longleftrightarrow> datePattern date \<and> idPattern rid \<and> s = log_base_name date rid"
  using log_codec.dec_iff [of s "(date, rid)"] by (auto simp: e_iff valid_log_def)

text \<open>The log of a 1.x backup has a name that also parses as a log of a 2.0 run.\<close>

lemma legacy_log_parses:
  "LegacyLogFileName s = Some l \<Longrightarrow> ParseLogFileName l \<noteq> None"
  by (auto simp: LegacyLogFileName_def ParseLogFileName_iff log_base_name_def
      dest!: legacyFilePattern_sound split: option.splits)

section \<open>Random identifiers\<close>

lemma idAlphabet_upper_alnum: "list_all is_upper_alnum idAlphabet"
  by (simp add: idAlphabet_def is_upper_alnum_def is_digit_def)

lemma draw_id_ok:
  assumes "\<And>i n. rnd i = Inr n \<Longrightarrow> n < 36"
  shows "draw_id rnd i k = Inr s \<Longrightarrow> length s = k \<and> list_all is_upper_alnum s"
proof (induction k arbitrary: i s)
  case 0
  then show ?case by simp
next
  case (Suc k)
  then obtain n s' where n: "rnd i = Inr n" and s': "draw_id rnd (Suc i) k = Inr s'" "s = idAlphabet ! n # s'"
    by (auto simp: e_iff)
  have "n < length idAlphabet" using assms [OF n] by (simp add: idAlphabet_def)
  then have "is_upper_alnum (idAlphabet ! n)" using idAlphabet_upper_alnum by (simp add: list_all_length)
  with Suc.IH [OF s'(1)] s' show ?case by simp
qed

lemma NewBackupID_idPattern:
  "(\<And>i n. rnd i = Inr n \<Longrightarrow> n < 36) \<Longrightarrow> NewBackupID rnd = Inr s \<Longrightarrow> idPattern s"
  using draw_id_ok [of rnd 0 idLength s] by (simp add: NewBackupID_def idPattern_iff idLength_def)

end
