(* ===== verification/Crypto.thy ===== *)
theory Crypto
  imports Prelude
begin

text \<open>
  Package \<open>internal/security/cryptox\<close>: the key-derivation bounds, key wrapping, and the
  authenticated chunk stream. The primitives (AES-256-GCM, Argon2id, HKDF-SHA256, SHA-256) are the
  fields of a \<open>crypto\<close> record; what the code relies on is \<open>crypto_ok\<close>.
\<close>

section \<open>The primitives\<close>

record crypto =
  aead_seal :: "bytes \<Rightarrow> bytes \<Rightarrow> bytes \<Rightarrow> bytes \<Rightarrow> bytes"
  aead_open :: "bytes \<Rightarrow> bytes \<Rightarrow> bytes \<Rightarrow> bytes \<Rightarrow> bytes option"
  argon2 :: "bytes \<Rightarrow> bytes \<Rightarrow> 32 word \<Rightarrow> 32 word \<Rightarrow> 8 word \<Rightarrow> bytes"
  hkdf :: "bytes \<Rightarrow> bytes \<Rightarrow> string \<Rightarrow> bytes"
  sha256 :: "bytes \<Rightarrow> bytes"

text \<open>
  \<open>aead_seal C k n p a\<close> is \<open>gcm.Seal\<close>, \<open>aead_open C k n c a\<close> is \<open>gcm.Open\<close> (\<open>None\<close>: the
  authentication failed). Sealing is deterministic and adds a 16-byte tag; opening what was sealed
  gives the plaintext; and opening succeeds only on the ciphertext that sealing the result gives,
  because the counter mode is a bijection and the tag is recomputed. Hashes and keys have 32 bytes.
\<close>

definition crypto_ok :: "crypto \<Rightarrow> bool" where
  "crypto_ok C \<longleftrightarrow>
     (\<forall>k n p a. length (aead_seal C k n p a) = length p + 16)
   \<and> (\<forall>k n p a. aead_open C k n (aead_seal C k n p a) a = Some p)
   \<and> (\<forall>k n c a p. aead_open C k n c a = Some p \<longrightarrow> c = aead_seal C k n p a)
   \<and> (\<forall>s t x y z. length (argon2 C s t x y z) = 32)
   \<and> (\<forall>m s i. length (hkdf C m s i) = 32)
   \<and> (\<forall>b. length (sha256 C b) = 32)"

lemma crypto_okD:
  assumes "crypto_ok C"
  shows "length (aead_seal C k n p a) = length p + 16"
    and "aead_open C k n (aead_seal C k n p a) a = Some p"
    and "aead_open C k n c a = Some p \<Longrightarrow> c = aead_seal C k n p a"
    and "length (argon2 C s t x y z) = 32"
    and "length (hkdf C m s i) = 32"
    and "length (sha256 C b) = 32"
  using assms by (auto simp: crypto_ok_def)

text \<open>
  A concrete instance for the witnesses: no secrecy, but all the laws. The tag is 16 bytes that
  depend on the key, nonce and associated data through a simple sum.
\<close>

definition fold32 :: "bytes \<Rightarrow> bytes" where
  "fold32 b = replicate 31 0 @ [foldr (\<lambda>x s. x + 3 * s) b 7]"

definition demo_tag :: "bytes \<Rightarrow> bytes \<Rightarrow> bytes \<Rightarrow> bytes \<Rightarrow> bytes" where
  "demo_tag k n p a = drop 16 (fold32 (k @ n @ p @ a))"

definition demo_crypto :: crypto where
  "demo_crypto =
     \<lparr>aead_seal = (\<lambda>k n p a. p @ demo_tag k n p a),
      aead_open = (\<lambda>k n c a.
        let p = take (length c - 16) c
        in if 16 \<le> length c \<and> drop (length c - 16) c = demo_tag k n p a then Some p else None),
      argon2 = (\<lambda>s t x y z. fold32 (s @ t)),
      hkdf = (\<lambda>m s i. fold32 (m @ s @ bytes_of_string i)),
      sha256 = fold32\<rparr>"

lemma length_fold32 [simp]: "length (fold32 b) = 32"
  by (simp add: fold32_def)

lemma length_demo_tag [simp]: "length (demo_tag k n p a) = 16"
  by (simp add: demo_tag_def)

lemma demo_crypto_ok: "crypto_ok demo_crypto"
  by (auto simp: crypto_ok_def demo_crypto_def Let_def split: if_splits)
     (metis append_take_drop_id)

section \<open>Parameters and keys\<close>

definition SaltLen :: nat where "SaltLen = 32"
definition KeyLen :: nat where "KeyLen = 32"
definition NonceLen :: nat where "NonceLen = 12"
definition ChunkSize :: nat where "ChunkSize = 8 * 1024 * 1024"
definition chunkPrefixLen :: nat where "chunkPrefixLen = 5"
definition gcmTagLen :: nat where "gcmTagLen = 16"
definition maxEncryptedChunkSize :: nat where "maxEncryptedChunkSize = ChunkSize + gcmTagLen"
definition FullEncryptedChunkSize :: nat where
  "FullEncryptedChunkSize = chunkPrefixLen + maxEncryptedChunkSize"
definition chunkFlagFinal :: byte where "chunkFlagFinal = 1"

definition MinArgonTime :: nat where "MinArgonTime = 2"
definition MaxArgonTime :: nat where "MaxArgonTime = 20"
definition MinArgonMemoryKB :: nat where "MinArgonMemoryKB = 64 * 1024"
definition MaxArgonMemoryKB :: nat where "MaxArgonMemoryKB = 4096 * 1024"
definition MinArgonThreads :: nat where "MinArgonThreads = 1"
definition MaxArgonThreads :: nat where "MaxArgonThreads = 255"

lemmas argon_bounds_def = MinArgonTime_def MaxArgonTime_def MinArgonMemoryKB_def MaxArgonMemoryKB_def
  MinArgonThreads_def MaxArgonThreads_def

lemmas chunk_const_def = ChunkSize_def chunkPrefixLen_def gcmTagLen_def maxEncryptedChunkSize_def
  FullEncryptedChunkSize_def chunkFlagFinal_def

record argon2_params =
  Time :: "32 word"
  MemoryKB :: "32 word"
  Threads :: "8 word"

definition DefaultArgon2Params :: argon2_params where
  "DefaultArgon2Params = \<lparr>Time = 3, MemoryKB = 512 * 1024, Threads = 4\<rparr>"

definition ValidateArgon2Params :: "32 word \<Rightarrow> 32 word \<Rightarrow> 32 word \<Rightarrow> unit result" where
  "ValidateArgon2Params time memoryKB threads =
     (if unat time < MinArgonTime \<or> unat time > MaxArgonTime
        then Inl (Problem ''Invalid Argon2 time %s: %d (allowed %d-%d).'')
      else if unat memoryKB < MinArgonMemoryKB \<or> unat memoryKB > MaxArgonMemoryKB
        then Inl (Problem ''Invalid Argon2 memory %s: %d KiB (allowed %d-%d).'')
      else if unat threads < MinArgonThreads \<or> unat threads > MaxArgonThreads
        then Inl (Problem ''Invalid Argon2 threads %s: %d (allowed %d-%d).'')
      else Inr ())"

definition DeriveKEK :: "crypto \<Rightarrow> bytes \<Rightarrow> bytes \<Rightarrow> argon2_params \<Rightarrow> bytes result" where
  "DeriveKEK C secret salt params =
     (if length salt \<noteq> SaltLen then Inl (Internal ''Invalid Argon2 salt length: %d (want %d).'')
      else bindE (ValidateArgon2Params (Time params) (MemoryKB params) (ucast (Threads params)))
        (\<lambda>_. Inr (argon2 C secret salt (Time params) (MemoryKB params) (Threads params))))"

definition newGCM :: "bytes \<Rightarrow> unit result" where
  "newGCM key = (if length key \<noteq> KeyLen then Inl (Internal ''Invalid key length: %d (want %d).'') else Inr ())"

definition SealKey :: "crypto \<Rightarrow> bytes \<Rightarrow> bytes \<Rightarrow> bytes \<Rightarrow> bytes \<Rightarrow> bytes result" where
  "SealKey C kek nonce plaintext aad =
     bindE (newGCM kek) (\<lambda>_.
       if length nonce \<noteq> NonceLen then Inl (Internal ''Invalid nonce length: %d (want %d).'')
       else Inr (aead_seal C kek nonce plaintext aad))"

definition OpenKey :: "crypto \<Rightarrow> bytes \<Rightarrow> bytes \<Rightarrow> bytes \<Rightarrow> bytes \<Rightarrow> bytes result" where
  "OpenKey C kek nonce ciphertext aad =
     bindE (newGCM kek) (\<lambda>_.
       if length nonce \<noteq> NonceLen then Inl (Internal ''Invalid nonce length: %d (want %d).'')
       else case aead_open C kek nonce ciphertext aad of
         None \<Rightarrow> Inl WrongPassword
       | Some plaintext \<Rightarrow> Inr plaintext)"

definition DeriveSubkey :: "crypto \<Rightarrow> bytes \<Rightarrow> bytes \<Rightarrow> string \<Rightarrow> bytes result" where
  "DeriveSubkey C master salt info =
     (if length master \<noteq> KeyLen then Inl (Internal ''Invalid master key length: %d (want %d).'')
      else Inr (hkdf C master salt info))"

section \<open>The chunk stream\<close>

text \<open>
  \<open>chunkParams\<close>: the nonce and the associated data of a chunk. \<open>be_bytes 8\<close> keeps the low 64 bits,
  as the \<open>uint64\<close> counter does.
\<close>

definition chunk_nonce :: "nat \<Rightarrow> bytes" where
  "chunk_nonce index = replicate 4 0 @ be_bytes 8 index"

definition chunk_aad :: "bytes \<Rightarrow> nat \<Rightarrow> byte \<Rightarrow> bytes" where
  "chunk_aad aadPrefix index flags = aadPrefix @ be_bytes 8 index @ [flags]"

text \<open>The bytes of one chunk, which \<open>writeEncryptedChunk\<close> hands to the writer in one call.\<close>

definition encrypted_chunk :: "crypto \<Rightarrow> bytes \<Rightarrow> bytes \<Rightarrow> nat \<Rightarrow> bytes \<Rightarrow> bool \<Rightarrow> bytes" where
  "encrypted_chunk C key aadPrefix index plaintext isFinal =
     (let flags = (if isFinal then chunkFlagFinal else 0);
          ct = aead_seal C key (chunk_nonce index) plaintext (chunk_aad aadPrefix index flags)
      in flags # be_bytes 4 (length ct) @ ct)"

definition writeEncryptedChunk ::
  "'w writer \<Rightarrow> crypto \<Rightarrow> bytes \<Rightarrow> bytes \<Rightarrow> nat \<Rightarrow> bytes \<Rightarrow> bool \<Rightarrow> 'w \<Rightarrow> unit result \<times> 'w" where
  "writeEncryptedChunk wr C key aadPrefix index plaintext isFinal w =
     (case wr w (encrypted_chunk C key aadPrefix index plaintext isFinal) of
        (None, w') \<Rightarrow> (Inr (), w')
      | (Some e, w') \<Rightarrow> (Inl (Internal ''Failed to write chunk: %w''), w'))"

function encrypt_loop ::
  "'w writer \<Rightarrow> crypto \<Rightarrow> bytes \<Rightarrow> bytes \<Rightarrow> source \<Rightarrow> nat \<Rightarrow> 'w \<Rightarrow> unit result \<times> 'w" where
  "encrypt_loop wr C key aadPrefix src index w =
     (case read_full ChunkSize src of (readErr, buf, src') \<Rightarrow>
        if readErr \<noteq> None \<and> readErr \<noteq> Some UnexpectedEOF \<and> readErr \<noteq> Some EOF
          then (Inl (Internal ''Failed to read plaintext: %w''), w)
        else
          let isFinal = (readErr = Some EOF \<or> readErr = Some UnexpectedEOF) in
          case writeEncryptedChunk wr C key aadPrefix index buf isFinal w of
            (Inl e, w') \<Rightarrow> (Inl e, w')
          | (Inr _, w') \<Rightarrow>
              if isFinal then (Inr (), w')
              else encrypt_loop wr C key aadPrefix src' (Suc index) w')"
  by pat_completeness auto
termination
  by (relation "measure (\<lambda>(wr, C, key, aad, src, index, w). length (fst src))")
     (auto simp: read_full_def ChunkSize_def split: if_splits prod.splits option.splits)

definition EncryptStream ::
  "'w writer \<Rightarrow> crypto \<Rightarrow> source \<Rightarrow> bytes \<Rightarrow> bytes \<Rightarrow> 'w \<Rightarrow> unit result \<times> 'w" where
  "EncryptStream wr C src key aadPrefix w =
     (case newGCM key of
        Inl e \<Rightarrow> (Inl e, w)
      | Inr _ \<Rightarrow> encrypt_loop wr C key aadPrefix src 0 w)"

declare encrypt_loop.simps [simp del]

function decrypt_loop ::
  "'w writer \<Rightarrow> crypto \<Rightarrow> bytes \<Rightarrow> bytes \<Rightarrow> source \<Rightarrow> nat \<Rightarrow> bool \<Rightarrow> 'w \<Rightarrow> unit result \<times> 'w" where
  "decrypt_loop wr C key aadPrefix src index sawFinal w =
     (case read_full 1 src of
        (Some e, _, _) \<Rightarrow>
          if e = EOF then
            if sawFinal then (Inr (), w)
            else (Inl (Problem ''Missing final encrypted chunk marker.''), w)
          else (Inl (Problem ''Failed to read chunk flags: %w.''), w)
      | (None, flagb, src1) \<Rightarrow>
          if sawFinal then (Inl (Problem ''Unexpected data after final encrypted chunk.''), w)
          else let flags = hd flagb in
          if flags \<noteq> 0 \<and> flags \<noteq> chunkFlagFinal
            then (Inl (Problem ''Invalid encrypted chunk flags: %d.''), w)
          else case read_full 4 src1 of
            (Some e, _, _) \<Rightarrow> (Inl (Problem ''Failed to read chunk length: %w.''), w)
          | (None, lenb, src2) \<Rightarrow>
              let len = be_nat lenb in
              if len < gcmTagLen \<or> len > maxEncryptedChunkSize
                then (Inl (Problem ''Invalid encrypted chunk length: %d.''), w)
              else case read_full len src2 of
                (Some e, _, _) \<Rightarrow> (Inl (Problem ''Failed to read chunk data: %w.''), w)
              | (None, encrypted, src3) \<Rightarrow>
                  case aead_open C key (chunk_nonce index) encrypted (chunk_aad aadPrefix index flags) of
                    None \<Rightarrow> (Inl Corrupted, w)
                  | Some plaintext \<Rightarrow>
                      if flags \<noteq> chunkFlagFinal \<and> length plaintext \<noteq> ChunkSize
                        then (Inl (Problem ''Invalid non-final chunk size: %d.''), w)
                      else case (if plaintext = [] then (None, w) else wr w plaintext) of
                        (Some e, w') \<Rightarrow> (Inl (Internal ''Failed to write decrypted data: %w''), w')
                      | (None, w') \<Rightarrow>
                          decrypt_loop wr C key aadPrefix src3 (Suc index) (flags = chunkFlagFinal) w')"
  by pat_completeness auto
termination
  by (relation "measure (\<lambda>(wr, C, key, aad, src, index, saw, w). length (fst src))")
     (auto simp: read_full_def split: if_splits prod.splits option.splits)

declare decrypt_loop.simps [simp del]

definition DecryptStream ::
  "'w writer \<Rightarrow> crypto \<Rightarrow> source \<Rightarrow> bytes \<Rightarrow> bytes \<Rightarrow> 'w \<Rightarrow> unit result \<times> 'w" where
  "DecryptStream wr C src key aadPrefix w =
     (case newGCM key of
        Inl e \<Rightarrow> (Inl e, w)
      | Inr _ \<Rightarrow> decrypt_loop wr C key aadPrefix src 0 False w)"

section \<open>What a stream is: the abstract format\<close>

text \<open>
  \<open>enc_bytes\<close> is the stream of a plaintext as a plain function: full chunks, then one final chunk
  with the rest (possibly empty). The loops refine it for every writer with the \<open>byte_sink\<close> contract.
\<close>

function enc_bytes :: "crypto \<Rightarrow> bytes \<Rightarrow> bytes \<Rightarrow> nat \<Rightarrow> bytes \<Rightarrow> bytes" where
  "enc_bytes C key aadPrefix index p =
     (if length p < ChunkSize then encrypted_chunk C key aadPrefix index p True
      else encrypted_chunk C key aadPrefix index (take ChunkSize p) False
             @ enc_bytes C key aadPrefix (Suc index) (drop ChunkSize p))"
  by pat_completeness auto
termination
  by (relation "measure (\<lambda>(C, key, aad, index, p). length p)") (auto simp: ChunkSize_def)

declare enc_bytes.simps [simp del]

lemma ChunkSize_pos [simp]: "0 < ChunkSize" "ChunkSize \<noteq> 0"
  by (simp_all add: ChunkSize_def)

lemma flag_distinct [simp]: "chunkFlagFinal \<noteq> 0" "0 \<noteq> chunkFlagFinal"
  by (simp_all add: chunkFlagFinal_def)

text \<open>
  The general shape a reader accepts: chunks of exactly \<open>ChunkSize\<close>, then a final one that may also
  be full (the encryption puts an empty final chunk after a plaintext of whole chunks).
\<close>

fun stream_of :: "crypto \<Rightarrow> bytes \<Rightarrow> bytes \<Rightarrow> nat \<Rightarrow> bytes list \<Rightarrow> bytes \<Rightarrow> bytes" where
  "stream_of C key aad i [] p = encrypted_chunk C key aad i p True"
| "stream_of C key aad i (q # qs) p = encrypted_chunk C key aad i q False @ stream_of C key aad (Suc i) qs p"

definition well_chunked :: "bytes list \<Rightarrow> bytes \<Rightarrow> bool" where
  "well_chunked qs p \<longleftrightarrow> list_all (\<lambda>q. length q = ChunkSize) qs \<and> length p \<le> ChunkSize"

lemma well_chunked_simps [simp]:
  "well_chunked [] p \<longleftrightarrow> length p \<le> ChunkSize"
  "well_chunked (q # qs) p \<longleftrightarrow> length q = ChunkSize \<and> well_chunked qs p"
  by (auto simp: well_chunked_def)

lemma enc_bytes_stream_of:
  "\<exists>qs p'. enc_bytes C key aad i p = stream_of C key aad i qs p' \<and> well_chunked qs p'
     \<and> concat qs @ p' = p \<and> length p' < ChunkSize"
proof (induction C key aad i p rule: enc_bytes.induct)
  case (1 C key aad i p)
  show ?case
  proof (cases "length p < ChunkSize")
    case True
    then show ?thesis by (intro exI [of _ "[]"] exI [of _ p]) (simp add: enc_bytes.simps [of C key aad i p])
  next
    case False
    with 1 obtain qs p' where "enc_bytes C key aad (Suc i) (drop ChunkSize p) = stream_of C key aad (Suc i) qs p'"
      "well_chunked qs p'" "concat qs @ p' = drop ChunkSize p" "length p' < ChunkSize" by blast
    with False show ?thesis
      by (intro exI [of _ "take ChunkSize p # qs"] exI [of _ p'])
         (simp add: enc_bytes.simps [of C key aad i p])
  qed
qed

context byte_sink
begin

lemma writeEncryptedChunk_sink:
  "good w \<Longrightarrow> \<exists>w'. writeEncryptedChunk wr C key aad i p fin w = (Inr (), w') \<and> good w'
     \<and> content w' = content w @ encrypted_chunk C key aad i p fin"
  using write_ok [of w "encrypted_chunk C key aad i p fin"]
    write_good [of w "encrypted_chunk C key aad i p fin"]
    write_content [of w "encrypted_chunk C key aad i p fin"]
  by (auto simp: writeEncryptedChunk_def split: prod.splits option.splits)

lemma encrypt_loop_sink:
  "good w \<Longrightarrow> \<exists>w'. encrypt_loop wr C key aad (p, None) i w = (Inr (), w') \<and> good w'
     \<and> content w' = content w @ enc_bytes C key aad i p"
proof (induction C key aad i p arbitrary: w rule: enc_bytes.induct)
  case (1 C key aad i p)
  show ?case
  proof (cases "length p < ChunkSize")
    case True
    obtain w' where w': "writeEncryptedChunk wr C key aad i p True w = (Inr (), w')" "good w'"
      "content w' = content w @ encrypted_chunk C key aad i p True"
      using writeEncryptedChunk_sink [OF "1.prems"] by blast
    have "\<exists>e. read_full ChunkSize (p, None) = (Some e, p, ([], None)) \<and> (e = EOF \<or> e = UnexpectedEOF)"
      using True by (simp add: read_full_def)
    with w' True show ?thesis
      by (subst encrypt_loop.simps) (auto simp: enc_bytes.simps [of C key aad i p] Let_def)
  next
    case False
    obtain w1 where w1: "writeEncryptedChunk wr C key aad i (take ChunkSize p) False w = (Inr (), w1)" "good w1"
      "content w1 = content w @ encrypted_chunk C key aad i (take ChunkSize p) False"
      using writeEncryptedChunk_sink [OF "1.prems"] by blast
    have "read_full ChunkSize (p, None) = (None, take ChunkSize p, (drop ChunkSize p, None))"
      using False by (simp add: read_full_def)
    with w1 "1.IH" [OF False w1(2)] False show ?thesis
      by (subst encrypt_loop.simps) (auto simp: enc_bytes.simps [of C key aad i p] Let_def)
  qed
qed

lemma EncryptStream_sink:
  assumes "good w" "length key = KeyLen"
  shows "\<exists>w'. EncryptStream wr C (p, None) key aad w = (Inr (), w') \<and> good w'
     \<and> content w' = content w @ enc_bytes C key aad 0 p"
  using encrypt_loop_sink [OF assms(1)] assms(2) by (simp add: EncryptStream_def newGCM_def)

end

text \<open>One chunk read back: the frame of \<open>len\<close> ciphertext bytes after the flag byte.\<close>

lemma read_full_app: "length a = n \<Longrightarrow> read_full n (a @ r, e) = (None, a, (r, e))"
  by (simp add: read_full_def)

lemma read_full_None:
  "read_full n (bs, e) = (None, a, src) \<longleftrightarrow> (\<exists>r. bs = a @ r \<and> length a = n \<and> src = (r, e))"
  by (auto simp: read_full_def)

lemma read_full_1: "read_full (Suc 0) (b # r, e) = (None, [b], (r, e))"
  by (simp add: read_full_def)

lemma read_full_1_Nil: "read_full (Suc 0) ([], None) = (Some EOF, [], ([], None))"
  by (simp add: read_full_def)

text \<open>Reading a well-formed chunk is one step of the loop.\<close>

lemma decrypt_loop_chunk:
  assumes C: "crypto_ok C" and fin: "fin \<or> length p = ChunkSize" "length p \<le> ChunkSize"
  shows "decrypt_loop wr C key aad (encrypted_chunk C key aad i p fin @ r, e) i False w
    = (case (if p = [] then (None, w) else wr w p) of
         (Some e, w') \<Rightarrow> (Inl (Internal ''Failed to write decrypted data: %w''), w')
       | (None, w') \<Rightarrow> decrypt_loop wr C key aad (r, e) (Suc i) fin w')"
proof -
  let ?f = "if fin then chunkFlagFinal else 0"
  let ?ct = "aead_seal C key (chunk_nonce i) p (chunk_aad aad i ?f)"
  have len: "length ?ct = length p + 16" by (simp add: crypto_okD(1) [OF C])
  have be: "be_nat (be_bytes 4 (length ?ct)) = length ?ct"
    by (rule be_nat_be_bytes_id) (use len fin in \<open>simp add: ChunkSize_def\<close>)
  have bounds: "\<not> (length ?ct < gcmTagLen \<or> length ?ct > maxEncryptedChunkSize)"
    using len fin by (simp add: gcmTagLen_def maxEncryptedChunkSize_def)
  have enc: "encrypted_chunk C key aad i p fin = ?f # be_bytes 4 (length ?ct) @ ?ct"
    by (simp add: encrypted_chunk_def Let_def)
  have op: "aead_open C key (chunk_nonce i) ?ct (chunk_aad aad i ?f) = Some p"
    by (rule crypto_okD(2) [OF C])
  show ?thesis
  proof (cases fin)
    case True
    with enc be bounds op show ?thesis
      by (subst decrypt_loop.simps)
         (auto simp: read_full_1 read_full_app Let_def split: prod.split option.split)
  next
    case False
    with enc be bounds op fin show ?thesis
      by (subst decrypt_loop.simps)
         (auto simp: read_full_1 read_full_app Let_def split: prod.split option.split)
  qed
qed

context byte_sink
begin

lemma write_part_sink:
  "good w \<Longrightarrow> \<exists>w'. (if p = [] then (None, w) else wr w p) = (None, w') \<and> good w' \<and> content w' = content w @ p"
  using write_ok [of w p] write_good [of w p] write_content [of w p] by (cases "wr w p") auto

lemma decrypt_loop_stream_of:
  "crypto_ok C \<Longrightarrow> good w \<Longrightarrow> well_chunked qs p \<Longrightarrow>
     \<exists>w'. decrypt_loop wr C key aad (stream_of C key aad i qs p, None) i False w = (Inr (), w')
       \<and> good w' \<and> content w' = content w @ concat qs @ p"
proof (induction qs arbitrary: i w)
  case Nil
  obtain w' where w': "(if p = [] then (None, w) else wr w p) = (None, w')" "good w'" "content w' = content w @ p"
    using write_part_sink [OF Nil.prems(2)] by blast
  have "decrypt_loop wr C key aad (stream_of C key aad i [] p, None) i False w
      = decrypt_loop wr C key aad ([], None) (Suc i) True w'"
    using decrypt_loop_chunk [OF Nil.prems(1), of True p wr key aad i "[]" None w] Nil.prems(3) w' by simp
  also have "\<dots> = (Inr (), w')" by (subst decrypt_loop.simps) (simp add: read_full_1_Nil)
  finally show ?case using w' by auto
next
  case (Cons q qs)
  obtain w1 where w1: "(if q = [] then (None, w) else wr w q) = (None, w1)" "good w1" "content w1 = content w @ q"
    using write_part_sink [OF Cons.prems(2)] by blast
  have "decrypt_loop wr C key aad (stream_of C key aad i (q # qs) p, None) i False w
      = decrypt_loop wr C key aad (stream_of C key aad (Suc i) qs p, None) (Suc i) False w1"
    using decrypt_loop_chunk [OF Cons.prems(1), of False q wr key aad i "stream_of C key aad (Suc i) qs p" None w]
      Cons.prems(3) w1 by simp
  with Cons.IH [OF Cons.prems(1) w1(2)] Cons.prems w1 show ?case by auto
qed

end

section \<open>What the decryption accepts\<close>

text \<open>Inversion of one successful step.\<close>

definition write_part :: "'w writer \<Rightarrow> bytes \<Rightarrow> 'w \<Rightarrow> err option \<times> 'w" where
  "write_part wr p w = (if p = [] then (None, w) else wr w p)"

lemma decrypt_loop_final:
  "decrypt_loop wr C key aad (s, e) i True w = (Inr (), w') \<Longrightarrow> s = [] \<and> (e = None \<or> e = Some EOF) \<and> w' = w"
  by (subst (asm) decrypt_loop.simps)
     (cases s, auto simp: read_full_def split: if_splits option.splits)

lemma decrypt_loop_step:
  assumes C: "crypto_ok C" and ok: "decrypt_loop wr C key aad (s, e) i False w = (Inr (), w')"
  shows "\<exists>fin p r w1. s = encrypted_chunk C key aad i p fin @ r \<and> (fin \<or> length p = ChunkSize)
    \<and> length p \<le> ChunkSize \<and> write_part wr p w = (None, w1)
    \<and> decrypt_loop wr C key aad (r, e) (Suc i) fin w1 = (Inr (), w')"
proof -
  from ok obtain flags s1 where s1: "s = flags # s1" and fl: "flags = 0 \<or> flags = chunkFlagFinal"
    by (subst (asm) decrypt_loop.simps)
       (cases s, auto simp: read_full_def Let_def split: if_splits option.splits)
  from ok fl obtain lenb s2 where s2: "s1 = lenb @ s2" "length lenb = 4"
    and len: "be_nat lenb \<le> maxEncryptedChunkSize"
    and ok2: "(case read_full (be_nat lenb) (s2, e) of
                (Some e, _, _) \<Rightarrow> (Inl (Problem ''Failed to read chunk data: %w.''), w)
              | (None, encrypted, src3) \<Rightarrow>
                  case aead_open C key (chunk_nonce i) encrypted (chunk_aad aad i flags) of
                    None \<Rightarrow> (Inl Corrupted, w)
                  | Some plaintext \<Rightarrow>
                      if flags \<noteq> chunkFlagFinal \<and> length plaintext \<noteq> ChunkSize
                        then (Inl (Problem ''Invalid non-final chunk size: %d.''), w)
                      else case write_part wr plaintext w of
                        (Some e, w') \<Rightarrow> (Inl (Internal ''Failed to write decrypted data: %w''), w')
                      | (None, w') \<Rightarrow>
                          decrypt_loop wr C key aad src3 (Suc i) (flags = chunkFlagFinal) w') = (Inr (), w')"
    by (subst (asm) decrypt_loop.simps)
       (auto simp: s1 read_full_1 read_full_None Let_def write_part_def split: if_splits option.splits prod.splits)
  from ok2 obtain enc r p where r: "s2 = enc @ r" "length enc = be_nat lenb"
    and p: "aead_open C key (chunk_nonce i) enc (chunk_aad aad i flags) = Some p"
    and ok3: "(if flags \<noteq> chunkFlagFinal \<and> length p \<noteq> ChunkSize
                        then (Inl (Problem ''Invalid non-final chunk size: %d.''), w)
                      else case write_part wr p w of
                        (Some e, w') \<Rightarrow> (Inl (Internal ''Failed to write decrypted data: %w''), w')
                      | (None, w') \<Rightarrow>
                          decrypt_loop wr C key aad (r, e) (Suc i) (flags = chunkFlagFinal) w') = (Inr (), w')"
    by (fastforce simp: read_full_None split: option.splits prod.splits)
  from ok3 have sz: "flags = chunkFlagFinal \<or> length p = ChunkSize"
    by (auto split: if_splits)
  with ok3 obtain w1 where w1: "write_part wr p w = (None, w1)"
    "decrypt_loop wr C key aad (r, e) (Suc i) (flags = chunkFlagFinal) w1 = (Inr (), w')"
    by (auto split: option.splits prod.splits if_splits)
  have enc: "enc = aead_seal C key (chunk_nonce i) p (chunk_aad aad i flags)"
    by (rule crypto_okD(3) [OF C p])
  then have "length enc = length p + 16" by (simp add: crypto_okD(1) [OF C])
  then have "length p \<le> ChunkSize" using r len by (simp add: maxEncryptedChunkSize_def gcmTagLen_def)
  moreover have "be_bytes 4 (length enc) = lenb" using r s2 be_bytes_be_nat [of lenb] by simp
  then have "s = encrypted_chunk C key aad i p (flags = chunkFlagFinal) @ r"
    using s1 s2 r enc fl by (auto simp: encrypted_chunk_def Let_def)
  ultimately show ?thesis using sz w1 by blast
qed

context byte_sink
begin

lemma decrypt_loop_sound:
  assumes C: "crypto_ok C"
  shows "good w \<Longrightarrow> decrypt_loop wr C key aad (s, e) i False w = (Inr (), w') \<Longrightarrow>
    \<exists>qs p. s = stream_of C key aad i qs p \<and> well_chunked qs p \<and> (e = None \<or> e = Some EOF)
      \<and> good w' \<and> content w' = content w @ concat qs @ p"
proof (induction "length s" arbitrary: s i w rule: less_induct)
  case less
  from decrypt_loop_step [OF C less.prems(2)] obtain fin p r w1 where
    s: "s = encrypted_chunk C key aad i p fin @ r" and sz: "fin \<or> length p = ChunkSize" "length p \<le> ChunkSize"
    and w1: "write_part wr p w = (None, w1)"
    and rest: "decrypt_loop wr C key aad (r, e) (Suc i) fin w1 = (Inr (), w')" by blast
  have good1: "good w1" "content w1 = content w @ p"
    using write_part_sink [OF less.prems(1), of p] w1 by (auto simp: write_part_def)
  show ?case
  proof (cases fin)
    case True
    with rest have "r = []" "e = None \<or> e = Some EOF" "w' = w1"
      using decrypt_loop_final by metis+
    with s good1 sz True show ?thesis by (intro exI [of _ "[]"] exI [of _ p]) simp
  next
    case False
    have "length r < length s" using s by (simp add: encrypted_chunk_def Let_def)
    moreover from rest False have "decrypt_loop wr C key aad (r, e) (Suc i) False w1 = (Inr (), w')" by simp
    ultimately obtain qs q where
      q: "r = stream_of C key aad (Suc i) qs q" "well_chunked qs q" "e = None \<or> e = Some EOF"
      "good w'" "content w' = content w1 @ concat qs @ q"
      using less.hyps good1(1) by blast
    with False sz good1 show ?thesis by (intro exI [of _ "p # qs"] exI [of _ q]) (simp add: s)
  qed
qed

end

text \<open>Nothing may follow an accepted stream.\<close>

lemma decrypt_loop_extended:
  assumes C: "crypto_ok C" and "well_chunked qs p" "t \<noteq> []"
  shows "\<nexists>w'. decrypt_loop buf_write C key aad (stream_of C key aad i qs p @ t, None) i False w = (Inr (), w')"
  using assms(2)
proof (induction qs arbitrary: i w)
  case Nil
  have "decrypt_loop buf_write C key aad (stream_of C key aad i [] p @ t, None) i False w
      = decrypt_loop buf_write C key aad (t, None) (Suc i) True (if p = [] then w else w @ p)"
    using decrypt_loop_chunk [OF C, of True p buf_write key aad i t None w] Nil.prems
    by (simp add: buf_write_def)
  with assms(3) show ?case using decrypt_loop_final by metis
next
  case (Cons q qs)
  have "decrypt_loop buf_write C key aad (stream_of C key aad i (q # qs) p @ t, None) i False w
      = decrypt_loop buf_write C key aad (stream_of C key aad (Suc i) qs p @ t, None) (Suc i) False
          (if q = [] then w else w @ q)"
    using decrypt_loop_chunk [OF C, of False q buf_write key aad i "stream_of C key aad (Suc i) qs p @ t" None w]
      Cons.prems by (simp add: buf_write_def)
  with Cons show ?case by simp
qed

section \<open>Properties of the stream\<close>

lemma buffer_good: "DecryptStream buf_write C (s, e) key aad [] = (r, w) \<Longrightarrow> length key = KeyLen \<Longrightarrow>
    decrypt_loop buf_write C key aad (s, e) 0 False [] = (r, w)"
  by (simp add: DecryptStream_def newGCM_def)

text \<open>Round trip: with a 32-byte key, encrypting any plaintext succeeds, and decrypting the
  stream with the same key and associated-data prefix gives exactly that plaintext.\<close>

lemma stream_roundtrip:
  assumes "crypto_ok C" and "length key = KeyLen"
  shows "\<exists>s. EncryptStream buf_write C (p, None) key aad [] = (Inr (), s)
    \<and> DecryptStream buf_write C (s, None) key aad [] = (Inr (), p)"
proof -
  obtain s where s: "EncryptStream buf_write C (p, None) key aad [] = (Inr (), s)"
    "s = enc_bytes C key aad 0 p"
    using buffer.EncryptStream_sink [OF TrueI assms(2), of C p aad "[]"] by auto
  obtain qs p' where q: "s = stream_of C key aad 0 qs p'" "well_chunked qs p'" "concat qs @ p' = p"
    using enc_bytes_stream_of [of C key aad 0 p] s by auto
  from buffer.decrypt_loop_stream_of [OF assms(1) TrueI q(2), of key aad 0 "[]"] q s assms(2)
  show ?thesis by (auto simp: DecryptStream_def newGCM_def)
qed

lemma stream_roundtrip_witness:
  "\<exists>s. EncryptStream buf_write demo_crypto ([1, 2, 3], None) (replicate 32 9) [5] [] = (Inr (), s)
    \<and> DecryptStream buf_write demo_crypto (s, None) (replicate 32 9) [5] [] = (Inr (), [1, 2, 3])"
  by (rule stream_roundtrip [OF demo_crypto_ok]) (simp add: KeyLen_def)

lemma DecryptStream_iff:
  assumes "crypto_ok C" and "length key = KeyLen"
  shows "DecryptStream buf_write C (s, None) key aad [] = (Inr (), out) \<longleftrightarrow>
    (\<exists>qs p. s = stream_of C key aad 0 qs p \<and> well_chunked qs p \<and> out = concat qs @ p)"
proof
  assume "DecryptStream buf_write C (s, None) key aad [] = (Inr (), out)"
  from buffer.decrypt_loop_sound [OF assms(1) TrueI buffer_good [OF this assms(2)]]
  show "\<exists>qs p. s = stream_of C key aad 0 qs p \<and> well_chunked qs p \<and> out = concat qs @ p" by auto
next
  assume "\<exists>qs p. s = stream_of C key aad 0 qs p \<and> well_chunked qs p \<and> out = concat qs @ p"
  then obtain qs p where "s = stream_of C key aad 0 qs p" "well_chunked qs p" "out = concat qs @ p" by blast
  with buffer.decrypt_loop_stream_of [OF assms(1) TrueI, of qs p key aad 0 "[]"] assms(2)
  show "DecryptStream buf_write C (s, None) key aad [] = (Inr (), out)"
    by (auto simp: DecryptStream_def newGCM_def)
qed

lemma DecryptStream_extended:
  assumes C: "crypto_ok C" and k: "length key = KeyLen"
    and acc: "DecryptStream buf_write C (s, None) key aad [] = (Inr (), out)" and t: "t \<noteq> []"
  shows "\<not> is_ok (fst (DecryptStream buf_write C (s @ t, None) key aad []))"
proof
  assume "is_ok (fst (DecryptStream buf_write C (s @ t, None) key aad []))"
  then obtain w where "DecryptStream buf_write C (s @ t, None) key aad [] = (Inr (), w)"
    by (auto simp: is_ok_iff prod_eq_iff)
  moreover obtain qs p where "s = stream_of C key aad 0 qs p" "well_chunked qs p"
    using acc DecryptStream_iff [OF C k] by blast
  ultimately show False
    using decrypt_loop_extended [OF C _ t, of qs p key aad 0 "[]"] buffer_good [OF _ k] by metis
qed

text \<open>C29. Decryption accepts exactly the well-formed streams: chunks 0, 1, 2, ... each sealed under its
  own index and flag, every one but the last of full size, the last flagged final, and nothing after
  it. A dropped, added, reordered or re-flagged chunk is not such a stream.\<close>

theorem DecryptStream_accepts_iff:
  assumes "crypto_ok C" and "length key = KeyLen"
  shows "DecryptStream buf_write C (s, None) key aad [] = (Inr (), out) \<longleftrightarrow>
    (\<exists>qs p. s = stream_of C key aad 0 qs p \<and> well_chunked qs p \<and> out = concat qs @ p)"
  by (rule DecryptStream_iff [OF assms])

theorem DecryptStream_accepts_iff_witness:
  "DecryptStream buf_write demo_crypto (encrypted_chunk demo_crypto (replicate 32 9) [] 0 [7] True, None)
     (replicate 32 9) [] [] = (Inr (), [7])"
  unfolding DecryptStream_accepts_iff [OF demo_crypto_ok, of "replicate 32 9", unfolded KeyLen_def, simplified]
  by (intro exI [of _ "[]"] exI [of _ "[7]"]) (simp add: ChunkSize_def)

text \<open>Truncation and appending are detected: when a stream decrypts, no proper extension of it
  does, and no proper prefix of it does.\<close>

lemma stream_prefix_free:
  assumes "crypto_ok C" and "length key = KeyLen"
    and "DecryptStream buf_write C (s, None) key aad [] = (Inr (), out)" and "t \<noteq> []"
  shows "\<not> is_ok (fst (DecryptStream buf_write C (s @ t, None) key aad []))
    \<and> (\<forall>u. s = u @ t \<longrightarrow> \<not> is_ok (fst (DecryptStream buf_write C (u, None) key aad [])))"
proof (intro conjI allI impI)
  show "\<not> is_ok (fst (DecryptStream buf_write C (s @ t, None) key aad []))"
    by (rule DecryptStream_extended [OF assms])
  fix u assume u: "s = u @ t"
  show "\<not> is_ok (fst (DecryptStream buf_write C (u, None) key aad []))"
  proof
    assume "is_ok (fst (DecryptStream buf_write C (u, None) key aad []))"
    then obtain w where "DecryptStream buf_write C (u, None) key aad [] = (Inr (), w)"
      by (auto simp: is_ok_iff prod_eq_iff)
    from DecryptStream_extended [OF assms(1,2) this assms(4)] u assms(3) show False by simp
  qed
qed

lemma stream_prefix_free_witness:
  "\<exists>s. \<not> is_ok (fst (DecryptStream buf_write demo_crypto (s @ [1], None) (replicate 32 9) [] []))"
proof -
  have k: "length (replicate 32 (9 :: byte)) = KeyLen" by (simp add: KeyLen_def)
  have "DecryptStream buf_write demo_crypto (stream_of demo_crypto (replicate 32 9) [] 0 [] [], None)
      (replicate 32 9) [] [] = (Inr (), [])"
    unfolding DecryptStream_iff [OF demo_crypto_ok k] by (intro exI [of _ "[]"]) simp
  from stream_prefix_free [OF demo_crypto_ok k this, of "[1]"] show ?thesis by auto
qed

text \<open>The length of a stream: 21 bytes of framing and tag per chunk.\<close>

lemma length_encrypted_chunk:
  "crypto_ok C \<Longrightarrow> length (encrypted_chunk C key aad i p fin) = length p + 21"
  by (simp add: encrypted_chunk_def Let_def crypto_okD(1))

lemma length_enc_bytes:
  "crypto_ok C \<Longrightarrow> length (enc_bytes C key aad i p) = length p + 21 * (length p div ChunkSize + 1)"
proof (induction C key aad i p rule: enc_bytes.induct)
  case (1 C key aad i p)
  show ?case
  proof (cases "length p < ChunkSize")
    case True
    with "1.prems" show ?thesis by (simp add: enc_bytes.simps [of C key aad i p] length_encrypted_chunk)
  next
    case False
    then have "length p div ChunkSize = (length p - ChunkSize) div ChunkSize + 1"
      by (simp add: le_div_geq)
    with 1 False show ?thesis
      by (simp add: enc_bytes.simps [of C key aad i p] length_encrypted_chunk)
  qed
qed

lemma length_stream_of_ge: "crypto_ok C \<Longrightarrow> 21 \<le> length (stream_of C key aad i qs p)"
  by (induction qs arbitrary: i) (auto simp: length_encrypted_chunk)

text \<open>No (key, nonce) pair is used twice in a stream: the nonces of two different chunk indexes of
  a \<open>uint64\<close> counter differ.\<close>

lemma chunk_nonce_distinct:
  assumes "i < 2 ^ 64" and "j < 2 ^ 64" and "i \<noteq> j"
  shows "chunk_nonce i \<noteq> chunk_nonce j \<and> length (chunk_nonce i) = NonceLen"
  using assms be_bytes_inj [of i 8 j] by (simp add: chunk_nonce_def NonceLen_def)

lemma chunk_nonce_distinct_witness:
  "chunk_nonce 0 \<noteq> chunk_nonce 1 \<and> length (chunk_nonce 0) = NonceLen"
  by (rule chunk_nonce_distinct) simp_all

section \<open>Properties of the key derivation\<close>

lemma ValidateArgon2Params_ok:
  "ValidateArgon2Params t m p = Inr u \<longleftrightarrow>
     unat t \<in> {MinArgonTime..MaxArgonTime} \<and> unat m \<in> {MinArgonMemoryKB..MaxArgonMemoryKB}
     \<and> unat p \<in> {MinArgonThreads..MaxArgonThreads}"
  by (auto simp: ValidateArgon2Params_def)

lemma DeriveKEK_ok:
  "DeriveKEK C secret salt P = Inr k \<longleftrightarrow> length salt = SaltLen
     \<and> is_ok (ValidateArgon2Params (Time P) (MemoryKB P) (ucast (Threads P)))
     \<and> k = argon2 C secret salt (Time P) (MemoryKB P) (Threads P)"
  by (auto simp: DeriveKEK_def e_iff is_ok_iff)

lemma SealKey_OpenKey:
  assumes "crypto_ok C" "length kek = KeyLen" "length n = NonceLen"
  shows "SealKey C kek n p a = Inr (aead_seal C kek n p a)"
    and "OpenKey C kek n (aead_seal C kek n p a) a = Inr p"
  using assms by (simp_all add: SealKey_def OpenKey_def newGCM_def crypto_okD(2))

end
