(* ===== verification/Parts.thy ===== *)
theory Parts
  imports Prelude
begin

text \<open>
  The multi-part files of package \<open>internal/format/container\<close>: \<open>split.go\<close> distributes a byte
  stream over part files of at most \<open>maxBytes\<close> bytes, \<open>parts.go\<close> reads the part files back as one
  stream. The file system is an environment of outcomes: every open, write, sync and close may fail.
  The split writer implements \<open>byte_sink\<close>, the parts reader implements \<open>reader_at\<close>.
\<close>

section \<open>The split writer\<close>

text \<open>
  \<open>write_res k n\<close> is the outcome of the \<open>k\<close>-th write call with \<open>n\<close> bytes: \<open>None\<close> when all bytes
  were written, \<open>Some m\<close> when only \<open>m\<close> of them (fewer than \<open>n\<close>) were and an error came back. The others are by part number.
\<close>

record split_env =
  open_res :: "nat \<Rightarrow> err option"
  write_res :: "nat \<Rightarrow> nat \<Rightarrow> nat option"
  sync_res :: "nat \<Rightarrow> err option"
  close_res :: "nat \<Rightarrow> err option"

definition no_faults :: split_env where
  "no_faults = \<lparr>open_res = (\<lambda>_. None), write_res = (\<lambda>_ _. None), sync_res = (\<lambda>_. None), close_res = (\<lambda>_. None)\<rparr>"

text \<open>
  \<open>files\<close> are the contents of the part files created so far, in order; the last one is the current
  file when \<open>current\<close> is set. The path of the \<open>i\<close>-th is \<open>nameFunc i\<close>.
\<close>

record split_writer =
  maxBytes :: int
  seqno :: nat
  written :: int
  current :: bool
  files :: "bytes list"
  syncOnClose :: bool
  fileWriteCalls :: nat
  fileWriteBytes :: nat
  partsOpened :: nat
  partsClosed :: nat

definition NewWriter :: "int \<Rightarrow> split_writer" where
  "NewWriter mx = \<lparr>maxBytes = mx, seqno = 0, written = 0, current = False, files = [],
     syncOnClose = True, fileWriteCalls = 0, fileWriteBytes = 0, partsOpened = 0, partsClosed = 0\<rparr>"

definition SetSyncOnClose :: "bool \<Rightarrow> split_writer \<Rightarrow> split_writer" where
  "SetSyncOnClose enabled s = s\<lparr>syncOnClose := enabled\<rparr>"

definition openNext :: "split_env \<Rightarrow> split_writer \<Rightarrow> err option \<times> split_writer" where
  "openNext env s =
     (let s = s\<lparr>seqno := Suc (seqno s)\<rparr> in
      case open_res env (seqno s) of
        Some e \<Rightarrow> (Some (Internal ''Failed to create part file %q: %w''), s)
      | None \<Rightarrow> (None, s\<lparr>current := True, written := 0, files := files s @ [[]],
                          partsOpened := Suc (partsOpened s)\<rparr>))"

definition closeCurrent :: "split_env \<Rightarrow> split_writer \<Rightarrow> err option \<times> split_writer" where
  "closeCurrent env s =
     (if \<not> current s then (None, s)
      else
        let syncErr = (if syncOnClose s then sync_res env (seqno s) else None);
            closeErr = close_res env (seqno s);
            s = s\<lparr>current := False, partsClosed := Suc (partsClosed s)\<rparr>
        in (if syncErr \<noteq> None then Some (Internal ''Failed to sync part file %q to disk: %w'')
            else if closeErr \<noteq> None then Some (Internal ''Failed to close part file %q: %w'')
            else None, s))"

text \<open>Appending to the current file.\<close>

definition append_current :: "bytes \<Rightarrow> split_writer \<Rightarrow> split_writer" where
  "append_current p s = s\<lparr>files := butlast (files s) @ [last (files s) @ p],
     written := written s + int (length p),
     fileWriteCalls := Suc (fileWriteCalls s), fileWriteBytes := fileWriteBytes s + length p\<rparr>"

text \<open>
  The loop of \<open>Write\<close>. A current file that is already full does not occur (\<open>split_inv\<close>); Go would
  panic on the negative slice bound.
\<close>

function split_loop :: "split_env \<Rightarrow> bytes \<Rightarrow> nat \<Rightarrow> split_writer \<Rightarrow> nat \<times> err option \<times> split_writer" where
  "split_loop env p tot s =
     (if p = [] then (tot, None, s)
      else case (if current s then (None, s) else openNext env s) of
        (Some e, s) \<Rightarrow> (tot, Some e, s)
      | (None, s) \<Rightarrow>
          let remaining = maxBytes s - written s;
              n = nat (min (int (length p)) remaining) in
          if remaining \<le> 0 then (tot, Some (Internal ''panic: slice bounds out of range''), s)
          else case write_res env (fileWriteCalls s) n of
            Some m \<Rightarrow>
              let m = min m (n - 1) in
              (tot + m, Some (Internal ''Failed to write to part file: %w''), append_current (take m p) s)
          | None \<Rightarrow>
              let s = append_current (take n p) s; tot = tot + n; p = drop n p in
              if written s \<ge> maxBytes s then
                case closeCurrent env s of
                  (Some e, s) \<Rightarrow> (tot, Some e, s)
                | (None, s) \<Rightarrow> split_loop env p tot s
              else split_loop env p tot s)"
  by pat_completeness auto
termination
  by (relation "measure (\<lambda>(env, p, tot, s). length p)")
     (auto simp: Let_def split: if_splits prod.splits option.splits)

declare split_loop.simps [simp del]

definition WriterWrite :: "split_env \<Rightarrow> bytes \<Rightarrow> split_writer \<Rightarrow> nat \<times> err option \<times> split_writer" where
  "WriterWrite env p s =
     (if maxBytes s \<le> 0 then (0, Some (Problem ''Invalid split part size: %d.''), s)
      else split_loop env p 0 s)"

definition WriterClose :: "split_env \<Rightarrow> split_writer \<Rightarrow> err option \<times> split_writer" where
  "WriterClose env s = closeCurrent env s"

definition WriterPaths :: "(nat \<Rightarrow> string) \<Rightarrow> split_writer \<Rightarrow> string list" where
  "WriterPaths nameFunc s = map nameFunc [1..<Suc (length (files s))]"

definition split_write :: "split_env \<Rightarrow> split_writer writer" where
  "split_write env s p = snd (WriterWrite env p s)"

section \<open>The split writer keeps its invariant\<close>

text \<open>
  Every closed part is full; the current part is neither empty nor full between two writes.
\<close>

definition split_inv :: "split_writer \<Rightarrow> bool" where
  "split_inv s \<longleftrightarrow> 0 < maxBytes s
     \<and> (if current s
        then files s \<noteq> [] \<and> written s = int (length (last (files s))) \<and> 0 < written s \<and> written s < maxBytes s
          \<and> list_all (\<lambda>f. int (length f) = maxBytes s) (butlast (files s))
        else list_all (\<lambda>f. int (length f) = maxBytes s) (files s))"

lemma split_inv_NewWriter: "0 < mx \<Longrightarrow> split_inv (NewWriter mx)"
  by (simp add: split_inv_def NewWriter_def)

lemma concat_append_current: "fs \<noteq> [] \<Longrightarrow> concat (butlast fs @ [last fs @ p]) = concat fs @ p"
  by (metis append.assoc append_butlast_last_id concat.simps concat_append append_Nil2)

text \<open>One round of the loop without faults: the state after opening a part if none is open.\<close>

lemma split_loop_step:
  assumes "p \<noteq> []" and "(if current s then (None, s) else openNext env s) = (None, s1)"
    and "\<not> maxBytes s1 - written s1 \<le> 0"
    and "nat (min (int (length p)) (maxBytes s1 - written s1)) = n"
    and "write_res env (fileWriteCalls s1) n = None"
  shows "split_loop env p tot s =
    (let s2 = append_current (take n p) s1 in
     if written s2 \<ge> maxBytes s2 then
       case closeCurrent env s2 of
         (Some e, s) \<Rightarrow> (tot + n, Some e, s)
       | (None, s) \<Rightarrow> split_loop env (drop n p) (tot + n) s
     else split_loop env (drop n p) (tot + n) s2)"
  by (subst split_loop.simps) (simp only: assms Let_def if_False prod.case option.case)

lemma split_round:
  assumes inv: "split_inv s" and p: "p \<noteq> []"
  defines "s1 \<equiv> (if current s then s else snd (openNext no_faults s))"
  defines "n \<equiv> nat (min (int (length p)) (maxBytes s1 - written s1))"
  defines "s2 \<equiv> append_current (take n p) s1"
  defines "s3 \<equiv> (if written s2 \<ge> maxBytes s2 then snd (closeCurrent no_faults s2) else s2)"
  shows "split_loop no_faults p tot s = split_loop no_faults (drop n p) (tot + n) s3"
    and "split_inv s3" and "concat (files s3) = concat (files s) @ take n p" and "maxBytes s3 = maxBytes s"
    and "0 < n" and "n \<le> length p"
proof -
  have mx: "0 < maxBytes s" using inv by (simp add: split_inv_def)
  have s1: "current s1" "maxBytes s1 = maxBytes s" "files s1 \<noteq> []"
    "written s1 = int (length (last (files s1)))" "0 \<le> written s1" "written s1 < maxBytes s1"
    "list_all (\<lambda>f. int (length f) = maxBytes s) (butlast (files s1))" "concat (files s1) = concat (files s)"
    using inv by (auto simp: s1_def split_inv_def openNext_def no_faults_def Let_def split: if_splits)
  show n: "0 < n" "n \<le> length p" using s1 p by (auto simp: n_def)
  have ln: "length (take n p) = n" using n by simp
  have len: "int n \<le> maxBytes s1 - written s1" using s1 by (simp add: n_def)
  have s2: "current s2" "maxBytes s2 = maxBytes s" "files s2 = butlast (files s1) @ [last (files s1) @ take n p]"
    "written s2 = written s1 + int n"
    using s1 ln by (auto simp: s2_def append_current_def)
  show "maxBytes s3 = maxBytes s"
    using s2 by (auto simp: s3_def closeCurrent_def Let_def)
  have files3: "files s3 = files s2" by (auto simp: s3_def closeCurrent_def Let_def)
  show "concat (files s3) = concat (files s) @ take n p"
    using s1 concat_append_current [OF s1(3), of "take n p"] by (simp add: files3 s2)
  have "split_inv s3 \<and> current s3 = (written s2 < maxBytes s2)"
    using s1 s2 n len mx
    by (auto simp: s3_def split_inv_def closeCurrent_def Let_def list_all_iff)
  then show "split_inv s3" by simp
  have op: "(if current s then (None, s) else openNext no_faults s) = (None, s1)"
    by (auto simp: s1_def openNext_def no_faults_def Let_def)
  have cl: "closeCurrent no_faults s2 = (None, snd (closeCurrent no_faults s2))"
    by (auto simp: closeCurrent_def no_faults_def Let_def)
  have wr: "write_res no_faults (fileWriteCalls s1) n = None" by (simp add: no_faults_def)
  have rem: "\<not> maxBytes s1 - written s1 \<le> 0" using s1 by simp
  show "split_loop no_faults p tot s = split_loop no_faults (drop n p) (tot + n) s3"
    unfolding split_loop_step [OF p op rem meta_eq_to_obj_eq [OF n_def, symmetric] wr] s2_def [symmetric] Let_def s3_def
    by (subst cl) (simp only: option.case prod.case split: if_split, simp)
qed

lemma split_round_ex:
  assumes "split_inv s" and "p \<noteq> []"
  shows "\<exists>n s3. split_loop no_faults p tot s = split_loop no_faults (drop n p) (tot + n) s3
    \<and> split_inv s3 \<and> concat (files s3) = concat (files s) @ take n p \<and> maxBytes s3 = maxBytes s
    \<and> 0 < n \<and> n \<le> length p"
  by (intro exI conjI; rule split_round [OF assms])

lemma split_loop_no_faults:
  "split_inv s \<Longrightarrow> \<exists>s'. split_loop no_faults p tot s = (tot + length p, None, s')
     \<and> split_inv s' \<and> concat (files s') = concat (files s) @ p \<and> maxBytes s' = maxBytes s"
proof (induction "length p" arbitrary: p tot s rule: less_induct)
  case less
  show ?case
  proof (cases "p = []")
    case True
    with less.prems show ?thesis by (subst split_loop.simps) simp
  next
    case False
    from split_round_ex [OF less.prems False, of tot] obtain n s3 where
      r: "split_loop no_faults p tot s = split_loop no_faults (drop n p) (tot + n) s3"
        "split_inv s3" "concat (files s3) = concat (files s) @ take n p" "maxBytes s3 = maxBytes s"
        "0 < n" "n \<le> length p" by blast
    have "length (drop n p) < length p" using r by simp
    from less.hyps [OF this r(2), of "tot + n"] r show ?thesis by auto
  qed
qed

lemma split_write_no_faults:
  "split_inv s \<Longrightarrow> \<exists>s'. split_write no_faults s p = (None, s')
     \<and> split_inv s' \<and> concat (files s') = concat (files s) @ p \<and> maxBytes s' = maxBytes s"
proof -
  assume inv: "split_inv s"
  then have "\<not> maxBytes s \<le> 0" by (simp add: split_inv_def)
  with split_loop_no_faults [OF inv, of p 0] show ?thesis by (auto simp: split_write_def WriterWrite_def)
qed

interpretation split: byte_sink "split_write no_faults" "\<lambda>s. concat (files s)" split_inv
  by unfold_locales (metis split_write_no_faults fst_conv snd_conv)+


section \<open>Properties of the split writer\<close>

text \<open>With faults: no part is ever larger than \<open>maxBytes\<close>, and the current part never full.\<close>

definition split_bound :: "split_writer \<Rightarrow> bool" where
  "split_bound s \<longleftrightarrow> 0 < maxBytes s
     \<and> list_all (\<lambda>f. int (length f) \<le> maxBytes s) (files s)
     \<and> (current s \<longrightarrow> files s \<noteq> [] \<and> written s = int (length (last (files s))) \<and> written s < maxBytes s)"

lemma split_bound_append:
  assumes "split_bound s" "current s" "int (length q) \<le> maxBytes s - written s"
  shows "list_all (\<lambda>f. int (length f) \<le> maxBytes s) (files (append_current q s))"
    and "concat (files (append_current q s)) = concat (files s) @ q"
    and "written (append_current q s) = int (length (last (files (append_current q s))))"
    and "files (append_current q s) \<noteq> []"
  using assms
  by (auto simp: split_bound_def append_current_def concat_append_current list_all_iff dest: in_set_butlastD
      simp del: concat_append)

lemma openNext_bound:
  assumes "split_bound s" "\<not> current s" "openNext env s = (e, s1)"
  shows "split_bound s1" "concat (files s1) = concat (files s)" "maxBytes s1 = maxBytes s"
    "e = None \<Longrightarrow> current s1"
  using assms by (auto simp: openNext_def split_bound_def Let_def split: option.splits)

lemma closeCurrent_bound:
  assumes "0 < maxBytes s" "list_all (\<lambda>f. int (length f) \<le> maxBytes s) (files s)" "closeCurrent env s = (e, s1)" "current s"
  shows "split_bound s1" "files s1 = files s" "maxBytes s1 = maxBytes s"
  using assms by (auto simp: closeCurrent_def split_bound_def Let_def)

lemma split_loop_bound:
  "split_bound s \<Longrightarrow> split_loop env p tot s = (t, e, s') \<Longrightarrow>
     split_bound s' \<and> maxBytes s' = maxBytes s \<and> tot \<le> t \<and> t - tot \<le> length p
     \<and> concat (files s') = concat (files s) @ take (t - tot) p \<and> (e = None \<longrightarrow> t - tot = length p)"
proof (induction "length p" arbitrary: p tot s rule: less_induct)
  case less
  show ?case
  proof (cases "p = []")
    case True
    with less.prems show ?thesis by (subst (asm) split_loop.simps) auto
  next
    case False
    obtain e1 s1 where s1: "(if current s then (None, s) else openNext env s) = (e1, s1)" by fastforce
    have b1: "split_bound s1" "concat (files s1) = concat (files s)" "maxBytes s1 = maxBytes s"
      "e1 = None \<Longrightarrow> current s1"
      using s1 less.prems(1) openNext_bound [OF less.prems(1)] by (auto split: if_splits)
    show ?thesis
    proof (cases e1)
      case (Some x)
      with less.prems(2) False s1 b1 show ?thesis by (subst (asm) split_loop.simps) auto
    next
      case None
      define n where "n = nat (min (int (length p)) (maxBytes s1 - written s1))"
      have c1: "current s1" using b1 None by simp
      then have rem: "\<not> maxBytes s1 - written s1 \<le> 0" using b1 by (simp add: split_bound_def)
      then have n: "0 < n" "n \<le> length p" "int n \<le> maxBytes s1 - written s1"
        using False by (auto simp: n_def)
      show ?thesis
      proof (cases "write_res env (fileWriteCalls s1) n")
        case (Some m)
        let ?m = "min m (n - 1)"
        have "split_loop env p tot s
            = (tot + ?m, Some (Internal ''Failed to write to part file: %w''), append_current (take ?m p) s1)"
          using False rem Some s1 None
          by (subst split_loop.simps) (simp add: Let_def n_def [symmetric])
        moreover have m: "?m < n" using n by auto
        moreover have "int (length (take ?m p)) \<le> maxBytes s1 - written s1" using n m by simp
        note split_bound_append [OF b1(1) c1 this]
        moreover have "written (append_current (take ?m p) s1) < maxBytes s1"
          using n m by (simp add: append_current_def)
        ultimately show ?thesis
          using less.prems(2) b1 m n by (auto simp: split_bound_def append_current_def)
      next
        case wr: None
        let ?s2 = "append_current (take n p) s1"
        have "int (length (take n p)) \<le> maxBytes s1 - written s1" using n by simp
        note a2 = split_bound_append [OF b1(1) c1 this]
        have mx2: "maxBytes ?s2 = maxBytes s1" "current ?s2" "0 < maxBytes s1"
          using c1 b1 by (auto simp: append_current_def split_bound_def)
        have step: "split_loop env p tot s = (if written ?s2 \<ge> maxBytes ?s2 then
            case closeCurrent env ?s2 of (Some e, s) \<Rightarrow> (tot + n, Some e, s)
            | (None, s) \<Rightarrow> split_loop env (drop n p) (tot + n) s
          else split_loop env (drop n p) (tot + n) ?s2)"
          using split_loop_step [OF False s1 [unfolded None] rem n_def [symmetric] wr, of tot]
          by (simp add: Let_def)
        have dl: "length (drop n p) < length p" using n by simp
        have finish: ?thesis
          if b3: "split_bound s3" "files s3 = files ?s2" "maxBytes s3 = maxBytes s1"
            and "split_loop env (drop n p) (tot + n) s3 = (t, e, s')" for s3
        proof -
          have "take n p @ take (t - (tot + n)) (drop n p) = take (n + (t - (tot + n))) p"
            by (rule take_add [symmetric])
          with less.hyps [OF dl that(1,4)] b1 a2 b3 n show ?thesis by auto
        qed
        show ?thesis
        proof (cases "written ?s2 \<ge> maxBytes ?s2")
          case True
          obtain e3 s3 where s3: "closeCurrent env ?s2 = (e3, s3)" by fastforce
          note b3 = closeCurrent_bound [OF _ _ s3 mx2(2), unfolded mx2(1), OF mx2(3) a2(1)]
          show ?thesis
          proof (cases e3)
            case None
            with True step s3 less.prems(2) finish [OF b3] show ?thesis by simp
          next
            case (Some x)
            with True step s3 less.prems(2) b1 b3 a2 n show ?thesis by auto
          qed
        next
          case False
          then have "split_bound ?s2" using a2 mx2 by (simp add: split_bound_def)
          with False step less.prems(2) finish [of ?s2] mx2 show ?thesis by simp
        qed
      qed
    qed
  qed
qed

text \<open>Whatever the file system does, \<open>Write\<close> reports exactly the number of bytes that reached the
  part files, in order; no part exceeds \<open>maxBytes\<close>; and without an error everything was written.\<close>

lemma WriterWrite_exact:
  assumes "split_bound s" and "WriterWrite env p s = (t, e, s')"
  shows "split_bound s' \<and> t \<le> length p \<and> concat (files s') = concat (files s) @ take t p
    \<and> (e = None \<longrightarrow> t = length p)"
proof -
  have "\<not> maxBytes s \<le> 0" using assms(1) by (simp add: split_bound_def)
  with assms split_loop_bound [OF assms(1), of env p 0 t e s'] show ?thesis
    by (simp add: WriterWrite_def)
qed

lemma WriterWrite_exact_witness:
  "split_bound (NewWriter 2) \<and> WriterWrite no_faults [1, 2, 3] (NewWriter 2) =
     (3, None, snd (snd (WriterWrite no_faults [1, 2, 3] (NewWriter 2))))
   \<and> concat (files (snd (snd (WriterWrite no_faults [1, 2, 3] (NewWriter 2))))) = [1, 2, 3]"
proof -
  have b: "split_bound (NewWriter 2)" by (simp add: split_bound_def NewWriter_def)
  obtain s' where s': "WriterWrite no_faults [1, 2, 3] (NewWriter 2) = (3, None, s')"
    using split_loop_no_faults [OF split_inv_NewWriter [of 2], of "[1, 2, 3]" 0]
    by (auto simp: WriterWrite_def NewWriter_def)
  from WriterWrite_exact [OF b s'] b s' show ?thesis by (simp add: NewWriter_def)
qed

lemma length_full_parts:
  "list_all (\<lambda>f. int (length f) = m) fs \<Longrightarrow> int (length (concat fs)) = m * int (length fs)"
  by (induction fs) (auto simp: algebra_simps)

lemma split_inv_count:
  assumes inv: "split_inv s"
  shows "int (length (files s)) = (int (length (concat (files s))) + maxBytes s - 1) div maxBytes s"
proof -
  let ?m = "maxBytes s"
  have m: "0 < ?m" using inv by (simp add: split_inv_def)
  show ?thesis
  proof (cases "current s")
    case True
    let ?l = "int (length (last (files s)))" and ?k = "int (length (butlast (files s)))"
    have l: "0 < ?l" "?l < ?m" "files s \<noteq> []" "list_all (\<lambda>f. int (length f) = ?m) (butlast (files s))"
      using True inv by (auto simp: split_inv_def)
    have "concat (files s) = concat (butlast (files s)) @ last (files s)"
      using l(3) by (metis append_Nil2 append_butlast_last_id concat.simps concat_append)
    then have "int (length (concat (files s))) + ?m - 1 = (?k + 1) * ?m + (?l - 1)"
      using length_full_parts [OF l(4)] by (simp add: algebra_simps)
    also have "\<dots> div ?m = ?k + 1" using l m by simp
    finally show ?thesis using l(3) by (cases "files s") auto
  next
    case False
    then have "int (length (concat (files s))) + ?m - 1 = int (length (files s)) * ?m + (?m - 1)"
      using length_full_parts [of ?m "files s"] inv by (simp add: split_inv_def algebra_simps)
    also have "\<dots> div ?m = int (length (files s))" using m by simp
    finally show ?thesis by simp
  qed
qed

lemma WriterClose_files:
  "WriterClose no_faults s = (e, s') \<Longrightarrow> e = None \<and> files s' = files s \<and> maxBytes s' = maxBytes s"
  by (auto simp: WriterClose_def closeCurrent_def no_faults_def Let_def split: if_splits)

text \<open>Writing any sequence of blocks and closing leaves parts whose concatenation is the data, each
  full except possibly the last one, and exactly the number of parts the container's trailer records
  (the total size divided by the part size, rounded up).\<close>

lemma split_parts_exact:
  assumes "0 < mx" and "write_all (split_write no_faults) blocks (NewWriter mx) = (e, s)"
    and "WriterClose no_faults s = (e', s')"
  shows "e = None \<and> e' = None \<and> concat (files s') = concat blocks
    \<and> list_all (\<lambda>f. int (length f) = mx) (butlast (files s'))
    \<and> list_all (\<lambda>f. f \<noteq> [] \<and> int (length f) \<le> mx) (files s')
    \<and> int (length (files s')) = (int (length (concat blocks)) + mx - 1) div mx"
proof -
  have mxs: "maxBytes (snd (write_all (split_write no_faults) bs s)) = maxBytes s" if "split_inv s" for bs s
  proof (induction bs rule: rev_induct)
    case Nil
    then show ?case by (simp add: write_all_def)
  next
    case (snoc b bs)
    obtain e1 s1 where eq: "write_all (split_write no_faults) bs s = (e1, s1)" by fastforce
    with split.write_all_sink [OF that, of bs] have "e1 = None" "split_inv s1" by auto
    moreover have "write_all (split_write no_faults) (bs @ [b]) s = split_write no_faults s1 b"
      using eq \<open>e1 = None\<close> by (simp add: write_all_def)
    ultimately show ?case using snoc eq split_write_no_faults [of s1 b] by auto
  qed
  note inv0 = split_inv_NewWriter [OF assms(1)]
  have w: "e = None" "split_inv s" "concat (files s) = concat blocks"
    using split.write_all_sink [OF inv0, of blocks] assms(2) by (auto simp: NewWriter_def)
  have m: "maxBytes s = mx" using mxs [OF inv0, of blocks] assms(2) by (simp add: NewWriter_def)
  note c = WriterClose_files [OF assms(3)]
  have full: "list_all (\<lambda>f. int (length f) = mx) (butlast (files s))"
    using w(2) m by (auto simp: split_inv_def list_all_iff dest: in_set_butlastD split: if_splits)
  have sz: "list_all (\<lambda>f. f \<noteq> [] \<and> int (length f) \<le> mx) (files s)"
    using w(2) m assms(1) by (cases "files s" rule: rev_cases) (auto simp: split_inv_def list_all_iff split: if_splits)
  show ?thesis using w c m full sz split_inv_count [OF w(2)] by simp
qed

lemma split_parts_exact_witness:
  "\<exists>s' :: split_writer. concat (files s') = [1, 2, 3] \<and> int (length (files s')) = 2"
proof -
  obtain e s where w: "write_all (split_write no_faults) [[1, 2], [3]] (NewWriter 2) = (e, s)" by fastforce
  obtain e' s' where c: "WriterClose no_faults s = (e', s')" by fastforce
  from split_parts_exact [OF _ w c] show ?thesis by (intro exI [of _ s']) simp
qed


section \<open>The parts reader\<close>

text \<open>
  The contract of \<open>io.ReaderAt\<close> over a fixed stream: a read inside the stream fills the buffer, a
  read past its end gives what is left and \<open>EOF\<close>.
\<close>

locale reader_at =
  fixes read_at :: "nat \<Rightarrow> int \<Rightarrow> bytes \<times> err option"
    and stream :: bytes
  assumes read_inside: "0 \<le> off \<Longrightarrow> off + int n \<le> int (length stream) \<Longrightarrow>
      read_at n off = (take n (drop (nat off) stream), None)"
    and read_past: "0 < n \<Longrightarrow> 0 \<le> off \<Longrightarrow> int (length stream) < off + int n \<Longrightarrow>
      read_at n off = (drop (nat off) stream, Some EOF)"
begin

lemma read_length: "0 < n \<Longrightarrow> 0 \<le> off \<Longrightarrow> read_at n off = (b, None) \<Longrightarrow> length b = n"
  by (cases "off + int n \<le> int (length stream)") (auto simp: read_inside read_past)

end

text \<open>
  \<open>content i\<close> is what reading part \<open>i\<close> finds: an open error or the bytes of the file now, which may
  differ from the size measured when the reader was made. \<open>sort.Search\<close> finds the first part that
  starts after the offset; the starts are increasing.
\<close>

record parts_reader =
  starts :: "int list"
  size_all :: int

definition newPartsReader :: "int result list \<Rightarrow> parts_reader result" where
  "newPartsReader sizes =
     foldl (\<lambda>acc sz. bindE acc (\<lambda>r. case sz of
         Inl e \<Rightarrow> Inl (Wrapped ''Failed to inspect part file %q: %w.'' e)
       | Inr n \<Rightarrow> Inr (r\<lparr>starts := starts r @ [size_all r], size_all := size_all r + n\<rparr>)))
     (Inr \<lparr>starts = [], size_all = 0\<rparr>) sizes"

definition search_part :: "parts_reader \<Rightarrow> int \<Rightarrow> nat" where
  "search_part r off = length (takeWhile (\<lambda>s. s \<le> off) (starts r)) - 1"

definition file_read_at :: "bytes \<Rightarrow> nat \<Rightarrow> int \<Rightarrow> bytes \<times> bool" where
  "file_read_at c n off = (let got = take n (drop (nat off) c) in (got, length got < n))"

function parts_read_loop ::
  "(nat \<Rightarrow> bytes result) \<Rightarrow> parts_reader \<Rightarrow> nat \<Rightarrow> int \<Rightarrow> bytes \<Rightarrow> bytes \<times> err option" where
  "parts_read_loop content r n off acc =
     (if n = 0 then (acc, None)
      else if off \<ge> size_all r then (acc, Some EOF)
      else let idx = search_part r off in
        case content idx of
          Inl e \<Rightarrow> (acc, Some (Wrapped ''Failed to open part file %q: %w.'' e))
        | Inr c \<Rightarrow>
            (case file_read_at c n (off - starts r ! idx) of (got, eof) \<Rightarrow>
               if got = [] then (acc, Some (Problem ''Part file %q changed while reading.''))
               else parts_read_loop content r (n - length got) (off + int (length got)) (acc @ got)))"
  by pat_completeness auto
termination
  by (relation "measure (\<lambda>(content, r, n, off, acc). n)") (auto simp: file_read_at_def Let_def)

declare parts_read_loop.simps [simp del]

definition PartsReadAt :: "(nat \<Rightarrow> bytes result) \<Rightarrow> parts_reader \<Rightarrow> nat \<Rightarrow> int \<Rightarrow> bytes \<times> err option" where
  "PartsReadAt content r n off =
     (if off < 0 then ([], Some (Internal ''negative offset'')) else parts_read_loop content r n off [])"

text \<open>The reader of unchanged part files \<open>ps\<close>.\<close>

definition part_sizes :: "bytes list \<Rightarrow> int result list" where
  "part_sizes ps = map (\<lambda>p. Inr (int (length p))) ps"

definition start_list :: "bytes list \<Rightarrow> int list" where
  "start_list ps = map (\<lambda>i. int (length (concat (take i ps)))) [0..<length ps]"

lemma newPartsReader_parts:
  "newPartsReader (part_sizes ps) = Inr \<lparr>starts = start_list ps, size_all = int (length (concat ps))\<rparr>"
proof (induction ps rule: rev_induct)
  case Nil
  then show ?case by (simp add: newPartsReader_def part_sizes_def start_list_def)
next
  case (snoc p ps)
  have "map (\<lambda>i. int (length (concat (take i (ps @ [p]))))) [0..<length ps] = start_list ps"
    by (simp add: start_list_def)
  then have "start_list (ps @ [p]) = start_list ps @ [int (length (concat ps))]"
    by (simp add: start_list_def)
  with snoc show ?case by (simp add: newPartsReader_def part_sizes_def)
qed

definition parts_view :: "bytes list \<Rightarrow> parts_reader" where
  "parts_view ps = \<lparr>starts = start_list ps, size_all = int (length (concat ps))\<rparr>"

definition parts_content :: "bytes list \<Rightarrow> nat \<Rightarrow> bytes result" where
  "parts_content ps i = (if i < length ps then Inr (ps ! i) else Inl (IOError ''no such file''))"

text \<open>The part found for an offset of the stream holds that offset.\<close>

lemma concat_take_Suc: "i < length ps \<Longrightarrow> concat (take (Suc i) ps) = concat (take i ps) @ ps ! i"
  by (simp add: take_Suc_conv_app_nth)

lemma search_part_found:
  assumes "0 \<le> off" "off < int (length (concat ps))"
  defines "i \<equiv> search_part (parts_view ps) off"
  shows "i < length ps" and "int (length (concat (take i ps))) \<le> off"
    and "off < int (length (concat (take i ps))) + int (length (ps ! i))"
proof -
  let ?S = "start_list ps" and ?P = "\<lambda>s. s \<le> off"
  let ?k = "length (takeWhile ?P ?S)"
  have S: "length ?S = length ps" "\<And>j. j < length ps \<Longrightarrow> ?S ! j = int (length (concat (take j ps)))"
    by (simp_all add: start_list_def)
  have ne: "ps \<noteq> []" using assms(2) assms(1) by auto
  then have "?S ! 0 = 0" "0 < length ?S" using S by auto
  then have k0: "0 < ?k" using assms(1) by (cases ?S) auto
  have ki: "i = ?k - 1" by (simp add: i_def search_part_def parts_view_def)
  have kle: "?k \<le> length ps" using length_takeWhile_le [of ?P ?S] S by simp
  show i: "i < length ps" using k0 kle ki by linarith
  have "?P (?S ! i)"
    using set_takeWhileD [of "takeWhile ?P ?S ! i" ?P ?S] nth_mem [of i "takeWhile ?P ?S"] k0 ki takeWhile_nth [of i ?P ?S]
    by auto
  then show "int (length (concat (take i ps))) \<le> off" using S i by simp
  show "off < int (length (concat (take i ps))) + int (length (ps ! i))"
  proof (cases "?k = length ps")
    case True
    then have "Suc i = length ps" using k0 ki by simp
    then have "concat ps = concat (take i ps) @ ps ! i" using concat_take_Suc [OF i] by simp
    then show ?thesis using assms(2) by simp
  next
    case False
    then have "\<not> ?P (?S ! ?k)" using kle S nth_length_takeWhile [of ?P ?S] by simp
    moreover have "?k = Suc i" using k0 ki by simp
    ultimately show ?thesis using False kle S concat_take_Suc [OF i] by simp
  qed
qed

lemma concat_drop_part:
  assumes "i < length ps" "length (concat (take i ps)) \<le> k"
  shows "drop k (concat ps) = drop (k - length (concat (take i ps))) (ps ! i) @ drop (k - length (concat (take (Suc i) ps))) (concat (drop (Suc i) ps))"
proof -
  have "concat ps = concat (take i ps) @ ps ! i @ concat (drop (Suc i) ps)"
    using assms(1) by (metis append.assoc concat.simps(2) concat_append id_take_nth_drop)
  then show ?thesis using assms concat_take_Suc [OF assms(1)] by simp
qed

text \<open>One round reads a non-empty piece of the stream.\<close>

lemma parts_read_round:
  assumes "0 \<le> off" "off < int (length (concat ps))" "0 < n"
  shows "\<exists>got. got \<noteq> [] \<and> length got \<le> n \<and> got = take (length got) (drop (nat off) (concat ps))
    \<and> nat off + length got \<le> length (concat ps)
    \<and> parts_read_loop (parts_content ps) (parts_view ps) n off acc
       = parts_read_loop (parts_content ps) (parts_view ps) (n - length got) (off + int (length got)) (acc @ got)"
proof -
  let ?i = "search_part (parts_view ps) off"
  note f = search_part_found [OF assms(1,2)]
  let ?o = "nat off - length (concat (take ?i ps))"
  define got where "got = take n (drop ?o (ps ! ?i))"
  have o: "?o < length (ps ! ?i)" "length (concat (take ?i ps)) \<le> nat off" using f assms(1) by linarith+
  have ne: "got \<noteq> []" using o assms(3) by (simp add: got_def)
  have le: "length got \<le> n" by (simp add: got_def)
  have pre: "drop (nat off) (concat ps) = drop ?o (ps ! ?i) @ drop (nat off - length (concat (take (Suc ?i) ps))) (concat (drop (Suc ?i) ps))"
    by (rule concat_drop_part [OF f(1) o(2)])
  have lg: "length got \<le> length (drop ?o (ps ! ?i))" by (simp add: got_def)
  have tk: "got = take (length got) (drop (nat off) (concat ps))"
    unfolding pre using lg by (simp add: got_def min_def)
  have "length got \<le> length (drop (nat off) (concat ps))" by (subst tk) simp
  then have bound: "nat off + length got \<le> length (concat ps)" using assms(1,2) by (simp add: nat_less_iff)
  have st: "starts (parts_view ps) ! ?i = int (length (concat (take ?i ps)))"
    using f(1) by (simp add: parts_view_def start_list_def)
  have "nat (off - starts (parts_view ps) ! ?i) = ?o" using st by (simp add: nat_diff_distrib')
  then have fr: "file_read_at (ps ! ?i) n (off - starts (parts_view ps) ! ?i) = (got, length got < n)"
    by (simp add: file_read_at_def got_def)
  have "parts_read_loop (parts_content ps) (parts_view ps) n off acc
       = parts_read_loop (parts_content ps) (parts_view ps) (n - length got) (off + int (length got)) (acc @ got)"
    using assms f ne fr
    by (subst parts_read_loop.simps) (simp add: Let_def parts_content_def parts_view_def)
  with ne le tk bound show ?thesis by blast
qed

lemma parts_read_loop_stream:
  "0 \<le> off \<Longrightarrow> off \<le> int (length (concat ps)) \<Longrightarrow>
    parts_read_loop (parts_content ps) (parts_view ps) n off acc =
      (acc @ take n (drop (nat off) (concat ps)),
       if off + int n \<le> int (length (concat ps)) then None else Some EOF)"
proof (induction n arbitrary: off acc rule: less_induct)
  case (less n)
  show ?case
  proof (cases "n = 0 \<or> off = int (length (concat ps))")
    case True
    with less.prems show ?thesis by (subst parts_read_loop.simps) (auto simp: parts_view_def)
  next
    case False
    with less.prems obtain got where g: "got \<noteq> []" "length got \<le> n"
      "got = take (length got) (drop (nat off) (concat ps))" "nat off + length got \<le> length (concat ps)"
      "parts_read_loop (parts_content ps) (parts_view ps) n off acc
       = parts_read_loop (parts_content ps) (parts_view ps) (n - length got) (off + int (length got)) (acc @ got)"
      using parts_read_round [of off ps n acc] by auto
    let ?m = "n - length got"
    have "0 < length got" "0 < n" using g(1) False by auto
    then have "?m < n" by (rule diff_less)
    moreover have "0 \<le> off + int (length got)" "off + int (length got) \<le> int (length (concat ps))"
      using g less.prems by linarith+
    moreover have "nat (off + int (length got)) = length got + nat off" using less.prems by linarith
    moreover have "take n (drop (nat off) (concat ps)) = got @ take ?m (drop (length got + nat off) (concat ps))"
    proof -
      have "n = length got + ?m" using g by simp
      then have "take n (drop (nat off) (concat ps))
          = take (length got) (drop (nat off) (concat ps)) @ take ?m (drop (length got) (drop (nat off) (concat ps)))"
        by (metis take_add)
      then show ?thesis using g(3) by simp
    qed
    ultimately show ?thesis using less.IH [of ?m "off + int (length got)" "acc @ got"] g by auto
  qed
qed

interpretation parts: reader_at "PartsReadAt (parts_content ps) (parts_view ps)" "concat ps" for ps
proof
  fix n :: nat and off :: int assume "0 \<le> off" "off + int n \<le> int (length (concat ps))"
  then show "PartsReadAt (parts_content ps) (parts_view ps) n off = (take n (drop (nat off) (concat ps)), None)"
    using parts_read_loop_stream [of off ps n "[]"] by (simp add: PartsReadAt_def)
next
  fix n :: nat and off :: int assume a: "0 < n" "0 \<le> off" "int (length (concat ps)) < off + int n"
  show "PartsReadAt (parts_content ps) (parts_view ps) n off = (drop (nat off) (concat ps), Some EOF)"
  proof (cases "off \<le> int (length (concat ps))")
    case True
    with a parts_read_loop_stream [of off ps n "[]"] show ?thesis by (simp add: PartsReadAt_def)
  next
    case False
    then have "nat off \<ge> length (concat ps)" using a by auto
    with a False show ?thesis
      by (subst PartsReadAt_def, subst parts_read_loop.simps) (simp add: parts_view_def)
  qed
qed

end
