(* ===== verification/Recovery.thy ===== *)
theory Recovery
  imports Crypto Naming
begin

text \<open>
  Package \<open>internal/security/recovery\<close>: recovery codes. A code is 25 characters of an alphabet of
  32 (5 bits each) and a 5-character checksum. The hash comes from the \<open>crypto\<close> record. Characters
  are bytes, so a \<open>[]byte\<close> of text is a \<open>string\<close> here.
\<close>

definition recoveryAlphabet :: string where
  "recoveryAlphabet = ''0123456789ABCDEFGHJKMNPQRSTVWXYZ''"

definition recoveryDataChars :: nat where "recoveryDataChars = 25"
definition recoveryCheckChars :: nat where "recoveryCheckChars = 5"
definition recoveryGroupSize :: nat where "recoveryGroupSize = 5"

lemmas recovery_const_def = recoveryDataChars_def recoveryCheckChars_def recoveryGroupSize_def

record code =
  code_data :: string
  code_check :: string

section \<open>Operations\<close>

text \<open>The checksum: five groups of five bits from the first 32 bits of a hash.\<close>

definition recoveryChecksum :: "crypto \<Rightarrow> string \<Rightarrow> string" where
  "recoveryChecksum C data =
     (let sum = sha256 C (bytes_of_string ''RestoreSafe recovery code|'' @ bytes_of_string data);
          acc = be_nat (take 4 sum)
      in map (\<lambda>i. recoveryAlphabet ! (acc div 2 ^ (32 - 5 * (i + 1)) mod 32)) [0..<recoveryCheckChars])"

text \<open>The accumulator of \<open>Generate\<close> is a \<open>uint64\<close>; the two loops are \<open>gen_inner\<close> and \<open>gen_outer\<close>.\<close>

function gen_inner :: "64 word \<Rightarrow> nat \<Rightarrow> string \<Rightarrow> nat \<times> string" where
  "gen_inner acc nbits data =
     (if nbits \<ge> 5 \<and> length data < recoveryDataChars
      then gen_inner acc (nbits - 5)
             (data @ [recoveryAlphabet ! unat (drop_bit (nbits - 5) acc AND 0x1F)])
      else (nbits, data))"
  by pat_completeness auto
termination
  by (relation "measure (\<lambda>(acc, nbits, data). nbits)") auto

declare gen_inner.simps [simp del]

fun gen_outer :: "bytes \<Rightarrow> 64 word \<Rightarrow> nat \<Rightarrow> string \<Rightarrow> string" where
  "gen_outer [] acc nbits data = data"
| "gen_outer (b # raw) acc nbits data =
     (let acc = push_bit 8 acc OR ucast b in
      case gen_inner acc (nbits + 8) data of (nbits, data) \<Rightarrow> gen_outer raw acc nbits data)"

text \<open>\<open>raw\<close> is the result of \<open>RandomBytes(16)\<close>.\<close>

definition Generate :: "crypto \<Rightarrow> bytes result \<Rightarrow> code result" where
  "Generate C raw = bindE raw (\<lambda>raw.
     let data = gen_outer raw 0 0 []
     in Inr \<lparr>code_data = data, code_check = recoveryChecksum C data\<rparr>)"

definition Secret :: "code \<Rightarrow> bytes" where
  "Secret c = bytes_of_string (code_data c)"

definition Display :: "code \<Rightarrow> string" where
  "Display c = concat (map (\<lambda>i.
      (if i > 0 \<and> i mod recoveryGroupSize = 0 then ''-'' else [])
        @ [if i < recoveryDataChars then code_data c ! i else code_check c ! (i - recoveryDataChars)])
    [0..<recoveryDataChars + recoveryCheckChars])"

text \<open>
  One character of the input of \<open>Parse\<close>: \<open>None\<close> when it is skipped, an error when it is not in the
  alphabet. A byte beyond ASCII starts a rune that is not in the alphabet either.
\<close>

definition norm_char :: "char \<Rightarrow> char option result" where
  "norm_char c =
     (let r = ascii_upper c in
      if r = CHR '' '' \<or> r = CHR ''-'' \<or> r = CHR 0x09 then Inr None
      else let r = (if r = CHR ''I'' \<or> r = CHR ''L'' then CHR ''1''
                    else if r = CHR ''O'' then CHR ''0'' else r) in
        if (of_char r :: nat) \<ge> 128 \<or> r \<notin> set recoveryAlphabet
          then Inl (Problem ''The recovery code contains the invalid character %q.'')
        else Inr (Some r))"

fun parse_chars :: "string \<Rightarrow> nat \<Rightarrow> string \<Rightarrow> (nat \<times> string) result" where
  "parse_chars [] n all = Inr (n, all)"
| "parse_chars (c # input) n all = bindE (norm_char c) (\<lambda>m. case m of
      None \<Rightarrow> parse_chars input n all
    | Some r \<Rightarrow> parse_chars input (Suc n)
        (if length all < recoveryDataChars + recoveryCheckChars then all @ [r] else all))"

definition Parse :: "crypto \<Rightarrow> string \<Rightarrow> code result" where
  "Parse C input = bindE (parse_chars input 0 []) (\<lambda>(n, all).
     if n \<noteq> recoveryDataChars + recoveryCheckChars
       then Inl (Problem ''The recovery code must have %d characters (6 groups of 5), got %d.'')
     else let code = \<lparr>code_data = take recoveryDataChars all, code_check = drop recoveryDataChars all\<rparr> in
       if recoveryChecksum C (code_data code) \<noteq> code_check code
         then Inl (Problem ''The recovery code contains a typo (checksum mismatch).'')
       else Inr code)"

definition ValidCheck :: "string \<Rightarrow> bool" where
  "ValidCheck s \<longleftrightarrow> length s = recoveryCheckChars \<and> list_all (\<lambda>r. r \<in> set recoveryAlphabet) s"

section \<open>Generation\<close>

lemma length_recoveryAlphabet: "length recoveryAlphabet = 32"
  by (simp add: recoveryAlphabet_def)

lemma in_recoveryAlphabet: "k < 32 \<Longrightarrow> recoveryAlphabet ! k \<in> set recoveryAlphabet"
  by (simp add: length_recoveryAlphabet)

lemma ValidCheck_recoveryChecksum: "ValidCheck (recoveryChecksum C data)"
  by (simp add: ValidCheck_def recoveryChecksum_def Let_def list_all_iff in_recoveryAlphabet)

text \<open>
  What the loops compute: character \<open>i\<close> is the \<open>i\<close>-th group of five bits of the random number,
  most significant first. The overflow of the 64-bit accumulator never reaches a bit that is used.
\<close>

definition five_bits :: "nat \<Rightarrow> nat \<Rightarrow> char" where
  "five_bits N k = recoveryAlphabet ! (N div 2 ^ k mod 32)"

lemma and_31: "unat (w AND 0x1F :: 64 word) = unat w mod 32"
proof -
  have "w AND 0x1F = take_bit 5 w" by (simp add: take_bit_eq_mask mask_eq_exp_minus_1)
  then show ?thesis by (simp add: unat_mod_distrib take_bit_eq_mod)
qed

lemma word_push_byte:
  assumes "unat (acc :: 64 word) = be_nat P mod 2 ^ 64"
  shows "unat (push_bit 8 acc OR ucast (b :: byte)) = be_nat (P @ [b]) mod 2 ^ 64"
proof -
  have "push_bit 8 acc AND ucast b = 0"
    by (rule bit_eqI) (auto simp: bit_simps dest: bit_imp_le_length)
  then have "push_bit 8 acc OR ucast b = push_bit 8 acc + ucast b"
    by (simp add: disjunctive_add_eq_or)
  also have "unat \<dots> = (256 * unat acc + take_bit 64 (unat b)) mod 2 ^ 64"
    by (simp add: unat_word_ariths push_bit_eq_mult unsigned_ucast_eq mod_simps mult.commute)
  also have "take_bit 64 (unat b) = unat b"
    by (intro take_bit_nat_eq_self less_trans [OF unat_byte_less]) simp
  finally have "unat (push_bit 8 acc OR ucast b) = (256 * (be_nat P mod 2 ^ 64) + unat b) mod 2 ^ 64"
    by (simp add: assms)
  then show ?thesis by (metis be_nat_snoc mod_add_left_eq mod_mult_right_eq)
qed

lemma word_five_bits:
  assumes "unat (acc :: 64 word) = N mod 2 ^ 64" and "k + 5 \<le> 64"
  shows "unat (drop_bit k acc AND 0x1F) = N div 2 ^ k mod 32"
proof -
  have "(2::nat) ^ 64 = 2 ^ k * 2 ^ (64 - k)"
    using assms(2) by (simp flip: power_add)
  then have "unat acc div 2 ^ k = N div 2 ^ k mod 2 ^ (64 - k)"
    by (simp only: assms(1) mod_mult2_eq) simp
  moreover have "(32::nat) dvd 2 ^ (64 - k)"
    using assms(2) le_imp_power_dvd [of 5 "64 - k" "2::nat"] by simp
  ultimately have "unat acc div 2 ^ k mod 32 = N div 2 ^ k mod 32"
    by (simp add: mod_mod_cancel)
  moreover have "unat (drop_bit k acc AND 0x1F) = unat acc div 2 ^ k mod 32"
    unfolding and_31 unat_drop_bit_eq by (simp only: drop_bit_eq_div)
  ultimately show ?thesis by simp
qed

lemma gen_inner_five_bits:
  assumes "unat acc = N mod 2 ^ 64"
  shows "nbits \<le> 64 \<Longrightarrow> length data + nbits div 5 \<le> recoveryDataChars \<Longrightarrow> gen_inner acc nbits data =
    (nbits mod 5, data @ map (\<lambda>i. five_bits N (nbits - 5 * (i + 1))) [0..<nbits div 5])"
proof (induction nbits arbitrary: data rule: less_induct)
  case (less nbits)
  show ?case
  proof (cases "nbits \<ge> 5")
    case True
    let ?d = "data @ [recoveryAlphabet ! unat (drop_bit (nbits - 5) acc AND 0x1F)]"
    have m: "nbits div 5 = Suc ((nbits - 5) div 5)" "(nbits - 5) mod 5 = nbits mod 5"
      using True by (simp_all add: le_div_geq le_mod_geq)
    have c: "recoveryAlphabet ! unat (drop_bit (nbits - 5) acc AND 0x1F) = five_bits N (nbits - 5)"
      using word_five_bits [OF assms, of "nbits - 5"] less.prems True by (simp add: five_bits_def)
    have "map (\<lambda>i. five_bits N (nbits - 5 * (i + 1))) [0..<nbits div 5]
        = five_bits N (nbits - 5) # map (\<lambda>i. five_bits N (nbits - 5 - 5 * (i + 1))) [0..<(nbits - 5) div 5]"
      unfolding m(1) by (simp only: map_upt_Suc) (simp add: diff_diff_left)
    with less.IH [of "nbits - 5" ?d] True less.prems m c show ?thesis
      by (subst gen_inner.simps) simp
  next
    case False
    then show ?thesis by (subst gen_inner.simps) simp
  qed
qed

text \<open>The state after the bytes \<open>P\<close>: all full groups are printed, fewer than five bits are left.\<close>

definition five_bit_chars :: "bytes \<Rightarrow> string" where
  "five_bit_chars P = map (\<lambda>i. five_bits (be_nat P) (8 * length P - 5 * (i + 1))) [0..<8 * length P div 5]"

lemma upt_split: "[0..<a + b] = [0..<a] @ map (\<lambda>i. i + a) [0..<b]"
  by (metis add.commute add_0 le0 map_add_upt upt_add_eq_append)

lemma div_5_shift: "i < T div 5 \<Longrightarrow> T + 8 - 5 * (i + 1) = 8 + (T - 5 * (i + 1))" for T :: nat
proof -
  assume "i < T div 5"
  then have "5 * (i + 1) \<le> T" by presburger
  then show ?thesis by linarith
qed

lemma div_5_rest: "T + 8 - 5 * (i + T div 5 + 1) = T mod 5 + 8 - 5 * (i + 1)" for T :: nat
proof -
  have "T = 5 * (T div 5) + T mod 5" by simp
  then obtain q r where "T = 5 * q + r" "T div 5 = q" "T mod 5 = r" by blast
  then show ?thesis by simp
qed

lemma div_5_plus_8: "(x + 8) div 5 = x div 5 + (x mod 5 + 8) div (5::nat)"
  by presburger

lemma gen_outer_five_bits:
  "length (P @ raw) \<le> 16 \<Longrightarrow> unat acc = be_nat P mod 2 ^ 64 \<Longrightarrow>
   gen_outer raw acc (8 * length P mod 5) (five_bit_chars P) = five_bit_chars (P @ raw)"
proof (induction raw arbitrary: P acc)
  case Nil
  then show ?case by simp
next
  case (Cons b raw)
  let ?T = "8 * length P" and ?acc = "push_bit 8 acc OR ucast b"
  have acc: "unat ?acc = be_nat (P @ [b]) mod 2 ^ 64"
    using Cons.prems(2) by (rule word_push_byte)
  have len: "length (five_bit_chars P) + (?T mod 5 + 8) div 5 \<le> recoveryDataChars"
  proof -
    have "?T \<le> 120" using Cons.prems(1) by simp
    then have "(?T + 8) div 5 \<le> 25" by simp
    then have "?T div 5 + (?T mod 5 + 8) div 5 \<le> 25" by (simp only: div_5_plus_8 [symmetric])
    then show ?thesis by (simp add: five_bit_chars_def recoveryDataChars_def)
  qed
  have split: "[0..<(?T + 8) div 5] = [0..<?T div 5] @ map (\<lambda>i. i + ?T div 5) [0..<(?T mod 5 + 8) div 5]"
    by (simp only: div_5_plus_8 [of ?T] upt_split)
  have old: "five_bits (be_nat (P @ [b])) (?T + 8 - 5 * (i + 1)) = five_bits (be_nat P) (?T - 5 * (i + 1))"
    if "i < ?T div 5" for i
  proof -
    have "?T + 8 - 5 * (i + 1) = 8 + (?T - 5 * (i + 1))" using that by (rule div_5_shift)
    moreover have "be_nat (P @ [b]) div 256 = be_nat P" by simp
    ultimately show ?thesis by (simp only: five_bits_def power_add div_mult2_eq) simp
  qed
  have new: "?T + 8 - 5 * (i + ?T div 5 + 1) = ?T mod 5 + 8 - 5 * (i + 1)" for i
    by (rule div_5_rest)
  have "five_bit_chars (P @ [b]) = five_bit_chars P
      @ map (\<lambda>i. five_bits (be_nat (P @ [b])) (?T mod 5 + 8 - 5 * (i + 1))) [0..<(?T mod 5 + 8) div 5]"
  proof -
    have "8 * length (P @ [b]) = ?T + 8" by simp
    then have "five_bit_chars (P @ [b])
        = map (\<lambda>i. five_bits (be_nat (P @ [b])) (?T + 8 - 5 * (i + 1))) [0..<(?T + 8) div 5]"
      by (simp only: five_bit_chars_def)
    also have "\<dots> = map (\<lambda>i. five_bits (be_nat (P @ [b])) (?T + 8 - 5 * (i + 1))) [0..<?T div 5]
        @ map (\<lambda>i. five_bits (be_nat (P @ [b])) (?T mod 5 + 8 - 5 * (i + 1))) [0..<(?T mod 5 + 8) div 5]"
      by (simp only: split map_append map_map comp_def new)
    also have "map (\<lambda>i. five_bits (be_nat (P @ [b])) (?T + 8 - 5 * (i + 1))) [0..<?T div 5] = five_bit_chars P"
      unfolding five_bit_chars_def by (rule map_cong [OF refl]) (simp only: old set_upt atLeastLessThan_iff)
    finally show ?thesis .
  qed
  then have "gen_inner ?acc (?T mod 5 + 8) (five_bit_chars P)
      = (8 * length (P @ [b]) mod 5, five_bit_chars (P @ [b]))"
    using gen_inner_five_bits [OF acc _ len] by simp presburger
  then show ?case
    using Cons.IH [OF _ acc] Cons.prems(1) by simp
qed

lemma Generate_ok:
  "length raw = 16 \<Longrightarrow> Generate C (Inr raw)
     = Inr \<lparr>code_data = five_bit_chars raw, code_check = recoveryChecksum C (five_bit_chars raw)\<rparr>"
  using gen_outer_five_bits [of "[]" raw 0] by (simp add: Generate_def Let_def five_bit_chars_def)

text \<open>\<open>Generate\<close> prints the first 125 of the 128 random bits, five per character and most
  significant first, with their checksum; although the loop shifts 128 bits through a 64-bit
  accumulator, no bit that is printed is lost.\<close>

lemma Generate_prints_random_bits:
  assumes "length raw = 16"
  shows "Generate C (Inr raw) = Inr \<lparr>code_data = map (\<lambda>i. recoveryAlphabet ! (be_nat raw div 2 ^ (123 - 5 * i) mod 32))
             [0..<recoveryDataChars], code_check = recoveryChecksum C (map (\<lambda>i. recoveryAlphabet ! (be_nat raw div 2 ^ (123 - 5 * i) mod 32))
             [0..<recoveryDataChars])\<rparr>"
proof -
  have "five_bit_chars raw = map (\<lambda>i. recoveryAlphabet ! (be_nat raw div 2 ^ (123 - 5 * i) mod 32)) [0..<recoveryDataChars]"
    using assms by (simp add: five_bit_chars_def five_bits_def recoveryDataChars_def)
  with Generate_ok [OF assms] show ?thesis by simp
qed

lemma be_nat_zeros: "be_nat (replicate k 0) = 0"
  by (induction k) (simp_all add: replicate_append_same [symmetric])

lemma Generate_prints_random_bits_witness:
  "Generate demo_crypto (Inr (replicate 15 0 @ [0xF8])) = Inr \<lparr>code_data = ''000000000000000000000000Z'',
     code_check = recoveryChecksum demo_crypto (''000000000000000000000000Z'')\<rparr>"
proof -
  have "map (\<lambda>i. recoveryAlphabet ! (be_nat (replicate 15 0 @ [0xF8]) div 2 ^ (123 - 5 * i) mod 32)) [0..<recoveryDataChars]
      = ''000000000000000000000000Z''"
    by (simp add: recoveryDataChars_def recoveryAlphabet_def be_nat_zeros upt_rec)
  with Generate_prints_random_bits [of "replicate 15 0 @ [0xF8]" demo_crypto] show ?thesis by simp
qed

section \<open>Parsing what was displayed\<close>

definition well_formed :: "crypto \<Rightarrow> code \<Rightarrow> bool" where
  "well_formed C c \<longleftrightarrow> length (code_data c) = recoveryDataChars \<and> set (code_data c) \<subseteq> set recoveryAlphabet
     \<and> code_check c = recoveryChecksum C (code_data c)"

lemma length_recoveryChecksum: "length (recoveryChecksum C d) = recoveryCheckChars"
  by (simp add: recoveryChecksum_def Let_def)

lemma set_recoveryChecksum: "set (recoveryChecksum C d) \<subseteq> set recoveryAlphabet"
  using ValidCheck_recoveryChecksum [of C d] by (auto simp: ValidCheck_def list_all_iff)

lemma norm_char_alphabet: "c \<in> set recoveryAlphabet \<Longrightarrow> norm_char c = Inr (Some c)"
proof -
  have "list_all (\<lambda>c. norm_char c = Inr (Some c)) recoveryAlphabet" by code_simp
  then show "c \<in> set recoveryAlphabet \<Longrightarrow> norm_char c = Inr (Some c)" by (simp add: list_all_iff)
qed

lemma norm_char_dash: "norm_char (CHR ''-'') = Inr None"
  by code_simp

lemma norm_char_Some: "norm_char c = Inr (Some r) \<Longrightarrow> r \<in> set recoveryAlphabet"
  by (auto simp: norm_char_def Let_def split: if_splits)

text \<open>The characters the parser keeps of an input, or its first error.\<close>

fun normalized :: "string \<Rightarrow> string result" where
  "normalized [] = Inr []"
| "normalized (c # input) = bindE (norm_char c) (\<lambda>m. bindE (normalized input) (\<lambda>cs.
     Inr (case m of None \<Rightarrow> cs | Some r \<Rightarrow> r # cs)))"

lemma normalized_alphabet: "normalized input = Inr cs \<Longrightarrow> set cs \<subseteq> set recoveryAlphabet"
  by (induction input arbitrary: cs) (auto simp: e_iff norm_char_Some split: option.splits)

lemma normalized_append:
  "normalized (a @ b) = bindE (normalized a) (\<lambda>x. bindE (normalized b) (\<lambda>y. Inr (x @ y)))"
proof (induction a)
  case Nil
  then show ?case by (cases "normalized b") simp_all
next
  case (Cons c a)
  then show ?case
    by (cases "norm_char c"; cases "normalized a"; cases "normalized b") (auto split: option.splits)
qed

lemma parse_chars_normalized:
  "length all = min n 30 \<Longrightarrow> parse_chars input n all =
     bindE (normalized input) (\<lambda>cs. Inr (n + length cs, take 30 (all @ cs)))"
proof (induction input arbitrary: n all)
  case Nil
  then show ?case by simp
next
  case (Cons c input)
  show ?case
  proof (cases "norm_char c")
    case (Inl e)
    then show ?thesis by simp
  next
    case (Inr m)
    show ?thesis
    proof (cases m)
      case None
      with Cons Inr show ?thesis by (cases "normalized input") simp_all
    next
      case (Some r)
      with Cons Inr show ?thesis
        by (cases "normalized input") (auto simp: recovery_const_def min_def take_Cons')
    qed
  qed
qed

lemma Parse_iff:
  "Parse C input = Inr c \<longleftrightarrow> normalized input = Inr (code_data c @ code_check c) \<and> well_formed C c"
proof -
  have "Parse C input = Inr c \<longleftrightarrow> (\<exists>cs. normalized input = Inr cs \<and> length cs = 30
      \<and> code_data c = take 25 cs \<and> code_check c = drop 25 cs \<and> recoveryChecksum C (take 25 cs) = drop 25 cs)"
    by (cases c) (auto simp: Parse_def e_iff parse_chars_normalized recovery_const_def Let_def split: if_splits)
  also have "\<dots> \<longleftrightarrow> normalized input = Inr (code_data c @ code_check c) \<and> well_formed C c"
    (is "?l \<longleftrightarrow> ?r")
  proof
    assume ?l
    then obtain cs where cs: "normalized input = Inr cs" "length cs = 30" "code_data c = take 25 cs"
      "code_check c = drop 25 cs" "recoveryChecksum C (take 25 cs) = drop 25 cs" by blast
    have "set cs \<subseteq> set recoveryAlphabet" using cs(1) by (rule normalized_alphabet)
    with cs show ?r by (auto simp: well_formed_def recovery_const_def dest: in_set_takeD)
  next
    assume ?r
    then show ?l
      using length_recoveryChecksum [of C "code_data c"] by (auto simp: well_formed_def recovery_const_def)
  qed
  finally show ?thesis .
qed

lemma normalized_id: "set cs \<subseteq> set recoveryAlphabet \<Longrightarrow> normalized cs = Inr cs"
  by (induction cs) (simp_all add: norm_char_alphabet)

lemma normalized_Display:
  assumes "well_formed C c"
  shows "normalized (Display c) = Inr (code_data c @ code_check c)"
proof -
  let ?s = "code_data c @ code_check c"
  have len: "length (code_data c) = 25" "length (code_check c) = 5" and set: "set ?s \<subseteq> set recoveryAlphabet"
    using assms length_recoveryChecksum set_recoveryChecksum
    by (auto simp: well_formed_def recovery_const_def)
  have prefix: "normalized (concat (map (\<lambda>i. (if i > 0 \<and> i mod 5 = 0 then ''-'' else []) @ [?s ! i]) [0..<k]))
      = Inr (take k ?s)" if "k \<le> 30" for k
    using that
  proof (induction k)
    case 0
    then show ?case by simp
  next
    case (Suc k)
    have "?s ! k \<in> set recoveryAlphabet" using Suc.prems set len by (intro subsetD [OF set] nth_mem) simp
    with Suc len show ?case
      by (simp add: normalized_append norm_char_alphabet take_Suc_conv_app_nth norm_char_dash
          del: take_append)
  qed
  have "Display c = concat (map (\<lambda>i. (if i > 0 \<and> i mod 5 = 0 then ''-'' else []) @ [?s ! i]) [0..<30])"
    unfolding Display_def recovery_const_def using len
    by (intro arg_cong [where f = concat] map_cong) (auto simp: nth_append)
  with prefix [of 30] len show ?thesis by simp
qed

text \<open>
  \<open>Parse\<close> reads what \<open>Display\<close> prints, whatever the case of its letters, its spacing and its dashes.
\<close>

interpretation code_codec: codec Display "Parse C" "well_formed C" for C
  by unfold_locales (simp add: Parse_iff normalized_Display)

lemma Generate_well_formed: "length raw = 16 \<Longrightarrow> Generate C (Inr raw) = Inr c \<Longrightarrow> well_formed C c"
  by (auto simp: Generate_ok well_formed_def five_bit_chars_def five_bits_def recoveryDataChars_def
      in_recoveryAlphabet)

text \<open>How a user may type the display form \<open>s\<close>.\<close>

definition typed_char :: "char \<Rightarrow> char \<Rightarrow> bool" where
  "typed_char a b \<longleftrightarrow> ascii_upper b = a \<or> (a = CHR ''0'' \<and> ascii_upper b = CHR ''O'')
     \<or> (a = CHR ''1'' \<and> ascii_upper b \<in> {CHR ''I'', CHR ''L''})"

inductive typed :: "string \<Rightarrow> string \<Rightarrow> bool" where
  typed_Nil: "typed [] []"
| typed_add: "typed s t \<Longrightarrow> c \<in> {CHR '' '', CHR ''-'', CHR 0x09} \<Longrightarrow> typed s (c # t)"
| typed_omit: "typed s t \<Longrightarrow> typed (CHR ''-'' # s) t"
| typed_char: "typed s t \<Longrightarrow> typed_char a b \<Longrightarrow> typed (a # s) (b # t)"

lemma norm_char_skip: "c \<in> {CHR '' '', CHR ''-'', CHR 0x09} \<Longrightarrow> norm_char c = Inr None"
  by (auto simp: norm_char_def ascii_upper_def)

lemma ascii_upper_fixed: "a \<in> set recoveryAlphabet \<union> {CHR ''-''} \<Longrightarrow> ascii_upper a = a \<and> a \<notin> set ''ILO''"
proof -
  have "list_all (\<lambda>a. ascii_upper a = a \<and> a \<notin> set ''ILO'') (CHR ''-'' # recoveryAlphabet)" by code_simp
  then show "a \<in> set recoveryAlphabet \<union> {CHR ''-''} \<Longrightarrow> ascii_upper a = a \<and> a \<notin> set ''ILO''"
    by (auto simp: list_all_iff)
qed

lemma norm_char_upper: "ascii_upper b = ascii_upper a \<Longrightarrow> norm_char b = norm_char a"
  by (simp only: norm_char_def)

lemma norm_char_letters:
  "ascii_upper (CHR ''O'') = CHR ''O''" "ascii_upper (CHR ''I'') = CHR ''I''" "ascii_upper (CHR ''L'') = CHR ''L''"
  "norm_char (CHR ''O'') = norm_char (CHR ''0'')" "norm_char (CHR ''I'') = norm_char (CHR ''1'')"
  "norm_char (CHR ''L'') = norm_char (CHR ''1'')"
  by code_simp+

lemma norm_char_typed:
  "typed_char a b \<Longrightarrow> a \<in> set recoveryAlphabet \<union> {CHR ''-''} \<Longrightarrow> norm_char b = norm_char a"
proof -
  assume ab: "typed_char a b" "a \<in> set recoveryAlphabet \<union> {CHR ''-''}"
  have "ascii_upper a = a" using ascii_upper_fixed [OF ab(2)] by simp
  with ab consider "ascii_upper b = ascii_upper a" | "a = CHR ''0''" "ascii_upper b = ascii_upper (CHR ''O'')"
    | "a = CHR ''1''" "ascii_upper b = ascii_upper (CHR ''I'')"
    | "a = CHR ''1''" "ascii_upper b = ascii_upper (CHR ''L'')"
    unfolding typed_char_def norm_char_letters by fastforce
  then show ?thesis by cases (metis norm_char_upper norm_char_letters(4-6))+
qed

lemma normalized_typed:
  "typed s t \<Longrightarrow> set s \<subseteq> set recoveryAlphabet \<union> {CHR ''-''} \<Longrightarrow> normalized t = normalized s"
proof (induction rule: typed.induct)
  case (typed_char s t a b)
  then show ?case using norm_char_typed [of a b] by simp
next
  case (typed_add s t c)
  then show ?case using norm_char_skip [of c] by (cases "normalized s") simp_all
next
  case (typed_omit s t)
  then show ?case by (cases "normalized s") (simp_all add: norm_char_dash)
qed simp

lemma set_Display: "well_formed C c \<Longrightarrow> set (Display c) \<subseteq> set recoveryAlphabet \<union> {CHR ''-''}"
proof -
  assume wf: "well_formed C c"
  then have len: "length (code_data c) = 25" "length (code_check c) = 5"
    and set: "set (code_data c @ code_check c) \<subseteq> set recoveryAlphabet"
    using length_recoveryChecksum set_recoveryChecksum by (auto simp: well_formed_def recovery_const_def)
  have char: "(if i < 25 then code_data c ! i else code_check c ! (i - 25)) \<in> set recoveryAlphabet" if "i < 30" for i
    using that len subsetD [OF set nth_mem, of i] by (auto simp: nth_append)
  show ?thesis
    unfolding Display_def recovery_const_def using char by (fastforce split: if_splits)
qed

lemma Parse_typed:
  "length raw = 16 \<Longrightarrow> Generate C (Inr raw) = Inr c \<Longrightarrow> typed (Display c) t \<Longrightarrow> Parse C t = Inr c"
proof -
  assume *: "length raw = 16" "Generate C (Inr raw) = Inr c" "typed (Display c) t"
  have wf: "well_formed C c" using * Generate_well_formed by blast
  have "normalized t = normalized (Display c)" by (rule normalized_typed [OF *(3) set_Display [OF wf]])
  with wf show ?thesis by (simp add: Parse_iff normalized_Display)
qed

text \<open>What a user types from the recovery sheet gives the code back: every code \<open>Generate\<close> made is
  parsed from its display form, also when letters were typed in lower case, \<open>O\<close> for zero or \<open>I\<close> and \<open>L\<close>
  for one, and with spaces, tabs and dashes added or dashes left out anywhere.\<close>

lemma Parse_typed_code:
  assumes "length raw = 16" "Generate C (Inr raw) = Inr c" "typed (Display c) t"
  shows "Parse C t = Inr c"
  using assms by (rule Parse_typed)

lemma typed_refl: "set s \<subseteq> set recoveryAlphabet \<union> {CHR ''-''} \<Longrightarrow> typed s s"
  by (induction s) (auto intro!: typed.intros simp: typed_char_def ascii_upper_fixed)

definition zero_code :: code where
  "zero_code = \<lparr>code_data = replicate 25 (CHR ''0''),
     code_check = recoveryChecksum demo_crypto (replicate 25 (CHR ''0''))\<rparr>"

lemma zero_code_wf: "well_formed demo_crypto zero_code"
  by (simp add: well_formed_def zero_code_def recovery_const_def recoveryAlphabet_def)

lemma zero_code_Generate: "Generate demo_crypto (Inr (replicate 16 0)) = Inr zero_code"
proof -
  have "five_bit_chars (replicate 16 0) = replicate 25 (CHR ''0'')"
    by (simp add: five_bit_chars_def five_bits_def be_nat_zeros recoveryAlphabet_def map_replicate_const)
  then show ?thesis by (simp add: Generate_ok zero_code_def)
qed

lemma Parse_typed_code_witness:
  "Parse demo_crypto (CHR '' '' # Display zero_code) = Inr zero_code"
  by (rule Parse_typed_code [OF _ zero_code_Generate typed_add [OF typed_refl [OF set_Display [OF zero_code_wf]]]])
    simp_all

text \<open>What \<open>Parse\<close> accepts is well formed: 25 data characters of the alphabet and the five checksum
  characters that belong to them, whatever was typed; the recovery slot's check group is then valid.\<close>

lemma Parse_accepts_well_formed:
  assumes "Parse C input = Inr c"
  shows "well_formed C c \<and> ValidCheck (code_check c) \<and> Parse C (Display c) = Inr c"
  using assms ValidCheck_recoveryChecksum [of C "code_data c"] code_codec.dec_enc [of C c]
  by (auto simp: Parse_iff well_formed_def)

lemma Parse_accepts_well_formed_witness:
  "well_formed demo_crypto zero_code \<and> ValidCheck (code_check zero_code)"
  using Parse_accepts_well_formed [OF code_codec.dec_enc [OF zero_code_wf]] by blast

end
