(* ===== verification/KeySet.thy ===== *)
theory KeySet
  imports Crypto Recovery Encoding
begin

text \<open>
  Key sets (\<open>format/container/keyset.go\<close>), the YubiKey challenge of their slots
  (\<open>security/yubikey/challenge.go\<close>) and the authentication modes (\<open>config/config.go\<close>). A key set is
  a random master key wrapped once per credential. Random bytes, the clock and the parser of
  RFC 3339 times (\<open>parse_time\<close>, nanoseconds since an epoch) are arguments.
\<close>

section \<open>Authentication modes\<close>

type_synonym auth_mode = int

definition AuthModePassword :: auth_mode where "AuthModePassword = 1"
definition AuthModePasswordYubiKey :: auth_mode where "AuthModePasswordYubiKey = 2"
definition AuthModeYubiKey :: auth_mode where "AuthModeYubiKey = 3"

lemmas auth_mode_def = AuthModePassword_def AuthModePasswordYubiKey_def AuthModeYubiKey_def

definition AuthModeUsesYubiKey :: "auth_mode \<Rightarrow> bool" where
  "AuthModeUsesYubiKey a \<longleftrightarrow> a = AuthModePasswordYubiKey \<or> a = AuthModeYubiKey"

section \<open>The YubiKey challenge\<close>

record challenge_data =
  cd_Version :: int
  cd_NoPassword :: bool
  cd_CredID :: string
  cd_Salt :: string
  cd_Sum :: string

definition fido2CredIDMax :: nat where "fido2CredIDMax = 4096"
definition fido2SaltSize :: nat where "fido2SaltSize = 32"

definition challengeChecksum :: "crypto \<Rightarrow> challenge_data \<Rightarrow> string" where
  "challengeChecksum C cd =
     (let canonical = ''v='' @ show_int (cd_Version cd) @ '';nopw=''
            @ (if cd_NoPassword cd then ''true'' else ''false'')
            @ '';cred_id='' @ cd_CredID cd @ '';salt='' @ cd_Salt cd
      in b64_encode (sha256 C (bytes_of_string canonical)))"

text \<open>
  \<open>parseChallengeData\<close> after \<open>json.Unmarshal\<close>. \<open>validateSlot\<close> marshals the challenge and parses the
  result; that round trip changes only bytes that are not UTF-8, and a credential ID, salt or
  checksum with such a byte fails these checks before and after it.
\<close>

definition checkChallengeData :: "crypto \<Rightarrow> challenge_data \<Rightarrow> unit result" where
  "checkChallengeData C cd =
     (case b64_decode (cd_CredID cd) of
        None \<Rightarrow> Inl (Internal ''challenge credential ID is missing or invalid'')
      | Some credID \<Rightarrow>
          if length credID = 0 \<or> length credID > fido2CredIDMax
            then Inl (Internal ''challenge credential ID is missing or invalid'')
          else case b64_decode (cd_Salt cd) of
            None \<Rightarrow> Inl (Internal ''challenge salt is missing or wrong length (want %d bytes)'')
          | Some salt \<Rightarrow>
              if length salt \<noteq> fido2SaltSize
                then Inl (Internal ''challenge salt is missing or wrong length (want %d bytes)'')
              else if cd_Sum cd \<noteq> [] \<and> cd_Sum cd \<noteq> challengeChecksum C cd
                then Inl (Internal ''YubiKey challenge is damaged (integrity checksum mismatch)'')
              else Inr ())"

text \<open>
  The challenge \<open>CombineWithPassword\<close> stores for a new credential and a random salt, and the key
  material it combines.
\<close>

definition NewChallenge :: "crypto \<Rightarrow> bytes \<Rightarrow> bytes \<Rightarrow> bool \<Rightarrow> challenge_data" where
  "NewChallenge C credID salt noPassword =
     (let cd = \<lparr>cd_Version = 1, cd_NoPassword = noPassword, cd_CredID = b64_encode credID,
                cd_Salt = b64_encode salt, cd_Sum = []\<rparr>
      in cd\<lparr>cd_Sum := challengeChecksum C cd\<rparr>)"

definition CombinePasswordWithSecret :: "bytes \<Rightarrow> bytes \<Rightarrow> bytes" where
  "CombinePasswordWithSecret password secret = password @ secret"

lemma challengeChecksum_Sum [simp]: "challengeChecksum C (cd\<lparr>cd_Sum := s\<rparr>) = challengeChecksum C cd"
  by (simp add: challengeChecksum_def)

lemma NewChallenge_ok:
  "0 < length credID \<Longrightarrow> length credID \<le> fido2CredIDMax \<Longrightarrow> length salt = fido2SaltSize \<Longrightarrow>
     checkChallengeData C (NewChallenge C credID salt np) = Inr ()"
  by (simp add: checkChallengeData_def NewChallenge_def Let_def challengeChecksum_def)

section \<open>Slots and key sets\<close>

definition SlotPassword :: string where "SlotPassword = ''password''"
definition SlotPasswordYubiKey :: string where "SlotPasswordYubiKey = ''password_yubikey''"
definition SlotYubiKey :: string where "SlotYubiKey = ''yubikey''"
definition SlotRecovery :: string where "SlotRecovery = ''recovery''"

lemmas slot_type_def = SlotPassword_def SlotPasswordYubiKey_def SlotYubiKey_def SlotRecovery_def

definition keySetIDLen :: nat where "keySetIDLen = 16"
definition kdfAlgArgon2 :: string where "kdfAlgArgon2 = ''argon2id''"
definition wrappedKeyLen :: nat where "wrappedKeyLen = KeyLen + 16"
definition slotAADLabel :: string where "slotAADLabel = ''RestoreSafe v2 slot''"
definition infoData :: string where "infoData = ''RestoreSafe v2 data''"
definition infoManifest :: string where "infoManifest = ''RestoreSafe v2 manifest''"

record kdf =
  kdf_Alg :: string
  kdf_Salt :: bytes
  kdf_Time :: "32 word"
  kdf_MemoryKiB :: "32 word"
  kdf_Threads :: "32 word"

text \<open>\<open>uint8(k.Threads)\<close> keeps the low eight bits.\<close>

definition kdf_params :: "kdf \<Rightarrow> argon2_params" where
  "kdf_params k = \<lparr>Time = kdf_Time k, MemoryKB = kdf_MemoryKiB k, Threads = ucast (kdf_Threads k)\<rparr>"

record slot =
  slot_Type :: string
  slot_Label :: string
  slot_KDF :: kdf
  slot_Challenge :: "challenge_data option"
  slot_Check :: string
  slot_Nonce :: bytes
  slot_Wrapped :: bytes

definition SlotUsesYubiKey :: "slot \<Rightarrow> bool" where
  "SlotUsesYubiKey s \<longleftrightarrow> slot_Type s = SlotPasswordYubiKey \<or> slot_Type s = SlotYubiKey"

definition SlotUsesPassword :: "slot \<Rightarrow> bool" where
  "SlotUsesPassword s \<longleftrightarrow> slot_Type s = SlotPassword \<or> slot_Type s = SlotPasswordYubiKey"

record keyset =
  ks_ID :: string
  ks_CreatedUTC :: string
  ks_AuthMode :: auth_mode
  ks_Slots :: "slot list"

definition NewKeySet :: "auth_mode \<Rightarrow> bytes result \<Rightarrow> bytes result \<Rightarrow> string \<Rightarrow> (keyset \<times> bytes) result" where
  "NewKeySet authMode rid master now =
     bindE rid (\<lambda>rid. bindE master (\<lambda>master.
       Inr (\<lparr>ks_ID = hex_encode rid, ks_CreatedUTC = now, ks_AuthMode = authMode, ks_Slots = []\<rparr>, master)))"

text \<open>\<open>Created\<close>; the zero time is 0.\<close>

definition KeySetCreated :: "(string \<Rightarrow> int option) \<Rightarrow> keyset \<Rightarrow> int" where
  "KeySetCreated parse_time ks = (case parse_time (ks_CreatedUTC ks) of None \<Rightarrow> 0 | Some t \<Rightarrow> t)"

definition slotAAD :: "string \<Rightarrow> nat \<Rightarrow> string \<Rightarrow> bytes" where
  "slotAAD keySetID index slotType =
     bytes_of_string slotAADLabel @ bytes_of_string keySetID @ be_bytes 4 index @ bytes_of_string slotType"

text \<open>\<open>salt\<close> and \<open>nonce\<close> are the results of the two calls of \<open>RandomBytes\<close>.\<close>

definition AddSlot ::
  "crypto \<Rightarrow> keyset \<Rightarrow> bytes \<Rightarrow> string \<Rightarrow> string \<Rightarrow> bytes \<Rightarrow> argon2_params \<Rightarrow> challenge_data option \<Rightarrow> string
     \<Rightarrow> bytes result \<Rightarrow> bytes result \<Rightarrow> keyset result" where
  "AddSlot C ks master slotType label secret params challenge check salt nonce =
     bindE salt (\<lambda>salt. bindE nonce (\<lambda>nonce.
     bindE (DeriveKEK C secret salt params) (\<lambda>kek.
       let index = length (ks_Slots ks) in
       bindE (SealKey C kek nonce master (slotAAD (ks_ID ks) index slotType)) (\<lambda>wrapped.
         Inr (ks\<lparr>ks_Slots := ks_Slots ks @ [
           \<lparr>slot_Type = slotType, slot_Label = label,
            slot_KDF = \<lparr>kdf_Alg = kdfAlgArgon2, kdf_Salt = salt, kdf_Time = Time params,
                        kdf_MemoryKiB = MemoryKB params, kdf_Threads = ucast (Threads params)\<rparr>,
            slot_Challenge = challenge, slot_Check = check, slot_Nonce = nonce, slot_Wrapped = wrapped\<rparr>]\<rparr>)))))"

definition Unlock :: "crypto \<Rightarrow> keyset \<Rightarrow> int \<Rightarrow> bytes \<Rightarrow> bytes result" where
  "Unlock C ks index secret =
     (if index < 0 \<or> index \<ge> int (length (ks_Slots ks))
        then Inl (Internal ''Internal error: key slot %d does not exist.'')
      else let slot = ks_Slots ks ! nat index in
        bindE (DeriveKEK C secret (kdf_Salt (slot_KDF slot)) (kdf_params (slot_KDF slot))) (\<lambda>kek.
          OpenKey C kek (slot_Nonce slot) (slot_Wrapped slot) (slotAAD (ks_ID ks) (nat index) (slot_Type slot))))"

definition SlotIndexes :: "keyset \<Rightarrow> string \<Rightarrow> nat list" where
  "SlotIndexes ks slotType = filter (\<lambda>i. slot_Type (ks_Slots ks ! i) = slotType) [0..<length (ks_Slots ks)]"

definition RegularSlotType :: "auth_mode \<Rightarrow> string" where
  "RegularSlotType authMode =
     (if authMode = AuthModePasswordYubiKey then SlotPasswordYubiKey
      else if authMode = AuthModeYubiKey then SlotYubiKey
      else SlotPassword)"

definition HasSlotType :: "keyset \<Rightarrow> string \<Rightarrow> bool" where
  "HasSlotType ks slotType \<longleftrightarrow> length (SlotIndexes ks slotType) > 0"

section \<open>Validation\<close>

definition headerErr :: "string \<Rightarrow> err" where
  "headerErr msg = Problem (''Invalid backup header: '' @ msg @ ''.'')"

definition validateSlot :: "crypto \<Rightarrow> slot \<Rightarrow> unit result" where
  "validateSlot C s =
     bindE (checkE (slot_Label s \<noteq> [] \<and> length (slot_Label s) \<le> 100) (Internal ''invalid label'')) (\<lambda>_.
     bindE (checkE (kdf_Alg (slot_KDF s) = kdfAlgArgon2 \<and> length (kdf_Salt (slot_KDF s)) = SaltLen)
              (Internal ''invalid key derivation settings'')) (\<lambda>_.
     bindE (ValidateArgon2Params (kdf_Time (slot_KDF s)) (kdf_MemoryKiB (slot_KDF s)) (kdf_Threads (slot_KDF s))) (\<lambda>_.
     bindE (checkE (length (slot_Nonce s) = NonceLen \<and> length (slot_Wrapped s) = wrappedKeyLen)
              (Internal ''invalid wrapped key'')) (\<lambda>_.
     bindE (if SlotUsesYubiKey s then
              (case slot_Challenge s of
                 None \<Rightarrow> Inl (Internal ''missing YubiKey challenge'')
               | Some cd \<Rightarrow> bindE (checkChallengeData C cd) (\<lambda>_.
                   checkE (cd_NoPassword cd = (slot_Type s = SlotYubiKey))
                     (Internal ''YubiKey challenge does not match the slot type'')))
            else checkE (slot_Challenge s = None) (Internal ''unexpected YubiKey challenge'')) (\<lambda>_.
     if slot_Type s = SlotRecovery
       then checkE (ValidCheck (slot_Check s)) (Internal ''invalid recovery check field'')
       else checkE (slot_Check s = []) (Internal ''unexpected recovery check field''))))))"

text \<open>The loop over the slots: \<open>regularCount\<close> and \<open>recoveryCount\<close>.\<close>

fun count_slots :: "crypto \<Rightarrow> string \<Rightarrow> slot list \<Rightarrow> nat \<Rightarrow> nat \<Rightarrow> (nat \<times> nat) result" where
  "count_slots C regular [] r c = Inr (r, c)"
| "count_slots C regular (s # ss) r c =
     (if slot_Type s = regular \<or> slot_Type s = SlotRecovery then
        (case validateSlot C s of
           Inl e \<Rightarrow> Inl (headerErr ''slot %d: %v'')
         | Inr _ \<Rightarrow> if slot_Type s = regular then count_slots C regular ss (Suc r) c
                     else count_slots C regular ss r (Suc c))
      else Inl (headerErr ''slot %d has type %q, which does not match authentication mode %d''))"

definition ValidateKeySet :: "crypto \<Rightarrow> (string \<Rightarrow> int option) \<Rightarrow> keyset \<Rightarrow> unit result" where
  "ValidateKeySet C parse_time ks =
     (if (case hex_decode (ks_ID ks) of None \<Rightarrow> True | Some raw \<Rightarrow> length raw \<noteq> keySetIDLen)
        then Inl (headerErr ''invalid key set ID'')
      else if parse_time (ks_CreatedUTC ks) = None
        then Inl (headerErr ''invalid key set creation time'')
      else let regular = RegularSlotType (ks_AuthMode ks) in
      if ks_AuthMode ks < AuthModePassword \<or> ks_AuthMode ks > AuthModeYubiKey
        then Inl (headerErr ''invalid authentication mode %d'')
      else if length (ks_Slots ks) = 0 then Inl (headerErr ''key set has no slots'')
      else bindE (count_slots C regular (ks_Slots ks) 0 0) (\<lambda>(regularCount, recoveryCount).
        if regularCount \<noteq> 1 \<or> recoveryCount > 1 then Inl (headerErr ''unexpected slot counts'')
        else Inr ()))"

record section_keys =
  key_Data :: bytes
  key_Manifest :: bytes

definition DeriveSectionKeys :: "crypto \<Rightarrow> bytes \<Rightarrow> bytes \<Rightarrow> section_keys result" where
  "DeriveSectionKeys C master headerHash =
     bindE (DeriveSubkey C master headerHash infoData) (\<lambda>data.
     bindE (DeriveSubkey C master headerHash infoManifest) (\<lambda>man.
       Inr \<lparr>key_Data = data, key_Manifest = man\<rparr>))"

section \<open>Unlocking\<close>

lemma ucast_8_32_8 [simp]: "ucast (ucast (t :: 8 word) :: 32 word) = t"
  by (rule bit_word_eqI) (simp add: bit_simps)

lemma kdf_params_stored [simp]:
  "kdf_params \<lparr>kdf_Alg = a, kdf_Salt = s, kdf_Time = Time P, kdf_MemoryKiB = MemoryKB P,
     kdf_Threads = ucast (Threads P)\<rparr> = P"
  by (cases P) (simp add: kdf_params_def)

text \<open>What \<open>AddSlot\<close> appends, when it succeeds.\<close>

lemma AddSlot_Inr:
  assumes "crypto_ok C"
    and "AddSlot C ks master slotType label secret params challenge chk salt nonce = Inr ks'"
  obtains s n kek where "salt = Inr s" "nonce = Inr n" "DeriveKEK C secret s params = Inr kek"
    "length kek = KeyLen" "length n = NonceLen"
    "ks' = ks\<lparr>ks_Slots := ks_Slots ks @ [\<lparr>slot_Type = slotType, slot_Label = label,
       slot_KDF = \<lparr>kdf_Alg = kdfAlgArgon2, kdf_Salt = s, kdf_Time = Time params,
         kdf_MemoryKiB = MemoryKB params, kdf_Threads = ucast (Threads params)\<rparr>,
       slot_Challenge = challenge, slot_Check = chk, slot_Nonce = n,
       slot_Wrapped = aead_seal C kek n master (slotAAD (ks_ID ks) (length (ks_Slots ks)) slotType)\<rparr>]\<rparr>"
  using assms
  by (auto simp: AddSlot_def e_iff Let_def SealKey_def newGCM_def split: if_splits)

lemma Unlock_added:
  assumes C: "crypto_ok C"
    and add: "AddSlot C ks master slotType label secret params challenge chk salt nonce = Inr ks'"
  shows "Unlock C ks' (int (length (ks_Slots ks))) secret = Inr master"
  by (rule AddSlot_Inr [OF C add]) (simp add: Unlock_def Let_def SealKey_OpenKey(2) [OF C])

lemma Unlock_older:
  assumes C: "crypto_ok C"
    and add: "AddSlot C ks master slotType label secret params challenge chk salt nonce = Inr ks'"
    and i: "i < int (length (ks_Slots ks))"
  shows "Unlock C ks' i secret' = Unlock C ks i secret'"
  by (rule AddSlot_Inr [OF C add]) (use i in \<open>auto simp: Unlock_def Let_def nth_append nat_less_iff\<close>)

text \<open>Adding a slot never breaks a key set: the new slot unlocks the master key it was given with the
  secret it was given, and every slot that was there before behaves as before.\<close>

lemma AddSlot_Unlock:
  assumes "crypto_ok C"
    and "AddSlot C ks master slotType label secret params challenge chk salt nonce = Inr ks'"
  shows "Unlock C ks' (int (length (ks_Slots ks))) secret = Inr master
     \<and> (\<forall>i s. i < int (length (ks_Slots ks)) \<longrightarrow> Unlock C ks' i s = Unlock C ks i s)"
  using Unlock_added [OF assms] Unlock_older [OF assms] by blast

text \<open>A key set for the witnesses.\<close>

definition demo_keyset :: keyset where
  "demo_keyset = \<lparr>ks_ID = hex_encode (replicate 16 1), ks_CreatedUTC = ''t'', ks_AuthMode = AuthModePassword,
     ks_Slots = []\<rparr>"

definition demo_slot :: slot where
  "demo_slot = \<lparr>slot_Type = SlotPassword, slot_Label = ''Password'',
     slot_KDF = \<lparr>kdf_Alg = kdfAlgArgon2, kdf_Salt = replicate 32 2, kdf_Time = 3, kdf_MemoryKiB = 524288, kdf_Threads = 4\<rparr>,
     slot_Challenge = None, slot_Check = [], slot_Nonce = replicate 12 3,
     slot_Wrapped = aead_seal demo_crypto (fold32 ([4, 5] @ replicate 32 2)) (replicate 12 3) (replicate 32 6)
       (slotAAD (hex_encode (replicate 16 1)) 0 SlotPassword)\<rparr>"

lemma demo_AddSlot:
  "AddSlot demo_crypto demo_keyset (replicate 32 6) SlotPassword ''Password'' [4, 5] DefaultArgon2Params None []
     (Inr (replicate 32 2)) (Inr (replicate 12 3)) = Inr (demo_keyset\<lparr>ks_Slots := [demo_slot]\<rparr>)"
  by (simp add: AddSlot_def demo_keyset_def demo_slot_def DeriveKEK_def ValidateArgon2Params_def
      DefaultArgon2Params_def argon_bounds_def SaltLen_def KeyLen_def NonceLen_def SealKey_def newGCM_def
      demo_crypto_def Let_def)

lemma AddSlot_Unlock_witness:
  "Unlock demo_crypto (demo_keyset\<lparr>ks_Slots := [demo_slot]\<rparr>) 0 [4, 5] = Inr (replicate 32 6)"
  using AddSlot_Unlock [OF demo_crypto_ok demo_AddSlot] by (simp add: demo_keyset_def)

section \<open>What validation guarantees\<close>

lemma count_slots_all:
  "count_slots C regular ss r c = Inr rc \<Longrightarrow>
     list_all (\<lambda>s. (slot_Type s = regular \<or> slot_Type s = SlotRecovery) \<and> validateSlot C s = Inr ()) ss"
  by (induction ss arbitrary: r c) (auto split: if_splits sum.splits)

lemma ValidateKeySet_slots:
  "ValidateKeySet C parse_time ks = Inr u \<Longrightarrow> s \<in> set (ks_Slots ks) \<Longrightarrow> validateSlot C s = Inr ()"
  by (auto simp: ValidateKeySet_def Let_def e_iff list_all_iff dest!: count_slots_all split: if_splits)

lemma count_slots_regular:
  "count_slots C regular ss r c = Inr (r', c') \<Longrightarrow> regular \<noteq> SlotRecovery \<Longrightarrow>
     r' = r + length (filter (\<lambda>s. slot_Type s = regular) ss)"
proof (induction ss arbitrary: r c)
  case (Cons s ss)
  then show ?case
    using Cons.IH [of "Suc r" c] Cons.IH [of r "Suc c"] by (auto split: if_splits sum.splits)
qed simp

lemma ValidateKeySet_regular:
  assumes "ValidateKeySet C parse_time ks = Inr u"
  shows "SlotIndexes ks (RegularSlotType (ks_AuthMode ks)) \<noteq> []"
proof -
  let ?r = "RegularSlotType (ks_AuthMode ks)"
  have r: "?r \<noteq> SlotRecovery" by (simp add: RegularSlotType_def slot_type_def)
  from assms obtain c where "count_slots C ?r (ks_Slots ks) 0 0 = Inr (1, c)"
    by (auto simp: ValidateKeySet_def Let_def e_iff split: if_splits)
  from count_slots_regular [OF this r] have "filter (\<lambda>s. slot_Type s = ?r) (ks_Slots ks) \<noteq> []" by auto
  then obtain s where "s \<in> set (ks_Slots ks)" "slot_Type s = ?r" by (auto simp: filter_empty_conv)
  then show ?thesis by (auto simp: SlotIndexes_def filter_empty_conv in_set_conv_nth)
qed

lemma ValidateKeySet_ID: "ValidateKeySet C parse_time ks = Inr u \<Longrightarrow> length (ks_ID ks) = 32"
proof -
  have len: "hex_decode s = Some raw \<Longrightarrow> length s = 2 * length raw" for s raw
    by (induction s arbitrary: raw rule: hex_decode.induct) (auto split: option.splits)
  show "ValidateKeySet C parse_time ks = Inr u \<Longrightarrow> length (ks_ID ks) = 32"
    by (auto simp: ValidateKeySet_def keySetIDLen_def dest: len split: if_splits option.splits)
qed

lemma validateSlot_lengths:
  assumes "validateSlot C s = Inr u"
  shows "length (kdf_Salt (slot_KDF s)) = SaltLen" and "length (slot_Nonce s) = NonceLen"
    and "length (slot_Wrapped s) = wrappedKeyLen"
    and "ValidateArgon2Params (kdf_Time (slot_KDF s)) (kdf_MemoryKiB (slot_KDF s)) (kdf_Threads (slot_KDF s)) = Inr ()"
  using assms by (auto simp: validateSlot_def e_iff)

text \<open>The thread count a slot may store fits the \<open>uint8\<close> the key derivation takes.\<close>

lemma threads_not_truncated:
  assumes "unat (t :: 32 word) \<le> MaxArgonThreads"
  shows "ucast (ucast t :: 8 word) = t"
proof -
  have "unat t < 2 ^ 8" using assms by (simp add: MaxArgonThreads_def)
  then have "take_bit 8 (unat t) = unat t" "take_bit 32 (unat t) = unat t"
    by (simp_all add: take_bit_nat_eq_self)
  then have "unat (ucast (ucast t :: 8 word) :: 32 word) = unat t"
    by (simp add: unsigned_ucast_eq unsigned_take_bit_eq)
  then show ?thesis by (rule unsigned_word_eqI)
qed

lemma Unlock_validated_cases:
  assumes "crypto_ok C" and "ValidateKeySet C parse_time ks = Inr ()"
    and "0 \<le> i" and "i < int (length (ks_Slots ks))"
  shows "(\<exists>master. Unlock C ks i secret = Inr master \<and> length master = KeyLen) \<or> Unlock C ks i secret = Inl WrongPassword"
proof -
  let ?s = "ks_Slots ks ! nat i"
  have "?s \<in> set (ks_Slots ks)" using assms(3,4) by simp
  from ValidateKeySet_slots [OF assms(2) this] have s: "validateSlot C ?s = Inr ()" .
  note len = validateSlot_lengths [OF s]
  let ?P = "kdf_params (slot_KDF ?s)"
  have "unat (kdf_Threads (slot_KDF ?s)) \<le> MaxArgonThreads" using len(4) by (simp add: ValidateArgon2Params_ok)
  then have "ucast (Threads ?P) = kdf_Threads (slot_KDF ?s)"
    by (simp add: kdf_params_def threads_not_truncated)
  with len have "DeriveKEK C secret (kdf_Salt (slot_KDF ?s)) ?P
      = Inr (argon2 C secret (kdf_Salt (slot_KDF ?s)) (Time ?P) (MemoryKB ?P) (Threads ?P))"
    by (simp add: DeriveKEK_ok kdf_params_def)
  moreover have "length m = KeyLen" if "aead_open C k n (slot_Wrapped ?s) a = Some m" for k n m a
    using len(3) crypto_okD(3) [OF assms(1) that] crypto_okD(1) [OF assms(1), of k n m a]
    by (simp add: wrappedKeyLen_def)
  ultimately show ?thesis
    using assms(3,4) len(2) crypto_okD(4) [OF assms(1)]
    by (auto simp: Unlock_def Let_def OpenKey_def newGCM_def KeyLen_def split: option.splits)
qed

text \<open>Unlocking a slot of a validated key set can go wrong in one way only: whatever is entered,
  the result is a master key or the wrong-password error. In particular the stored thread count,
  checked as a 32-bit number, is the one the key derivation runs with after its conversion to 8 bits.\<close>

lemma Unlock_validated:
  assumes "crypto_ok C" and "ValidateKeySet C parse_time ks = Inr ()"
    and "0 \<le> i" and "i < int (length (ks_Slots ks))"
  shows "(\<exists>master. Unlock C ks i secret = Inr master \<and> length master = KeyLen) \<or> Unlock C ks i secret = Inl WrongPassword"
  by (rule Unlock_validated_cases [OF assms])

lemma demo_slot_valid: "validateSlot C demo_slot = Inr ()"
  by (simp add: validateSlot_def demo_slot_def slot_type_def kdfAlgArgon2_def SaltLen_def NonceLen_def
      KeyLen_def wrappedKeyLen_def ValidateArgon2Params_def argon_bounds_def SlotUsesYubiKey_def
      crypto_okD(1) [OF demo_crypto_ok])

lemma demo_keyset_valid:
  "ValidateKeySet C (\<lambda>_. Some 0) (demo_keyset\<lparr>ks_Slots := [demo_slot]\<rparr>) = Inr ()"
proof -
  have "slot_Type demo_slot = SlotPassword" by (simp add: demo_slot_def)
  then show ?thesis
    using demo_slot_valid [of C]
    by (simp add: ValidateKeySet_def demo_keyset_def keySetIDLen_def auth_mode_def RegularSlotType_def)
qed

lemma Unlock_validated_witness:
  "(\<exists>master. Unlock demo_crypto (demo_keyset\<lparr>ks_Slots := [demo_slot]\<rparr>) 0 [9] = Inr master \<and> length master = KeyLen)
     \<or> Unlock demo_crypto (demo_keyset\<lparr>ks_Slots := [demo_slot]\<rparr>) 0 [9] = Inl WrongPassword"
  by (rule Unlock_validated [OF demo_crypto_ok demo_keyset_valid]) (simp_all add: demo_keyset_def)

text \<open>A wrapped key is bound to its place: the associated data of two slots, of whatever validated key
  sets, agree only for the same key set ID, the same slot number and the same slot type, so a wrapped
  key moved to another slot or key set does not open.\<close>

lemma slotAAD_binds:
  assumes "ValidateKeySet C parse_time ks = Inr ()" and "ValidateKeySet C parse_time ks' = Inr ()"
    and "i < 2 ^ 32" and "j < 2 ^ 32"
  shows "slotAAD (ks_ID ks) i ty = slotAAD (ks_ID ks') j ty' \<longleftrightarrow> ks_ID ks = ks_ID ks' \<and> i = j \<and> ty = ty'"
proof -
  have "length (ks_ID ks) = length (ks_ID ks')"
    using ValidateKeySet_ID [OF assms(1)] ValidateKeySet_ID [OF assms(2)] by simp
  then show ?thesis
    using assms(3,4) by (simp add: slotAAD_def append_eq_append_conv bytes_of_string_inj be_bytes_inj)
qed

lemma slotAAD_binds_witness:
  "slotAAD (ks_ID demo_keyset) 1 SlotRecovery \<noteq> slotAAD (ks_ID demo_keyset) 2 SlotRecovery"
  using slotAAD_binds [OF demo_keyset_valid [of demo_crypto] demo_keyset_valid [of demo_crypto], of 1 2] by simp

end
