(* ===== verification/Config.thy ===== *)
theory Config
  imports KeySet
begin

text \<open>
  Package \<open>config\<close>: the settings of \<open>config.yaml\<close>, their defaults, the clamping of the Argon2
  parameters and the validation (\<open>config.go\<close>), and the missing, retired and unknown settings
  (\<open>keys.go\<close>). The YAML library is outside: \<open>parse\<close> starts from what its decoder returned. The
  exclude patterns are in theory \<open>Exclude\<close>; here their check is an argument.
\<close>

section \<open>Settings\<close>

record argon2_config =
  a2_Time :: int
  a2_MemoryMB :: int
  a2_Threads :: int

record differential_config =
  d_Enabled :: "bool option"
  d_FullBackupIntervalDays :: int
  d_MaxSizePercent :: int
  d_RetentionKeepDifferentials :: int

record retired_key =
  rk_Key :: string
  rk_Line :: string

record config =
  SourceDirectories :: "string list"
  BackupDirectory :: string
  SplitSizeMB :: int
  RetentionKeep :: int
  LogLevel :: string
  VerifyAfterBackup :: bool
  ReminderDays :: "int option"
  AuthenticationMode :: auth_mode
  RecoveryCode :: bool
  PasswordMinLength :: int
  Exclude :: "string list"
  OnUnreadableFile :: string
  Differential :: differential_config
  Argon2 :: argon2_config
  Argon2Notices :: "string list"
  MissingKeys :: "string list"
  RetiredKeys :: "retired_key list"

definition Argon2MinTime :: int where "Argon2MinTime = int MinArgonTime"
definition Argon2MinMemoryMB :: int where "Argon2MinMemoryMB = int MinArgonMemoryKB div 1024"
definition Argon2MinThreads :: int where "Argon2MinThreads = int MinArgonThreads"
definition Argon2MaxTime :: int where "Argon2MaxTime = int MaxArgonTime"
definition Argon2MaxMemoryMB :: int where "Argon2MaxMemoryMB = int MaxArgonMemoryKB div 1024"
definition Argon2MaxThreads :: int where "Argon2MaxThreads = int MaxArgonThreads"

lemmas config_argon_def = Argon2MinTime_def Argon2MinMemoryMB_def Argon2MinThreads_def
  Argon2MaxTime_def Argon2MaxMemoryMB_def Argon2MaxThreads_def argon_bounds_def

definition DefaultReminderDays :: int where "DefaultReminderDays = 7"
definition MaxReminderDays :: int where "MaxReminderDays = 365"
definition DefaultFullBackupIntervalDays :: int where "DefaultFullBackupIntervalDays = 30"
definition MaxFullBackupIntervalDays :: int where "MaxFullBackupIntervalDays = 365"
definition DefaultMaxSizePercent :: int where "DefaultMaxSizePercent = 50"
definition OnUnreadableFail :: string where "OnUnreadableFail = ''fail''"
definition OnUnreadableSkip :: string where "OnUnreadableSkip = ''skip''"
definition DefaultSplitSizeMB :: int where "DefaultSplitSizeMB = 4096"
definition DefaultPasswordMinLength :: int where "DefaultPasswordMinLength = 12"
definition PasswordMinLengthFloor :: int where "PasswordMinLengthFloor = 8"
definition PasswordMinLengthMax :: int where "PasswordMinLengthMax = 256"

lemmas config_const_def = DefaultReminderDays_def MaxReminderDays_def DefaultFullBackupIntervalDays_def
  MaxFullBackupIntervalDays_def DefaultMaxSizePercent_def OnUnreadableFail_def OnUnreadableSkip_def
  DefaultSplitSizeMB_def DefaultPasswordMinLength_def PasswordMinLengthFloor_def PasswordMinLengthMax_def

section \<open>Accessors\<close>

definition ReminderLimit :: "config \<Rightarrow> int" where
  "ReminderLimit c = (case ReminderDays c of None \<Rightarrow> DefaultReminderDays | Some d \<Rightarrow> d)"

definition UseYubiKey :: "config \<Rightarrow> bool" where
  "UseYubiKey c = AuthModeUsesYubiKey (AuthenticationMode c)"

definition CreatesRecoveryCode :: "config \<Rightarrow> bool" where
  "CreatesRecoveryCode c \<longleftrightarrow> RecoveryCode c \<or> UseYubiKey c"

definition IsYubiKeyOnly :: "config \<Rightarrow> bool" where
  "IsYubiKeyOnly c \<longleftrightarrow> AuthenticationMode c = AuthModeYubiKey"

definition IsEnabled :: "differential_config \<Rightarrow> bool" where
  "IsEnabled d = (case d_Enabled d of None \<Rightarrow> True | Some b \<Rightarrow> b)"

definition IntervalDays :: "differential_config \<Rightarrow> int" where
  "IntervalDays d = (if d_FullBackupIntervalDays d \<le> 0 then DefaultFullBackupIntervalDays
                     else d_FullBackupIntervalDays d)"

definition SizePercent :: "differential_config \<Rightarrow> int" where
  "SizePercent d = (if d_MaxSizePercent d \<le> 0 then DefaultMaxSizePercent else d_MaxSizePercent d)"

definition SkipUnreadableFiles :: "config \<Rightarrow> bool" where
  "SkipUnreadableFiles c \<longleftrightarrow> OnUnreadableFile c = OnUnreadableSkip"

section \<open>Defaults, clamping, validation\<close>

definition withDefaults :: "config \<Rightarrow> config" where
  "withDefaults c0 =
     (let c1 = (if SplitSizeMB c0 \<le> 0 then c0\<lparr>SplitSizeMB := DefaultSplitSizeMB\<rparr> else c0);
          c2 = (if LogLevel c1 = [] then c1\<lparr>LogLevel := ''info''\<rparr> else c1);
          c3 = (if AuthenticationMode c2 = 0 then c2\<lparr>AuthenticationMode := AuthModePassword\<rparr> else c2);
          c4 = (if PasswordMinLength c3 = 0 then c3\<lparr>PasswordMinLength := DefaultPasswordMinLength\<rparr> else c3);
          c5 = (if OnUnreadableFile c4 = [] then c4\<lparr>OnUnreadableFile := OnUnreadableFail\<rparr> else c4);
          a = Argon2 c5;
          a1 = (if a2_Time a = 0 then a\<lparr>a2_Time := uint (Time DefaultArgon2Params)\<rparr> else a);
          a2 = (if a2_MemoryMB a1 = 0 then a1\<lparr>a2_MemoryMB := uint (MemoryKB DefaultArgon2Params div 1024)\<rparr> else a1);
          a3 = (if a2_Threads a2 = 0 then a2\<lparr>a2_Threads := uint (Threads DefaultArgon2Params)\<rparr> else a2)
      in c5\<lparr>Argon2 := a3\<rparr>)"

text \<open>Each notice names the setting, its value and the maximum that is used.\<close>

definition clamp_notice :: "string \<Rightarrow> int \<Rightarrow> int \<Rightarrow> string" where
  "clamp_notice key v m = key @ '' '' @ show_int v @ '' exceeds the maximum '' @ show_int m @ ''; ''
     @ show_int m @ '' will be used.''"

definition clampArgon2 :: "config \<Rightarrow> config" where
  "clampArgon2 c0 =
     (let c1 = (if a2_Time (Argon2 c0) > Argon2MaxTime
                then c0\<lparr>Argon2Notices := Argon2Notices c0 @ [clamp_notice ''argon2.time'' (a2_Time (Argon2 c0)) Argon2MaxTime],
                        Argon2 := (Argon2 c0)\<lparr>a2_Time := Argon2MaxTime\<rparr>\<rparr> else c0);
          c2 = (if a2_MemoryMB (Argon2 c1) > Argon2MaxMemoryMB
                then c1\<lparr>Argon2Notices := Argon2Notices c1 @ [clamp_notice ''argon2.memory_mb'' (a2_MemoryMB (Argon2 c1)) Argon2MaxMemoryMB],
                        Argon2 := (Argon2 c1)\<lparr>a2_MemoryMB := Argon2MaxMemoryMB\<rparr>\<rparr> else c1);
          c3 = (if a2_Threads (Argon2 c2) > Argon2MaxThreads
                then c2\<lparr>Argon2Notices := Argon2Notices c2 @ [clamp_notice ''argon2.threads'' (a2_Threads (Argon2 c2)) Argon2MaxThreads],
                        Argon2 := (Argon2 c2)\<lparr>a2_Threads := Argon2MaxThreads\<rparr>\<rparr> else c2)
      in c3)"

text \<open>\<open>check_exclude\<close> is \<open>NewExcludeMatcher\<close> on the patterns, its matcher dropped.\<close>

definition validateConfig :: "(string list \<Rightarrow> unit result) \<Rightarrow> config \<Rightarrow> unit result" where
  "validateConfig check_exclude c =
     (if SourceDirectories c = [] then Inl (Problem ''No 'source_directories' specified in config file.'')
      else if BackupDirectory c = [] then Inl (Problem ''No 'backup_directory' specified in config file.'')
      else if LogLevel c \<noteq> ''debug'' \<and> LogLevel c \<noteq> ''info''
        then Inl (Problem ''Invalid 'log_level': %q (allowed: debug, info).'')
      else if RetentionKeep c < 0 then Inl (Problem ''Invalid 'retention_keep': %d (must be >= 0).'')
      else if AuthenticationMode c \<noteq> AuthModePassword \<and> AuthenticationMode c \<noteq> AuthModePasswordYubiKey
              \<and> AuthenticationMode c \<noteq> AuthModeYubiKey
        then Inl (Problem ''Invalid 'authentication_mode': %d (allowed: 1 = password only, 2 = password + YubiKey, 3 = YubiKey only).'')
      else if OnUnreadableFile c \<noteq> OnUnreadableFail \<and> OnUnreadableFile c \<noteq> OnUnreadableSkip
        then Inl (Problem ''Invalid 'on_unreadable_file': %q (allowed: fail, skip).'')
      else if (case ReminderDays c of None \<Rightarrow> False | Some d \<Rightarrow> d < 0 \<or> d > MaxReminderDays)
        then Inl (Problem ''Invalid 'reminder_days': %d (allowed 0-%d).'')
      else let d = Differential c in
      if d_FullBackupIntervalDays d < 0 \<or> d_FullBackupIntervalDays d > MaxFullBackupIntervalDays
        then Inl (Problem ''Invalid 'differential.full_backup_interval_days': %d (allowed 1-%d).'')
      else if d_MaxSizePercent d < 0 \<or> d_MaxSizePercent d > 100
        then Inl (Problem ''Invalid 'differential.max_size_percent': %d (allowed 1-100).'')
      else if d_RetentionKeepDifferentials d < 0
        then Inl (Problem ''Invalid 'differential.retention_keep_differentials': %d (must be >= 0).'')
      else bindE (check_exclude (Exclude c)) (\<lambda>_.
      if PasswordMinLength c < PasswordMinLengthFloor \<or> PasswordMinLength c > PasswordMinLengthMax
        then Inl (Problem ''Invalid 'password_min_length': %d (allowed %d-%d).'')
      else if a2_Time (Argon2 c) < Argon2MinTime
        then Inl (Problem ''Invalid 'argon2.time': %d (minimum %d).'')
      else if a2_MemoryMB (Argon2 c) < Argon2MinMemoryMB
        then Inl (Problem ''Invalid 'argon2.memory_mb': %d (minimum %d).'')
      else if a2_Threads (Argon2 c) < Argon2MinThreads
        then Inl (Problem ''Invalid 'argon2.threads': %d (minimum %d).'')
      else Inr ()))"

section \<open>Missing, retired and unknown keys\<close>

text \<open>\<open>setting\<close>: a key path and the default as YAML, in the order of \<open>config-SAMPLE.yaml\<close>.\<close>

definition settings :: "(string \<times> string) list" where
  "settings =
    [(''split_size_mb'', show_int DefaultSplitSizeMB),
     (''retention_keep'', ''0''),
     (''differential.enabled'', ''true''),
     (''differential.full_backup_interval_days'', show_int DefaultFullBackupIntervalDays),
     (''differential.max_size_percent'', show_int DefaultMaxSizePercent),
     (''differential.retention_keep_differentials'', ''0''),
     (''exclude'', ''[]''),
     (''on_unreadable_file'', CHR 0x22 # OnUnreadableFail @ [CHR 0x22]),
     (''log_level'', CHR 0x22 # ''info'' @ [CHR 0x22]),
     (''verify_after_backup'', ''false''),
     (''reminder_days'', show_int DefaultReminderDays),
     (''authentication_mode'', show_int AuthModePassword),
     (''recovery_code'', ''false''),
     (''password_min_length'', show_int DefaultPasswordMinLength),
     (''argon2.time'', show_nat (unat (Time DefaultArgon2Params))),
     (''argon2.memory_mb'', show_nat (unat (MemoryKB DefaultArgon2Params div 1024))),
     (''argon2.threads'', show_nat (unat (Threads DefaultArgon2Params)))]"

text \<open>\<open>strings.Cut(key, ".")\<close>: the block, the rest, and whether there is a dot.\<close>

definition cut_dot :: "string \<Rightarrow> string \<times> string \<times> bool" where
  "cut_dot s = (let b = takeWhile (\<lambda>c. c \<noteq> CHR ''.'') s in
     if b = s then (s, [], False) else (b, drop (length b + 1) s, True))"

definition blockKeys :: "string \<Rightarrow> string list" where
  "blockKeys block = map (\<lambda>(k, _). fst (snd (cut_dot k)))
     (filter (\<lambda>(k, _). snd (snd (cut_dot k)) \<and> fst (cut_dot k) = block) settings)"

text \<open>A node of the parsed file, as far as the code looks at it.\<close>

datatype ynode = YMap "(string \<times> ynode) list" | YOther

definition lookup_key :: "ynode option \<Rightarrow> string \<Rightarrow> ynode option" where
  "lookup_key m key = (case m of Some (YMap kvs) \<Rightarrow> map_of kvs key | _ \<Rightarrow> None)"

fun missing_loop :: "ynode option \<Rightarrow> (string \<times> string) list \<Rightarrow> string list \<Rightarrow> string list" where
  "missing_loop root [] seen = []"
| "missing_loop root ((key, _) # rest) seen =
     (case cut_dot key of (block, _, nested) \<Rightarrow>
        if \<not> nested then
          (if lookup_key root key = None then key # missing_loop root rest seen
           else missing_loop root rest seen)
        else if block \<in> set seen then missing_loop root rest seen
        else
          let b = lookup_key root block;
              keys = blockKeys block;
              missing = map (\<lambda>k. block @ ''.'' @ k) (filter (\<lambda>k. lookup_key b k = None) keys)
          in (if length missing = length keys then [block] else missing)
               @ missing_loop root rest (block # seen))"

definition missingKeys :: "ynode option \<Rightarrow> string list" where
  "missingKeys root = missing_loop root settings []"

definition retiredKeys :: "string list" where
  "retiredKeys = [''io_diagnostics'', ''yubikey_spare'']"

text \<open>
  An error of the YAML decoder: a type error with its lines, each the groups (line, field, type) of
  the pattern \<open>unknownField\<close> or \<open>None\<close>, or another error.
\<close>

datatype yaml_err = YTypeError "(string \<times> string \<times> string) option list" | YSyntax

definition blockOfType :: "string \<Rightarrow> string" where
  "blockOfType t = (if t = ''Differential'' then ''differential''
     else if t = ''Argon2'' then ''argon2'' else [])"

fun sort_unknown :: "(string \<times> string \<times> string) option list \<Rightarrow> retired_key list \<Rightarrow> string list
    \<Rightarrow> (retired_key list \<times> string list) option" where
  "sort_unknown [] retired unknown = Some (retired, unknown)"
| "sort_unknown (None # es) retired unknown = None"
| "sort_unknown (Some (line, field, ty) # es) retired unknown =
     (let block = blockOfType ty;
          key = (if block \<noteq> [] then block @ ''.'' @ field else field)
      in if key \<in> set retiredKeys
         then sort_unknown es (retired @ [\<lparr>rk_Key = key, rk_Line = line\<rparr>]) unknown
         else sort_unknown es retired (unknown @ [CHR 0x27 # key @ CHR 0x27 # '' (line '' @ line @ '')'']))"

text \<open>\<open>unknownKeys\<close>: \<open>None\<close> when the error is not only about unknown keys (\<open>ok\<close> is false).\<close>

definition unknownKeys :: "yaml_err \<Rightarrow> (retired_key list \<times> err option) option" where
  "unknownKeys e = (case e of
     YSyntax \<Rightarrow> None
   | YTypeError es \<Rightarrow> if es = [] then None else
       map_option (\<lambda>(retired, unknown).
         (retired,
          if unknown = [] then None
          else if length unknown = 1
            then Some (Problem (''Config file has an unknown setting: '' @ hd unknown @ ''.''))
          else Some (Problem (''Config file has unknown settings: '' @ concat (map (\<lambda>u. u @ '', '') (butlast unknown)) @ last unknown @ ''.''))))
       (sort_unknown es [] []))"

text \<open>
  \<open>parse\<close>: \<open>cfg\<close> and \<open>yerr\<close> are what the strict decoder returned (\<open>yerr = None\<close> also for an empty
  file), \<open>doc\<close> the top mapping of the file parsed as a tree, \<open>None\<close> when that parse failed.
\<close>

definition parseConfig ::
  "(string list \<Rightarrow> unit result) \<Rightarrow> config \<Rightarrow> yaml_err option \<Rightarrow> ynode option option \<Rightarrow> config result" where
  "parseConfig check_exclude cfg yerr doc =
     bindE (case yerr of
        None \<Rightarrow> Inr cfg
      | Some e \<Rightarrow> (case unknownKeys e of
          None \<Rightarrow> Inl (Problem ''Config file is invalid: %w'')
        | Some (retired, Some unknown) \<Rightarrow> Inl unknown
        | Some (retired, None) \<Rightarrow> Inr (cfg\<lparr>RetiredKeys := retired\<rparr>))) (\<lambda>cfg.
     let cfg = (case doc of None \<Rightarrow> cfg | Some root \<Rightarrow> cfg\<lparr>MissingKeys := missingKeys root\<rparr>);
         cfg = clampArgon2 (withDefaults cfg)
     in bindE (validateConfig check_exclude cfg) (\<lambda>_. Inr cfg))"

text \<open>\<open>effective\<close>: every default made explicit.\<close>

definition effective :: "config \<Rightarrow> config" where
  "effective c = c\<lparr>MissingKeys := [], RetiredKeys := [], Argon2Notices := [],
     ReminderDays := Some (ReminderLimit c),
     Differential := (Differential c)\<lparr>d_Enabled := Some (IsEnabled (Differential c)),
       d_FullBackupIntervalDays := IntervalDays (Differential c),
       d_MaxSizePercent := SizePercent (Differential c)\<rparr>\<rparr>"

section \<open>What a loaded configuration guarantees\<close>

text \<open>The parameters enrollment derives keys with: conversions to \<open>uint32\<close> and \<open>uint8\<close>.\<close>

definition config_argon2_params :: "config \<Rightarrow> argon2_params" where
  "config_argon2_params c = \<lparr>Time = of_int (a2_Time (Argon2 c)),
     MemoryKB = of_int (a2_MemoryMB (Argon2 c)) * 1024, Threads = of_int (a2_Threads (Argon2 c))\<rparr>"

definition argon2_in_bounds :: "argon2_config \<Rightarrow> bool" where
  "argon2_in_bounds a \<longleftrightarrow> a2_Time a \<in> {Argon2MinTime..Argon2MaxTime}
     \<and> a2_MemoryMB a \<in> {Argon2MinMemoryMB..Argon2MaxMemoryMB} \<and> a2_Threads a \<in> {Argon2MinThreads..Argon2MaxThreads}"

lemma clampArgon2_simps [simp]:
  "Argon2 (clampArgon2 c) = \<lparr>a2_Time = min (a2_Time (Argon2 c)) Argon2MaxTime,
     a2_MemoryMB = min (a2_MemoryMB (Argon2 c)) Argon2MaxMemoryMB,
     a2_Threads = min (a2_Threads (Argon2 c)) Argon2MaxThreads\<rparr>"
  by (simp add: clampArgon2_def Let_def min_def)

lemma validateConfig_argon2:
  "validateConfig chk c = Inr u \<Longrightarrow> Argon2MinTime \<le> a2_Time (Argon2 c) \<and> Argon2MinMemoryMB \<le> a2_MemoryMB (Argon2 c)
     \<and> Argon2MinThreads \<le> a2_Threads (Argon2 c)"
  by (auto simp: validateConfig_def Let_def e_iff split: if_splits)

lemma parseConfig_argon2:
  assumes "parseConfig chk cfg yerr doc = Inr c"
  shows "argon2_in_bounds (Argon2 c)"
proof -
  from assms obtain c0 where c: "c = clampArgon2 c0" and v: "validateConfig chk c = Inr ()"
    by (auto simp: parseConfig_def Let_def e_iff)
  have "a2_Time (Argon2 c) \<le> Argon2MaxTime" "a2_MemoryMB (Argon2 c) \<le> Argon2MaxMemoryMB"
    "a2_Threads (Argon2 c) \<le> Argon2MaxThreads" by (simp_all add: c)
  with validateConfig_argon2 [OF v] show ?thesis by (simp add: argon2_in_bounds_def)
qed

lemma parseConfig_validated:
  "parseConfig chk cfg yerr doc = Inr c \<Longrightarrow> validateConfig chk c = Inr ()"
  by (auto simp: parseConfig_def Let_def e_iff)

lemma validateConfig_facts:
  "validateConfig chk c = Inr u \<Longrightarrow> AuthenticationMode c \<in> {AuthModePassword, AuthModePasswordYubiKey, AuthModeYubiKey}
     \<and> PasswordMinLengthFloor \<le> PasswordMinLength c \<and> 0 \<le> RetentionKeep c
     \<and> 0 \<le> d_RetentionKeepDifferentials (Differential c)"
  by (auto simp: validateConfig_def Let_def e_iff split: if_splits)

lemma config_params_validated:
  assumes "parseConfig check_exclude cfg yerr doc = Inr c"
  shows "uint (Time (config_argon2_params c)) = a2_Time (Argon2 c)"
    and "uint (MemoryKB (config_argon2_params c)) = 1024 * a2_MemoryMB (Argon2 c)"
    and "uint (Threads (config_argon2_params c)) = a2_Threads (Argon2 c)"
    and "ValidateArgon2Params (Time (config_argon2_params c)) (MemoryKB (config_argon2_params c))
           (ucast (Threads (config_argon2_params c))) = Inr ()"
proof -
  let ?a = "Argon2 c"
  have b: "2 \<le> a2_Time ?a" "a2_Time ?a \<le> 20" "64 \<le> a2_MemoryMB ?a" "a2_MemoryMB ?a \<le> 4096"
    "1 \<le> a2_Threads ?a" "a2_Threads ?a \<le> 255"
    using parseConfig_argon2 [OF assms] by (auto simp: argon2_in_bounds_def config_argon_def)
  have u: "uint (of_int (a2_Time ?a) :: 32 word) = a2_Time ?a"
    "uint (of_int (a2_MemoryMB ?a) * 1024 :: 32 word) = 1024 * a2_MemoryMB ?a"
    "uint (of_int (a2_Threads ?a) :: 8 word) = a2_Threads ?a"
    using b by (simp_all add: uint_word_of_int uint_word_ariths mod_simps)
  have t: "uint (ucast (of_int (a2_Threads ?a) :: 8 word) :: 32 word) = a2_Threads ?a"
    using u(3) by (simp add: uint_up_ucast is_up)
  have n: "unat (of_int (a2_Time ?a) :: 32 word) = nat (a2_Time ?a)"
    "unat (of_int (a2_MemoryMB ?a) * 1024 :: 32 word) = nat (1024 * a2_MemoryMB ?a)"
    "unat (ucast (of_int (a2_Threads ?a) :: 8 word) :: 32 word) = nat (a2_Threads ?a)"
    by (simp_all only: unat_eq_nat_uint u t)
  have "ValidateArgon2Params (of_int (a2_Time ?a)) (of_int (a2_MemoryMB ?a) * 1024)
      (ucast (of_int (a2_Threads ?a) :: 8 word)) = Inr ()"
    unfolding ValidateArgon2Params_ok n argon_bounds_def atLeastAtMost_iff using b by (intro conjI; arith)
  with u show "uint (Time (config_argon2_params c)) = a2_Time (Argon2 c)"
    "uint (MemoryKB (config_argon2_params c)) = 1024 * a2_MemoryMB (Argon2 c)"
    "uint (Threads (config_argon2_params c)) = a2_Threads (Argon2 c)"
    "ValidateArgon2Params (Time (config_argon2_params c)) (MemoryKB (config_argon2_params c))
           (ucast (Threads (config_argon2_params c))) = Inr ()"
    by (simp_all add: config_argon2_params_def)
qed

text \<open>The key derivation never refuses the parameters of a configuration that loaded: after the
  defaults, the clamping and the validation, the conversions to 32 and 8 bits lose nothing and the
  result is within the bounds that the key derivation and every reader of the header enforce.\<close>

lemma loaded_argon2_accepted:
  assumes "parseConfig check_exclude cfg yerr doc = Inr c"
  shows "let P = config_argon2_params c in
     uint (Time P) = a2_Time (Argon2 c) \<and> uint (MemoryKB P) = 1024 * a2_MemoryMB (Argon2 c)
     \<and> uint (Threads P) = a2_Threads (Argon2 c)
     \<and> ValidateArgon2Params (Time P) (MemoryKB P) (ucast (Threads P)) = Inr ()"
  using config_params_validated [OF assms] by (simp add: Let_def)

text \<open>The configuration of a file that sets only the required keys: Go's zero values elsewhere.\<close>

definition zero_config :: config where
  "zero_config = \<lparr>SourceDirectories = [], BackupDirectory = [], SplitSizeMB = 0, RetentionKeep = 0,
     LogLevel = [], VerifyAfterBackup = False, ReminderDays = None, AuthenticationMode = 0, RecoveryCode = False,
     PasswordMinLength = 0, Exclude = [], OnUnreadableFile = [],
     Differential = \<lparr>d_Enabled = None, d_FullBackupIntervalDays = 0, d_MaxSizePercent = 0, d_RetentionKeepDifferentials = 0\<rparr>,
     Argon2 = \<lparr>a2_Time = 0, a2_MemoryMB = 0, a2_Threads = 0\<rparr>, Argon2Notices = [], MissingKeys = [], RetiredKeys = []\<rparr>"

definition default_config :: config where
  "default_config = zero_config\<lparr>SplitSizeMB := 4096, LogLevel := ''info'', AuthenticationMode := 1,
     PasswordMinLength := 12, OnUnreadableFile := ''fail'', Argon2 := \<lparr>a2_Time = 3, a2_MemoryMB = 512, a2_Threads = 4\<rparr>\<rparr>"

lemma withDefaults_required_only:
  "withDefaults (zero_config\<lparr>SourceDirectories := ss, BackupDirectory := b, MissingKeys := m\<rparr>)
    = default_config\<lparr>SourceDirectories := ss, BackupDirectory := b, MissingKeys := m\<rparr>"
proof -
  have w: "uint (524288 div 1024 :: 32 word) = 512" by code_simp
  show ?thesis
    by (simp add: zero_config_def default_config_def withDefaults_def DefaultArgon2Params_def config_const_def
        auth_mode_def w)
qed

lemma clampArgon2_in_bounds: "argon2_in_bounds (Argon2 c) \<Longrightarrow> clampArgon2 c = c"
  by (simp add: clampArgon2_def argon2_in_bounds_def Let_def)

lemma default_config_simps [simp]:
  "SplitSizeMB default_config = 4096" "LogLevel default_config = ''info''" "AuthenticationMode default_config = 1"
  "PasswordMinLength default_config = 12" "OnUnreadableFile default_config = ''fail''" "Exclude default_config = []"
  "Argon2 default_config = \<lparr>a2_Time = 3, a2_MemoryMB = 512, a2_Threads = 4\<rparr>" "RetentionKeep default_config = 0"
  "ReminderDays default_config = None" "VerifyAfterBackup default_config = False" "RecoveryCode default_config = False"
  "Differential default_config = \<lparr>d_Enabled = None, d_FullBackupIntervalDays = 0, d_MaxSizePercent = 0, d_RetentionKeepDifferentials = 0\<rparr>"
  by (simp_all add: default_config_def zero_config_def)

lemma parse_required_only:
  assumes "ss \<noteq> []" "b \<noteq> []" "check_exclude [] = Inr ()"
  shows "parseConfig check_exclude (zero_config\<lparr>SourceDirectories := ss, BackupDirectory := b\<rparr>) None (Some root)
    = Inr (default_config\<lparr>SourceDirectories := ss, BackupDirectory := b, MissingKeys := missingKeys root\<rparr>)"
proof -
  let ?c = "default_config\<lparr>SourceDirectories := ss, BackupDirectory := b, MissingKeys := missingKeys root\<rparr>"
  have "validateConfig check_exclude ?c = Inr ()"
    using assms by (simp add: validateConfig_def config_argon_def config_const_def auth_mode_def)
  moreover have "clampArgon2 ?c = ?c"
    by (rule clampArgon2_in_bounds) (simp add: argon2_in_bounds_def config_argon_def)
  ultimately show ?thesis
    by (simp add: parseConfig_def withDefaults_required_only)
qed

lemma loaded_argon2_accepted_witness:
  "ValidateArgon2Params 3 (512 * 1024) 4 = Inr ()"
  using loaded_argon2_accepted [OF parse_required_only [of "[''C:/A'']" "''D:/B''" "\<lambda>_. Inr ()" None]]
  by (simp add: default_config_def config_argon2_params_def Let_def)

text \<open>How a value of the configuration is written in YAML.\<close>

definition show_bool :: "bool \<Rightarrow> string" where
  "show_bool b = (if b then ''true'' else ''false'')"

definition yaml_quote :: "string \<Rightarrow> string" where
  "yaml_quote s = CHR 0x22 # s @ [CHR 0x22]"

definition setting_values :: "config \<Rightarrow> (string \<times> string) list" where
  "setting_values c =
    [(''split_size_mb'', show_int (SplitSizeMB c)), (''retention_keep'', show_int (RetentionKeep c)),
     (''differential.enabled'', show_bool (IsEnabled (Differential c))),
     (''differential.full_backup_interval_days'', show_int (IntervalDays (Differential c))),
     (''differential.max_size_percent'', show_int (SizePercent (Differential c))),
     (''differential.retention_keep_differentials'', show_int (d_RetentionKeepDifferentials (Differential c))),
     (''exclude'', if Exclude c = [] then ''[]'' else ''...''),
     (''on_unreadable_file'', yaml_quote (OnUnreadableFile c)), (''log_level'', yaml_quote (LogLevel c)),
     (''verify_after_backup'', show_bool (VerifyAfterBackup c)), (''reminder_days'', show_int (ReminderLimit c)),
     (''authentication_mode'', show_int (AuthenticationMode c)), (''recovery_code'', show_bool (RecoveryCode c)),
     (''password_min_length'', show_int (PasswordMinLength c)), (''argon2.time'', show_int (a2_Time (Argon2 c))),
     (''argon2.memory_mb'', show_int (a2_MemoryMB (Argon2 c))), (''argon2.threads'', show_int (a2_Threads (Argon2 c)))]"

lemma digit_char_0: "digit_char 0 = CHR ''0''"
  by code_simp

text \<open>The defaults the updater writes into \<open>config.yaml\<close> for missing keys (the table \<open>settings\<close>) are
  those \<open>parse\<close> applies: a file with only the required keys loads, every setting has the table's value,
  and exactly the top-level keys and blocks of the table are reported missing, in its order.\<close>

lemma settings_are_the_defaults:
  assumes "ss \<noteq> []" "b \<noteq> []" "check_exclude [] = Inr ()"
  shows "\<exists>c. parseConfig check_exclude (zero_config\<lparr>SourceDirectories := ss, BackupDirectory := b\<rparr>) None
        (Some (Some (YMap [(''source_directories'', YOther), (''backup_directory'', YOther)]))) = Inr c
     \<and> setting_values c = settings
     \<and> MissingKeys c = [''split_size_mb'', ''retention_keep'', ''differential'', ''exclude'', ''on_unreadable_file'',
         ''log_level'', ''verify_after_backup'', ''reminder_days'', ''authentication_mode'', ''recovery_code'',
         ''password_min_length'', ''argon2'']"
proof -
  let ?root = "Some (YMap [(''source_directories'', YOther), (''backup_directory'', YOther)])"
  have m: "missingKeys ?root = [''split_size_mb'', ''retention_keep'', ''differential'', ''exclude'', ''on_unreadable_file'',
         ''log_level'', ''verify_after_backup'', ''reminder_days'', ''authentication_mode'', ''recovery_code'',
         ''password_min_length'', ''argon2'']"
    by (simp add: missingKeys_def settings_def lookup_key_def cut_dot_def blockKeys_def Let_def)
  have w: "unat (524288 div 1024 :: 32 word) = 512" by code_simp
  have v: "setting_values (default_config\<lparr>SourceDirectories := ss, BackupDirectory := b, MissingKeys := missingKeys ?root\<rparr>) = settings"
    by (simp add: setting_values_def settings_def show_bool_def yaml_quote_def
        IsEnabled_def IntervalDays_def SizePercent_def ReminderLimit_def config_const_def auth_mode_def
        DefaultArgon2Params_def show_int_def w show_nat.simps [of 0] digit_char_0)
  show ?thesis using parse_required_only [of ss b check_exclude ?root] assms m v by simp
qed

lemma settings_are_the_defaults_witness:
  "\<exists>c. parseConfig (\<lambda>_. Inr ()) (zero_config\<lparr>SourceDirectories := [''C:/A''], BackupDirectory := ''D:/B''\<rparr>) None
        (Some (Some (YMap [(''source_directories'', YOther), (''backup_directory'', YOther)]))) = Inr c
     \<and> setting_values c = settings"
  using settings_are_the_defaults [of "[''C:/A'']" "''D:/B''" "\<lambda>_. Inr ()"] by blast

end
