(* ===== verification/Unlocking.thy ===== *)
theory Unlocking
  imports Config
begin

text \<open>
  Unlocking the master keys of existing key sets (\<open>workflow/unlock/unlock.go\<close>), creating new keys
  (\<open>workflow/backup/keys.go\<close>) and the YubiKey test (\<open>workflow/keycheck\<close>). The user interface and the
  YubiKey are records of the answers they give: attempt number and last failure in, answer out.
\<close>

section \<open>Unlocking\<close>

definition maxPasswordAttempts :: nat where "maxPasswordAttempts = 3"

record unlock_ui =
  ChooseUnlockMethod :: "bool result"
  AskPassword :: "nat \<Rightarrow> err option \<Rightarrow> bytes result"
  AskRecoveryCode :: "nat \<Rightarrow> err option \<Rightarrow> string result"
  CheckConnected :: "unit result"
  DeriveFIDO2Secret :: "challenge_data \<Rightarrow> bytes result"

definition PasswordFailurePrefix :: "bool \<Rightarrow> bool \<Rightarrow> string" where
  "PasswordFailurePrefix requiresYubiKey yubiKeyOnly =
     (if yubiKeyOnly then ''Wrong YubiKey or corrupted file.''
      else if requiresYubiKey then ''Wrong password or invalid YubiKey response.''
      else ''Wrong password.'')"

definition deriveYubiKeySecret :: "unlock_ui \<Rightarrow> slot \<Rightarrow> bytes result" where
  "deriveYubiKeySecret ui slot = (case CheckConnected ui of
     Inl _ \<Rightarrow> Inl YubiKeyRequired
   | Inr _ \<Rightarrow> (case DeriveFIDO2Secret ui (the (slot_Challenge slot)) of
       Inl e \<Rightarrow> Inl (YubiKeyError e)
     | Inr secret \<Rightarrow> Inr secret))"

text \<open>The loop over the password attempts, with \<open>left\<close> attempts to go.\<close>

fun password_loop :: "crypto \<Rightarrow> unlock_ui \<Rightarrow> keyset \<Rightarrow> nat \<Rightarrow> bytes option \<Rightarrow> nat \<Rightarrow> err option \<Rightarrow> bytes result" where
  "password_loop C ui ks slotIndex yubiSecret 0 failure =
     (if yubiSecret \<noteq> None then Inl (Internal ''Too many failed authentication attempts.'')
      else Inl (Internal ''Too many wrong password attempts.''))"
| "password_loop C ui ks slotIndex yubiSecret (Suc left) failure =
     bindE (AskPassword ui (maxPasswordAttempts - left) failure) (\<lambda>password.
       let secret = (case yubiSecret of None \<Rightarrow> password | Some y \<Rightarrow> CombinePasswordWithSecret password y)
       in case Unlock C ks (int slotIndex) secret of
            Inr master \<Rightarrow> Inr master
          | Inl e \<Rightarrow> if e \<noteq> WrongPassword then Inl e
                     else password_loop C ui ks slotIndex yubiSecret left
                            (Some (Internal (PasswordFailurePrefix (yubiSecret \<noteq> None) False))))"

fun recovery_loop :: "crypto \<Rightarrow> unlock_ui \<Rightarrow> keyset \<Rightarrow> nat \<Rightarrow> nat \<Rightarrow> err option \<Rightarrow> bytes result" where
  "recovery_loop C ui ks index 0 failure = Inl (Internal ''Too many failed recovery code attempts.'')"
| "recovery_loop C ui ks index (Suc left) failure =
     bindE (AskRecoveryCode ui (maxPasswordAttempts - left) failure) (\<lambda>input.
       case Parse C input of
         Inl e \<Rightarrow> recovery_loop C ui ks index left (Some e)
       | Inr code \<Rightarrow>
           if code_check code \<noteq> slot_Check (ks_Slots ks ! index)
             then recovery_loop C ui ks index left (Some (Problem ''This recovery code belongs to different keys.''))
           else (case Unlock C ks (int index) (Secret code) of
               Inr master \<Rightarrow> Inr master
             | Inl e \<Rightarrow> if e \<noteq> WrongPassword then Inl e
                        else recovery_loop C ui ks index left (Some (Internal ''Wrong recovery code.''))))"

definition unlockWithRecoveryCode :: "crypto \<Rightarrow> unlock_ui \<Rightarrow> keyset \<Rightarrow> bytes result" where
  "unlockWithRecoveryCode C ui ks =
     recovery_loop C ui ks (hd (SlotIndexes ks SlotRecovery)) maxPasswordAttempts None"

definition UnlockKeySet :: "crypto \<Rightarrow> unlock_ui \<Rightarrow> keyset \<Rightarrow> bool \<Rightarrow> bytes result" where
  "UnlockKeySet C ui ks allowRecovery =
     bindE (if allowRecovery \<and> HasSlotType ks SlotRecovery then ChooseUnlockMethod ui else Inr False) (\<lambda>useRecovery.
     if useRecovery then unlockWithRecoveryCode C ui ks
     else
       let slotType = RegularSlotType (ks_AuthMode ks);
           indexes = SlotIndexes ks slotType
       in if indexes = [] then Inl (Problem ''Backup has no key slot for authentication mode %d.'')
          else let slotIndex = hd indexes in
            bindE (if slotType \<noteq> SlotPassword
                   then bindE (deriveYubiKeySecret ui (ks_Slots ks ! slotIndex)) (\<lambda>s. Inr (Some s))
                   else Inr None) (\<lambda>yubiSecret.
            if slotType = SlotYubiKey
              then (case Unlock C ks (int slotIndex) (the yubiSecret) of
                  Inr master \<Rightarrow> Inr master
                | Inl e \<Rightarrow> if e = WrongPassword
                    then Inl (YubiKeyError (Problem ''YubiKey authentication failed: this YubiKey does not unlock the backup.''))
                    else Inl e)
            else password_loop C ui ks slotIndex yubiSecret maxPasswordAttempts None))"

text \<open>
  \<open>KeySets\<close>: the key sets of the selected sets in order; \<open>uis n\<close> answers the questions about the
  \<open>n\<close>-th distinct one. The map is the association list of the key set IDs unlocked so far.
\<close>

fun UnlockKeySets :: "crypto \<Rightarrow> (nat \<Rightarrow> unlock_ui) \<Rightarrow> keyset list \<Rightarrow> (string \<times> bytes) list \<Rightarrow> (string \<times> bytes) list result" where
  "UnlockKeySets C uis [] keys = Inr keys"
| "UnlockKeySets C uis (ks # sets) keys =
     (if map_of keys (ks_ID ks) \<noteq> None then UnlockKeySets C uis sets keys
      else bindE (UnlockKeySet C (uis (length keys)) ks True) (\<lambda>master.
        UnlockKeySets C uis sets ((ks_ID ks, master) # keys)))"

section \<open>New keys\<close>

definition maxEnrollAttempts :: nat where "maxEnrollAttempts = 3"

record enroll_env =
  AskNewPassword :: "nat \<Rightarrow> err option \<Rightarrow> bytes result"
  RuneCount :: "bytes \<Rightarrow> int"
  YubiKeyConnected :: "unit result"
  ChallengeSalt :: "bytes result"
  MakeCredential :: "bytes result"
  GetHmac :: "bytes \<Rightarrow> bytes \<Rightarrow> bytes result"
  CodeRandom :: "bytes result"
  ShowRecoveryCode :: "string \<Rightarrow> unit result"
  KeySetRandom :: "bytes result \<times> bytes result"
  CreatedNow :: string
  SlotRandom :: "nat \<Rightarrow> bytes result \<times> bytes result"

text \<open>\<open>CheckNewPassword\<close>: a new password and its confirmation.\<close>

definition CheckNewPassword :: "bytes \<Rightarrow> bytes \<Rightarrow> bytes result" where
  "CheckNewPassword pw confirm =
     (if pw = [] then Inl PasswordEmpty else if pw \<noteq> confirm then Inl PasswordMismatch else Inr pw)"

fun new_password_loop :: "enroll_env \<Rightarrow> int \<Rightarrow> nat \<Rightarrow> err option \<Rightarrow> bytes result" where
  "new_password_loop E minLength 0 failure = Inl (Internal ''No valid new password entered. No backup was written.'')"
| "new_password_loop E minLength (Suc left) failure =
     (case AskNewPassword E (maxEnrollAttempts - left) failure of
        Inl e \<Rightarrow> if e = PasswordMismatch \<or> e = PasswordEmpty then new_password_loop E minLength left (Some e) else Inl e
      | Inr pw \<Rightarrow> if RuneCount E pw < minLength
          then new_password_loop E minLength left
            (Some (Internal ''The password has %d characters; at least %d are required.''))
          else Inr pw)"

definition readNewPassword :: "enroll_env \<Rightarrow> int \<Rightarrow> bytes result" where
  "readNewPassword E minLength =
     new_password_loop E (if minLength < PasswordMinLengthFloor then DefaultPasswordMinLength else minLength)
       maxEnrollAttempts None"

text \<open>\<open>CombineWithPassword\<close>: the combined secret and the challenge to store.\<close>

definition CombineWithPassword :: "crypto \<Rightarrow> enroll_env \<Rightarrow> bytes \<Rightarrow> bool \<Rightarrow> (bytes \<times> challenge_data) result" where
  "CombineWithPassword C E password noPassword =
     bindE (ChallengeSalt E) (\<lambda>salt.
     bindE (MakeCredential E) (\<lambda>credID.
     bindE (GetHmac E credID salt) (\<lambda>secret.
     bindE (checkE (length secret = fido2SaltSize) (Internal ''FIDO2 hmac-secret returned %d bytes, want %d'')) (\<lambda>_.
       Inr (CombinePasswordWithSecret password secret, NewChallenge C credID salt noPassword)))))"

record new_slot =
  ns_Type :: string
  ns_Label :: string
  ns_Secret :: bytes
  ns_Challenge :: "challenge_data option"
  ns_Check :: string

definition registerYubiKey :: "crypto \<Rightarrow> enroll_env \<Rightarrow> bytes \<Rightarrow> auth_mode \<Rightarrow> new_slot result" where
  "registerYubiKey C E password mode = (case YubiKeyConnected E of
     Inl _ \<Rightarrow> Inl YubiKeyRequired
   | Inr _ \<Rightarrow> (case CombineWithPassword C E password (mode = AuthModeYubiKey) of
       Inl e \<Rightarrow> Inl (Internal ''YubiKey authentication failed: %w'')
     | Inr (combined, cd) \<Rightarrow> (case checkChallengeData C cd of
         Inl e \<Rightarrow> Inl (Internal ''YubiKey registration returned invalid data: %w'')
       | Inr _ \<Rightarrow> Inr \<lparr>ns_Type = RegularSlotType mode, ns_Label = ''YubiKey'', ns_Secret = combined,
                       ns_Challenge = Some cd, ns_Check = []\<rparr>)))"

definition createRecoveryCode :: "crypto \<Rightarrow> enroll_env \<Rightarrow> code result" where
  "createRecoveryCode C E = bindE (Generate C (CodeRandom E)) (\<lambda>code.
     bindE (ShowRecoveryCode E (Display code)) (\<lambda>_. Inr code))"

fun add_slots :: "crypto \<Rightarrow> enroll_env \<Rightarrow> bytes \<Rightarrow> argon2_params \<Rightarrow> new_slot list \<Rightarrow> keyset \<Rightarrow> keyset result" where
  "add_slots C E master params [] ks = Inr ks"
| "add_slots C E master params (s # ss) ks =
     (case SlotRandom E (length (ks_Slots ks)) of (salt, nonce) \<Rightarrow>
        bindE (AddSlot C ks master (ns_Type s) (ns_Label s) (ns_Secret s) params (ns_Challenge s) (ns_Check s) salt nonce)
          (add_slots C E master params ss))"

fun prove_slots :: "crypto \<Rightarrow> keyset \<Rightarrow> bytes \<Rightarrow> nat \<Rightarrow> new_slot list \<Rightarrow> unit result" where
  "prove_slots C ks master i [] = Inr ()"
| "prove_slots C ks master i (s # ss) =
     (if Unlock C ks (int i) (ns_Secret s) = Inr master then prove_slots C ks master (Suc i) ss
      else Inl (Internal ''Internal error: new key slot %d does not unlock. No backup was written.''))"

definition enrollKeySet :: "crypto \<Rightarrow> (string \<Rightarrow> int option) \<Rightarrow> enroll_env \<Rightarrow> config \<Rightarrow> (keyset \<times> bytes) result" where
  "enrollKeySet C parse_time E cfg =
     (let mode = AuthenticationMode cfg; params = config_argon2_params cfg in
      bindE (if mode \<noteq> AuthModeYubiKey then readNewPassword E (PasswordMinLength cfg) else Inr []) (\<lambda>password.
      bindE (if mode = AuthModePassword
             then Inr \<lparr>ns_Type = SlotPassword, ns_Label = ''Password'', ns_Secret = password, ns_Challenge = None, ns_Check = []\<rparr>
             else registerYubiKey C E password mode) (\<lambda>regular.
      bindE (if CreatesRecoveryCode cfg
             then bindE (createRecoveryCode C E) (\<lambda>code. Inr [\<lparr>ns_Type = SlotRecovery, ns_Label = ''Recovery code'',
                    ns_Secret = Secret code, ns_Challenge = None, ns_Check = code_check code\<rparr>])
             else Inr []) (\<lambda>rec.
      let slots = regular # rec in
      bindE (NewKeySet mode (fst (KeySetRandom E)) (snd (KeySetRandom E)) (CreatedNow E)) (\<lambda>(ks, master).
      bindE (add_slots C E master params slots ks) (\<lambda>ks.
      bindE (prove_slots C ks master 0 slots) (\<lambda>_.
      case ValidateKeySet C parse_time ks of
        Inl e \<Rightarrow> Inl (Internal ''Internal error: new keys are invalid: %w'')
      | Inr _ \<Rightarrow> Inr (ks, master))))))))"

definition obtainKeys :: "crypto \<Rightarrow> (string \<Rightarrow> int option) \<Rightarrow> unlock_ui \<Rightarrow> enroll_env \<Rightarrow> config \<Rightarrow> keyset option \<Rightarrow> (keyset \<times> bytes) result" where
  "obtainKeys C parse_time ui E cfg existing = (case existing of
     Some ks \<Rightarrow> bindE (UnlockKeySet C ui ks False) (\<lambda>master. Inr (ks, master))
   | None \<Rightarrow> enrollKeySet C parse_time E cfg)"

datatype refusal_answer = RefusalCancel | RefusalRetry | RefusalNewKeys

definition askAfterYubiKeyRefusal :: "(bool \<Rightarrow> refusal_answer result) \<Rightarrow> keyset option \<Rightarrow> err \<Rightarrow> refusal_answer" where
  "askAfterYubiKeyRefusal ask existing e = (case (existing, e) of
     (Some ks, YubiKeyError _) \<Rightarrow> (case ask (HasSlotType ks SlotRecovery) of Inl _ \<Rightarrow> RefusalCancel | Inr answer \<Rightarrow> answer)
   | _ \<Rightarrow> RefusalCancel)"

section \<open>The YubiKey test\<close>

datatype check_kind = Match | Capability

definition yubiKeySlot :: "keyset option \<Rightarrow> slot option" where
  "yubiKeySlot ks = (case ks of None \<Rightarrow> None | Some ks \<Rightarrow>
     if \<not> AuthModeUsesYubiKey (ks_AuthMode ks) then None
     else find (\<lambda>s. SlotUsesYubiKey s \<and> slot_Challenge s \<noteq> None) (ks_Slots ks))"

definition keycheck_run :: "(challenge_data \<Rightarrow> bytes result) \<Rightarrow> unit result \<Rightarrow> keyset option \<Rightarrow> check_kind \<times> err option" where
  "keycheck_run derive probe ks = (case yubiKeySlot ks of
     Some slot \<Rightarrow> (Match, case derive (the (slot_Challenge slot)) of Inl e \<Rightarrow> Some e | Inr _ \<Rightarrow> None)
   | None \<Rightarrow> (Capability, case probe of Inl e \<Rightarrow> Some e | Inr _ \<Rightarrow> None))"

section \<open>What enrollment creates\<close>

lemma add_slots_Inr:
  "crypto_ok C \<Longrightarrow> add_slots C E master params ss ks = Inr ks' \<Longrightarrow>
     ks_ID ks' = ks_ID ks \<and> ks_AuthMode ks' = ks_AuthMode ks \<and> ks_CreatedUTC ks' = ks_CreatedUTC ks
     \<and> (\<exists>new. ks_Slots ks' = ks_Slots ks @ new \<and> map slot_Type new = map ns_Type ss
           \<and> map slot_Check new = map ns_Check ss \<and> map slot_Label new = map ns_Label ss
           \<and> map slot_Challenge new = map ns_Challenge ss)
     \<and> (\<forall>i < length ss. Unlock C ks' (int (length (ks_Slots ks) + i)) (ns_Secret (ss ! i)) = Inr master)
     \<and> (\<forall>i s. i < int (length (ks_Slots ks)) \<longrightarrow> Unlock C ks' i s = Unlock C ks i s)"
proof (induction ss arbitrary: ks)
  case Nil
  then show ?case by simp
next
  case (Cons s ss)
  obtain salt nonce where r: "SlotRandom E (length (ks_Slots ks)) = (salt, nonce)" by fastforce
  with Cons.prems obtain ks1 where
    add: "AddSlot C ks master (ns_Type s) (ns_Label s) (ns_Secret s) params (ns_Challenge s) (ns_Check s) salt nonce = Inr ks1"
    and rest: "add_slots C E master params ss ks1 = Inr ks'"
    by (auto simp: e_iff)
  obtain sl where ks1: "ks1 = ks\<lparr>ks_Slots := ks_Slots ks @ [sl]\<rparr>" "slot_Type sl = ns_Type s"
    "slot_Check sl = ns_Check s" "slot_Label sl = ns_Label s" "slot_Challenge sl = ns_Challenge s"
    by (rule AddSlot_Inr [OF Cons.prems(1) add]) fastforce
  from Cons.IH [OF Cons.prems(1) rest] obtain new where
    new: "ks_Slots ks' = ks_Slots ks1 @ new" "map slot_Type new = map ns_Type ss"
      "map slot_Check new = map ns_Check ss" "map slot_Label new = map ns_Label ss"
      "map slot_Challenge new = map ns_Challenge ss"
    and meta: "ks_ID ks' = ks_ID ks1" "ks_AuthMode ks' = ks_AuthMode ks1" "ks_CreatedUTC ks' = ks_CreatedUTC ks1"
    and unl: "\<And>i. i < length ss \<Longrightarrow> Unlock C ks' (int (length (ks_Slots ks1) + i)) (ns_Secret (ss ! i)) = Inr master"
    and old: "\<And>i s. i < int (length (ks_Slots ks1)) \<Longrightarrow> Unlock C ks' i s = Unlock C ks1 i s"
    by blast
  have "Unlock C ks' (int (length (ks_Slots ks) + i)) (ns_Secret ((s # ss) ! i)) = Inr master"
    if "i < length (s # ss)" for i
  proof (cases i)
    case 0
    with old [of "int (length (ks_Slots ks))"] Unlock_added [OF Cons.prems(1) add] show ?thesis
      by (simp add: ks1(1))
  next
    case (Suc j)
    with unl [of j] that show ?thesis by (simp add: ks1(1))
  qed
  moreover have "Unlock C ks' i x = Unlock C ks i x" if "i < int (length (ks_Slots ks))" for i x
    using old [of i x] Unlock_older [OF Cons.prems(1) add that] that by (simp add: ks1(1))
  ultimately show ?case using new meta ks1 by simp
qed

lemma RegularSlotType_simps [simp]:
  "RegularSlotType AuthModePassword = SlotPassword" "RegularSlotType mode \<noteq> SlotRecovery"
  "SlotPassword \<noteq> SlotRecovery"
  by (simp_all add: RegularSlotType_def auth_mode_def slot_type_def)

text \<open>The two slots of a new key set and the secrets that open them.\<close>

lemma enrollKeySet_Inr:
  assumes C: "crypto_ok C" and enroll: "enrollKeySet C parse_time E cfg = Inr (ks, master)"
  obtains regular :: new_slot and rec where
    "ValidateKeySet C parse_time ks = Inr ()" "ks_AuthMode ks = AuthenticationMode cfg"
    "map slot_Type (ks_Slots ks) = RegularSlotType (AuthenticationMode cfg) # map ns_Type rec"
    "map slot_Check (ks_Slots ks) = ns_Check regular # map ns_Check rec"
    "Unlock C ks 0 (ns_Secret regular) = Inr master"
    "\<And>i. i < length rec \<Longrightarrow> Unlock C ks (int (Suc i)) (ns_Secret (rec ! i)) = Inr master"
    "if CreatesRecoveryCode cfg
     then \<exists>code. createRecoveryCode C E = Inr code \<and> rec = [\<lparr>ns_Type = SlotRecovery, ns_Label = ''Recovery code'',
            ns_Secret = Secret code, ns_Challenge = None, ns_Check = code_check code\<rparr>]
     else rec = []"
proof -
  let ?mode = "AuthenticationMode cfg"
  from enroll obtain password regular rec ks0 where
    reg: "(if ?mode = AuthModePassword
       then Inr \<lparr>ns_Type = SlotPassword, ns_Label = ''Password'', ns_Secret = password, ns_Challenge = None, ns_Check = []\<rparr>
       else registerYubiKey C E password ?mode) = Inr regular"
    and rec: "(if CreatesRecoveryCode cfg
       then bindE (createRecoveryCode C E) (\<lambda>code. Inr [\<lparr>ns_Type = SlotRecovery, ns_Label = ''Recovery code'',
              ns_Secret = Secret code, ns_Challenge = None, ns_Check = code_check code\<rparr>])
       else Inr []) = Inr rec"
    and new: "NewKeySet ?mode (fst (KeySetRandom E)) (snd (KeySetRandom E)) (CreatedNow E) = Inr (ks0, master)"
    and add: "add_slots C E master (config_argon2_params cfg) (regular # rec) ks0 = Inr ks"
    and val: "ValidateKeySet C parse_time ks = Inr ()"
    by (fastforce simp: enrollKeySet_def Let_def e_iff simp del: add_slots.simps prove_slots.simps)
  have ks0: "ks_Slots ks0 = []" "ks_AuthMode ks0 = ?mode" using new by (auto simp: NewKeySet_def e_iff)
  have ty: "ns_Type regular = RegularSlotType ?mode"
    using reg by (auto simp: registerYubiKey_def split: if_splits sum.splits)
  note slots = add_slots_Inr [OF C add, unfolded ks0]
  have "Unlock C ks (int i) (ns_Secret ((regular # rec) ! i)) = Inr master" if "i < Suc (length rec)" for i
    using slots that by auto
  from this [of 0] this [of "Suc i" for i] have
    "Unlock C ks 0 (ns_Secret regular) = Inr master"
    "\<And>i. i < length rec \<Longrightarrow> Unlock C ks (int (Suc i)) (ns_Secret (rec ! i)) = Inr master" by simp_all
  moreover have "if CreatesRecoveryCode cfg
     then \<exists>code. createRecoveryCode C E = Inr code \<and> rec = [\<lparr>ns_Type = SlotRecovery, ns_Label = ''Recovery code'',
            ns_Secret = Secret code, ns_Challenge = None, ns_Check = code_check code\<rparr>]
     else rec = []"
    using rec by (auto simp: e_iff split: if_splits)
  ultimately show ?thesis using that [of rec regular] val slots ty by auto
qed

text \<open>New keys that are returned are complete: the key set passes the validation of every reader, has
  exactly one slot of the configured mode and a recovery slot exactly when the configuration creates one
  (always with a YubiKey), and every slot opens the same 32-byte master key.\<close>

lemma enrollKeySet_complete:
  assumes "crypto_ok C" and "enrollKeySet C parse_time E cfg = Inr (ks, master)"
  shows "ValidateKeySet C parse_time ks = Inr () \<and> ks_AuthMode ks = AuthenticationMode cfg
     \<and> map slot_Type (ks_Slots ks) = RegularSlotType (AuthenticationMode cfg)
          # (if CreatesRecoveryCode cfg then [SlotRecovery] else [])
     \<and> (\<forall>i < length (ks_Slots ks). \<exists>secret. Unlock C ks (int i) secret = Inr master)"
proof (rule enrollKeySet_Inr [OF assms])
  fix regular :: new_slot and rec
  assume *: "ValidateKeySet C parse_time ks = Inr ()" "ks_AuthMode ks = AuthenticationMode cfg"
    "map slot_Type (ks_Slots ks) = RegularSlotType (AuthenticationMode cfg) # map ns_Type rec"
    "Unlock C ks 0 (ns_Secret regular) = Inr master"
    "\<And>i. i < length rec \<Longrightarrow> Unlock C ks (int (Suc i)) (ns_Secret (rec ! i)) = Inr master"
    "if CreatesRecoveryCode cfg
     then \<exists>code. createRecoveryCode C E = Inr code \<and> rec = [\<lparr>ns_Type = SlotRecovery, ns_Label = ''Recovery code'',
            ns_Secret = Secret code, ns_Challenge = None, ns_Check = code_check code\<rparr>]
     else rec = []"
  have len: "length (ks_Slots ks) = Suc (length rec)" using arg_cong [OF *(3), of length] by simp
  have "\<exists>secret. Unlock C ks (int i) secret = Inr master" if "i < length (ks_Slots ks)" for i
    using that *(4,5) len by (cases i) auto
  moreover have "map ns_Type rec = (if CreatesRecoveryCode cfg then [SlotRecovery] else [])"
    using *(6) by (auto split: if_splits)
  ultimately show ?thesis using *(1-3) by simp
qed

section \<open>Enrollment succeeds\<close>

definition params_ok :: "argon2_params \<Rightarrow> bool" where
  "params_ok P \<longleftrightarrow> ValidateArgon2Params (Time P) (MemoryKB P) (ucast (Threads P)) = Inr ()"

text \<open>A slot to create that validation accepts once it has its keys.\<close>

definition new_slot_ok :: "crypto \<Rightarrow> new_slot \<Rightarrow> bool" where
  "new_slot_ok C s \<longleftrightarrow> ns_Label s \<noteq> [] \<and> length (ns_Label s) \<le> 100
     \<and> (if ns_Type s = SlotPasswordYubiKey \<or> ns_Type s = SlotYubiKey
        then \<exists>cd. ns_Challenge s = Some cd \<and> checkChallengeData C cd = Inr ()
               \<and> cd_NoPassword cd = (ns_Type s = SlotYubiKey)
        else ns_Challenge s = None)
     \<and> (if ns_Type s = SlotRecovery then ValidCheck (ns_Check s) else ns_Check s = [])"

lemma AddSlot_ok:
  assumes "crypto_ok C" "length master = KeyLen" "params_ok P" "length salt = SaltLen" "length nonce = NonceLen"
    and "new_slot_ok C s"
  shows "\<exists>sl. AddSlot C ks master (ns_Type s) (ns_Label s) (ns_Secret s) P (ns_Challenge s) (ns_Check s) (Inr salt) (Inr nonce)
      = Inr (ks\<lparr>ks_Slots := ks_Slots ks @ [sl]\<rparr>) \<and> slot_Type sl = ns_Type s \<and> validateSlot C sl = Inr ()"
proof -
  have kek: "DeriveKEK C (ns_Secret s) salt P = Inr (argon2 C (ns_Secret s) salt (Time P) (MemoryKB P) (Threads P))"
    using assms(3,4) by (simp add: DeriveKEK_ok params_ok_def)
  let ?kek = "argon2 C (ns_Secret s) salt (Time P) (MemoryKB P) (Threads P)"
  have len: "length ?kek = KeyLen" by (simp add: crypto_okD(4) [OF assms(1)] KeyLen_def)
  let ?aad = "slotAAD (ks_ID ks) (length (ks_Slots ks)) (ns_Type s)"
  have w: "length (aead_seal C ?kek nonce master ?aad) = wrappedKeyLen"
    by (simp add: crypto_okD(1) [OF assms(1)] assms(2) wrappedKeyLen_def)
  show ?thesis
    using assms(3-6) w
    by (simp add: AddSlot_def kek Let_def SealKey_OpenKey(1) [OF assms(1) len assms(5)])
      (auto simp: validateSlot_def new_slot_ok_def params_ok_def SlotUsesYubiKey_def e_iff split: if_splits)
qed

lemma add_slots_ok:
  assumes "crypto_ok C" "length master = KeyLen" "params_ok P"
    and rnd: "\<And>i. i < length (ks_Slots ks) + length ss \<Longrightarrow>
          \<exists>salt nonce. SlotRandom E i = (Inr salt, Inr nonce) \<and> length salt = SaltLen \<and> length nonce = NonceLen"
    and ss: "list_all (new_slot_ok C) ss"
  shows "\<exists>new. add_slots C E master P ss ks = Inr (ks\<lparr>ks_Slots := ks_Slots ks @ new\<rparr>)
     \<and> map slot_Type new = map ns_Type ss \<and> list_all (\<lambda>s. validateSlot C s = Inr ()) new"
  using rnd ss
proof (induction ss arbitrary: ks)
  case Nil
  then show ?case by simp
next
  case (Cons s ss)
  from Cons.prems(1) [of "length (ks_Slots ks)"] obtain salt nonce where
    r: "SlotRandom E (length (ks_Slots ks)) = (Inr salt, Inr nonce)" "length salt = SaltLen" "length nonce = NonceLen"
    by auto
  from AddSlot_ok [OF assms(1-3) r(2,3), of s ks] Cons.prems(2) obtain sl where
    sl: "AddSlot C ks master (ns_Type s) (ns_Label s) (ns_Secret s) P (ns_Challenge s) (ns_Check s) (Inr salt) (Inr nonce)
      = Inr (ks\<lparr>ks_Slots := ks_Slots ks @ [sl]\<rparr>)" "slot_Type sl = ns_Type s" "validateSlot C sl = Inr ()" by auto
  have "\<exists>new. add_slots C E master P ss (ks\<lparr>ks_Slots := ks_Slots ks @ [sl]\<rparr>)
      = Inr (ks\<lparr>ks_Slots := ks_Slots ks @ [sl]\<rparr>\<lparr>ks_Slots := ks_Slots (ks\<lparr>ks_Slots := ks_Slots ks @ [sl]\<rparr>) @ new\<rparr>)
     \<and> map slot_Type new = map ns_Type ss \<and> list_all (\<lambda>s. validateSlot C s = Inr ()) new"
    by (rule Cons.IH) (use Cons.prems in simp_all)
  then obtain new where "add_slots C E master P ss (ks\<lparr>ks_Slots := ks_Slots ks @ [sl]\<rparr>)
      = Inr (ks\<lparr>ks_Slots := ks_Slots ks @ sl # new\<rparr>)"
    "map slot_Type new = map ns_Type ss" "list_all (\<lambda>s. validateSlot C s = Inr ()) new" by auto
  with r sl show ?case by (intro exI [of _ "sl # new"]) simp
qed

lemma prove_slots_ok:
  "(\<And>i. i < length ss \<Longrightarrow> Unlock C ks (int (k + i)) (ns_Secret (ss ! i)) = Inr master) \<Longrightarrow>
     prove_slots C ks master k ss = Inr ()"
proof (induction ss arbitrary: k)
  case (Cons s ss)
  have "Unlock C ks (int (Suc k + i)) (ns_Secret (ss ! i)) = Inr master" if "i < length ss" for i
    using Cons.prems [of "Suc i"] that by simp
  with Cons.IH [of "Suc k"] Cons.prems [of 0] show ?case by simp
qed simp

lemma count_slots_ok:
  "list_all (\<lambda>s. (slot_Type s = regular \<or> slot_Type s = SlotRecovery) \<and> validateSlot C s = Inr ()) ss \<Longrightarrow>
     count_slots C regular ss r c = Inr (r + length (filter (\<lambda>s. slot_Type s = regular) ss),
       c + length (filter (\<lambda>s. slot_Type s \<noteq> regular) ss))"
  by (induction ss arbitrary: r c) auto

lemma enrolled_slots_valid:
  assumes "list_all (\<lambda>s. validateSlot C s = Inr ()) new"
    and "map slot_Type new = regular # map ns_Type rec" "list_all (\<lambda>s. ns_Type s = SlotRecovery) (rec :: new_slot list)"
    "length rec \<le> 1" "regular \<noteq> SlotRecovery"
  shows "\<exists>c \<le> 1. count_slots C regular new 0 0 = Inr (Suc 0, c) \<and> new \<noteq> []"
proof -
  obtain s ss where new: "new = s # ss" "slot_Type s = regular" "map slot_Type ss = map ns_Type rec"
    using assms(2) by (cases new) auto
  have ss: "list_all (\<lambda>s. slot_Type s = SlotRecovery) ss"
    using new(3) assms(3) by (metis list_all_length length_map nth_map)
  moreover have "length ss \<le> 1" using arg_cong [OF new(3), of length] assms(4) by simp
  moreover have "count_slots C regular new 0 0 = Inr (length (filter (\<lambda>s. slot_Type s = regular) new),
      length (filter (\<lambda>s. slot_Type s \<noteq> regular) new))"
    using count_slots_ok [of regular C new 0 0] assms(1) ss new by (auto simp: list_all_iff)
  moreover have "filter (\<lambda>s. slot_Type s = regular) ss = []"
    using ss assms(5) by (auto simp: filter_empty_conv list_all_iff)
  moreover have "length (filter (\<lambda>s. slot_Type s \<noteq> regular) new) \<le> 1"
    using new(1,2) \<open>length ss \<le> 1\<close> by (auto intro: order_trans [OF length_filter_le])
  ultimately show ?thesis using new(1,2) by simp
qed

text \<open>Enrollment with answers that are in order: the first password is long enough, the YubiKey answers as
  the WebAuthn API documents, the recovery code is shown, and random bytes are available.\<close>

definition enroll_env_ok :: "(string \<Rightarrow> int option) \<Rightarrow> enroll_env \<Rightarrow> config \<Rightarrow> bool" where
  "enroll_env_ok parse_time E cfg \<longleftrightarrow>
     (AuthenticationMode cfg \<noteq> AuthModeYubiKey \<longrightarrow>
        (\<exists>pw. AskNewPassword E 1 None = Inr pw \<and> PasswordMinLength cfg \<le> RuneCount E pw))
   \<and> (AuthenticationMode cfg \<noteq> AuthModePassword \<longrightarrow> YubiKeyConnected E = Inr () \<and>
        (\<exists>salt cred h. ChallengeSalt E = Inr salt \<and> MakeCredential E = Inr cred \<and> GetHmac E cred salt = Inr h
           \<and> length salt = fido2SaltSize \<and> length cred \<in> {1..fido2CredIDMax} \<and> length h = fido2SaltSize))
   \<and> (CreatesRecoveryCode cfg \<longrightarrow> (\<exists>raw. CodeRandom E = Inr raw \<and> length raw = 16 \<and> (\<forall>s. ShowRecoveryCode E s = Inr ())))
   \<and> (\<exists>idr m. KeySetRandom E = (Inr idr, Inr m) \<and> length idr = keySetIDLen \<and> length m = KeyLen)
   \<and> parse_time (CreatedNow E) \<noteq> None
   \<and> (\<forall>i < 2. \<exists>salt nonce. SlotRandom E i = (Inr salt, Inr nonce) \<and> length salt = SaltLen \<and> length nonce = NonceLen)"

lemma readNewPassword_first:
  assumes "AskNewPassword E 1 None = Inr pw" "n \<le> RuneCount E pw" "PasswordMinLengthFloor \<le> n"
  shows "readNewPassword E n = Inr pw"
  using assms by (simp add: readNewPassword_def maxEnrollAttempts_def eval_nat_numeral)

lemma registerYubiKey_ok:
  assumes "YubiKeyConnected E = Inr ()" "ChallengeSalt E = Inr salt" "MakeCredential E = Inr cred" "GetHmac E cred salt = Inr h"
    "length salt = fido2SaltSize" "length cred \<in> {1..fido2CredIDMax}" "length h = fido2SaltSize"
    "mode \<in> {AuthModePasswordYubiKey, AuthModeYubiKey}"
  shows "\<exists>s. registerYubiKey C E password mode = Inr s \<and> ns_Type s = RegularSlotType mode \<and> new_slot_ok C s"
proof -
  have "checkChallengeData C (NewChallenge C cred salt np) = Inr ()" for np
    using assms(5,6) by (intro NewChallenge_ok) auto
  moreover have "cd_NoPassword (NewChallenge C cred salt np) = np" for np by (simp add: NewChallenge_def Let_def)
  ultimately show ?thesis
    using assms by (auto simp: registerYubiKey_def CombineWithPassword_def new_slot_ok_def RegularSlotType_def
        auth_mode_def slot_type_def)
qed

lemma createRecoveryCode_ok:
  assumes "CodeRandom E = Inr raw" "length raw = 16" "\<forall>s. ShowRecoveryCode E s = Inr ()"
  shows "\<exists>code. createRecoveryCode C E = Inr code \<and> ValidCheck (code_check code)"
  using assms by (simp add: createRecoveryCode_def Generate_ok ValidCheck_recoveryChecksum)

lemma enrollKeySet_ok:
  assumes C: "crypto_ok C" and cfg: "parseConfig check_exclude cfg0 yerr doc = Inr cfg"
    and E: "enroll_env_ok parse_time E cfg"
  shows "\<exists>ks master. enrollKeySet C parse_time E cfg = Inr (ks, master)"
proof -
  let ?mode = "AuthenticationMode cfg" and ?P = "config_argon2_params cfg"
  note facts = validateConfig_facts [OF parseConfig_validated [OF cfg]]
  have P: "params_ok ?P" using config_params_validated(4) [OF cfg] by (simp add: params_ok_def)
  obtain password where pw: "(if ?mode \<noteq> AuthModeYubiKey then readNewPassword E (PasswordMinLength cfg) else Inr []) = Inr password"
  proof (cases "?mode = AuthModeYubiKey")
    case True
    with that show ?thesis by simp
  next
    case False
    with E obtain pw where "AskNewPassword E 1 None = Inr pw" "PasswordMinLength cfg \<le> RuneCount E pw"
      unfolding enroll_env_ok_def by blast
    from readNewPassword_first [OF this] facts False that show ?thesis by simp
  qed
  have reg: "\<exists>regular. (if ?mode = AuthModePassword
       then Inr \<lparr>ns_Type = SlotPassword, ns_Label = ''Password'', ns_Secret = password, ns_Challenge = None, ns_Check = []\<rparr>
       else registerYubiKey C E password ?mode) = Inr regular
     \<and> ns_Type regular = RegularSlotType ?mode \<and> new_slot_ok C regular"
  proof (cases "?mode = AuthModePassword")
    case True
    then show ?thesis by (simp add: new_slot_ok_def slot_type_def)
  next
    case False
    with E obtain salt cred h where "YubiKeyConnected E = Inr ()" "ChallengeSalt E = Inr salt" "MakeCredential E = Inr cred"
      "GetHmac E cred salt = Inr h" "length salt = fido2SaltSize" "length cred \<in> {1..fido2CredIDMax}" "length h = fido2SaltSize"
      unfolding enroll_env_ok_def by blast
    from registerYubiKey_ok [OF this, of ?mode C password] False facts show ?thesis by auto
  qed
  obtain rec where rec: "(if CreatesRecoveryCode cfg
       then bindE (createRecoveryCode C E) (\<lambda>code. Inr [\<lparr>ns_Type = SlotRecovery, ns_Label = ''Recovery code'',
              ns_Secret = Secret code, ns_Challenge = None, ns_Check = code_check code\<rparr>])
       else Inr []) = Inr rec"
    "list_all (new_slot_ok C) rec" "list_all (\<lambda>s. ns_Type s = SlotRecovery) rec" "length rec \<le> 1"
  proof (cases "CreatesRecoveryCode cfg")
    case True
    with E obtain raw where "CodeRandom E = Inr raw" "length raw = 16" "\<forall>s. ShowRecoveryCode E s = Inr ()"
      unfolding enroll_env_ok_def by blast
    from createRecoveryCode_ok [OF this, of C] obtain code where
      "createRecoveryCode C E = Inr code" "ValidCheck (code_check code)" by blast
    with True show ?thesis
      by (intro that [of "[\<lparr>ns_Type = SlotRecovery, ns_Label = ''Recovery code'', ns_Secret = Secret code,
            ns_Challenge = None, ns_Check = code_check code\<rparr>]"]) (simp_all add: new_slot_ok_def slot_type_def)
  next
    case False
    with that [of "[]"] show ?thesis by simp
  qed
  from reg obtain regular where reg: "(if ?mode = AuthModePassword
       then Inr \<lparr>ns_Type = SlotPassword, ns_Label = ''Password'', ns_Secret = password, ns_Challenge = None, ns_Check = []\<rparr>
       else registerYubiKey C E password ?mode) = Inr regular"
     "ns_Type regular = RegularSlotType ?mode" "new_slot_ok C regular" by blast
  obtain idr m where r: "KeySetRandom E = (Inr idr, Inr m)" "length idr = keySetIDLen" "length m = KeyLen"
    using E by (auto simp: enroll_env_ok_def)
  let ?ks0 = "\<lparr>ks_ID = hex_encode idr, ks_CreatedUTC = CreatedNow E, ks_AuthMode = ?mode, ks_Slots = []\<rparr>"
  obtain new where new: "add_slots C E m ?P (regular # rec) ?ks0 = Inr (?ks0\<lparr>ks_Slots := new\<rparr>)"
    "map slot_Type new = map ns_Type (regular # rec)" "list_all (\<lambda>s. validateSlot C s = Inr ()) new"
    using add_slots_ok [OF C r(3) P, of ?ks0 "regular # rec" E] E reg(3) rec(2,4)
    by (auto simp: enroll_env_ok_def simp del: add_slots.simps)
  let ?ks = "?ks0\<lparr>ks_Slots := new\<rparr>"
  have proved: "prove_slots C ?ks m 0 (regular # rec) = Inr ()"
    using add_slots_Inr [OF C new(1)] by (intro prove_slots_ok) simp
  have valid: "ValidateKeySet C parse_time ?ks = Inr ()"
    using enrolled_slots_valid [OF new(3), of "RegularSlotType ?mode" rec] new(2) reg(2) rec(3,4) E r(2) facts
    by (auto simp: ValidateKeySet_def enroll_env_ok_def auth_mode_def)
  show ?thesis
    using pw reg(1) rec(1) r(1) new(1) proved valid
    by (simp add: enrollKeySet_def Let_def NewKeySet_def del: add_slots.simps prove_slots.simps)
qed

text \<open>Enrollment always succeeds for a configuration that loaded, in every authentication mode, when the
  user and the YubiKey answer and random bytes are available: none of its internal checks (a slot that
  does not unlock, an invalid key set, refused key-derivation parameters) can fail.\<close>

lemma enrollKeySet_succeeds:
  assumes C: "crypto_ok C" and cfg: "parseConfig check_exclude cfg0 yerr doc = Inr cfg"
    and E: "enroll_env_ok parse_time E cfg"
  shows "\<exists>ks master. enrollKeySet C parse_time E cfg = Inr (ks, master)"
  by (rule enrollKeySet_ok [OF assms])

text \<open>Concrete answers for the witnesses: password keys with a recovery code.\<close>

definition demo_env :: enroll_env where
  "demo_env = \<lparr>AskNewPassword = (\<lambda>_ _. Inr (replicate 12 65)), RuneCount = (\<lambda>b. int (length b)),
     YubiKeyConnected = Inl YubiKeyRequired, ChallengeSalt = Inl EOF, MakeCredential = Inl EOF, GetHmac = (\<lambda>_ _. Inl EOF),
     CodeRandom = Inr (replicate 16 0), ShowRecoveryCode = (\<lambda>_. Inr ()),
     KeySetRandom = (Inr (replicate 16 1), Inr (replicate 32 6)), CreatedNow = ''t'',
     SlotRandom = (\<lambda>i. (Inr (replicate 32 (of_nat i)), Inr (replicate 12 3)))\<rparr>"

definition demo_config :: config where
  "demo_config = default_config\<lparr>SourceDirectories := [''C:/A''], BackupDirectory := ''D:/B'', RecoveryCode := True\<rparr>"

lemma demo_config_loads: "parseConfig (\<lambda>_. Inr ()) demo_config None None = Inr demo_config"
proof -
  have "validateConfig (\<lambda>_. Inr ()) demo_config = Inr ()"
    by (simp add: validateConfig_def demo_config_def config_argon_def config_const_def auth_mode_def)
  moreover have "clampArgon2 demo_config = demo_config"
    by (rule clampArgon2_in_bounds) (simp add: argon2_in_bounds_def config_argon_def demo_config_def)
  moreover have "withDefaults demo_config = demo_config"
    by (simp add: withDefaults_def demo_config_def default_config_def zero_config_def)
  ultimately show ?thesis by (simp add: parseConfig_def)
qed

lemma demo_env_ok: "enroll_env_ok (\<lambda>_. Some 0) demo_env demo_config"
  by (simp add: enroll_env_ok_def demo_env_def demo_config_def auth_mode_def keySetIDLen_def KeyLen_def
      SaltLen_def NonceLen_def)

lemma enrollKeySet_succeeds_witness:
  "\<exists>ks master. enrollKeySet demo_crypto (\<lambda>_. Some 0) demo_env demo_config = Inr (ks, master)"
  by (rule enrollKeySet_succeeds [OF demo_crypto_ok demo_config_loads demo_env_ok])

lemma demo_createRecoveryCode: "createRecoveryCode demo_crypto demo_env = Inr zero_code"
  by (simp add: createRecoveryCode_def demo_env_def zero_code_Generate)

text \<open>The key set those answers create, evaluated.\<close>

definition demo_master :: bytes where "demo_master = replicate 32 6"

definition demo_enrolled :: keyset where
  "demo_enrolled =
     (case enrollKeySet demo_crypto (\<lambda>_. Some 0) demo_env demo_config of Inr (ks, _) \<Rightarrow> ks | Inl _ \<Rightarrow> demo_keyset)"

lemma enrollKeySet_master:
  "enrollKeySet C parse_time E cfg = Inr (ks, m) \<Longrightarrow> snd (KeySetRandom E) = Inr m"
  by (auto simp: enrollKeySet_def Let_def e_iff NewKeySet_def simp del: add_slots.simps prove_slots.simps
      split: prod.splits)

lemma demo_enrolled: "enrollKeySet demo_crypto (\<lambda>_. Some 0) demo_env demo_config = Inr (demo_enrolled, demo_master)"
proof -
  obtain ks m where e: "enrollKeySet demo_crypto (\<lambda>_. Some 0) demo_env demo_config = Inr (ks, m)"
    using enrollKeySet_ok [OF demo_crypto_ok demo_config_loads demo_env_ok] by blast
  with enrollKeySet_master [OF e] show ?thesis by (simp add: demo_enrolled_def demo_master_def demo_env_def)
qed

lemma enrollKeySet_complete_witness:
  "ValidateKeySet demo_crypto (\<lambda>_. Some 0) demo_enrolled = Inr ()
     \<and> map slot_Type (ks_Slots demo_enrolled) = [SlotPassword, SlotRecovery]"
  using enrollKeySet_complete [OF demo_crypto_ok demo_enrolled]
  by (simp add: demo_config_def CreatesRecoveryCode_def RegularSlotType_def auth_mode_def)

section \<open>Unlocking again\<close>

lemma recovery_unlock:
  assumes C: "crypto_ok C" and enroll: "enrollKeySet C parse_time E cfg = Inr (ks, master)"
    and rec: "CreatesRecoveryCode cfg" "CodeRandom E = Inr raw" "length raw = 16" "Generate C (Inr raw) = Inr code"
    and typed: "typed (Display code) t"
    and ui: "ChooseUnlockMethod ui = Inr True" "AskRecoveryCode ui 1 None = Inr t"
  shows "UnlockKeySet C ui ks True = Inr master"
proof (rule enrollKeySet_Inr [OF C enroll])
  fix regular :: new_slot and slots
  assume *: "map slot_Type (ks_Slots ks) = RegularSlotType (AuthenticationMode cfg) # map ns_Type slots"
    "map slot_Check (ks_Slots ks) = ns_Check regular # map ns_Check slots"
    "\<And>i. i < length slots \<Longrightarrow> Unlock C ks (int (Suc i)) (ns_Secret (slots ! i)) = Inr master"
    "if CreatesRecoveryCode cfg
     then \<exists>code. createRecoveryCode C E = Inr code \<and> slots = [\<lparr>ns_Type = SlotRecovery, ns_Label = ''Recovery code'',
            ns_Secret = Secret code, ns_Challenge = None, ns_Check = code_check code\<rparr>]
     else slots = []"
  have slots: "slots = [\<lparr>ns_Type = SlotRecovery, ns_Label = ''Recovery code'', ns_Secret = Secret code,
      ns_Challenge = None, ns_Check = code_check code\<rparr>]"
    using *(4) rec by (auto simp: createRecoveryCode_def e_iff)
  with *(1,2) obtain a b where ks: "ks_Slots ks = [a, b]" "slot_Type a = RegularSlotType (AuthenticationMode cfg)"
    "slot_Type b = SlotRecovery" "slot_Check b = code_check code"
    by (auto simp: map_eq_Cons_conv)
  then have index: "SlotIndexes ks SlotRecovery = [1]" by (simp add: SlotIndexes_def upt_rec)
  have parse: "Parse C t = Inr code" by (rule Parse_typed [OF rec(3,4) typed])
  have "Unlock C ks 1 (Secret code) = Inr master" using *(3) [of 0] slots by simp
  with index parse ks ui show ?thesis
    by (simp add: UnlockKeySet_def HasSlotType_def unlockWithRecoveryCode_def maxPasswordAttempts_def eval_nat_numeral)
qed

text \<open>C31. The recovery code works: whatever the authentication mode, the code shown at enrollment, typed from
  the sheet in any case and spacing, unlocks the new key set later in the first attempt and gives its
  master key, without the password or the YubiKey.\<close>

theorem recovery_code_unlocks:
  assumes C: "crypto_ok C" and enroll: "enrollKeySet C parse_time E cfg = Inr (ks, master)"
    and rec: "CreatesRecoveryCode cfg" "CodeRandom E = Inr raw" "length raw = 16" "Generate C (Inr raw) = Inr code"
    and typed: "typed (Display code) t"
    and ui: "ChooseUnlockMethod ui = Inr True" "AskRecoveryCode ui 1 None = Inr t"
  shows "UnlockKeySet C ui ks True = Inr master"
  by (rule recovery_unlock [OF assms])

definition demo_ui :: "string \<Rightarrow> unlock_ui" where
  "demo_ui t = \<lparr>ChooseUnlockMethod = Inr True, AskPassword = (\<lambda>_ _. Inl EOF), AskRecoveryCode = (\<lambda>_ _. Inr t),
     CheckConnected = Inl EOF, DeriveFIDO2Secret = (\<lambda>_. Inl EOF)\<rparr>"

theorem recovery_code_unlocks_witness:
  "UnlockKeySet demo_crypto (demo_ui (CHR '' '' # Display zero_code)) demo_enrolled True = Inr demo_master"
proof (rule recovery_code_unlocks [OF demo_crypto_ok demo_enrolled _ _ _ zero_code_Generate])
  show "typed (Display zero_code) (CHR '' '' # Display zero_code)"
    by (rule typed_add [OF typed_refl [OF set_Display [OF zero_code_wf]]]) simp
qed (simp_all add: demo_env_def demo_config_def CreatesRecoveryCode_def demo_ui_def)

lemma password_loop_attempts:
  assumes "\<And>n f. AskPassword ui n f = Inr (pw n)"
    and "\<And>n. n \<in> {1..maxPasswordAttempts} \<Longrightarrow> Unlock C ks (int i) (case y of None \<Rightarrow> pw n | Some y \<Rightarrow> CombinePasswordWithSecret (pw n) y) = res n"
    and "\<And>n. is_ok (res n) \<or> res n = Inl WrongPassword"
  shows "left \<le> maxPasswordAttempts \<Longrightarrow> password_loop C ui ks i y left failure =
     (case filter (\<lambda>n. is_ok (res n)) [Suc (maxPasswordAttempts - left)..<Suc maxPasswordAttempts] of
        [] \<Rightarrow> Inl (Internal (if y \<noteq> None then ''Too many failed authentication attempts.'' else ''Too many wrong password attempts.''))
      | n # _ \<Rightarrow> res n)"
proof (induction left arbitrary: failure)
  case 0
  then show ?case by simp
next
  case (Suc left)
  let ?n = "maxPasswordAttempts - left"
  have n: "[Suc (maxPasswordAttempts - Suc left)..<Suc maxPasswordAttempts] = ?n # [Suc ?n..<Suc maxPasswordAttempts]"
  proof -
    have "Suc (maxPasswordAttempts - Suc left) = ?n" using Suc.prems by simp
    moreover have "?n < Suc maxPasswordAttempts" by simp
    ultimately show ?thesis by (simp only: upt_conv_Cons)
  qed
  have r: "Unlock C ks (int i) (case y of None \<Rightarrow> pw ?n | Some y \<Rightarrow> CombinePasswordWithSecret (pw ?n) y) = res ?n"
    by (rule assms(2)) (use Suc.prems in auto)
  show ?case
  proof (cases "res ?n")
    case (Inl e)
    then have "res ?n = Inl WrongPassword" using assms(3) [of ?n] by auto
    with Suc n r assms(1) show ?thesis by (simp add: Let_def del: upt_Suc)
  next
    case (Inr m)
    with n r assms(1) show ?thesis by (simp add: Let_def del: upt_Suc)
  qed
qed

text \<open>Password keys: the user has three attempts. The first password that opens the slot gives the master
  key; when none of the three does, the answer is the too-many-attempts error, and no other error occurs
  for a validated key set.\<close>

lemma UnlockKeySet_password:
  assumes "crypto_ok C" and "ValidateKeySet C parse_time ks = Inr ()" and "ks_AuthMode ks = AuthModePassword"
    and "\<And>n f. AskPassword ui n f = Inr (pw n)"
  shows "UnlockKeySet C ui ks False =
     (let i = int (hd (SlotIndexes ks SlotPassword)) in
      case filter (\<lambda>n. is_ok (Unlock C ks i (pw n))) [1, 2, 3] of
        [] \<Rightarrow> Inl (Internal ''Too many wrong password attempts.'')
      | n # _ \<Rightarrow> Unlock C ks i (pw n))"
proof -
  let ?i = "hd (SlotIndexes ks SlotPassword)"
  have ne: "SlotIndexes ks SlotPassword \<noteq> []"
    using ValidateKeySet_regular [OF assms(2)] assms(3) by simp
  then have "?i \<in> set (SlotIndexes ks SlotPassword)" by simp
  then have "int ?i < int (length (ks_Slots ks))" by (simp add: SlotIndexes_def)
  then have res: "is_ok (Unlock C ks (int ?i) (pw n)) \<or> Unlock C ks (int ?i) (pw n) = Inl WrongPassword" for n
    using Unlock_validated_cases [OF assms(1,2), of "int ?i" "pw n"] by auto
  have "[Suc (maxPasswordAttempts - maxPasswordAttempts)..<Suc maxPasswordAttempts] = [1, 2, 3]"
    by (simp add: maxPasswordAttempts_def upt_rec)
  with password_loop_attempts [OF assms(4), of C ks ?i None "\<lambda>n. Unlock C ks (int ?i) (pw n)" maxPasswordAttempts None] res
  have "password_loop C ui ks ?i None maxPasswordAttempts None =
     (case filter (\<lambda>n. is_ok (Unlock C ks (int ?i) (pw n))) [1, 2, 3] of
        [] \<Rightarrow> Inl (Internal ''Too many wrong password attempts.'')
      | n # _ \<Rightarrow> Unlock C ks (int ?i) (pw n))"
    by (simp only: option.case simp_thms if_False order_refl)
  with ne assms(3) show ?thesis by (simp add: UnlockKeySet_def Let_def slot_type_def)
qed

lemma UnlockKeySet_password_witness:
  "UnlockKeySet demo_crypto ((demo_ui [])\<lparr>AskPassword := (\<lambda>n _. Inr [4, 5])\<rparr>)
     (demo_keyset\<lparr>ks_Slots := [demo_slot]\<rparr>) False = Inr (replicate 32 6)"
proof -
  let ?ks = "demo_keyset\<lparr>ks_Slots := [demo_slot]\<rparr>"
  have "hd (SlotIndexes ?ks SlotPassword) = 0" by (simp add: SlotIndexes_def demo_slot_def)
  moreover have "Unlock demo_crypto ?ks 0 [4, 5] = Inr (replicate 32 6)"
    using Unlock_added [OF demo_crypto_ok demo_AddSlot] by (simp add: demo_keyset_def)
  ultimately show ?thesis
    by (subst UnlockKeySet_password [OF demo_crypto_ok demo_keyset_valid, where pw = "\<lambda>n. [4, 5]"])
      (simp_all add: demo_keyset_def)
qed

lemma UnlockKeySets_inv:
  assumes "UnlockKeySets C uis sets keys0 = Inr keys" and "distinct (map fst keys0)"
  shows "distinct (map fst keys) \<and> set (map fst keys) = set (map fst keys0) \<union> ks_ID ` set sets
     \<and> length keys0 \<le> length keys \<and> set keys0 \<subseteq> set keys
     \<and> (\<forall>i m. (i, m) \<in> set keys \<longrightarrow> (i, m) \<notin> set keys0 \<longrightarrow>
           (\<exists>ks \<in> set sets. \<exists>n < length keys. ks_ID ks = i \<and> UnlockKeySet C (uis n) ks True = Inr m))"
  using assms
proof (induction sets arbitrary: keys0)
  case Nil
  then show ?case by simp
next
  case (Cons ks sets)
  show ?case
  proof (cases "map_of keys0 (ks_ID ks)")
    case None
    with Cons.prems obtain m where m: "UnlockKeySet C (uis (length keys0)) ks True = Inr m"
      and rest: "UnlockKeySets C uis sets ((ks_ID ks, m) # keys0) = Inr keys" by (auto simp: e_iff)
    have "distinct (map fst ((ks_ID ks, m) # keys0))" using Cons.prems(2) None by (auto simp: map_of_eq_None_iff)
    from Cons.IH [OF rest this] have IH: "distinct (map fst keys)"
      "set (map fst keys) = insert (ks_ID ks) (set (map fst keys0)) \<union> ks_ID ` set sets"
      "Suc (length keys0) \<le> length keys" "insert (ks_ID ks, m) (set keys0) \<subseteq> set keys"
      "\<And>i m'. (i, m') \<in> set keys \<Longrightarrow> (i, m') \<notin> insert (ks_ID ks, m) (set keys0) \<Longrightarrow>
         \<exists>ks \<in> set sets. \<exists>n < length keys. ks_ID ks = i \<and> UnlockKeySet C (uis n) ks True = Inr m'" by auto
    have "\<exists>k \<in> set (ks # sets). \<exists>n < length keys. ks_ID k = i \<and> UnlockKeySet C (uis n) k True = Inr m'"
      if "(i, m') \<in> set keys" "(i, m') \<notin> set keys0" for i m'
    proof (cases "(i, m') = (ks_ID ks, m)")
      case True
      with m IH(3) show ?thesis by auto
    next
      case False
      with IH(5) [OF that(1)] that(2) show ?thesis by auto
    qed
    with IH show ?thesis by auto
  next
    case (Some x)
    then have "ks_ID ks \<in> set (map fst keys0)" by (force dest: map_of_SomeD)
    moreover have "UnlockKeySets C uis sets keys0 = Inr keys" using Cons.prems(1) Some by simp
    ultimately show ?thesis using Cons.IH [of keys0] Cons.prems(2) by (auto 4 3 simp: insert_absorb)
  qed
qed

text \<open>Unlocking the key sets of a selection of backups asks once per distinct key set and covers them all:
  the result has exactly the IDs of the selection's key sets, each once, and each master key is what
  unlocking a key set with that ID gave.\<close>

lemma UnlockKeySets_covers:
  assumes "UnlockKeySets C uis sets [] = Inr keys"
  shows "distinct (map fst keys) \<and> set (map fst keys) = ks_ID ` set sets
     \<and> (\<forall>(i, m) \<in> set keys. \<exists>ks \<in> set sets. \<exists>n < length keys. ks_ID ks = i \<and> UnlockKeySet C (uis n) ks True = Inr m)"
  using UnlockKeySets_inv [OF assms] by auto

lemma demo_unlock_recovery:
  "UnlockKeySet demo_crypto (demo_ui (CHR '' '' # Display zero_code)) demo_enrolled True = Inr demo_master"
proof (rule recovery_unlock [OF demo_crypto_ok demo_enrolled _ _ _ zero_code_Generate])
  show "typed (Display zero_code) (CHR '' '' # Display zero_code)"
    by (rule typed_add [OF typed_refl [OF set_Display [OF zero_code_wf]]]) simp
qed (simp_all add: demo_env_def demo_config_def CreatesRecoveryCode_def demo_ui_def)

lemma UnlockKeySets_covers_witness:
  "set (map fst [(ks_ID demo_enrolled, demo_master)]) = ks_ID ` set [demo_enrolled, demo_enrolled]"
proof -
  have "UnlockKeySets demo_crypto (\<lambda>_. demo_ui (CHR '' '' # Display zero_code)) [demo_enrolled, demo_enrolled] []
      = Inr [(ks_ID demo_enrolled, demo_master)]"
    by (simp add: demo_unlock_recovery)
  from UnlockKeySets_covers [OF this] show ?thesis by blast
qed

end
