(* ===== verification/Manifest.thy ===== *)
theory Manifest
  imports Naming Encoding
begin

text \<open>
  Package \<open>format/manifest\<close>: the list of the files and directories of a backup set. A manifest is
  written as JSON lines. The JSON of one line (\<open>encoding/json\<close>) is the record \<open>line_json\<close>; the lines,
  their order and the checks are modelled. \<open>strings.ToLower\<close> is an argument.
\<close>

section \<open>Data\<close>

definition ManifestVersion :: int where "ManifestVersion = 1"
definition HashAlg :: string where "HashAlg = ''sha256''"
definition SetTypeFull :: string where "SetTypeFull = ''full''"
definition SetTypeDiff :: string where "SetTypeDiff = ''diff''"
definition TypeFile :: string where "TypeFile = ''f''"
definition TypeDir :: string where "TypeDir = ''d''"
definition TypeSkipped :: string where "TypeSkipped = ''s''"
definition OriginFull :: string where "OriginFull = ''F''"
definition OriginDiff :: string where "OriginDiff = ''D''"
definition AttrReadOnly :: "32 word" where "AttrReadOnly = 0x1"
definition AttrHidden :: "32 word" where "AttrHidden = 0x2"
definition AttrSystem :: "32 word" where "AttrSystem = 0x4"
definition AttrMask :: "32 word" where "AttrMask = AttrReadOnly OR AttrHidden OR AttrSystem"
definition maxLineBytes :: nat where "maxLineBytes = 2 ^ 20"

lemmas manifest_type_def = SetTypeFull_def SetTypeDiff_def TypeFile_def TypeDir_def TypeSkipped_def
  OriginFull_def OriginDiff_def

record manifest_header =
  mh_ManifestVersion :: int
  mh_SetType :: string
  mh_ChainID :: string
  mh_DiffNumber :: int
  mh_DirectoryName :: string
  mh_SourcePath :: string
  mh_HashAlg :: string
  mh_Exclude :: "string list"

record mentry =
  Path :: string
  EType :: string
  Size :: int
  ModTime :: int
  ChangeTime :: int
  CreationTime :: int
  Attributes :: "32 word"
  Hash :: string
  Origin :: string
  Offset :: "int option"
  Stale :: bool
  Void :: bool
  Reason :: string

definition HasContentInSet :: "mentry \<Rightarrow> bool" where
  "HasContentInSet e \<longleftrightarrow> EType e = TypeFile \<and> Offset e \<noteq> None"

record footer =
  End :: bool
  Entries :: int
  Files :: int
  Dirs :: int
  Skipped :: int
  StaleCount :: int
  TotalBytes :: int
  DataBytes :: int

record manifest =
  m_Header :: manifest_header
  m_Entries :: "mentry list"
  m_Footer :: footer

section \<open>The builder\<close>

record builder =
  b_header :: manifest_header
  b_entries :: "mentry list"

definition NewBuilder :: "manifest_header \<Rightarrow> builder" where
  "NewBuilder h = \<lparr>b_header = h\<lparr>mh_ManifestVersion := ManifestVersion, mh_HashAlg := HashAlg\<rparr>, b_entries = []\<rparr>"

definition Add :: "mentry \<Rightarrow> builder \<Rightarrow> builder" where
  "Add e b = b\<lparr>b_entries := b_entries b @ [e]\<rparr>"

definition skipped_entry :: "string \<Rightarrow> string \<Rightarrow> mentry" where
  "skipped_entry p reason = \<lparr>Path = p, EType = TypeSkipped, Size = 0, ModTime = 0, ChangeTime = 0, CreationTime = 0,
     Attributes = 0, Hash = [], Origin = [], Offset = None, Stale = False, Void = False, Reason = reason\<rparr>"

definition SkipLastDirectory :: "string \<Rightarrow> string \<Rightarrow> builder \<Rightarrow> bool \<times> builder" where
  "SkipLastDirectory p reason b =
     (if b_entries b = [] then (False, b)
      else let e = last (b_entries b) in
        if Path e \<noteq> p \<or> EType e \<noteq> TypeDir then (False, b)
        else (True, b\<lparr>b_entries := butlast (b_entries b) @ [skipped_entry p reason]\<rparr>))"

definition footer_step :: "footer \<Rightarrow> mentry \<Rightarrow> footer" where
  "footer_step f e =
     (if EType e = TypeFile then
        f\<lparr>Files := Files f + 1, TotalBytes := TotalBytes f + Size e,
          DataBytes := (if HasContentInSet e then DataBytes f + Size e else DataBytes f),
          StaleCount := (if Stale e then StaleCount f + 1 else StaleCount f)\<rparr>
      else if EType e = TypeDir then f\<lparr>Dirs := Dirs f + 1\<rparr>
      else if EType e = TypeSkipped then f\<lparr>Skipped := Skipped f + 1\<rparr>
      else f)"

definition computeFooter :: "mentry list \<Rightarrow> footer" where
  "computeFooter es = foldl footer_step
     \<lparr>End = True, Entries = int (length es), Files = 0, Dirs = 0, Skipped = 0, StaleCount = 0,
      TotalBytes = 0, DataBytes = 0\<rparr> es"

section \<open>Paths\<close>

definition split_char :: "char \<Rightarrow> string \<Rightarrow> string list" where
  "split_char sep s = foldr (\<lambda>c segs. if c = sep then [] # segs else (c # hd segs) # tl segs) s [[]]"

fun join_path :: "string list \<Rightarrow> string" where
  "join_path [] = []"
| "join_path [s] = s"
| "join_path (s # t # ss) = s @ ''/'' @ join_path (t # ss)"

text \<open>\<open>path.Clean\<close> and \<open>path.Dir\<close> of the standard library.\<close>

definition clean_step :: "bool \<Rightarrow> string list \<Rightarrow> string \<Rightarrow> string list" where
  "clean_step rooted out seg =
     (if seg = [] \<or> seg = ''.'' then out
      else if seg = ''..'' then
        (if out \<noteq> [] \<and> last out \<noteq> ''..'' then butlast out
         else if rooted then out else out @ [''..''])
      else out @ [seg])"

definition path_Clean :: "string \<Rightarrow> string" where
  "path_Clean p =
     (let rooted = (p \<noteq> [] \<and> hd p = CHR ''/'');
          out = foldl (clean_step rooted) [] (split_char (CHR ''/'') p);
          res = (if rooted then ''/'' else []) @ join_path out
      in if res = [] then ''.'' else res)"

definition path_Dir :: "string \<Rightarrow> string" where
  "path_Dir p = path_Clean (rev (dropWhile (\<lambda>c. c \<noteq> CHR ''/'') (rev p)))"

text \<open>\<open>strings.TrimSpace(p) == ""\<close>: only white space, in UTF-8.\<close>

fun all_space :: "nat list \<Rightarrow> bool" where
  "all_space [] = True"
| "all_space (a # s) =
     (if a \<in> {9, 10, 11, 12, 13, 32} then all_space s
      else case s of [] \<Rightarrow> False | b # s \<Rightarrow>
        if a = 0xC2 \<and> b \<in> {0x85, 0xA0} then all_space s
        else case s of [] \<Rightarrow> False | c # s \<Rightarrow>
          (a = 0xE1 \<and> b = 0x9A \<and> c = 0x80
             \<or> a = 0xE2 \<and> b = 0x80 \<and> (0x80 \<le> c \<and> c \<le> 0x8A \<or> c \<in> {0xA8, 0xA9, 0xAF})
             \<or> a = 0xE2 \<and> b = 0x81 \<and> c = 0x9F
             \<or> a = 0xE3 \<and> b = 0x80 \<and> c = 0x80) \<and> all_space s)"

definition blank :: "string \<Rightarrow> bool" where
  "blank p = all_space (map of_char p)"

definition pathErr :: "string \<Rightarrow> err" where
  "pathErr reason = Problem (''Invalid path in backup ('' @ reason @ ''): %q.'')"

definition ValidatePath :: "string \<Rightarrow> unit result" where
  "ValidatePath p =
     (if blank p then Inl (pathErr ''empty'')
      else if CHR 0x5C \<in> set p \<or> CHR '':'' \<in> set p \<or> CHR 0x00 \<in> set p
        then Inl (pathErr ''backslash, drive marker, or NUL'')
      else if p \<noteq> [] \<and> hd p = CHR ''/'' then Inl (pathErr ''absolute path'')
      else if path_Clean p \<noteq> p then Inl (pathErr ''not a clean path'')
      else if list_ex (\<lambda>seg. seg = ''.'' \<or> seg = ''..'') (split_char (CHR ''/'') p)
        then Inl (pathErr ''path traversal'')
      else Inr ())"

section \<open>Validation\<close>

definition manifestErr :: "string \<Rightarrow> err" where
  "manifestErr msg = Problem (''Invalid backup manifest: '' @ msg @ ''.'')"

definition isValidHash :: "string \<Rightarrow> bool" where
  "isValidHash h \<longleftrightarrow> length h = 64 \<and> list_all is_hex_lower h"

definition validateEntry :: "mentry \<Rightarrow> bool \<Rightarrow> unit result" where
  "validateEntry e isDiff =
     (if Attributes e AND NOT AttrMask \<noteq> 0 then Inl (manifestErr ''unknown attribute bits 0x%x on %q'')
      else if EType e = TypeDir then
        (if Size e \<noteq> 0 \<or> Hash e \<noteq> [] \<or> Origin e \<noteq> [] \<or> Offset e \<noteq> None \<or> Stale e \<or> Void e \<or> Reason e \<noteq> []
           then Inl (manifestErr ''directory %q has file fields'') else Inr ())
      else if EType e = TypeSkipped then
        (if Reason e = [] then Inl (manifestErr ''skipped file %q has no reason'')
         else if Size e \<noteq> 0 \<or> Hash e \<noteq> [] \<or> Origin e \<noteq> [] \<or> Offset e \<noteq> None \<or> Stale e
           then Inl (manifestErr ''skipped file %q has content fields'') else Inr ())
      else if EType e = TypeFile then
        (if Size e < 0 then Inl (manifestErr ''negative size on %q'')
         else if \<not> isValidHash (Hash e) then Inl (manifestErr ''invalid hash on %q'')
         else if Reason e \<noteq> [] then Inl (manifestErr ''file %q has a skip reason'')
         else if (case Offset e of None \<Rightarrow> False | Some off \<Rightarrow> off < 0)
           then Inl (manifestErr ''negative offset on %q'')
         else bindE
           (if Origin e = OriginFull then
              (if \<not> isDiff \<and> (Offset e = None \<or> Void e)
                 then Inl (manifestErr ''file %q has no content in the full backup'')
               else if isDiff \<and> Offset e \<noteq> None
                 then Inl (manifestErr ''file %q refers to the full backup but has an offset in this differential'')
               else Inr ())
            else if Origin e = OriginDiff then
              (if \<not> isDiff then Inl (manifestErr ''file %q has differential origin in a full backup'')
               else if Offset e = None \<or> Void e \<or> Stale e
                 then Inl (manifestErr ''file %q has invalid differential content fields'')
               else Inr ())
            else Inl (manifestErr ''invalid origin %q on %q'')) (\<lambda>_.
           if Stale e \<and> (\<not> isDiff \<or> Origin e \<noteq> OriginFull)
             then Inl (manifestErr ''stale marker on %q is only valid for differential entries that refer to the full backup'')
           else if Void e \<and> \<not> Stale e
             then Inl (manifestErr ''void marker on file %q without stale marker'')
           else Inr ()))
      else Inl (manifestErr ''unknown entry type %q on %q''))"

text \<open>The loop of \<open>Validate\<close>: \<open>seenFolded\<close> maps folded paths to paths, \<open>dirs\<close> holds the directories so far.\<close>

fun validate_loop :: "(string \<Rightarrow> string) \<Rightarrow> bool \<Rightarrow> (string \<rightharpoonup> string) \<Rightarrow> string set \<Rightarrow> mentry list \<Rightarrow> unit result" where
  "validate_loop to_lower isDiff seenFolded dirs [] = Inr ()"
| "validate_loop to_lower isDiff seenFolded dirs (e # es) =
     bindE (ValidatePath (Path e)) (\<lambda>_.
       let folded = to_lower (Path e) in
       case seenFolded folded of
         Some other \<Rightarrow>
           if other = Path e then Inl (manifestErr ''duplicate path %q'')
           else Inl (manifestErr ''paths %q and %q differ only in case and would collide on Windows'')
       | None \<Rightarrow>
           let parent = path_Dir (Path e) in
           if parent \<noteq> ''.'' \<and> parent \<notin> dirs
             then Inl (manifestErr ''entry %q appears before its parent directory'')
           else bindE (validateEntry e isDiff) (\<lambda>_.
             validate_loop to_lower isDiff (seenFolded(folded \<mapsto> Path e))
               (if EType e = TypeDir then insert (Path e) dirs else dirs) es))"

definition ValidateManifest :: "(string \<Rightarrow> string) \<Rightarrow> manifest \<Rightarrow> unit result" where
  "ValidateManifest to_lower m =
     (let h = m_Header m in
      if mh_ManifestVersion h \<noteq> ManifestVersion then Inl (Problem ''Unsupported backup manifest version %d.'')
      else if mh_HashAlg h \<noteq> HashAlg then Inl (manifestErr ''unsupported hash algorithm %q'')
      else if mh_SetType h = SetTypeFull \<and> mh_DiffNumber h \<noteq> 0
        then Inl (manifestErr ''full backup with differential number %d'')
      else if mh_SetType h = SetTypeDiff \<and> (mh_DiffNumber h < 1 \<or> mh_DiffNumber h > 999)
        then Inl (manifestErr ''invalid differential number %d'')
      else if mh_SetType h \<noteq> SetTypeFull \<and> mh_SetType h \<noteq> SetTypeDiff
        then Inl (manifestErr ''unknown set type %q'')
      else if mh_ChainID h = [] \<or> mh_DirectoryName h = []
        then Inl (manifestErr ''missing chain ID or directory name'')
      else bindE (validate_loop to_lower (mh_SetType h = SetTypeDiff) Map.empty {} (m_Entries m)) (\<lambda>_.
        if m_Footer m \<noteq> computeFooter (m_Entries m)
          then Inl (manifestErr ''footer totals do not match the entries'')
        else Inr ()))"

section \<open>Safe paths\<close>

lemma split_char_not_Nil [simp]: "split_char c s \<noteq> []"
  by (induction s) (auto simp: split_char_def)

lemma split_char_simps [simp]:
  "split_char c [] = [[]]"
  "split_char c (a # s) = (if a = c then [] # split_char c s
     else (a # hd (split_char c s)) # tl (split_char c s))"
  by (simp_all add: split_char_def)

lemma split_char_no_sep: "seg \<in> set (split_char c s) \<Longrightarrow> c \<notin> set seg"
proof (induction s arbitrary: seg)
  case (Cons a s)
  then show ?case
    using hd_in_set [of "split_char c s"] list.set_sel(2) [of "split_char c s"] by (auto split: if_splits)
qed simp

lemma set_split_char: "set s - {c} = (\<Union>seg \<in> set (split_char c s). set seg)"
proof (induction s)
  case (Cons a s)
  have "split_char c s = hd (split_char c s) # tl (split_char c s)" by simp
  then have "(\<Union>seg \<in> set (split_char c s). set seg) = set (hd (split_char c s)) \<union> (\<Union>seg \<in> set (tl (split_char c s)). set seg)"
    by (metis SUP_insert list.simps(15))
  with Cons show ?case by auto
qed simp

lemma in_split_char: "a \<noteq> c \<Longrightarrow> a \<in> set s \<longleftrightarrow> (\<exists>seg \<in> set (split_char c s). a \<in> set seg)"
  using set_split_char [of s c] by blast

lemma join_path_Cons: "ss \<noteq> [] \<Longrightarrow> join_path (s # ss) = s @ ''/'' @ join_path ss"
  by (cases ss) auto

lemma join_path_split: "join_path (split_char (CHR ''/'') s) = s"
proof (induction s)
  case (Cons a s)
  let ?r = "split_char (CHR ''/'') s"
  have "join_path ((a # hd ?r) # tl ?r) = a # join_path ?r"
    by (cases ?r; cases "tl ?r") auto
  with Cons show ?case by (simp add: join_path_Cons)
qed simp

lemma split_char_app: "CHR ''/'' \<notin> set s \<Longrightarrow> split_char (CHR ''/'') (s @ CHR ''/'' # t) = s # split_char (CHR ''/'') t"
  by (induction s) auto

lemma split_char_id: "CHR ''/'' \<notin> set s \<Longrightarrow> split_char (CHR ''/'') s = [s]"
  by (induction s) auto

lemma split_join_path:
  "ss \<noteq> [] \<Longrightarrow> (\<And>s. s \<in> set ss \<Longrightarrow> CHR ''/'' \<notin> set s) \<Longrightarrow> split_char (CHR ''/'') (join_path ss) = ss"
proof (induction ss rule: join_path.induct)
  case (3 s t ss)
  then show ?case by (simp add: split_char_app)
qed (auto simp: split_char_id)

lemma clean_plain:
  "list_all (\<lambda>seg. seg \<noteq> ''.'' \<and> seg \<noteq> ''..'') segs \<Longrightarrow> foldl (clean_step rooted) out segs = out @ filter (\<lambda>s. s \<noteq> []) segs"
  by (induction segs arbitrary: out) (auto simp: clean_step_def)

text \<open>A segment of a path that stays where it is put: a name that is neither empty nor a step up.\<close>

definition safe_segment :: "string \<Rightarrow> bool" where
  "safe_segment seg \<longleftrightarrow> seg \<noteq> [] \<and> seg \<noteq> ''.'' \<and> seg \<noteq> ''..'' \<and> CHR ''/'' \<notin> set seg \<and> CHR 0x5C \<notin> set seg
     \<and> CHR '':'' \<notin> set seg \<and> CHR 0x00 \<notin> set seg"

lemma path_Clean_id_iff:
  assumes "p \<noteq> []" "hd p \<noteq> CHR ''/''" "list_all (\<lambda>seg. seg \<noteq> ''.'' \<and> seg \<noteq> ''..'') (split_char (CHR ''/'') p)"
  shows "path_Clean p = p \<longleftrightarrow> [] \<notin> set (split_char (CHR ''/'') p)"
proof -
  let ?segs = "split_char (CHR ''/'') p"
  let ?out = "filter (\<lambda>s. s \<noteq> []) ?segs"
  have clean: "path_Clean p = (if join_path ?out = [] then ''.'' else join_path ?out)"
    using assms by (simp add: path_Clean_def clean_plain Let_def)
  show ?thesis
  proof
    assume p: "path_Clean p = p"
    have "join_path ?out = p"
    proof (rule ccontr)
      assume "join_path ?out \<noteq> p"
      with clean p have "p = ''.''" by (auto split: if_splits)
      with assms(3) show False by simp
    qed
    moreover from this assms(1) have "?out \<noteq> []" by auto
    ultimately have "?segs = ?out"
      using split_join_path [of ?out] split_char_no_sep [of _ "CHR ''/''" p] by auto
    then have "set ?segs = set ?out" by (rule arg_cong)
    moreover have "[] \<notin> set ?out" by simp
    ultimately show "[] \<notin> set ?segs" by blast
  next
    assume "[] \<notin> set ?segs"
    then have "?out = ?segs" by (simp add: filter_id_conv) blast
    with clean join_path_split [of p] assms(1) show "path_Clean p = p" by simp
  qed
qed

lemma ValidatePath_spec:
  "ValidatePath p = Inr () \<longleftrightarrow> \<not> blank p \<and> list_all safe_segment (split_char (CHR ''/'') p)"
proof -
  let ?segs = "split_char (CHR ''/'') p"
  have chars: "(CHR 0x5C \<notin> set p \<and> CHR '':'' \<notin> set p \<and> CHR 0x00 \<notin> set p) \<longleftrightarrow>
      list_all (\<lambda>seg. CHR 0x5C \<notin> set seg \<and> CHR '':'' \<notin> set seg \<and> CHR 0x00 \<notin> set seg) ?segs"
    by (simp add: in_split_char [of _ "CHR ''/''" p] list_all_iff) blast
  have blank: "p = [] \<Longrightarrow> blank p" by (simp add: blank_def)
  have first: "hd p = CHR ''/'' \<Longrightarrow> p \<noteq> [] \<Longrightarrow> [] \<in> set ?segs" by (cases p) auto
  have sep: "list_all (\<lambda>seg. CHR ''/'' \<notin> set seg) ?segs"
    by (auto simp: list_all_iff dest: split_char_no_sep)
  have "ValidatePath p = Inr () \<longleftrightarrow> \<not> blank p \<and> (CHR 0x5C \<notin> set p \<and> CHR '':'' \<notin> set p \<and> CHR 0x00 \<notin> set p)
      \<and> list_all (\<lambda>seg. seg \<noteq> ''.'' \<and> seg \<noteq> ''..'') ?segs \<and> [] \<notin> set ?segs"
  proof (cases "blank p \<or> hd p = CHR ''/'' \<or> \<not> list_all (\<lambda>seg. seg \<noteq> ''.'' \<and> seg \<noteq> ''..'') ?segs")
    case True
    then show ?thesis using first blank by (auto simp: ValidatePath_def list_all_iff list_ex_iff)
  next
    case False
    then have "p \<noteq> []" using blank by blast
    from path_Clean_id_iff [OF this] False show ?thesis
      by (auto simp: ValidatePath_def list_all_iff list_ex_iff)
  qed
  then show ?thesis using chars sep unfolding safe_segment_def list_all_iff by blast
qed

text \<open>C22. \<open>ValidatePath\<close> accepts exactly the relative paths that cannot leave the restore directory: not
  blank, and every segment between slashes is a name that is not empty, not \<open>.\<close> or \<open>..\<close>, and free of
  slashes, backslashes, colons and NUL.\<close>

theorem ValidatePath_iff:
  "ValidatePath p = Inr () \<longleftrightarrow> \<not> blank p \<and> list_all safe_segment (split_char (CHR ''/'') p)"
  by (rule ValidatePath_spec)

section \<open>Valid manifests\<close>

text \<open>What the entries of a valid manifest are, without the loop's maps.\<close>

definition dirs_of :: "mentry list \<Rightarrow> string set" where
  "dirs_of es = Path ` {e \<in> set es. EType e = TypeDir}"

definition parents_first :: "mentry list \<Rightarrow> bool" where
  "parents_first es \<longleftrightarrow> (\<forall>i < length es. path_Dir (Path (es ! i)) = ''.'' \<or> path_Dir (Path (es ! i)) \<in> dirs_of (take i es))"

definition entries_ok :: "(string \<Rightarrow> string) \<Rightarrow> bool \<Rightarrow> mentry list \<Rightarrow> bool" where
  "entries_ok to_lower isDiff es \<longleftrightarrow>
     list_all (\<lambda>e. ValidatePath (Path e) = Inr () \<and> validateEntry e isDiff = Inr ()) es
   \<and> distinct (map (\<lambda>e. to_lower (Path e)) es) \<and> parents_first es"

lemma dirs_of_simps [simp]:
  "dirs_of [] = {}"
  "dirs_of (e # es) = (if EType e = TypeDir then insert (Path e) (dirs_of es) else dirs_of es)"
  by (auto simp: dirs_of_def)

lemma validate_loop_iff:
  "validate_loop to_lower isDiff seen dirs es = Inr () \<longleftrightarrow>
     list_all (\<lambda>e. ValidatePath (Path e) = Inr () \<and> validateEntry e isDiff = Inr ()) es
   \<and> distinct (map (\<lambda>e. to_lower (Path e)) es) \<and> (\<forall>e \<in> set es. seen (to_lower (Path e)) = None)
   \<and> (\<forall>i < length es. path_Dir (Path (es ! i)) = ''.'' \<or> path_Dir (Path (es ! i)) \<in> dirs \<union> dirs_of (take i es))"
proof (induction es arbitrary: seen dirs)
  case Nil
  then show ?case by simp
next
  case (Cons e es)
  have all: "(\<forall>i < Suc n. P i) \<longleftrightarrow> P 0 \<and> (\<forall>i < n. P (Suc i))" for P and n :: nat
    by (auto simp: less_Suc_eq_0_disj)
  show ?case
    by (auto simp: e_iff Let_def Cons.IH all image_iff split: option.splits if_splits dest: sym)
qed

lemma ValidateManifest_entries:
  "ValidateManifest to_lower m = Inr () \<Longrightarrow> entries_ok to_lower (mh_SetType (m_Header m) = SetTypeDiff) (m_Entries m)
     \<and> m_Footer m = computeFooter (m_Entries m)"
  by (auto simp: ValidateManifest_def entries_ok_def parents_first_def Let_def e_iff validate_loop_iff split: if_splits)

text \<open>\<open>Validate\<close> accepts a manifest exactly when its header is well formed, every path and entry is
  valid, no two paths collide on a case-insensitive file system, every entry comes after the directory
  that holds it, and the footer has the totals of the entries.\<close>

lemma ValidateManifest_iff:
  "ValidateManifest to_lower m = Inr () \<longleftrightarrow>
     (let h = m_Header m; es = m_Entries m in
      mh_ManifestVersion h = ManifestVersion \<and> mh_HashAlg h = HashAlg
    \<and> (mh_SetType h = SetTypeFull \<and> mh_DiffNumber h = 0 \<or> mh_SetType h = SetTypeDiff \<and> mh_DiffNumber h \<in> {1..999})
    \<and> mh_ChainID h \<noteq> [] \<and> mh_DirectoryName h \<noteq> []
    \<and> entries_ok to_lower (mh_SetType h = SetTypeDiff) es \<and> m_Footer m = computeFooter es)"
  by (auto simp: ValidateManifest_def entries_ok_def parents_first_def Let_def e_iff validate_loop_iff manifest_type_def)

section \<open>Serialization\<close>

record line_json =
  enc_header :: "manifest_header \<Rightarrow> bytes"
  enc_entry :: "mentry \<Rightarrow> bytes"
  enc_footer :: "footer \<Rightarrow> bytes"
  dec_header :: "bytes \<Rightarrow> manifest_header option"
  dec_entry :: "bytes \<Rightarrow> mentry option"
  dec_footer :: "bytes \<Rightarrow> footer option"

definition builder_manifest :: "builder \<Rightarrow> manifest" where
  "builder_manifest b = \<lparr>m_Header = b_header b, m_Entries = b_entries b, m_Footer = computeFooter (b_entries b)\<rparr>"

definition manifest_lines :: "line_json \<Rightarrow> manifest \<Rightarrow> bytes list" where
  "manifest_lines J m = enc_header J (m_Header m) # map (enc_entry J) (m_Entries m) @ [enc_footer J (m_Footer m)]"

definition unlines :: "bytes list \<Rightarrow> bytes" where
  "unlines ls = concat (map (\<lambda>l. l @ [0x0A]) ls)"

definition EncodeManifest :: "(string \<Rightarrow> string) \<Rightarrow> line_json \<Rightarrow> builder \<Rightarrow> bytes result" where
  "EncodeManifest to_lower J b =
     (let m = builder_manifest b in
      case ValidateManifest to_lower m of
        Inl e \<Rightarrow> Inl (Internal ''Internal error: generated manifest is invalid: %w'')
      | Inr _ \<Rightarrow> Inr (unlines (manifest_lines J m)))"

text \<open>
  \<open>bufio.Scanner\<close> with the buffer limit: the lines it delivers, without a final carriage return, and
  the error it ends with. A line that does not fit the buffer ends the scan.
\<close>

fun raw_lines :: "bytes \<Rightarrow> bytes \<Rightarrow> bytes list" where
  "raw_lines cur [] = (if cur = [] then [] else [cur])"
| "raw_lines cur (b # bs) = (if b = 0x0A then cur # raw_lines [] bs else raw_lines (cur @ [b]) bs)"

definition drop_cr :: "bytes \<Rightarrow> bytes" where
  "drop_cr l = (if l \<noteq> [] \<and> last l = 0x0D then butlast l else l)"

definition scan_lines :: "source \<Rightarrow> bytes list \<times> err option" where
  "scan_lines src = (case src of (bs, e) \<Rightarrow>
     let ls = raw_lines [] bs; ok = takeWhile (\<lambda>l. length l < maxLineBytes) ls
     in (map drop_cr ok, if ok \<noteq> ls then Some (Internal ''bufio.Scanner: token too long'') else e))"

definition footer_prefix :: bytes where
  "footer_prefix = bytes_of_string (CHR 0x7B # CHR 0x22 # ''end'' @ [CHR 0x22, CHR '':''])"

fun decode_loop :: "line_json \<Rightarrow> bytes list \<Rightarrow> manifest_header option \<Rightarrow> mentry list \<Rightarrow> footer option
    \<Rightarrow> (manifest_header option \<times> mentry list \<times> footer option) result" where
  "decode_loop J [] h es f = Inr (h, es, f)"
| "decode_loop J (line # ls) h es f =
     (if f \<noteq> None then Inl (manifestErr ''unexpected data after the footer (line %d)'')
      else if h = None then
        (case dec_header J line of None \<Rightarrow> Inl (manifestErr ''invalid header line: %v'')
         | Some x \<Rightarrow> decode_loop J ls (Some x) es f)
      else if prefix footer_prefix line then
        (case dec_footer J line of None \<Rightarrow> Inl (manifestErr ''invalid footer line: %v'')
         | Some x \<Rightarrow> decode_loop J ls h es (Some x))
      else
        (case dec_entry J line of None \<Rightarrow> Inl (manifestErr ''invalid entry on line %d: %v'')
         | Some x \<Rightarrow> decode_loop J ls h (es @ [x]) f))"

definition DecodeManifest :: "(string \<Rightarrow> string) \<Rightarrow> line_json \<Rightarrow> source \<Rightarrow> manifest result" where
  "DecodeManifest to_lower J src =
     (case scan_lines src of (ls, scErr) \<Rightarrow>
        bindE (decode_loop J ls None [] None) (\<lambda>(h, es, f).
        if scErr \<noteq> None then Inl (manifestErr ''failed to read: %v'')
        else if h = None then Inl (manifestErr ''empty manifest'')
        else if f = None then Inl (manifestErr ''missing footer (manifest is truncated)'')
        else let m = \<lparr>m_Header = the h, m_Entries = es, m_Footer = the f\<rparr> in
          bindE (ValidateManifest to_lower m) (\<lambda>_. Inr m)))"

section \<open>Round trip\<close>

text \<open>What the JSON encoder promises for the lines of a manifest: they decode to what was encoded, hold no
  line break, are shorter than the scanner's limit, and only the footer starts with its marker.\<close>

definition line_ok :: "bytes \<Rightarrow> bool" where
  "line_ok l \<longleftrightarrow> l \<noteq> [] \<and> 0x0A \<notin> set l \<and> 0x0D \<notin> set l \<and> length l < maxLineBytes"

definition json_ok :: "line_json \<Rightarrow> manifest \<Rightarrow> bool" where
  "json_ok J m \<longleftrightarrow> list_all line_ok (manifest_lines J m)
     \<and> dec_header J (enc_header J (m_Header m)) = Some (m_Header m)
     \<and> list_all (\<lambda>e. dec_entry J (enc_entry J e) = Some e \<and> \<not> prefix footer_prefix (enc_entry J e)) (m_Entries m)
     \<and> dec_footer J (enc_footer J (m_Footer m)) = Some (m_Footer m) \<and> prefix footer_prefix (enc_footer J (m_Footer m))"

lemma raw_lines_app: "0x0A \<notin> set l \<Longrightarrow> raw_lines cur (l @ 0x0A # bs) = (cur @ l) # raw_lines [] bs"
  by (induction l arbitrary: cur) auto

lemma raw_lines_unlines: "list_all line_ok ls \<Longrightarrow> raw_lines [] (unlines ls) = ls"
  by (induction ls) (auto simp: unlines_def line_ok_def raw_lines_app)

lemma drop_cr_line_ok: "line_ok l \<Longrightarrow> drop_cr l = l"
  unfolding drop_cr_def line_ok_def by (metis last_in_set)

lemma scan_unlines: "list_all line_ok ls \<Longrightarrow> scan_lines (unlines ls, e) = (ls, e)"
proof -
  assume ok: "list_all line_ok ls"
  then have "takeWhile (\<lambda>l. length l < maxLineBytes) ls = ls"
    by (auto simp: takeWhile_eq_all_conv list_all_iff line_ok_def)
  moreover have "map drop_cr ls = ls" using ok by (simp add: map_idI drop_cr_line_ok list_all_iff)
  ultimately show ?thesis by (simp only: scan_lines_def raw_lines_unlines [OF ok] Let_def prod.case) simp
qed

lemma decode_loop_entries:
  "list_all (\<lambda>e. dec_entry J (enc_entry J e) = Some e \<and> \<not> prefix footer_prefix (enc_entry J e)) es \<Longrightarrow>
     decode_loop J (map (enc_entry J) es @ ls) (Some h) acc None = decode_loop J ls (Some h) (acc @ es) None"
  by (induction es arbitrary: acc) auto

lemma decode_loop_lines:
  "json_ok J m \<Longrightarrow> decode_loop J (manifest_lines J m) None [] None = Inr (Some (m_Header m), m_Entries m, Some (m_Footer m))"
  by (simp add: json_ok_def manifest_lines_def decode_loop_entries)

lemma Decode_lines:
  "json_ok J m \<Longrightarrow> ValidateManifest to_lower m = Inr () \<Longrightarrow> DecodeManifest to_lower J (unlines (manifest_lines J m), None) = Inr m"
  using decode_loop_lines [of J m]
  by (cases m) (simp add: DecodeManifest_def scan_unlines json_ok_def Let_def)

lemma Encode_Inr:
  "EncodeManifest to_lower J b = Inr bs \<longleftrightarrow> ValidateManifest to_lower (builder_manifest b) = Inr ()
     \<and> bs = unlines (manifest_lines J (builder_manifest b))"
  by (auto simp: EncodeManifest_def Let_def split: sum.splits)

text \<open>The manifest as a codec, for the JSON encoder of each manifest that is well behaved.\<close>

interpretation manifest_codec: codec "\<lambda>m. unlines (manifest_lines J m)" "\<lambda>bs. DecodeManifest to_lower J (bs, None)"
    "\<lambda>m. json_ok J m \<and> ValidateManifest to_lower m = Inr ()" for J to_lower
  by unfold_locales (simp add: Decode_lines)

lemma manifest_reads_back:
  assumes "EncodeManifest to_lower J b = Inr bs" and "json_ok J (builder_manifest b)"
  shows "DecodeManifest to_lower J (bs, None) = Inr (builder_manifest b)"
  using assms manifest_codec.dec_enc [of J "builder_manifest b" to_lower] by (simp add: Encode_Inr)

text \<open>RestoreSafe reads back the manifest it wrote: decoding what \<open>Encode\<close> produced gives the builder's
  header, all its entries in order and the computed footer.\<close>

lemma Decode_Encode:
  assumes "EncodeManifest to_lower J b = Inr bs" and "json_ok J (builder_manifest b)"
  shows "DecodeManifest to_lower J (bs, None) = Inr (builder_manifest b)"
  by (rule manifest_reads_back [OF assms])

text \<open>A manifest that lost lines at its end is never taken for a shorter one: reading any number of its
  lines but not all of them is an error, whether the reader ends cleanly or with an error.\<close>

lemma Decode_truncated:
  assumes "json_ok J m" and "k < length (manifest_lines J m)"
  shows "\<exists>e. DecodeManifest to_lower J (unlines (take k (manifest_lines J m)), rerr) = Inl e"
proof -
  let ?ls = "take k (manifest_lines J m)"
  have "list_all line_ok ?ls" using assms(1) by (auto simp: json_ok_def list_all_iff dest: in_set_takeD)
  note scan = scan_unlines [OF this]
  show ?thesis
  proof (cases k)
    case 0
    then show ?thesis by (auto simp: DecodeManifest_def scan_lines_def unlines_def Let_def)
  next
    case (Suc j)
    then have j: "j \<le> length (m_Entries m)" using assms(2) by (simp add: manifest_lines_def)
    then have "?ls = enc_header J (m_Header m) # map (enc_entry J) (take j (m_Entries m))"
      using Suc by (simp add: manifest_lines_def take_map)
    moreover have "list_all (\<lambda>e. dec_entry J (enc_entry J e) = Some e \<and> \<not> prefix footer_prefix (enc_entry J e)) (take j (m_Entries m))"
      using assms(1) by (auto simp: json_ok_def list_all_iff dest: in_set_takeD)
    from decode_loop_entries [OF this, of "[]" "m_Header m" "[]"]
    have "decode_loop J (map (enc_entry J) (take j (m_Entries m))) (Some (m_Header m)) [] None
        = Inr (Some (m_Header m), take j (m_Entries m), None)" by simp
    ultimately have "decode_loop J ?ls None [] None = Inr (Some (m_Header m), take j (m_Entries m), None)"
      using assms(1) by (simp add: json_ok_def)
    with scan show ?thesis by (simp add: DecodeManifest_def)
  qed
qed

text \<open>A manifest and a JSON for the witnesses: one directory and one file; a line is a marker byte.\<close>

definition demo_dir :: mentry where
  "demo_dir = (skipped_entry ''d'' [])\<lparr>EType := TypeDir\<rparr>"

definition demo_file :: mentry where
  "demo_file = (skipped_entry ''d/f'' [])\<lparr>EType := TypeFile, Size := 3, Hash := replicate 64 (CHR ''0''),
     Origin := OriginFull, Offset := Some 0\<rparr>"

definition demo_builder :: builder where
  "demo_builder = Add demo_file (Add demo_dir (NewBuilder \<lparr>mh_ManifestVersion = 0, mh_SetType = SetTypeFull,
     mh_ChainID = ''ABC123'', mh_DiffNumber = 0, mh_DirectoryName = ''Docs'', mh_SourcePath = ''C:/Docs'',
     mh_HashAlg = [], mh_Exclude = []\<rparr>))"

definition demo_json :: line_json where
  "demo_json = \<lparr>enc_header = (\<lambda>_. [1]), enc_entry = (\<lambda>e. if EType e = TypeDir then [2] else [3]),
     enc_footer = (\<lambda>_. footer_prefix), dec_header = (\<lambda>_. Some (b_header demo_builder)),
     dec_entry = (\<lambda>l. if l = [2] then Some demo_dir else Some demo_file),
     dec_footer = (\<lambda>_. Some (computeFooter (b_entries demo_builder)))\<rparr>"

lemma demo_entries: "b_entries demo_builder = [demo_dir, demo_file]"
  by (simp add: demo_builder_def Add_def NewBuilder_def)

lemma demo_json_ok: "json_ok demo_json (builder_manifest demo_builder)"
proof -
  have fp: "footer_prefix = [123, 34, 101, 110, 100, 34, 58]" by code_simp
  show ?thesis
    by (simp add: json_ok_def builder_manifest_def manifest_lines_def demo_json_def demo_entries line_ok_def
        maxLineBytes_def demo_dir_def demo_file_def skipped_entry_def manifest_type_def fp)
qed

lemma demo_valid: "ValidateManifest id (builder_manifest demo_builder) = Inr ()"
proof -
  have "ValidatePath ''d'' = Inr ()" "ValidatePath ''d/f'' = Inr ()" "path_Dir ''d'' = ''.''" "path_Dir ''d/f'' = ''d''"
    "is_hex_lower (CHR ''0'')" by code_simp+
  then show ?thesis
    by (simp add: ValidateManifest_def builder_manifest_def demo_entries demo_dir_def demo_file_def skipped_entry_def
        validateEntry_def isValidHash_def manifest_type_def list_all_iff Let_def)
      (simp add: demo_builder_def NewBuilder_def Add_def manifest_type_def)
qed

lemma Decode_Encode_witness:
  "DecodeManifest id demo_json (unlines (manifest_lines demo_json (builder_manifest demo_builder)), None)
     = Inr (builder_manifest demo_builder)"
  using Decode_Encode [OF _ demo_json_ok, of id] demo_valid by (simp add: Encode_Inr)

lemma Decode_truncated_witness:
  "\<exists>e. DecodeManifest id demo_json (unlines (take 2 (manifest_lines demo_json (builder_manifest demo_builder))), None) = Inl e"
  by (rule Decode_truncated [OF demo_json_ok]) (simp add: manifest_lines_def builder_manifest_def demo_entries)

lemma type_distinct [simp]: "TypeSkipped \<noteq> TypeFile" "TypeDir \<noteq> TypeFile" "TypeFile \<noteq> TypeDir" "TypeFile \<noteq> TypeSkipped"
  "TypeSkipped \<noteq> TypeDir" "TypeDir \<noteq> TypeSkipped" "OriginFull \<noteq> OriginDiff" "OriginDiff \<noteq> OriginFull"
  by (simp_all add: manifest_type_def)

end
