(* ===== verification/Container.thy ===== *)
theory Container
  imports Manifest KeySet Parts
begin

text \<open>
  Package \<open>format/container\<close>: the set header (\<open>header.go\<close>), the trailer (\<open>trailer.go\<close>), and writing,
  opening and reading a set (\<open>set.go\<close>). The record \<open>format_env\<close> holds what comes from outside: the
  cryptographic primitives, the parser of RFC 3339 times, \<open>strings.ToLower\<close> and \<open>encoding/json\<close>.
  \<open>fe_unmarshal\<close> is the strict decoding of the header with the result of \<open>More\<close>.
\<close>

section \<open>The header\<close>

record header =
  h_SetType :: string
  h_ChainID :: string
  h_DiffNumber :: int
  h_RunID :: string
  h_SetNonce :: bytes
  h_DirectoryName :: string
  h_Date :: string
  h_CreatedUTC :: string
  h_AppVersion :: string
  h_BaseDate :: string
  h_BaseManifestSHA256 :: string
  h_ChunkSize :: "32 word"
  h_Compression :: string
  h_KeySet :: keyset

record format_env =
  fe_C :: crypto
  fe_time :: "string \<Rightarrow> int option"
  fe_lower :: "string \<Rightarrow> string"
  fe_marshal :: "header \<Rightarrow> bytes result"
  fe_unmarshal :: "bytes \<Rightarrow> (header \<times> bool) option"
  fe_lines :: line_json

definition magicPrefix :: bytes where "magicPrefix = bytes_of_string ''RSBKP'' @ [0]"
definition FormatVersion :: byte where "FormatVersion = 2"
definition headerPrefixLen :: nat where "headerPrefixLen = 12"
definition maxHeaderJSON :: nat where "maxHeaderJSON = 64 * 1024"
definition CompressionNone :: string where "CompressionNone = ''none''"
definition setNonceLen :: nat where "setNonceLen = 32"

definition HeaderIsDiff :: "header \<Rightarrow> bool" where
  "HeaderIsDiff h \<longleftrightarrow> h_SetType h = SetTypeDiff"

definition HeaderCreated :: "(string \<Rightarrow> int option) \<Rightarrow> header \<Rightarrow> int" where
  "HeaderCreated parse_time h = (case parse_time (h_CreatedUTC h) of None \<Rightarrow> 0 | Some t \<Rightarrow> t)"

definition NewHeader :: "string \<Rightarrow> string \<Rightarrow> string \<Rightarrow> string \<Rightarrow> string \<Rightarrow> keyset \<Rightarrow> bytes result \<Rightarrow> string \<Rightarrow> string \<Rightarrow> header result" where
  "NewHeader setType chainID runID directoryName date keySet nonce now version =
     bindE nonce (\<lambda>nonce. Inr
       \<lparr>h_SetType = setType, h_ChainID = chainID, h_DiffNumber = 0, h_RunID = runID, h_SetNonce = nonce,
        h_DirectoryName = directoryName, h_Date = date, h_CreatedUTC = now, h_AppVersion = version,
        h_BaseDate = [], h_BaseManifestSHA256 = [], h_ChunkSize = of_nat ChunkSize,
        h_Compression = CompressionNone, h_KeySet = keySet\<rparr>)"

definition ValidateHeader :: "crypto \<Rightarrow> (string \<Rightarrow> int option) \<Rightarrow> header \<Rightarrow> unit result" where
  "ValidateHeader C parse_time h =
     bindE (if h_SetType h = SetTypeFull then
              checkE (h_DiffNumber h = 0 \<and> h_BaseDate h = [] \<and> h_BaseManifestSHA256 h = [])
                (headerErr ''full backup header has differential fields'')
            else if h_SetType h = SetTypeDiff then
              (if h_DiffNumber h < 1 \<or> h_DiffNumber h > 999 then Inl (headerErr ''invalid differential number %d'')
               else if \<not> datePattern (h_BaseDate h) then Inl (headerErr ''invalid base date %q'')
               else checkE (length (h_BaseManifestSHA256 h) = 64) (headerErr ''invalid base manifest hash''))
            else Inl (headerErr ''unknown set type %q'')) (\<lambda>_.
     bindE (checkE (idPattern (h_ChainID h) \<and> idPattern (h_RunID h)) (headerErr ''invalid chain or run ID'')) (\<lambda>_.
     bindE (checkE (length (h_SetNonce h) = setNonceLen) (headerErr ''invalid set nonce'')) (\<lambda>_.
     bindE (ValidateBackupEntryName (h_DirectoryName h)) (\<lambda>_.
     bindE (checkE (datePattern (h_Date h)) (headerErr ''invalid date %q'')) (\<lambda>_.
     bindE (checkE (parse_time (h_CreatedUTC h) \<noteq> None) (headerErr ''invalid creation time %q'')) (\<lambda>_.
     bindE (checkE (h_ChunkSize h = of_nat ChunkSize) (headerErr ''unsupported chunk size %d'')) (\<lambda>_.
     bindE (checkE (h_Compression h = CompressionNone)
       (Problem ''Backup uses compression %q, which this RestoreSafe version does not support.'')) (\<lambda>_.
     ValidateKeySet C parse_time (h_KeySet h)))))))))"

definition EncodeHeader :: "format_env \<Rightarrow> header \<Rightarrow> bytes result" where
  "EncodeHeader E h =
     (case ValidateHeader (fe_C E) (fe_time E) h of
        Inl e \<Rightarrow> Inl (Internal ''Internal error: refusing to write invalid header: %w'')
      | Inr _ \<Rightarrow> (case fe_marshal E h of
          Inl e \<Rightarrow> Inl (Internal ''Failed to encode backup header: %w'')
        | Inr body \<Rightarrow>
            if length body > maxHeaderJSON then Inl (Internal ''Backup header too large (%d bytes).'')
            else Inr (magicPrefix @ [FormatVersion, 0] @ be_bytes 4 (length body) @ body)))"

definition HashHeader :: "crypto \<Rightarrow> bytes \<Rightarrow> bytes" where
  "HashHeader C encoded = sha256 C encoded"

definition ReadHeader :: "format_env \<Rightarrow> source \<Rightarrow> (header \<times> bytes) result" where
  "ReadHeader E src =
     (case read_full headerPrefixLen src of
        (Some e, _, _) \<Rightarrow> Inl (Wrapped ''Failed to read backup header: %w.'' e)
      | (None, pre, src') \<Rightarrow>
          if take (length magicPrefix) pre \<noteq> magicPrefix
            then Inl (Problem ''Invalid file format (not a RestoreSafe backup).'')
          else if pre ! 6 \<noteq> FormatVersion then
            (if pre ! 6 < FormatVersion
               then Inl (Problem ''Backup was created by RestoreSafe 1.x (backup format %d) and cannot be read by RestoreSafe 2.'')
             else Inl (Problem ''Backup format %d is newer than this RestoreSafe version supports (format %d).''))
          else if pre ! 7 \<noteq> 0 then Inl (headerErr ''reserved byte is not zero'')
          else let len = be_nat (drop 8 pre) in
          if len = 0 \<or> len > maxHeaderJSON then Inl (headerErr ''invalid header length %d'')
          else case read_full len src' of
            (Some e, _, _) \<Rightarrow> Inl (Wrapped ''Failed to read backup header: %w.'' e)
          | (None, body, _) \<Rightarrow>
              (case fe_unmarshal E body of
                 None \<Rightarrow> Inl (headerErr ''%v'')
               | Some (h, trailing) \<Rightarrow>
                   if trailing then Inl (headerErr ''trailing data after header JSON'')
                   else bindE (ValidateHeader (fe_C E) (fe_time E) h) (\<lambda>_. Inr (h, pre @ body))))"

section \<open>The trailer\<close>

definition TrailerLen :: nat where "TrailerLen = 64"
definition trailerMagic :: bytes where "trailerMagic = bytes_of_string ''RSTRL'' @ [0, 2, 0]"
definition minSectionLen :: int where "minSectionLen = 21"

text \<open>Go's conversions between \<open>int64\<close> and \<open>uint64\<close>, and the sum of two \<open>int64\<close>, which wraps.\<close>

definition uint64 :: "int \<Rightarrow> nat" where "uint64 x = nat (x mod 2 ^ 64)"

definition int64 :: "nat \<Rightarrow> int" where
  "int64 u = (if u < 2 ^ 63 then int u else int u - 2 ^ 64)"

definition add64 :: "int \<Rightarrow> int \<Rightarrow> int" where "add64 x y = int64 (uint64 (x + y))"

record trailer =
  DataOffset :: int
  DataLength :: int
  ManifestOffset :: int
  ManifestLength :: int
  PartCount :: int

definition incompleteErr :: "string \<Rightarrow> err" where
  "incompleteErr reason = Incomplete reason"

definition EncodeTrailer :: "crypto \<Rightarrow> trailer \<Rightarrow> bytes" where
  "EncodeTrailer C t =
     (let buf = trailerMagic @ be_bytes 8 (uint64 (DataOffset t)) @ be_bytes 8 (uint64 (DataLength t))
            @ be_bytes 8 (uint64 (ManifestOffset t)) @ be_bytes 8 (uint64 (ManifestLength t))
            @ be_bytes 4 (nat (PartCount t mod 2 ^ 32)) @ be_bytes 4 0
      in buf @ take 16 (sha256 C buf))"

definition byte_slice :: "bytes \<Rightarrow> nat \<Rightarrow> nat \<Rightarrow> bytes" where
  "byte_slice b i j = take (j - i) (drop i b)"

definition DecodeTrailer :: "crypto \<Rightarrow> bytes \<Rightarrow> trailer result" where
  "DecodeTrailer C b =
     (if length b \<noteq> TrailerLen then Inl (incompleteErr ''trailer has wrong length'')
      else if byte_slice b 0 8 \<noteq> trailerMagic then Inl (incompleteErr ''trailer not found'')
      else if take 16 (sha256 C (byte_slice b 0 48)) \<noteq> byte_slice b 48 64
        then Inl (incompleteErr ''trailer checksum mismatch'')
      else if be_nat (byte_slice b 44 48) \<noteq> 0 then Inl (incompleteErr ''trailer reserved field is not zero'')
      else Inr \<lparr>DataOffset = int64 (be_nat (byte_slice b 8 16)), DataLength = int64 (be_nat (byte_slice b 16 24)),
                ManifestOffset = int64 (be_nat (byte_slice b 24 32)), ManifestLength = int64 (be_nat (byte_slice b 32 40)),
                PartCount = int (be_nat (byte_slice b 40 44))\<rparr>)"

definition trailer_check :: "trailer \<Rightarrow> int \<Rightarrow> int \<Rightarrow> int \<Rightarrow> unit result" where
  "trailer_check t headerLen totalSize partsPresent =
     (if DataOffset t \<noteq> headerLen then Inl (incompleteErr ''data section does not start after the header'')
      else if DataLength t < minSectionLen \<or> ManifestLength t < minSectionLen
        then Inl (incompleteErr ''section too short'')
      else if ManifestOffset t \<noteq> add64 (DataOffset t) (DataLength t)
        then Inl (incompleteErr ''sections are not adjacent'')
      else if add64 (add64 (ManifestOffset t) (ManifestLength t)) (int TrailerLen) \<noteq> totalSize
        then Inl (incompleteErr ''size of the part files does not match the trailer'')
      else if PartCount t \<noteq> partsPresent
        then Inl (incompleteErr ''trailer expects %d part file(s), found %d'')
      else Inr ())"

section \<open>Writing a set\<close>

definition sectionData :: byte where "sectionData = 1"
definition sectionManifest :: byte where "sectionManifest = 2"

definition sectionAAD :: "bytes \<Rightarrow> byte \<Rightarrow> bytes" where
  "sectionAAD headerHash section = headerHash @ [section]"

record write_result =
  wr_Trailer :: trailer
  wr_TotalSize :: int
  wr_ManifestSHA256 :: string

text \<open>\<open>countingWriter\<close>: the writer and the number of bytes it took.\<close>

definition count_write :: "'w writer \<Rightarrow> ('w \<times> int) writer" where
  "count_write wr s p = (case s of (w, n) \<Rightarrow>
     case wr w p of (None, w') \<Rightarrow> (None, (w', n + int (length p))) | (Some e, w') \<Rightarrow> (Some e, (w', n)))"

text \<open>
  \<open>man\<close> is what \<open>manifestFn\<close> writes into the pipe and the error it ends with by itself (not the one it
  gets when the pipe is closed because the encryption failed).
\<close>

definition encryptManifest :: "'w writer \<Rightarrow> crypto \<Rightarrow> source \<Rightarrow> bytes \<Rightarrow> bytes \<Rightarrow> 'w \<Rightarrow> string result \<times> 'w" where
  "encryptManifest wr C man key aad w =
     (case EncryptStream wr C man key aad w of (r, w') \<Rightarrow>
        (case snd man of
           Some e \<Rightarrow> Inl e
         | None \<Rightarrow> (case r of
             Inl e \<Rightarrow> Inl (Internal ''Failed to write backup manifest: %w'')
           | Inr _ \<Rightarrow> Inr (hex_encode (sha256 C (fst man)))), w'))"

definition part_count :: "int \<Rightarrow> int \<Rightarrow> int" where
  "part_count splitSize sz = (if splitSize > 0 then (sz + splitSize - 1) div splitSize else 1)"

definition WriteSet ::
  "format_env \<Rightarrow> 'w writer \<Rightarrow> header \<Rightarrow> bytes \<Rightarrow> int \<Rightarrow> source \<Rightarrow> source \<Rightarrow> 'w \<Rightarrow> write_result result \<times> 'w" where
  "WriteSet E wr h master splitSize data man w =
     (let C = fe_C E; cw = count_write wr in
      case EncodeHeader E h of Inl e \<Rightarrow> (Inl e, w) | Inr encoded \<Rightarrow>
      let headerHash = HashHeader C encoded in
      case DeriveSectionKeys C master headerHash of Inl e \<Rightarrow> (Inl e, w) | Inr keys \<Rightarrow>
      case cw (w, 0) encoded of
        (Some e, s) \<Rightarrow> (Inl (Internal ''Failed to write backup header: %w''), fst s)
      | (None, s0) \<Rightarrow>
      case EncryptStream cw C data (key_Data keys) (sectionAAD headerHash sectionData) s0 of
        (Inl e, s) \<Rightarrow> (Inl e, fst s)
      | (Inr _, s1) \<Rightarrow>
      case encryptManifest cw C man (key_Manifest keys) (sectionAAD headerHash sectionManifest) s1 of
        (Inl e, s) \<Rightarrow> (Inl e, fst s)
      | (Inr msum, s2) \<Rightarrow>
      let trailer = \<lparr>DataOffset = snd s0, DataLength = snd s1 - snd s0, ManifestOffset = snd s1,
                     ManifestLength = snd s2 - snd s1, PartCount = part_count splitSize (snd s2 + int TrailerLen)\<rparr> in
      case cw s2 (EncodeTrailer C trailer) of
        (Some e, s) \<Rightarrow> (Inl (Internal ''Failed to write backup trailer: %w''), fst s)
      | (None, s3) \<Rightarrow> (Inr \<lparr>wr_Trailer = trailer, wr_TotalSize = snd s3, wr_ManifestSHA256 = msum\<rparr>, fst s3))"

section \<open>Reading a set\<close>

text \<open>A section of the parts as a reader: what \<open>ReadAt\<close> delivers of it; its end is a plain end.\<close>

definition section_source :: "(nat \<Rightarrow> int \<Rightarrow> bytes \<times> err option) \<Rightarrow> int \<Rightarrow> int \<Rightarrow> source" where
  "section_source read_at offset len = (case read_at (nat len) offset of (b, e) \<Rightarrow>
     (b, if e = Some EOF then None else e))"

definition readStructure ::
  "format_env \<Rightarrow> (nat \<Rightarrow> int \<Rightarrow> bytes \<times> err option) \<Rightarrow> int \<Rightarrow> int \<Rightarrow> (header \<times> bytes \<times> trailer) result" where
  "readStructure E read_at sz parts =
     bindE (ReadHeader E (section_source read_at 0 sz)) (\<lambda>(h, encoded).
     if sz < int (length encoded) + int TrailerLen then Inl (incompleteErr ''file is too short'')
     else case read_at TrailerLen (sz - int TrailerLen) of
       (_, Some e) \<Rightarrow> Inl e
     | (raw, None) \<Rightarrow>
         bindE (DecodeTrailer (fe_C E) raw) (\<lambda>trailer.
         bindE (trailer_check trailer (int (length encoded)) sz parts) (\<lambda>_.
           Inr (h, encoded, trailer))))"

record backup_set =
  set_Header :: header
  set_HeaderHash :: bytes
  set_Trailer :: trailer
  set_parts :: parts_reader

text \<open>\<open>sizes\<close> are the sizes of the part files as \<open>os.Stat\<close> gives them, \<open>content\<close> their contents when read.\<close>

definition OpenSet :: "format_env \<Rightarrow> (nat \<Rightarrow> bytes result) \<Rightarrow> int result list \<Rightarrow> backup_set result" where
  "OpenSet E content sizes =
     (if sizes = [] then Inl (incompleteErr ''no part files found'')
      else bindE (newPartsReader sizes) (\<lambda>pr.
        bindE (readStructure E (PartsReadAt content pr) (size_all pr) (int (length sizes))) (\<lambda>(h, encoded, trailer).
          Inr \<lparr>set_Header = h, set_HeaderHash = HashHeader (fe_C E) encoded, set_Trailer = trailer, set_parts = pr\<rparr>)))"

definition SetSectionKeys :: "format_env \<Rightarrow> backup_set \<Rightarrow> bytes \<Rightarrow> section_keys result" where
  "SetSectionKeys E s master = DeriveSectionKeys (fe_C E) master (set_HeaderHash s)"

definition sectionErr :: "string \<Rightarrow> err \<Rightarrow> err" where
  "sectionErr section e = (if e = Corrupted then Problem (''%w in the '' @ section @ '' section.'') else e)"

definition DecryptData ::
  "format_env \<Rightarrow> (nat \<Rightarrow> bytes result) \<Rightarrow> backup_set \<Rightarrow> section_keys \<Rightarrow> 'w writer \<Rightarrow> 'w \<Rightarrow> unit result \<times> 'w" where
  "DecryptData E content s keys wr w =
     (case DecryptStream wr (fe_C E)
        (section_source (PartsReadAt content (set_parts s)) (DataOffset (set_Trailer s)) (DataLength (set_Trailer s)))
        (key_Data keys) (sectionAAD (set_HeaderHash s) sectionData) w of
        (Inl e, w') \<Rightarrow> (Inl (sectionErr ''data'' e), w')
      | (Inr _, w') \<Rightarrow> (Inr (), w'))"

text \<open>
  The decryption feeds the parser through a pipe. A failed decryption is the error reported, also when
  the parser stopped at the cut-off manifest.
\<close>

definition ReadManifest :: "format_env \<Rightarrow> (nat \<Rightarrow> bytes result) \<Rightarrow> backup_set \<Rightarrow> section_keys \<Rightarrow> (manifest \<times> string) result" where
  "ReadManifest E content s keys =
     (case DecryptStream buf_write (fe_C E)
        (section_source (PartsReadAt content (set_parts s)) (ManifestOffset (set_Trailer s)) (ManifestLength (set_Trailer s)))
        (key_Manifest keys) (sectionAAD (set_HeaderHash s) sectionManifest) [] of
        (Inl e, _) \<Rightarrow> Inl (sectionErr ''manifest'' e)
      | (Inr _, plain) \<Rightarrow>
          bindE (DecodeManifest (fe_lower E) (fe_lines E) (plain, None)) (\<lambda>m.
          let h = set_Header s; mh = m_Header m in
          if mh_SetType mh \<noteq> h_SetType h \<or> mh_ChainID mh \<noteq> h_ChainID h \<or> mh_DiffNumber mh \<noteq> h_DiffNumber h
               \<or> mh_DirectoryName mh \<noteq> h_DirectoryName h
            then Inl (Problem ''Backup manifest does not match its set header.'')
          else Inr (m, hex_encode (sha256 (fe_C E) plain))))"

section \<open>Headers round trip\<close>

text \<open>What \<open>encoding/json\<close> promises for a header: its JSON is not empty and decodes to the header, alone.\<close>

definition header_json_ok :: "format_env \<Rightarrow> header \<Rightarrow> bool" where
  "header_json_ok E h \<longleftrightarrow> (\<exists>body. fe_marshal E h = Inr body \<and> body \<noteq> [] \<and> fe_unmarshal E body = Some (h, False))"

lemma length_magicPrefix [simp]: "length magicPrefix = 6"
  by (simp add: magicPrefix_def)

lemma EncodeHeader_Inr:
  "EncodeHeader E h = Inr enc \<Longrightarrow> header_json_ok E h \<Longrightarrow>
     \<exists>body. enc = magicPrefix @ [FormatVersion, 0] @ be_bytes 4 (length body) @ body \<and> body \<noteq> []
       \<and> length body \<le> maxHeaderJSON \<and> fe_unmarshal E body = Some (h, False)
       \<and> ValidateHeader (fe_C E) (fe_time E) h = Inr ()"
  by (auto simp: EncodeHeader_def header_json_ok_def split: sum.splits if_splits)

lemma ReadHeader_Encode:
  assumes "EncodeHeader E h = Inr enc" "header_json_ok E h"
  shows "ReadHeader E (enc @ rest, e) = Inr (h, enc)"
proof -
  obtain body where b: "enc = magicPrefix @ [FormatVersion, 0] @ be_bytes 4 (length body) @ body" "body \<noteq> []"
    "length body \<le> maxHeaderJSON" "fe_unmarshal E body = Some (h, False)" "ValidateHeader (fe_C E) (fe_time E) h = Inr ()"
    using EncodeHeader_Inr [OF assms] by blast
  let ?pre = "magicPrefix @ [FormatVersion, 0] @ be_bytes 4 (length body)"
  have pre: "read_full headerPrefixLen (enc @ rest, e) = (None, ?pre, (body @ rest, e))"
    using b(1) read_full_app [of ?pre headerPrefixLen "body @ rest" e] by (simp add: headerPrefixLen_def)
  have len: "be_nat (be_bytes 4 (length body)) = length body"
    using b(3) by (intro be_nat_be_bytes_id) (simp add: maxHeaderJSON_def)
  have at: "?pre ! 6 = FormatVersion" "?pre ! 7 = 0" "drop 8 ?pre = be_bytes 4 (length body)"
    by (simp_all add: nth_append)
  show ?thesis
    unfolding ReadHeader_def pre prod.case option.case at len Let_def
    using b read_full_app [of body "length body" rest e] by simp
qed

text \<open>Everything \<open>ReadHeader\<close> accepts was validated, and the bytes it returns are the ones it read.\<close>

lemma ReadHeader_sound:
  assumes "ReadHeader E (bs, e) = Inr (h, enc)"
  shows "ValidateHeader (fe_C E) (fe_time E) h = Inr ()" and "prefix enc bs" and "length enc \<le> headerPrefixLen + maxHeaderJSON"
    and "headerPrefixLen < length enc"
proof -
  from assms obtain pre src' body src2 where
    1: "read_full headerPrefixLen (bs, e) = (None, pre, src')" and
    2: "read_full (be_nat (drop 8 pre)) src' = (None, body, src2)" "be_nat (drop 8 pre) \<noteq> 0" "be_nat (drop 8 pre) \<le> maxHeaderJSON"
    and v: "ValidateHeader (fe_C E) (fe_time E) h = Inr ()" and enc: "enc = pre @ body"
    by (auto simp: ReadHeader_def Let_def e_iff split: prod.splits option.splits if_splits)
  show "ValidateHeader (fe_C E) (fe_time E) h = Inr ()" by (rule v)
  have p: "pre = take headerPrefixLen bs" "length pre = headerPrefixLen" "src' = (drop headerPrefixLen bs, e)"
    using 1 by (auto simp: read_full_def split: if_splits)
  have q: "body = take (be_nat (drop 8 pre)) (drop headerPrefixLen bs)" "length body = be_nat (drop 8 pre)"
    using 2(1) p(3) by (auto simp: read_full_def split: if_splits)
  show "prefix enc bs"
    unfolding enc p(1) q(1) by (metis append_take_drop_id prefix_append same_prefix_prefix take_is_prefix)
  show "length enc \<le> headerPrefixLen + maxHeaderJSON" "headerPrefixLen < length enc"
    using enc p(2) q(2) 2(2,3) by auto
qed

section \<open>Trailers round trip\<close>

lemma uint64_less: "uint64 x < 2 ^ 64"
proof -
  have "x mod 2 ^ 64 < 2 ^ 64" "0 \<le> x mod 2 ^ 64" by simp_all
  then show ?thesis by (simp add: uint64_def nat_less_iff)
qed

lemma int64_uint64: "- (2 ^ 63) \<le> x \<Longrightarrow> x < 2 ^ 63 \<Longrightarrow> int64 (uint64 x) = x"
proof -
  assume x: "- (2 ^ 63) \<le> x" "x < 2 ^ 63"
  show ?thesis
  proof (cases "0 \<le> x")
    case True
    then have "x mod 2 ^ 64 = x" using x by simp
    then show ?thesis using True x by (simp add: int64_def uint64_def nat_less_iff)
  next
    case False
    then have "(x + 2 ^ 64) mod 2 ^ 64 = x + 2 ^ 64" using x by (intro mod_pos_pos_trivial) auto
    then have "x mod 2 ^ 64 = x + 2 ^ 64" by simp
    then show ?thesis using False x by (simp add: int64_def uint64_def nat_less_iff)
  qed
qed

definition trailer_ok :: "trailer \<Rightarrow> bool" where
  "trailer_ok t \<longleftrightarrow> DataOffset t \<in> {- (2 ^ 63)..<2 ^ 63} \<and> DataLength t \<in> {- (2 ^ 63)..<2 ^ 63}
     \<and> ManifestOffset t \<in> {- (2 ^ 63)..<2 ^ 63} \<and> ManifestLength t \<in> {- (2 ^ 63)..<2 ^ 63} \<and> PartCount t \<in> {0..<2 ^ 32}"

lemma slice_app: "length a = i \<Longrightarrow> length b = j - i \<Longrightarrow> byte_slice (a @ b @ c) i j = b"
  by (simp add: byte_slice_def)

lemma length_slice: "j \<le> length b \<Longrightarrow> i \<le> j \<Longrightarrow> length (byte_slice b i j) = j - i"
  by (simp add: byte_slice_def)

lemma slice_split: "i \<le> j \<Longrightarrow> j \<le> k \<Longrightarrow> byte_slice b i k = byte_slice b i j @ byte_slice b j k"
proof -
  assume "i \<le> j" "j \<le> k"
  then have "k - i = (j - i) + (k - j)" "drop (j - i) (drop i b) = drop j b" by simp_all
  then show ?thesis by (simp add: byte_slice_def take_add)
qed

definition trailer_body :: "trailer \<Rightarrow> bytes" where
  "trailer_body t = trailerMagic @ be_bytes 8 (uint64 (DataOffset t)) @ be_bytes 8 (uint64 (DataLength t))
            @ be_bytes 8 (uint64 (ManifestOffset t)) @ be_bytes 8 (uint64 (ManifestLength t))
            @ be_bytes 4 (nat (PartCount t mod 2 ^ 32)) @ be_bytes 4 0"

lemma length_trailerMagic [simp]: "length trailerMagic = 8"
  by (simp add: trailerMagic_def)

lemma length_trailer_body [simp]: "length (trailer_body t) = 48"
  by (simp add: trailer_body_def)

lemma EncodeTrailer_body: "EncodeTrailer C t = trailer_body t @ take 16 (sha256 C (trailer_body t))"
  by (simp add: EncodeTrailer_def trailer_body_def Let_def)

lemma trailer_body_slices:
  "byte_slice (trailer_body t @ r) 0 8 = trailerMagic"
  "byte_slice (trailer_body t @ r) 8 16 = be_bytes 8 (uint64 (DataOffset t))"
  "byte_slice (trailer_body t @ r) 16 24 = be_bytes 8 (uint64 (DataLength t))"
  "byte_slice (trailer_body t @ r) 24 32 = be_bytes 8 (uint64 (ManifestOffset t))"
  "byte_slice (trailer_body t @ r) 32 40 = be_bytes 8 (uint64 (ManifestLength t))"
  "byte_slice (trailer_body t @ r) 40 44 = be_bytes 4 (nat (PartCount t mod 2 ^ 32))"
  "byte_slice (trailer_body t @ r) 44 48 = be_bytes 4 0"
  "byte_slice (trailer_body t @ r) 0 48 = trailer_body t"
  by (simp_all add: byte_slice_def trailer_body_def del: be_bytes.simps)

lemma length_EncodeTrailer: "crypto_ok C \<Longrightarrow> length (EncodeTrailer C t) = TrailerLen"
  by (simp add: EncodeTrailer_body crypto_okD(6) TrailerLen_def)

lemma Decode_EncodeTrailer:
  assumes len: "length (EncodeTrailer C t) = TrailerLen" and "trailer_ok t"
  shows "DecodeTrailer C (EncodeTrailer C t) = Inr t"
proof -
  have u: "be_nat (be_bytes 8 (uint64 x)) = uint64 x" for x
    using uint64_less [of x] by (intro be_nat_be_bytes_id) simp
  have p0: "0 \<le> PartCount t" "PartCount t < 2 ^ 32" using assms(2) by (auto simp: trailer_ok_def)
  then have p: "be_nat (be_bytes 4 (nat (PartCount t mod 2 ^ 32))) = nat (PartCount t)"
    by (subst be_nat_be_bytes_id) (auto simp: nat_less_iff)
  have z: "be_nat (be_bytes 4 0) = 0" by (subst be_nat_be_bytes_id) simp_all
  have "byte_slice (EncodeTrailer C t) 48 64 = take 16 (sha256 C (trailer_body t))"
    by (simp add: EncodeTrailer_body byte_slice_def)
  then show ?thesis
    using assms p p0
    by (simp add: DecodeTrailer_def trailer_body_slices EncodeTrailer_body u z int64_uint64 trailer_ok_def del: be_bytes.simps)
qed

lemma uint64_int64: "u < 2 ^ 64 \<Longrightarrow> uint64 (int64 u) = u"
  by (simp add: uint64_def int64_def)

lemma int64_range: "u < 2 ^ 64 \<Longrightarrow> int64 u \<in> {- (2 ^ 63)..<2 ^ 63}"
  by (auto simp: int64_def)

lemma be_slice:
  assumes "j \<le> length b" "i \<le> j"
  shows "be_bytes (j - i) (be_nat (byte_slice b i j)) = byte_slice b i j" and "be_nat (byte_slice b i j) < 256 ^ (j - i)"
  using be_bytes_be_nat [of "byte_slice b i j"] be_nat_lt [of "byte_slice b i j"] assms by (simp_all add: length_slice)

lemma DecodeTrailer_canonical:
  assumes "DecodeTrailer C b = Inr t"
  shows "trailer_ok t \<and> EncodeTrailer C t = b"
proof -
  have len: "length b = 64" and magic: "byte_slice b 0 8 = trailerMagic"
    and chk: "take 16 (sha256 C (byte_slice b 0 48)) = byte_slice b 48 64" and res: "be_nat (byte_slice b 44 48) = 0"
    and t: "t = \<lparr>DataOffset = int64 (be_nat (byte_slice b 8 16)), DataLength = int64 (be_nat (byte_slice b 16 24)),
                ManifestOffset = int64 (be_nat (byte_slice b 24 32)), ManifestLength = int64 (be_nat (byte_slice b 32 40)),
                PartCount = int (be_nat (byte_slice b 40 44))\<rparr>"
    using assms by (auto simp: DecodeTrailer_def TrailerLen_def split: if_splits)
  have lt: "be_nat (byte_slice b 8 16) < 2 ^ 64" "be_nat (byte_slice b 16 24) < 2 ^ 64" "be_nat (byte_slice b 24 32) < 2 ^ 64"
    "be_nat (byte_slice b 32 40) < 2 ^ 64" "be_nat (byte_slice b 40 44) < 2 ^ 32"
    using be_slice(2) [of 16 b 8] be_slice(2) [of 24 b 16] be_slice(2) [of 32 b 24] be_slice(2) [of 40 b 32]
      be_slice(2) [of 44 b 40] len by simp_all
  have ok: "trailer_ok t"
    using int64_range [OF lt(1)] int64_range [OF lt(2)] int64_range [OF lt(3)] int64_range [OF lt(4)] lt(5)
    by (simp add: t trailer_ok_def)
  have pc: "nat (PartCount t mod 2 ^ 32) = be_nat (byte_slice b 40 44)" using lt(5) by (simp add: t)
  have sl: "be_bytes 8 (be_nat (byte_slice b 8 16)) = byte_slice b 8 16" "be_bytes 8 (be_nat (byte_slice b 16 24)) = byte_slice b 16 24"
    "be_bytes 8 (be_nat (byte_slice b 24 32)) = byte_slice b 24 32" "be_bytes 8 (be_nat (byte_slice b 32 40)) = byte_slice b 32 40"
    "be_bytes 4 (be_nat (byte_slice b 40 44)) = byte_slice b 40 44" "be_bytes 4 0 = byte_slice b 44 48"
    using be_slice(1) [of 16 b 8] be_slice(1) [of 24 b 16] be_slice(1) [of 32 b 24] be_slice(1) [of 40 b 32]
      be_slice(1) [of 44 b 40] be_slice(1) [of 48 b 44] len res by (simp_all del: be_bytes.simps)
  have "trailer_body t = byte_slice b 0 8 @ byte_slice b 8 16 @ byte_slice b 16 24 @ byte_slice b 24 32 @ byte_slice b 32 40 @ byte_slice b 40 44 @ byte_slice b 44 48"
    unfolding trailer_body_def pc
    by (simp only: t trailer.select_convs magic sl uint64_int64 [OF lt(1)] uint64_int64 [OF lt(2)]
        uint64_int64 [OF lt(3)] uint64_int64 [OF lt(4)])
  also have "\<dots> = byte_slice b 0 48"
    using slice_split [of 0 8 48 b] slice_split [of 8 16 48 b] slice_split [of 16 24 48 b] slice_split [of 24 32 48 b]
      slice_split [of 32 40 48 b] slice_split [of 40 44 48 b] by simp
  finally have body: "trailer_body t = byte_slice b 0 48" .
  have "b = byte_slice b 0 48 @ byte_slice b 48 64" using slice_split [of 0 48 64 b] len by (simp add: byte_slice_def)
  with body chk have "EncodeTrailer C t = b" by (simp add: EncodeTrailer_body)
  with ok show ?thesis by simp
qed

text \<open>The trailer as a codec whose accepted forms are unique.\<close>

interpretation trailer_codec: canonical_codec "EncodeTrailer C" "DecodeTrailer C"
    "\<lambda>t. trailer_ok t \<and> length (EncodeTrailer C t) = TrailerLen" for C
proof
  fix t assume "trailer_ok t \<and> length (EncodeTrailer C t) = TrailerLen"
  then show "DecodeTrailer C (EncodeTrailer C t) = Inr t" by (simp add: Decode_EncodeTrailer)
next
  fix b t assume "DecodeTrailer C b = Inr t"
  moreover from this have "length b = TrailerLen" by (auto simp: DecodeTrailer_def split: if_splits)
  ultimately show "(trailer_ok t \<and> length (EncodeTrailer C t) = TrailerLen) \<and> EncodeTrailer C t = b"
    using DecodeTrailer_canonical [of C b t] by auto
qed

section \<open>What an opened set's structure is\<close>

lemma add64_cong: "add64 x y = int64 (nat ((x + y) mod 2 ^ 64))"
  by (simp add: add64_def uint64_def)

lemma int64_cases:
  "int64 (nat (x mod 2 ^ 64)) = y \<Longrightarrow> \<exists>k. y = x + k * 2 ^ 64"
proof -
  assume y: "int64 (nat (x mod 2 ^ 64)) = y"
  obtain q where x: "x mod 2 ^ 64 = x - 2 ^ 64 * q" by (metis minus_mult_div_eq_mod)
  show ?thesis
  proof (cases "x mod 2 ^ 64 < 2 ^ 63")
    case True
    then have "y = x mod 2 ^ 64" using y by (simp add: int64_def nat_less_iff split: if_splits)
    then show ?thesis using x by (intro exI [of _ "- q"]) simp
  next
    case False
    then have "y = x mod 2 ^ 64 - 2 ^ 64" using y by (simp add: int64_def nat_less_iff split: if_splits)
    then show ?thesis using x by (intro exI [of _ "- q - 1"]) (simp add: algebra_simps)
  qed
qed

lemma add64_cases: "\<exists>k. add64 x y = x + y + k * 2 ^ 64"
  using int64_cases [of "x + y"] by (auto simp: add64_cong)

text \<open>Although the code adds \<open>int64\<close> values read from the file, no overflow makes a wrong trailer pass.\<close>

lemma trailer_check_exact:
  assumes ok: "trailer_ok t" and chk: "trailer_check t headerLen sz parts = Inr ()"
    and sz: "0 \<le> headerLen" "headerLen + int TrailerLen \<le> sz" "sz < 2 ^ 63"
  shows "DataOffset t = headerLen \<and> minSectionLen \<le> DataLength t \<and> minSectionLen \<le> ManifestLength t
     \<and> ManifestOffset t = headerLen + DataLength t \<and> ManifestOffset t + ManifestLength t + int TrailerLen = sz
     \<and> PartCount t = parts"
proof -
  have c: "DataOffset t = headerLen" "21 \<le> DataLength t" "21 \<le> ManifestLength t"
    "ManifestOffset t = add64 headerLen (DataLength t)"
    "add64 (add64 (ManifestOffset t) (ManifestLength t)) 64 = sz" "PartCount t = parts"
    using chk by (auto simp: trailer_check_def minSectionLen_def TrailerLen_def split: if_splits)
  have r: "DataLength t < 2 ^ 63" "ManifestLength t < 2 ^ 63" "- (2 ^ 63) \<le> ManifestOffset t" "ManifestOffset t < 2 ^ 63"
    using ok by (auto simp: trailer_ok_def)
  obtain k1 where k1: "ManifestOffset t = headerLen + DataLength t + k1 * 2 ^ 64"
    using add64_cases [of headerLen "DataLength t"] c(4) by auto
  obtain k where k: "sz = headerLen + DataLength t + ManifestLength t + 64 + k * 2 ^ 64"
  proof -
    obtain a b where "add64 (ManifestOffset t) (ManifestLength t) = ManifestOffset t + ManifestLength t + a * 2 ^ 64"
      "sz = add64 (ManifestOffset t) (ManifestLength t) + 64 + b * 2 ^ 64"
      using add64_cases [of "ManifestOffset t" "ManifestLength t"]
        add64_cases [of "add64 (ManifestOffset t) (ManifestLength t)" 64] c(5) by auto
    then show ?thesis using k1 by (intro that [of "k1 + a + b"]) (simp add: algebra_simps)
  qed
  have "k = 0" using k c(2,3) r(1,2) sz(2,3) sz(1) by (simp add: TrailerLen_def)
  then have sz': "sz = headerLen + DataLength t + ManifestLength t + 64" using k by simp
  have "k1 = 0" using k1 r(3,4) sz' sz(1,3) c(2,3) by simp
  then show ?thesis using k1 sz' c by (simp add: minSectionLen_def TrailerLen_def)
qed

lemma readStructure_facts:
  assumes "readStructure E read_at sz parts = Inr (h, enc, t)" and "sz < 2 ^ 63"
  shows "DataOffset t = int (length enc)" and "minSectionLen \<le> DataLength t" and "minSectionLen \<le> ManifestLength t"
    and "ManifestOffset t = DataOffset t + DataLength t" and "ManifestOffset t + ManifestLength t + int TrailerLen = sz"
    and "PartCount t = parts" and "ValidateHeader (fe_C E) (fe_time E) h = Inr ()"
proof -
  obtain raw er where "read_at TrailerLen (sz - int TrailerLen) = (raw, er)" by fastforce
  with assms(1) have rh: "ReadHeader E (section_source read_at 0 sz) = Inr (h, enc)"
    and len: "int (length enc) + int TrailerLen \<le> sz" and dt: "DecodeTrailer (fe_C E) raw = Inr t"
    and chk: "trailer_check t (int (length enc)) sz parts = Inr ()"
    by (auto simp: readStructure_def e_iff split: prod.splits option.splits if_splits)
  have "trailer_ok t" using DecodeTrailer_canonical [OF dt] by simp
  note ex = trailer_check_exact [OF this chk _ len assms(2)]
  show "DataOffset t = int (length enc)" "minSectionLen \<le> DataLength t" "minSectionLen \<le> ManifestLength t"
    "ManifestOffset t = DataOffset t + DataLength t" "ManifestOffset t + ManifestLength t + int TrailerLen = sz"
    "PartCount t = parts"
    using ex by simp_all
  obtain bs e where "section_source read_at 0 sz = (bs, e)" by fastforce
  with rh ReadHeader_sound(1) show "ValidateHeader (fe_C E) (fe_time E) h = Inr ()" by metis
qed

text \<open>C20. An opened set is complete: whatever bytes the part files hold, when the structure check passes,
  header, data section, manifest section and trailer tile the part files exactly and without overlap, no
  sum of the 64-bit fields having wrapped, both sections can hold an encrypted stream, the number of part
  files is the one written, and the header is valid.\<close>

theorem readStructure_tiles:
  assumes "readStructure E read_at sz parts = Inr (h, enc, t)" and "sz < 2 ^ 63"
  shows "DataOffset t = int (length enc) \<and> ManifestOffset t = DataOffset t + DataLength t
     \<and> ManifestOffset t + ManifestLength t + int TrailerLen = sz \<and> minSectionLen \<le> DataLength t
     \<and> minSectionLen \<le> ManifestLength t \<and> PartCount t = parts \<and> ValidateHeader (fe_C E) (fe_time E) h = Inr ()"
  using readStructure_facts [OF assms] by simp

section \<open>Writing and opening\<close>

context byte_sink
begin

lemma count_sink: "byte_sink (count_write wr) (\<lambda>s. content (fst s)) (\<lambda>s. good (fst s))"
proof
  fix s :: "'w \<times> int" and p
  assume g: "good (fst s)"
  then show "fst (count_write wr s p) = None" "good (fst (snd (count_write wr s p)))"
    "content (fst (snd (count_write wr s p))) = content (fst s) @ p"
    using write_ok [OF g, of p] write_good [OF g, of p] write_content [OF g, of p]
    by (auto simp: count_write_def split: prod.splits option.splits)
qed

text \<open>A good counter: the count is the number of bytes the writer took since it started.\<close>

lemma count_sink_counted:
  "byte_sink (count_write wr) (\<lambda>s. content (fst s)) (\<lambda>s. good (fst s) \<and> snd s = int (length (content (fst s))) - n0)"
proof
  fix s :: "'w \<times> int" and p
  assume g: "good (fst s) \<and> snd s = int (length (content (fst s))) - n0"
  then have g': "good (fst s)" by simp
  show "fst (count_write wr s p) = None" "content (fst (snd (count_write wr s p))) = content (fst s) @ p"
    "good (fst (snd (count_write wr s p))) \<and> snd (snd (count_write wr s p)) = int (length (content (fst (snd (count_write wr s p))))) - n0"
    using g write_ok [OF g', of p] write_good [OF g', of p] write_content [OF g', of p]
    by (auto simp: count_write_def split: prod.splits option.splits)
qed

end

text \<open>The bytes of a set as a plain function of its parts.\<close>

definition data_section :: "crypto \<Rightarrow> bytes \<Rightarrow> bytes \<Rightarrow> bytes \<Rightarrow> bytes" where
  "data_section C master enc d =
     (let hh = sha256 C enc in enc_bytes C (hkdf C master hh infoData) (sectionAAD hh sectionData) 0 d)"

definition manifest_section :: "crypto \<Rightarrow> bytes \<Rightarrow> bytes \<Rightarrow> bytes \<Rightarrow> bytes" where
  "manifest_section C master enc mb =
     (let hh = sha256 C enc in enc_bytes C (hkdf C master hh infoManifest) (sectionAAD hh sectionManifest) 0 mb)"

definition set_layout :: "bytes \<Rightarrow> bytes \<Rightarrow> bytes \<Rightarrow> int \<Rightarrow> trailer" where
  "set_layout enc D M splitSize =
     \<lparr>DataOffset = int (length enc), DataLength = int (length D), ManifestOffset = int (length enc) + int (length D),
      ManifestLength = int (length M),
      PartCount = part_count splitSize (int (length enc) + int (length D) + int (length M) + int TrailerLen)\<rparr>"

definition set_bytes :: "crypto \<Rightarrow> bytes \<Rightarrow> bytes \<Rightarrow> int \<Rightarrow> bytes \<Rightarrow> bytes \<Rightarrow> bytes" where
  "set_bytes C master enc splitSize d mb =
     (let D = data_section C master enc d; M = manifest_section C master enc mb
      in enc @ D @ M @ EncodeTrailer C (set_layout enc D M splitSize))"

context byte_sink
begin

lemma encryptManifest_sink:
  assumes "good w" "length key = KeyLen"
  shows "\<exists>w'. encryptManifest wr C (mb, None) key aad w = (Inr (hex_encode (sha256 C mb)), w') \<and> good w'
     \<and> content w' = content w @ enc_bytes C key aad 0 mb"
  using EncryptStream_sink [OF assms, of C mb aad] by (auto simp: encryptManifest_def)

lemma write_sink: "good w \<Longrightarrow> \<exists>w'. wr w p = (None, w') \<and> good w' \<and> content w' = content w @ p"
  using write_ok [of w p] write_good [of w p] write_content [of w p] by (cases "wr w p") simp

lemma WriteSet_sink:
  assumes C: "crypto_ok (fe_C E)" and g: "good w" and enc: "EncodeHeader E h = Inr enc" and m: "length master = KeyLen"
  shows "\<exists>w'. WriteSet E wr h master splitSize (d, None) (mb, None) w
      = (Inr \<lparr>wr_Trailer = set_layout enc (data_section (fe_C E) master enc d) (manifest_section (fe_C E) master enc mb) splitSize,
              wr_TotalSize = int (length (set_bytes (fe_C E) master enc splitSize d mb)),
              wr_ManifestSHA256 = hex_encode (sha256 (fe_C E) mb)\<rparr>, w')
    \<and> good w' \<and> content w' = content w @ set_bytes (fe_C E) master enc splitSize d mb"
proof -
  let ?C = "fe_C E" and ?n0 = "int (length (content w))" and ?cw = "count_write wr"
  let ?hh = "sha256 ?C enc" and ?c = "\<lambda>s. content (fst s)"
  let ?D = "data_section ?C master enc d" and ?M = "manifest_section ?C master enc mb"
  let ?good = "\<lambda>s. good (fst s) \<and> snd s = int (length (?c s)) - ?n0"
  let ?kd = "hkdf ?C master ?hh infoData" and ?km = "hkdf ?C master ?hh infoManifest"
  note cs = count_sink_counted [of ?n0]
  have keys: "DeriveSectionKeys ?C master ?hh = Inr \<lparr>key_Data = ?kd, key_Manifest = ?km\<rparr>"
    using m by (simp add: DeriveSectionKeys_def DeriveSubkey_def)
  have kl: "length ?kd = KeyLen" "length ?km = KeyLen" by (simp_all add: crypto_okD(5) [OF C] KeyLen_def)
  have g0: "?good (w, 0)" using g by simp
  obtain s0 where s0: "?cw (w, 0) enc = (None, s0)" "?good s0" "?c s0 = content w @ enc"
    using byte_sink.write_sink [OF cs g0, of enc] by auto
  obtain s1 where s1: "EncryptStream ?cw ?C (d, None) ?kd (sectionAAD ?hh sectionData) s0 = (Inr (), s1)" "?good s1"
    "?c s1 = content w @ enc @ ?D"
    using byte_sink.EncryptStream_sink [OF cs s0(2) kl(1), of ?C d "sectionAAD ?hh sectionData"] s0(3)
    by (auto simp: data_section_def Let_def)
  obtain s2 where s2: "encryptManifest ?cw ?C (mb, None) ?km (sectionAAD ?hh sectionManifest) s1
      = (Inr (hex_encode (sha256 ?C mb)), s2)" "?good s2" "?c s2 = content w @ enc @ ?D @ ?M"
    using byte_sink.encryptManifest_sink [OF cs s1(2) kl(2), of ?C mb "sectionAAD ?hh sectionManifest"] s1(3)
    by (auto simp: manifest_section_def Let_def)
  have n: "snd s0 = int (length enc)" "snd s1 = int (length enc) + int (length ?D)"
    "snd s2 = int (length enc) + int (length ?D) + int (length ?M)"
    using s0(2,3) s1(2,3) s2(2,3) by simp_all
  let ?t = "set_layout enc ?D ?M splitSize"
  obtain s3 where s3: "?cw s2 (EncodeTrailer ?C ?t) = (None, s3)" "?good s3" "?c s3 = ?c s2 @ EncodeTrailer ?C ?t"
    using byte_sink.write_sink [OF cs s2(2), of "EncodeTrailer ?C ?t"] by auto
  have t: "\<lparr>DataOffset = snd s0, DataLength = snd s1 - snd s0, ManifestOffset = snd s1,
      ManifestLength = snd s2 - snd s1, PartCount = part_count splitSize (snd s2 + int TrailerLen)\<rparr> = ?t"
    by (simp add: n set_layout_def)
  have "?c s3 = content w @ set_bytes ?C master enc splitSize d mb"
    using s3(3) s2(3) by (simp add: set_bytes_def Let_def)
  moreover from this have "snd s3 = int (length (set_bytes ?C master enc splitSize d mb))" using s3(2) by simp
  ultimately show ?thesis
    using s3(1,2) by (simp add: WriteSet_def Let_def enc HashHeader_def keys s0(1) s1(1) s2(1) t)
qed

end

context reader_at
begin

lemma section_source_stream:
  "0 \<le> off \<Longrightarrow> 0 \<le> n \<Longrightarrow> off + n \<le> int (length stream) \<Longrightarrow>
     section_source read_at off n = (take (nat n) (drop (nat off) stream), None)"
  by (simp add: section_source_def read_inside)

lemma readStructure_stream:
  assumes C: "crypto_ok (fe_C E)" and enc: "EncodeHeader E h = Inr enc" and json: "header_json_ok E h"
    and D: "21 \<le> length D" and M: "21 \<le> length M"
    and stream: "stream = enc @ D @ M @ EncodeTrailer (fe_C E) (set_layout enc D M splitSize)"
    and bound: "int (length stream) < 2 ^ 63" and parts: "parts = PartCount (set_layout enc D M splitSize)"
      "0 \<le> parts" "parts < 2 ^ 32"
  shows "readStructure E read_at (int (length stream)) parts = Inr (h, enc, set_layout enc D M splitSize)"
proof -
  let ?t = "set_layout enc D M splitSize"
  have tl: "length (EncodeTrailer (fe_C E) ?t) = TrailerLen" by (rule length_EncodeTrailer [OF C])
  have sz: "int (length stream) = int (length enc) + int (length D) + int (length M) + int TrailerLen"
    using tl by (simp add: stream)
  have rh: "ReadHeader E (section_source read_at 0 (int (length stream))) = Inr (h, enc)"
    using ReadHeader_Encode [OF enc json, of "D @ M @ EncodeTrailer (fe_C E) ?t" None]
    by (simp add: section_source_stream stream)
  have raw: "read_at TrailerLen (int (length stream) - int TrailerLen) = (EncodeTrailer (fe_C E) ?t, None)"
  proof -
    have "drop (nat (int (length stream) - int TrailerLen)) stream = EncodeTrailer (fe_C E) ?t"
      using sz tl by (simp add: stream nat_diff_distrib)
    then show ?thesis using sz tl by (subst read_inside) simp_all
  qed
  have ok: "trailer_ok ?t"
    using sz bound parts by (auto simp: trailer_ok_def set_layout_def)
  have small: "add64 x y = x + y" if "0 \<le> x + y" "x + y < 2 ^ 63" for x y
    using int64_uint64 [of "x + y"] that by (simp add: add64_def)
  have chk: "trailer_check ?t (int (length enc)) (int (length stream)) parts = Inr ()"
  proof -
    have "add64 (int (length enc)) (int (length D)) = int (length enc) + int (length D)"
      using sz bound by (intro small) simp_all
    moreover have "add64 (int (length enc) + int (length D)) (int (length M)) = int (length enc) + int (length D) + int (length M)"
      using sz bound by (intro small) simp_all
    moreover have "add64 (int (length enc) + int (length D) + int (length M)) (int TrailerLen) = int (length stream)"
      using sz bound small [of "int (length enc) + int (length D) + int (length M)" "int TrailerLen"] by simp
    ultimately show ?thesis
      using D M parts(1) by (simp add: trailer_check_def set_layout_def minSectionLen_def)
  qed
  show ?thesis
    using rh raw chk sz Decode_EncodeTrailer [OF tl ok] by (simp add: readStructure_def)
qed

end

lemma section_ge: "crypto_ok C \<Longrightarrow> 21 \<le> length (enc_bytes C key aad i p)"
  using length_enc_bytes [of C key aad i p] by simp

text \<open>A section that holds what the encryption wrote decrypts into any sink.\<close>

lemma DecryptStream_section:
  assumes C: "crypto_ok C" and k: "length key = KeyLen" and sink: "byte_sink wr content good" and g: "good w"
  shows "\<exists>w'. DecryptStream wr C (enc_bytes C key aad 0 p, None) key aad w = (Inr (), w') \<and> good w' \<and> content w' = content w @ p"
proof -
  obtain qs q where "enc_bytes C key aad 0 p = stream_of C key aad 0 qs q" "well_chunked qs q" "concat qs @ q = p"
    using enc_bytes_stream_of [of C key aad 0 p] by auto
  with byte_sink.decrypt_loop_stream_of [OF sink C g, of qs q key aad 0] k show ?thesis
    by (auto simp: DecryptStream_def newGCM_def)
qed

text \<open>The split writer of the backup, which keeps its part size.\<close>

lemma split_sink: "byte_sink (split_write no_faults) (\<lambda>s. concat (files s)) (\<lambda>s. split_inv s \<and> maxBytes s = mx)"
  by unfold_locales (metis split_write_no_faults fst_conv snd_conv)+

lemma WriteSet_Inr:
  assumes "WriteSet E wr h master splitSize data man w = (Inr res, w')"
  shows "\<exists>enc. EncodeHeader E h = Inr enc" and "length master = KeyLen"
  using assms by (auto simp: WriteSet_def Let_def DeriveSectionKeys_def DeriveSubkey_def e_iff split: sum.splits prod.splits option.splits if_splits)

text \<open>What the part files of a written set hold, and how many there are.\<close>

lemma sync_NewWriter: "SetSyncOnClose True (NewWriter mx) = NewWriter mx"
  by (simp add: SetSyncOnClose_def NewWriter_def)

lemma WriteSet_files_sync:
  assumes C: "crypto_ok (fe_C E)" and mx: "0 < mx"
    and w: "WriteSet E (split_write no_faults) h master mx (d, None) (mb, None) (SetSyncOnClose sync (NewWriter mx)) = (Inr res, s)"
    and cl: "WriterClose no_faults s = (e, s')" and enc: "EncodeHeader E h = Inr enc"
  shows "concat (files s') = set_bytes (fe_C E) master enc mx d mb"
    and "int (length (files s')) = PartCount (set_layout enc (data_section (fe_C E) master enc d) (manifest_section (fe_C E) master enc mb) mx)"
    and "wr_ManifestSHA256 res = hex_encode (sha256 (fe_C E) mb)"
    and "wr_Trailer res = set_layout enc (data_section (fe_C E) master enc d) (manifest_section (fe_C E) master enc mb) mx"
proof -
  let ?D = "data_section (fe_C E) master enc d" and ?M = "manifest_section (fe_C E) master enc mb"
  have g: "split_inv (SetSyncOnClose sync (NewWriter mx)) \<and> maxBytes (SetSyncOnClose sync (NewWriter mx)) = mx"
    using split_inv_NewWriter [OF mx] by (simp add: NewWriter_def SetSyncOnClose_def split_inv_def)
  have f: "files s' = files s" using WriterClose_files [OF cl] by simp
  have s: "split_inv s" "maxBytes s = mx" "concat (files s) = set_bytes (fe_C E) master enc mx d mb"
    "wr_ManifestSHA256 res = hex_encode (sha256 (fe_C E) mb)" "wr_Trailer res = set_layout enc ?D ?M mx"
    using byte_sink.WriteSet_sink [OF split_sink C g enc WriteSet_Inr(2) [OF w], of mx d mb] w by (auto simp: NewWriter_def SetSyncOnClose_def)
  show "concat (files s') = set_bytes (fe_C E) master enc mx d mb" "wr_ManifestSHA256 res = hex_encode (sha256 (fe_C E) mb)"
    "wr_Trailer res = set_layout enc ?D ?M mx"
    using s f by simp_all
  have "int (length (files s)) = part_count mx (int (length (set_bytes (fe_C E) master enc mx d mb)))"
    using split_inv_count [OF s(1)] s mx by (simp add: part_count_def)
  then show "int (length (files s')) = PartCount (set_layout enc ?D ?M mx)"
    using f length_EncodeTrailer [OF C] by (simp add: set_bytes_def set_layout_def Let_def add.assoc)
qed

lemma sizes_of_parts [simp]: "length (part_sizes ps) = length ps" "part_sizes ps = [] \<longleftrightarrow> ps = []"
  by (simp_all add: part_sizes_def)

lemma OpenSet_written:
  assumes C: "crypto_ok (fe_C E)" and enc: "EncodeHeader E h = Inr enc" and json: "header_json_ok E h"
    and fs: "concat ps = set_bytes (fe_C E) master enc mx d mb"
    and n: "int (length ps) = PartCount (set_layout enc (data_section (fe_C E) master enc d) (manifest_section (fe_C E) master enc mb) mx)"
    and bounds: "int (length (concat ps)) < 2 ^ 63" "length ps < 2 ^ 32"
  shows "OpenSet E (parts_content ps) (part_sizes ps) = Inr \<lparr>set_Header = h, set_HeaderHash = sha256 (fe_C E) enc,
     set_Trailer = set_layout enc (data_section (fe_C E) master enc d) (manifest_section (fe_C E) master enc mb) mx,
     set_parts = parts_view ps\<rparr>"
proof -
  let ?D = "data_section (fe_C E) master enc d" and ?M = "manifest_section (fe_C E) master enc mb"
  have ge: "21 \<le> length ?D" "21 \<le> length ?M"
    by (simp_all add: data_section_def manifest_section_def Let_def section_ge [OF C])
  have ne: "ps \<noteq> []" using fs length_EncodeTrailer [OF C] ge by (auto simp: set_bytes_def Let_def)
  have "readStructure E (PartsReadAt (parts_content ps) (parts_view ps)) (int (length (concat ps))) (int (length ps))
      = Inr (h, enc, set_layout enc ?D ?M mx)"
    using bounds n by (intro parts.readStructure_stream [OF C enc json ge]) (simp_all add: fs set_bytes_def Let_def)
  moreover have "newPartsReader (part_sizes ps) = Inr (parts_view ps)"
    by (simp add: newPartsReader_parts parts_view_def)
  moreover have "size_all (parts_view ps) = int (length (concat ps))" by (simp add: parts_view_def)
  ultimately show ?thesis using ne by (simp add: OpenSet_def HashHeader_def)
qed

lemma WriteSet_files:
  assumes C: "crypto_ok (fe_C E)" and mx: "0 < mx"
    and w: "WriteSet E (split_write no_faults) h master mx (d, None) (mb, None) (NewWriter mx) = (Inr res, s)"
    and cl: "WriterClose no_faults s = (e, s')" and enc: "EncodeHeader E h = Inr enc"
  shows "concat (files s') = set_bytes (fe_C E) master enc mx d mb"
    and "int (length (files s')) = PartCount (set_layout enc (data_section (fe_C E) master enc d) (manifest_section (fe_C E) master enc mb) mx)"
    and "wr_ManifestSHA256 res = hex_encode (sha256 (fe_C E) mb)"
  using WriteSet_files_sync [OF C mx _ cl enc, where sync = True] w by (simp_all add: sync_NewWriter)

text \<open>The two sections of an opened set are the ones written.\<close>

lemma sections_written:
  assumes "concat ps = set_bytes C master enc mx d mb"
  defines "t \<equiv> set_layout enc (data_section C master enc d) (manifest_section C master enc mb) mx"
  shows "section_source (PartsReadAt (parts_content ps) (parts_view ps)) (DataOffset t) (DataLength t)
      = (data_section C master enc d, None)"
    and "section_source (PartsReadAt (parts_content ps) (parts_view ps)) (ManifestOffset t) (ManifestLength t)
      = (manifest_section C master enc mb, None)"
  using assms by (auto simp: parts.section_source_stream set_layout_def set_bytes_def Let_def nat_int_add)

lemma DecryptData_written:
  assumes C: "crypto_ok (fe_C E)" and fs: "concat ps = set_bytes (fe_C E) master enc mx d mb" and m: "length master = KeyLen"
    and st: "set_HeaderHash st = sha256 (fe_C E) enc" "set_parts st = parts_view ps"
      "set_Trailer st = set_layout enc (data_section (fe_C E) master enc d) (manifest_section (fe_C E) master enc mb) mx"
    and sink: "byte_sink wr content good" and g: "good w"
  shows "\<exists>keys w'. SetSectionKeys E st master = Inr keys
     \<and> DecryptData E (parts_content ps) st keys wr w = (Inr (), w') \<and> content w' = content w @ d
     \<and> ReadManifest E (parts_content ps) st keys =
         bindE (DecodeManifest (fe_lower E) (fe_lines E) (mb, None)) (\<lambda>m.
           let h = set_Header st; mh = m_Header m in
           if mh_SetType mh \<noteq> h_SetType h \<or> mh_ChainID mh \<noteq> h_ChainID h \<or> mh_DiffNumber mh \<noteq> h_DiffNumber h
                \<or> mh_DirectoryName mh \<noteq> h_DirectoryName h
             then Inl (Problem ''Backup manifest does not match its set header.'')
           else Inr (m, hex_encode (sha256 (fe_C E) mb)))"
proof -
  let ?C = "fe_C E" and ?hh = "sha256 (fe_C E) enc"
  let ?kd = "hkdf ?C master ?hh infoData" and ?km = "hkdf ?C master ?hh infoManifest"
  have kl: "length ?kd = KeyLen" "length ?km = KeyLen" by (simp_all add: crypto_okD(5) [OF C] KeyLen_def)
  have keys: "SetSectionKeys E st master = Inr \<lparr>key_Data = ?kd, key_Manifest = ?km\<rparr>"
    using m st(1) by (simp add: SetSectionKeys_def DeriveSectionKeys_def DeriveSubkey_def)
  obtain w' where d: "DecryptStream wr ?C (data_section ?C master enc d, None) ?kd (sectionAAD ?hh sectionData) w = (Inr (), w')"
    "content w' = content w @ d"
    using DecryptStream_section [OF C kl(1) sink g, of "sectionAAD ?hh sectionData" d] by (auto simp: data_section_def Let_def)
  obtain v where mm: "DecryptStream buf_write ?C (manifest_section ?C master enc mb, None) ?km (sectionAAD ?hh sectionManifest) [] = (Inr (), v)"
    "v = mb"
    using DecryptStream_section [OF C kl(2) buffer.byte_sink_axioms TrueI, of "sectionAAD ?hh sectionManifest" mb "[]"]
    by (auto simp: manifest_section_def Let_def)
  show ?thesis
    by (intro exI [of _ "\<lparr>key_Data = ?kd, key_Manifest = ?km\<rparr>"] exI [of _ w'] conjI, rule keys)
       (simp_all add: DecryptData_def ReadManifest_def st sections_written [OF fs] d mm)
qed

text \<open>The check \<open>ReadManifest\<close> makes between the manifest and the header of its set.\<close>

definition manifest_matches :: "manifest \<Rightarrow> header \<Rightarrow> bool" where
  "manifest_matches m h \<longleftrightarrow> mh_SetType (m_Header m) = h_SetType h \<and> mh_ChainID (m_Header m) = h_ChainID h
     \<and> mh_DiffNumber (m_Header m) = h_DiffNumber h \<and> mh_DirectoryName (m_Header m) = h_DirectoryName h"

lemma set_reads_back:
  assumes "crypto_ok (fe_C E)" and "header_json_ok E h" and "0 < mx"
    and "WriteSet E (split_write no_faults) h master mx (d, None) (mb, None) (SetSyncOnClose sync (NewWriter mx)) = (Inr res, s)"
    and "WriterClose no_faults s = (e, s')" and "int (length (concat (files s'))) < 2 ^ 63" and "length (files s') < 2 ^ 32"
    and "DecodeManifest (fe_lower E) (fe_lines E) (mb, None) = Inr m" and "manifest_matches m h"
  shows "\<exists>st keys. OpenSet E (parts_content (files s')) (part_sizes (files s')) = Inr st \<and> set_Header st = h
     \<and> SetSectionKeys E st master = Inr keys
     \<and> DecryptData E (parts_content (files s')) st keys buf_write [] = (Inr (), d)
     \<and> ReadManifest E (parts_content (files s')) st keys = Inr (m, wr_ManifestSHA256 res)"
proof -
  obtain enc where enc: "EncodeHeader E h = Inr enc" using WriteSet_Inr(1) [OF assms(4)] by blast
  note f = WriteSet_files_sync [OF assms(1,3,4,5) enc]
  let ?st = "\<lparr>set_Header = h, set_HeaderHash = sha256 (fe_C E) enc, set_Trailer = set_layout enc
    (data_section (fe_C E) master enc d) (manifest_section (fe_C E) master enc mb) mx, set_parts = parts_view (files s')\<rparr>"
  have "OpenSet E (parts_content (files s')) (part_sizes (files s')) = Inr ?st"
    by (rule OpenSet_written [OF assms(1) enc assms(2) f(1,2) assms(6,7)])
  moreover obtain keys w' where "SetSectionKeys E ?st master = Inr keys"
    "DecryptData E (parts_content (files s')) ?st keys buf_write [] = (Inr (), w')" "w' = d"
    "ReadManifest E (parts_content (files s')) ?st keys = Inr (m, wr_ManifestSHA256 res)"
    using DecryptData_written [OF assms(1) f(1) WriteSet_Inr(2) [OF assms(4)], of ?st buf_write "\<lambda>w. w" "\<lambda>_. True" "[]"]
      assms(8,9) buffer.byte_sink_axioms f(3) by (auto simp: manifest_matches_def Let_def)
  ultimately show ?thesis by (intro exI [of _ ?st] exI [of _ keys]) simp
qed

text \<open>The backup file format round trip: whatever \<open>WriteSet\<close> wrote through the split writer is opened
  again from its part files with the same header, and with the keys derived from the same master key the
  data section decrypts to exactly the data and the manifest section gives the manifest, together with the
  checksum \<open>WriteSet\<close> reported. This holds for every part size, payload and key set.\<close>

lemma written_set_reads_back:
  assumes "crypto_ok (fe_C E)" and "header_json_ok E h" and "0 < mx"
    and "WriteSet E (split_write no_faults) h master mx (d, None) (mb, None) (NewWriter mx) = (Inr res, s)"
    and "WriterClose no_faults s = (e, s')" and "int (length (concat (files s'))) < 2 ^ 63" and "length (files s') < 2 ^ 32"
    and "DecodeManifest (fe_lower E) (fe_lines E) (mb, None) = Inr m" and "manifest_matches m h"
  shows "\<exists>st keys. OpenSet E (parts_content (files s')) (part_sizes (files s')) = Inr st \<and> set_Header st = h
     \<and> SetSectionKeys E st master = Inr keys
     \<and> DecryptData E (parts_content (files s')) st keys buf_write [] = (Inr (), d)
     \<and> ReadManifest E (parts_content (files s')) st keys = Inr (m, wr_ManifestSHA256 res)"
  using set_reads_back [OF assms(1-3), where sync = True] assms(4-) by (simp add: sync_NewWriter)

text \<open>A format environment and a header for the witnesses.\<close>

definition demo_header :: header where
  "demo_header = \<lparr>h_SetType = SetTypeFull, h_ChainID = ''ABC123'', h_DiffNumber = 0, h_RunID = ''DEF456'',
     h_SetNonce = replicate 32 7, h_DirectoryName = ''Docs'', h_Date = ''2025-01-02'', h_CreatedUTC = ''t'',
     h_AppVersion = ''2.0.0'', h_BaseDate = [], h_BaseManifestSHA256 = [], h_ChunkSize = of_nat ChunkSize,
     h_Compression = CompressionNone, h_KeySet = demo_keyset\<lparr>ks_Slots := [demo_slot]\<rparr>\<rparr>"

definition demo_format :: format_env where
  "demo_format = \<lparr>fe_C = demo_crypto, fe_time = (\<lambda>_. Some 0), fe_lower = id, fe_marshal = (\<lambda>_. Inr [1]),
     fe_unmarshal = (\<lambda>_. Some (demo_header, False)), fe_lines = demo_json\<rparr>"

lemma demo_header_valid: "ValidateHeader C (\<lambda>_. Some 0) demo_header = Inr ()"
proof -
  have "idPattern ''ABC123''" "idPattern ''DEF456''" "datePattern ''2025-01-02''" "ValidateBackupEntryName ''Docs'' = Inr ()"
    by code_simp+
  then show ?thesis
    by (simp add: ValidateHeader_def demo_header_def setNonceLen_def demo_keyset_valid)
qed

lemma demo_format_ok: "crypto_ok (fe_C demo_format)" "header_json_ok demo_format demo_header"
  by (simp_all add: demo_format_def demo_crypto_ok header_json_ok_def)

lemma demo_encoded:
  "EncodeHeader demo_format demo_header = Inr (magicPrefix @ [FormatVersion, 0] @ be_bytes 4 1 @ [1])"
  by (simp add: EncodeHeader_def demo_format_def demo_header_valid maxHeaderJSON_def)

definition demo_manifest_bytes :: bytes where
  "demo_manifest_bytes = unlines (manifest_lines demo_json (builder_manifest demo_builder))"

lemma demo_manifest_reads: "DecodeManifest (fe_lower demo_format) (fe_lines demo_format) (demo_manifest_bytes, None) = Inr (builder_manifest demo_builder)"
  using manifest_codec.dec_enc [of demo_json "builder_manifest demo_builder" id] demo_json_ok demo_valid
  by (simp add: demo_format_def demo_manifest_bytes_def)

lemma demo_matches: "manifest_matches (builder_manifest demo_builder) demo_header"
  by (simp add: manifest_matches_def builder_manifest_def demo_builder_def Add_def NewBuilder_def demo_header_def)

lemma demo_manifest_length: "length demo_manifest_bytes = 14"
proof -
  have "length footer_prefix = 7" by code_simp
  then show ?thesis
    by (simp add: demo_manifest_bytes_def unlines_def manifest_lines_def builder_manifest_def demo_entries demo_json_def demo_dir_def
        demo_file_def skipped_entry_def manifest_type_def)
qed

text \<open>Writing the example set in parts of 100 bytes gives two part files.\<close>

lemma demo_written:
  "\<exists>res s s'. WriteSet demo_format (split_write no_faults) demo_header (replicate 32 6) 100 ([1, 2, 3], None) (demo_manifest_bytes, None)
       (NewWriter 100) = (Inr res, s)
     \<and> WriterClose no_faults s = (None, s') \<and> length (concat (files s')) = 136 \<and> length (files s') = 2"
proof -
  have m: "length (replicate 32 (6 :: byte)) = KeyLen" by (simp add: KeyLen_def)
  have g: "split_inv (NewWriter 100) \<and> maxBytes (NewWriter 100) = 100"
    using split_inv_NewWriter [of 100] by (simp add: NewWriter_def)
  obtain res s where w: "WriteSet demo_format (split_write no_faults) demo_header (replicate 32 6) 100 ([1, 2, 3], None) (demo_manifest_bytes, None)
       (NewWriter 100) = (Inr res, s)"
    using byte_sink.WriteSet_sink [OF split_sink demo_format_ok(1) g demo_encoded m] by blast
  obtain e s' where cl: "WriterClose no_faults s = (e, s')" by fastforce
  note f = WriteSet_files [OF demo_format_ok(1) _ w cl demo_encoded]
  have l: "length (data_section (fe_C demo_format) k enc [1, 2, 3]) = 24" "length (manifest_section (fe_C demo_format) k enc demo_manifest_bytes) = 35" for k enc
    by (simp_all add: data_section_def manifest_section_def Let_def length_enc_bytes [OF demo_format_ok(1)] demo_manifest_length ChunkSize_def)
  have len: "length (concat (files s')) = 136"
    using f(1) l by (simp add: set_bytes_def Let_def length_EncodeTrailer [OF demo_format_ok(1)] TrailerLen_def del: length_concat)
  have "int (length (files s')) = 2" using f(2) l by (simp add: set_layout_def part_count_def TrailerLen_def)
  then have "length (files s') = 2" by simp
  with w cl len WriterClose_files [OF cl] show ?thesis by blast
qed

lemma written_set_reads_back_witness:
  "\<exists>ps st keys. length ps = 2 \<and> OpenSet demo_format (parts_content ps) (part_sizes ps) = Inr st \<and> set_Header st = demo_header
     \<and> SetSectionKeys demo_format st (replicate 32 6) = Inr keys
     \<and> DecryptData demo_format (parts_content ps) st keys buf_write [] = (Inr (), [1, 2, 3])"
proof -
  obtain res s s' where w: "WriteSet demo_format (split_write no_faults) demo_header (replicate 32 6) 100 ([1, 2, 3], None) (demo_manifest_bytes, None)
       (NewWriter 100) = (Inr res, s)" "WriterClose no_faults s = (None, s')" "length (concat (files s')) = 136" "length (files s') = 2"
    using demo_written by blast
  show ?thesis
    using written_set_reads_back [OF demo_format_ok _ w(1,2) _ _ demo_manifest_reads demo_matches] w(3,4)
    by (intro exI [of _ "files s'"]) auto
qed

lemma demo_opens:
  "\<exists>ps st. length ps = 2 \<and> int (length (concat ps)) < 2 ^ 63 \<and> OpenSet demo_format (parts_content ps) (part_sizes ps) = Inr st
     \<and> set_Header st = demo_header"
proof -
  obtain res s s' where w: "WriteSet demo_format (split_write no_faults) demo_header (replicate 32 6) 100 ([1, 2, 3], None) (demo_manifest_bytes, None)
       (NewWriter 100) = (Inr res, s)" "WriterClose no_faults s = (None, s')" "length (concat (files s')) = 136" "length (files s') = 2"
    using demo_written by blast
  have "OpenSet demo_format (parts_content (files s')) (part_sizes (files s')) = Inr \<lparr>set_Header = demo_header,
     set_HeaderHash = sha256 (fe_C demo_format) (magicPrefix @ [FormatVersion, 0] @ be_bytes 4 1 @ [1]),
     set_Trailer = set_layout (magicPrefix @ [FormatVersion, 0] @ be_bytes 4 1 @ [1])
       (data_section (fe_C demo_format) (replicate 32 6) (magicPrefix @ [FormatVersion, 0] @ be_bytes 4 1 @ [1]) [1, 2, 3])
       (manifest_section (fe_C demo_format) (replicate 32 6) (magicPrefix @ [FormatVersion, 0] @ be_bytes 4 1 @ [1]) demo_manifest_bytes) 100,
     set_parts = parts_view (files s')\<rparr>"
    by (rule OpenSet_written [OF demo_format_ok(1) demo_encoded demo_format_ok(2) WriteSet_files(1,2) [OF demo_format_ok(1) _ w(1,2) demo_encoded]])
       (use w(3,4) in simp_all)
  then show ?thesis using w(3,4) by (intro exI [of _ "files s'"] exI) (auto simp: w(3))
qed

section \<open>Missing parts\<close>

lemma OpenSet_Inr:
  assumes "OpenSet E (parts_content ps) (part_sizes ps) = Inr st"
  shows "\<exists>enc. readStructure E (PartsReadAt (parts_content ps) (parts_view ps)) (int (length (concat ps))) (int (length ps))
     = Inr (set_Header st, enc, set_Trailer st)"
  using assms by (auto simp: OpenSet_def newPartsReader_parts parts_view_def e_iff split: if_splits prod.splits)

context reader_at
begin

lemma readStructure_trailer:
  assumes "readStructure E read_at (int (length stream)) parts = Inr (h, enc, t)"
  shows "DecodeTrailer (fe_C E) (drop (length stream - TrailerLen) stream) = Inr t"
proof -
  obtain raw er where raw: "read_at TrailerLen (int (length stream) - int TrailerLen) = (raw, er)" by fastforce
  with assms have len: "int (length enc) + int TrailerLen \<le> int (length stream)" and d: "DecodeTrailer (fe_C E) raw = Inr t"
    by (auto simp: readStructure_def e_iff split: prod.splits option.splits if_splits)
  then have read: "read_at TrailerLen (int (length stream) - int TrailerLen)
      = (take TrailerLen (drop (nat (int (length stream) - int TrailerLen)) stream), None)"
    by (intro read_inside) simp_all
  have n: "nat (int (length stream) - int TrailerLen) = length stream - TrailerLen" by simp
  have "take TrailerLen (drop (length stream - TrailerLen) stream) = drop (length stream - TrailerLen) stream" by simp
  then have "raw = drop (length stream - TrailerLen) stream" using read [unfolded n] raw by simp
  then show ?thesis using d by simp
qed

end

lemma OpenSet_same_end:
  assumes "OpenSet E (parts_content ps) (part_sizes ps) = Inr st" and "OpenSet E (parts_content qs) (part_sizes qs) = Inr st'"
    and "drop (length (concat ps) - TrailerLen) (concat ps) = drop (length (concat qs) - TrailerLen) (concat qs)"
    and "int (length (concat ps)) < 2 ^ 63" and "int (length (concat qs)) < 2 ^ 63"
  shows "length (concat qs) = length (concat ps)" and "length qs = length ps"
proof -
  obtain enc enc' where
    r: "readStructure E (PartsReadAt (parts_content ps) (parts_view ps)) (int (length (concat ps))) (int (length ps)) = Inr (set_Header st, enc, set_Trailer st)"
    and r': "readStructure E (PartsReadAt (parts_content qs) (parts_view qs)) (int (length (concat qs))) (int (length qs)) = Inr (set_Header st', enc', set_Trailer st')"
    using OpenSet_Inr [OF assms(1)] OpenSet_Inr [OF assms(2)] by blast
  have "set_Trailer st = set_Trailer st'"
    using parts.readStructure_trailer [OF r] parts.readStructure_trailer [OF r'] assms(3) by simp
  moreover note readStructure_facts(5,6) [OF r assms(4)] readStructure_facts(5,6) [OF r' assms(5)]
  ultimately show "length (concat qs) = length (concat ps)" "length qs = length ps" by simp_all
qed

text \<open>C21. A set with missing or added parts never opens: once the parts of a complete set open, no other list of
  part files that still ends in the same trailer opens, unless it has as many files and as many bytes.
  Losing any part in front of the last one, or bytes of one, is therefore always reported.\<close>

theorem incomplete_set_refused:
  assumes "OpenSet E (parts_content ps) (part_sizes ps) = Inr st"
    and "drop (length (concat ps) - TrailerLen) (concat ps) = drop (length (concat qs) - TrailerLen) (concat qs)"
    and "int (length (concat ps)) < 2 ^ 63" and "int (length (concat qs)) < 2 ^ 63"
    and "length (concat qs) \<noteq> length (concat ps) \<or> length qs \<noteq> length ps"
  shows "\<exists>e. OpenSet E (parts_content qs) (part_sizes qs) = Inl e"
  using OpenSet_same_end [OF assms(1) _ assms(2,3,4)] assms(5)
  by (cases "OpenSet E (parts_content qs) (part_sizes qs)") auto

theorem incomplete_set_refused_witness:
  "\<exists>ps st e. OpenSet demo_format (parts_content ps) (part_sizes ps) = Inr st
     \<and> OpenSet demo_format (parts_content (ps @ [[]])) (part_sizes (ps @ [[]])) = Inl e"
proof -
  obtain ps st where p: "int (length (concat ps)) < 2 ^ 63" "OpenSet demo_format (parts_content ps) (part_sizes ps) = Inr st"
    using demo_opens by blast
  from incomplete_set_refused [OF p(2), of "ps @ [[]]"] p show ?thesis by fastforce
qed

theorem readStructure_tiles_witness:
  "\<exists>ps h enc t. DataOffset t = int (length enc)
     \<and> ManifestOffset t + ManifestLength t + int TrailerLen = int (length (concat ps)) \<and> PartCount t = int (length ps)
     \<and> readStructure demo_format (PartsReadAt (parts_content ps) (parts_view ps)) (int (length (concat ps))) (int (length ps)) = Inr (h, enc, t)"
proof -
  obtain ps st where p: "int (length (concat ps)) < 2 ^ 63" "OpenSet demo_format (parts_content ps) (part_sizes ps) = Inr st"
    using demo_opens by blast
  obtain enc where r: "readStructure demo_format (PartsReadAt (parts_content ps) (parts_view ps)) (int (length (concat ps))) (int (length ps))
      = Inr (set_Header st, enc, set_Trailer st)" using OpenSet_Inr [OF p(2)] by blast
  from readStructure_tiles [OF r p(1)] r show ?thesis by blast
qed

end
