(* ===== verification/Catalog.thy ===== *)
theory Catalog
  imports Container Naming Config Ordering "HOL-Library.List_Lexorder"
begin

text \<open>
  Package \<open>format/catalog\<close>: the inventory of a backup directory (\<open>inventory.go\<close>) and its restore
  points (\<open>selection.go\<close>). The directory is a record of what the operating system answers: the listing
  with a flag for directories, and size, modification time and content of a file by name. A path in the
  backup directory is given by its base name.
\<close>

section \<open>The backup directory\<close>

record backup_dir =
  dir_list :: "(string \<times> bool) list result"
  dir_size :: "string \<Rightarrow> int result"
  dir_mtime :: "string \<Rightarrow> int result"
  dir_data :: "string \<Rightarrow> bytes result"

definition parsed_parts :: "(string \<times> bool) list \<Rightarrow> (backup_entry \<times> nat \<times> string) list" where
  "parsed_parts des = List.map_filter (\<lambda>(name, _). map_option (\<lambda>(e, seq). (e, seq, name)) (ParsePartFileName name)) des"

text \<open>The map of \<open>listParts\<close> as an association list, one pair per set.\<close>

definition parts_of :: "(backup_entry \<times> nat \<times> string) list \<Rightarrow> backup_entry \<Rightarrow> string list" where
  "parts_of ps e = map snd (sort_by (\<lambda>a b. fst a < fst b) (map snd (filter (\<lambda>p. fst p = e) ps)))"

definition listParts :: "backup_dir \<Rightarrow> (backup_entry \<times> string list) list result" where
  "listParts d = bindE (dir_list d) (\<lambda>des.
     let ps = parsed_parts des in Inr (map (\<lambda>e. (e, parts_of ps e)) (remdups (map fst ps))))"

definition CollectParts :: "backup_dir \<Rightarrow> backup_entry \<Rightarrow> string list result" where
  "CollectParts d e = (case listParts d of
     Inl err \<Rightarrow> Inl (Wrapped ''Failed to read backup directory %q: %w'' err)
   | Inr parts \<Rightarrow> Inr (case map_of parts e of None \<Rightarrow> [] | Some ps \<Rightarrow> ps))"

section \<open>Opening a set\<close>

fun continuity_loop :: "nat \<Rightarrow> nat list \<Rightarrow> string list \<Rightarrow> nat list" where
  "continuity_loop nxt missing [] = missing"
| "continuity_loop nxt missing (p # ps) =
     (let seq = (case ParsePartFileName p of None \<Rightarrow> 0 | Some (_, seq) \<Rightarrow> seq)
      in continuity_loop (seq + 1) (missing @ [nxt..<seq]) ps)"

definition missingPartsErr :: "nat list \<Rightarrow> err" where
  "missingPartsErr parts = Wrapped ''%w.'' (MissingParts parts)"

definition checkContinuity :: "string list \<Rightarrow> unit result" where
  "checkContinuity parts =
     (if parts = [] then Inl (Problem ''No part files found.'')
      else let missing = continuity_loop 1 [] parts in
        if missing \<noteq> [] then Inl (missingPartsErr missing) else Inr ())"

definition checkNameMatchesHeader :: "backup_entry \<Rightarrow> header \<Rightarrow> unit result" where
  "checkNameMatchesHeader e h =
     checkE (h_DirectoryName h = DirectoryName e \<and> h_ChainID h = ChainID e \<and> h_Date h = Date e
         \<and> h_DiffNumber h = int (DiffNumber e) \<and> HeaderIsDiff h = IsDiff e)
       (Wrapped ''%w.'' NameMismatch)"

definition part_file :: "backup_dir \<Rightarrow> string list \<Rightarrow> nat \<Rightarrow> bytes result" where
  "part_file d parts i = (if i < length parts then dir_data d (parts ! i) else Inl (IOError ''no such file''))"

definition openParts :: "format_env \<Rightarrow> backup_dir \<Rightarrow> backup_entry \<Rightarrow> string list \<Rightarrow> backup_set result" where
  "openParts E d e parts =
     bindE (checkContinuity parts) (\<lambda>_.
     bindE (OpenSet E (part_file d parts) (map (dir_size d) parts)) (\<lambda>st.
     bindE (checkNameMatchesHeader e (set_Header st)) (\<lambda>_. Inr st)))"

definition OpenBackupSet :: "format_env \<Rightarrow> backup_dir \<Rightarrow> backup_entry \<Rightarrow> backup_set result" where
  "OpenBackupSet E d e = bindE (CollectParts d e) (openParts E d e)"

section \<open>The inventory\<close>

record set_info =
  Entry :: backup_entry
  Parts :: "string list"
  SizeBytes :: int
  Header :: "header option"
  Trailer :: trailer
  Err :: "err option"

definition Complete :: "set_info \<Rightarrow> bool" where
  "Complete s \<longleftrightarrow> Err s = None \<and> Header s \<noteq> None"

text \<open>Times are numbers, Go's zero time is 0.\<close>

definition Created :: "format_env \<Rightarrow> set_info \<Rightarrow> int" where
  "Created E s = (case Header s of None \<Rightarrow> 0 | Some h \<Rightarrow> HeaderCreated (fe_time E) h)"

definition no_trailer :: trailer where
  "no_trailer = \<lparr>DataOffset = 0, DataLength = 0, ManifestOffset = 0, ManifestLength = 0, PartCount = 0\<rparr>"

definition inspectParts :: "format_env \<Rightarrow> backup_dir \<Rightarrow> backup_entry \<Rightarrow> string list \<Rightarrow> set_info" where
  "inspectParts E d e parts =
     (let info = \<lparr>Entry = e, Parts = parts,
            SizeBytes = sum_list (map (\<lambda>p. case dir_size d p of Inl _ \<Rightarrow> 0 | Inr n \<Rightarrow> n) parts),
            Header = None, Trailer = no_trailer, Err = None\<rparr>
      in case openParts E d e parts of
        Inl err \<Rightarrow> info\<lparr>Err := Some err\<rparr>
      | Inr st \<Rightarrow> info\<lparr>Header := Some (set_Header st), Trailer := set_Trailer st\<rparr>)"

definition newer_first :: "format_env \<Rightarrow> set_info \<Rightarrow> set_info \<Rightarrow> bool" where
  "newer_first E a b =
     (if Created E a \<noteq> Created E b then Created E a > Created E b
      else if Date (Entry a) \<noteq> Date (Entry b) then Date (Entry a) > Date (Entry b)
      else EntryString (Entry a) < EntryString (Entry b))"

definition sortNewestFirst :: "format_env \<Rightarrow> set_info list \<Rightarrow> set_info list" where
  "sortNewestFirst E infos = sort_by (newer_first E) infos"

text \<open>\<open>sh\<close> is the order in which the map of \<open>listParts\<close> is visited.\<close>

definition Inventory ::
  "format_env \<Rightarrow> ((backup_entry \<times> string list) list \<Rightarrow> (backup_entry \<times> string list) list) \<Rightarrow> backup_dir \<Rightarrow> set_info list result" where
  "Inventory E sh d = bindE (listParts d) (\<lambda>parts.
     Inr (sortNewestFirst E (map (\<lambda>(e, ps). inspectParts E d e ps) (sh parts))))"

section \<open>Questions about the inventory\<close>

definition BaseOf :: "set_info list \<Rightarrow> backup_entry \<Rightarrow> set_info result" where
  "BaseOf infos diff =
     (case find (\<lambda>i. \<not> IsDiff (Entry i) \<and> DirectoryName (Entry i) = DirectoryName diff \<and> ChainID (Entry i) = ChainID diff) infos of
        None \<Rightarrow> Inl (Problem ''%s cannot be restored: the full backup [%s]_%s_*_FULL-*.enc of chain %s is missing.'')
      | Some i \<Rightarrow> if Complete i then Inr i else Inl (Internal ''The full backup %s of %s is incomplete: %v''))"

definition KeySetMismatch :: "config \<Rightarrow> keyset \<Rightarrow> string" where
  "KeySetMismatch cfg ks =
     (if ks_AuthMode ks \<noteq> AuthenticationMode cfg then ''authentication_mode changed in config.yaml''
      else if UseYubiKey cfg then []
      else if RecoveryCode cfg \<and> \<not> HasSlotType ks SlotRecovery then ''recovery_code enabled in config.yaml''
      else if \<not> RecoveryCode cfg \<and> HasSlotType ks SlotRecovery then ''recovery_code disabled in config.yaml''
      else [])"

definition CurrentKeySet :: "set_info list \<Rightarrow> keyset option" where
  "CurrentKeySet infos = (case find Complete infos of None \<Rightarrow> None | Some i \<Rightarrow> map_option h_KeySet (Header i))"

text \<open>\<open>errors.As\<close> walks the chain of causes.\<close>

fun err_chain :: "err \<Rightarrow> err list" where
  "err_chain (Wrapped m e) = Wrapped m e # err_chain e"
| "err_chain (YubiKeyError e) = YubiKeyError e # err_chain e"
| "err_chain e = [e]"

datatype fault = FaultNone | FaultIncomplete | FaultMissingParts | FaultRenamed | FaultUnreadable | FaultDamaged

definition IsIncomplete :: "err \<Rightarrow> bool" where
  "IsIncomplete e = list_ex (\<lambda>x. case x of Incomplete _ \<Rightarrow> True | _ \<Rightarrow> False) (err_chain e)"

fun missing_in :: "err list \<Rightarrow> nat list option" where
  "missing_in [] = None"
| "missing_in (MissingParts ps # es) = Some ps"
| "missing_in (e # es) = missing_in es"

definition MissingPartsOf :: "err option \<Rightarrow> nat list" where
  "MissingPartsOf e = (case e of None \<Rightarrow> [] | Some e \<Rightarrow> (case missing_in (err_chain e) of None \<Rightarrow> [] | Some ps \<Rightarrow> ps))"

definition FaultOf :: "err option \<Rightarrow> fault" where
  "FaultOf err = (case err of None \<Rightarrow> FaultNone | Some e \<Rightarrow>
     if IsIncomplete e then FaultIncomplete
     else if missing_in (err_chain e) \<noteq> None then FaultMissingParts
     else if NameMismatch \<in> set (err_chain e) then FaultRenamed
     else if list_ex (\<lambda>x. case x of IOError _ \<Rightarrow> True | _ \<Rightarrow> False) (err_chain e) then FaultUnreadable
     else FaultDamaged)"

definition ListTempParts :: "backup_dir \<Rightarrow> string list result" where
  "ListTempParts d = bindE (dir_list d) (\<lambda>des.
     Inr (map fst (filter (\<lambda>(n, isdir). \<not> isdir \<and> ParseTempPartFileName n \<noteq> None) des)))"

definition ListLegacyFiles :: "backup_dir \<Rightarrow> string list result" where
  "ListLegacyFiles d = bindE (dir_list d) (\<lambda>des.
     Inr (map fst (filter (\<lambda>(n, isdir). \<not> isdir \<and> IsLegacyBackupFileName n) des)))"

section \<open>Restore points\<close>

record run_summary =
  rs_RunID :: string
  rs_Date :: string
  rs_Entries :: "backup_entry list"
  rs_Created :: int

definition run_id :: "set_info \<Rightarrow> string" where
  "run_id i = (case Header i of None \<Rightarrow> [] | Some h \<Rightarrow> h_RunID h)"

definition run_of :: "format_env \<Rightarrow> set_info list \<Rightarrow> string \<Rightarrow> run_summary" where
  "run_of E infos rid =
     (let is = filter (\<lambda>i. Complete i \<and> run_id i = rid) infos in
      \<lparr>rs_RunID = rid, rs_Date = Date (Entry (hd is)),
       rs_Entries = sort_by (\<lambda>a b. DirectoryName a < DirectoryName b) (map Entry is),
       rs_Created = foldl (\<lambda>c i. if Created E i > c then Created E i else c) 0 is\<rparr>)"

definition newer_run :: "run_summary \<Rightarrow> run_summary \<Rightarrow> bool" where
  "newer_run a b = (if rs_Created a \<noteq> rs_Created b then rs_Created a > rs_Created b else rs_RunID a > rs_RunID b)"

definition BackupRunSummaries ::
  "format_env \<Rightarrow> (run_summary list \<Rightarrow> run_summary list) \<Rightarrow> set_info list \<Rightarrow> run_summary list" where
  "BackupRunSummaries E sh infos =
     sort_by newer_run (sh (map (run_of E infos) (remdups (map run_id (filter Complete infos)))))"

section \<open>The inventory does not depend on the order of the map\<close>

lemma parsed_parts_iff:
  "(e, seq, name) \<in> set (parsed_parts des) \<longleftrightarrow> name \<in> fst ` set des \<and> ParsePartFileName name = Some (e, seq)"
  by (force simp: parsed_parts_def List.map_filter_def image_iff)

lemma listParts_Inr:
  "listParts d = Inr parts \<Longrightarrow> \<exists>des. dir_list d = Inr des \<and> distinct (map fst parts)
     \<and> (\<forall>(e, ps) \<in> set parts. ps = parts_of (parsed_parts des) e \<and> (\<exists>seq name. (e, seq, name) \<in> set (parsed_parts des)))"
  by (force simp: listParts_def e_iff Let_def comp_def)

definition valid_entry :: "backup_entry \<Rightarrow> bool" where
  "valid_entry e \<longleftrightarrow> (\<exists>seq. valid_part (e, seq, False))"

lemma listParts_valid: "listParts d = Inr parts \<Longrightarrow> (e, ps) \<in> set parts \<Longrightarrow> valid_entry e"
  using listParts_Inr [of d parts]
  by (fastforce simp: valid_entry_def parsed_parts_iff ParsePartFileName_parse parsePartFileName_iff)

text \<open>The display name identifies an entry.\<close>

lemma last_TypeLabel:
  assumes "valid_entry e"
  shows "IsDiff e \<longleftrightarrow> is_digit (last (TypeLabel e))" and "length (TypeLabel e) = (if IsDiff e then 7 else 4)"
    and "IsDiff e \<Longrightarrow> TypeLabel e = ''DIFF'' @ show_pad3 (DiffNumber e)"
proof -
  have "length (show_pad3 (DiffNumber e)) = 3"
    using assms by (intro length_show_pad3) (auto simp: valid_entry_def valid_part_def MaxDiffNumber_def)
  moreover from this have "is_digit (last (show_pad3 (DiffNumber e)))"
    using show_pad3_digits [of "DiffNumber e"] by (auto simp: list_all_iff intro!: last_in_set)
  moreover have "\<not> is_digit (last ''FULL'')" by (simp add: is_digit_def)
  ultimately show "IsDiff e \<longleftrightarrow> is_digit (last (TypeLabel e))" "length (TypeLabel e) = (if IsDiff e then 7 else 4)"
    "IsDiff e \<Longrightarrow> TypeLabel e = ''DIFF'' @ show_pad3 (DiffNumber e)"
    by (auto simp: TypeLabel_def)
qed

lemma EntryString_inj:
  assumes v: "valid_entry e" "valid_entry e'" and eq: "EntryString e = EntryString e'"
  shows "e = e'"
proof -
  have ne: "TypeLabel e \<noteq> []" "TypeLabel e' \<noteq> []" by (simp_all add: TypeLabel_def)
  have "last (TypeLabel e) = last (TypeLabel e')" using eq ne by (metis EntryString_def append_is_Nil_conv last_appendR)
  then have d: "IsDiff e = IsDiff e'" using last_TypeLabel(1) v by simp
  then have len: "length (TypeLabel e) = length (TypeLabel e')" using last_TypeLabel(2) v by simp
  have ids: "length (ChainID e) = 6" "length (ChainID e') = 6" "length (Date e) = 10" "length (Date e') = 10"
    using v by (auto simp: valid_entry_def valid_part_def idPattern_iff datePattern_length)
  have *: "DirectoryName e = DirectoryName e' \<and> ChainID e = ChainID e' \<and> Date e = Date e' \<and> TypeLabel e = TypeLabel e'"
  proof -
    have "length (''_'' @ ChainID e @ ''_'' @ Date e @ ''_'' @ TypeLabel e) = length (''_'' @ ChainID e' @ ''_'' @ Date e' @ ''_'' @ TypeLabel e')"
      using len ids by simp
    then show ?thesis using eq ids by (simp add: EntryString_def)
  qed
  have "DiffNumber e = DiffNumber e'"
  proof (cases "IsDiff e")
    case True
    then have "show_pad3 (DiffNumber e) = show_pad3 (DiffNumber e')"
      using * d last_TypeLabel(3) v by auto
    then show ?thesis by (metis dec_val_show_pad3)
  next
    case False
    then show ?thesis using d by (simp add: IsDiff_def)
  qed
  with * show ?thesis by simp
qed

lemma newer_first_then_by:
  "newer_first E = then_by (Created E) True (then_by (\<lambda>i. Date (Entry i)) True (then_by (\<lambda>i. EntryString (Entry i)) False (\<lambda>_ _. False)))"
  by (auto simp: fun_eq_iff newer_first_def then_by_def)

interpretation inv_order: less_order "newer_first E" for E
  unfolding newer_first_then_by by (intro then_by_order no_order)

lemma newer_first_total:
  "valid_entry (Entry a) \<Longrightarrow> valid_entry (Entry b) \<Longrightarrow> Entry a \<noteq> Entry b \<Longrightarrow> newer_first E a b \<or> newer_first E b a"
  using EntryString_inj [of "Entry a" "Entry b"] linorder_less_linear [of "EntryString (Entry a)" "EntryString (Entry b)"]
  by (auto simp: newer_first_def)

lemma Entry_inspectParts [simp]: "Entry (inspectParts E d e ps) = e" "Parts (inspectParts E d e ps) = ps"
  by (simp_all add: inspectParts_def Let_def split: sum.splits)

lemma Inventory_unique:
  assumes "is_shuffle sh" "is_shuffle sh'"
  shows "Inventory E sh d = Inventory E sh' d"
proof (cases "listParts d")
  case (Inl e)
  then show ?thesis by (simp add: Inventory_def)
next
  case (Inr parts)
  let ?f = "\<lambda>(e, ps). inspectParts E d e ps"
  have dist: "distinct (map fst parts)" using listParts_Inr [OF Inr] by blast
  have "sort_by (newer_first E) (map ?f (sh parts)) = sort_by (newer_first E) (map ?f (sh' parts))"
  proof (rule inv_order.sort_by_unique)
    show "mset (map ?f (sh parts)) = mset (map ?f (sh' parts))" using assms by simp
    fix a b assume "a \<in> set (map ?f (sh parts))" "b \<in> set (map ?f (sh parts))" "a \<noteq> b"
    then obtain e ps e' ps' where m: "(e, ps) \<in> set parts" "(e', ps') \<in> set parts" "a = inspectParts E d e ps" "b = inspectParts E d e' ps'"
      using assms by auto
    then have "e \<noteq> e'" using \<open>a \<noteq> b\<close> dist by (metis eq_key_imp_eq_value)
    then show "newer_first E a b \<or> newer_first E b a"
      using m listParts_valid [OF Inr] by (intro newer_first_total) auto
  qed
  with Inr show ?thesis by (simp add: Inventory_def sortNewestFirst_def)
qed

lemma Inventory_Inr:
  assumes "Inventory E sh d = Inr infos" "is_shuffle sh"
  shows "\<exists>parts. listParts d = Inr parts \<and> mset infos = mset (map (\<lambda>(e, ps). inspectParts E d e ps) parts)"
    and "ordered_by (newer_first E) infos" and "distinct (map Entry infos)"
proof -
  from assms(1) obtain parts where p: "listParts d = Inr parts"
    "infos = sortNewestFirst E (map (\<lambda>(e, ps). inspectParts E d e ps) (sh parts))"
    by (auto simp: Inventory_def e_iff)
  then show m: "\<exists>parts. listParts d = Inr parts \<and> mset infos = mset (map (\<lambda>(e, ps). inspectParts E d e ps) parts)"
    using assms(2) by (auto simp: sortNewestFirst_def)
  show "ordered_by (newer_first E) infos" using p(2) inv_order.sort_by_ordered by (simp add: sortNewestFirst_def)
  have "map Entry (map (\<lambda>(e, ps). inspectParts E d e ps) parts) = map fst parts" by (auto simp: comp_def)
  moreover have "mset infos = mset (map (\<lambda>(e, ps). inspectParts E d e ps) parts)"
    using p(2) assms(2) by (simp add: sortNewestFirst_def)
  ultimately have "mset (map Entry infos) = mset (map fst parts)" by (metis mset_map)
  then show "distinct (map Entry infos)" using listParts_Inr [OF p(1)] by (metis mset_eq_imp_distinct_iff)
qed

section \<open>What a complete set is\<close>

definition part_seqs :: "(string \<times> bool) list \<Rightarrow> backup_entry \<Rightarrow> nat list" where
  "part_seqs des e = map fst (sort_by (\<lambda>a b. fst a < fst b) (map snd (filter (\<lambda>p. fst p = e) (parsed_parts des))))"

lemma parts_of_names:
  assumes "distinct (map fst des)"
  shows "parts_of (parsed_parts des) e = map (part_base_name e) (part_seqs des e)" and "sorted_wrt (<) (part_seqs des e)"
    and "\<forall>n \<in> set (part_seqs des e). valid_part (e, n, False)"
proof -
  let ?seqs = "part_seqs des e"
  let ?l = "filter (\<lambda>p. fst p = e) (parsed_parts des)"
  let ?s = "sort_by (\<lambda>a b. fst a < fst b) (map snd ?l) :: (nat \<times> string) list"
  have mem: "valid_part (e, n, False) \<and> name = part_base_name e n" if "(n, name) \<in> set ?s" for n name
    using that by (auto simp: parsed_parts_iff ParsePartFileName_parse parsePartFileName_iff part_name_def)
  then show "parts_of (parsed_parts des) e = map (part_base_name e) ?seqs" "\<forall>n \<in> set ?seqs. valid_part (e, n, False)"
    by (force simp: parts_of_def part_seqs_def simp del: set_sort_by)+
  have names: "map (\<lambda>p. snd (snd p)) (parsed_parts des) = filter (\<lambda>n. ParsePartFileName n \<noteq> None) (map fst des)" for des
    by (induction des) (auto simp: parsed_parts_def List.map_filter_def split: option.splits)
  have "distinct (map (\<lambda>p. snd (snd p)) ?l)"
    using names [of des] assms(1) by (metis distinct_filter distinct_map_filter)
  then have "distinct (map snd (map snd ?l))" by (simp add: comp_def)
  then have d: "distinct (map snd ?s)" by simp
  have "distinct ?seqs"
  proof -
    have "map snd ?s = map (part_base_name e) ?seqs" using mem by (force simp: part_seqs_def simp del: set_sort_by)
    then show ?thesis using d by (metis distinct_map)
  qed
  moreover have "sorted ?seqs"
    using asc.sort_by_ordered [of fst "map snd ?l"] by (simp add: part_seqs_def sorted_wrt_map not_less)
  ultimately show "sorted_wrt (<) ?seqs" by (simp add: strict_sorted_iff)
qed

lemma continuity_loop_Nil:
  "(\<forall>p \<in> set ps. ParsePartFileName p \<noteq> None) \<Longrightarrow> map (\<lambda>p. snd (the (ParsePartFileName p))) ps = seqs \<Longrightarrow> sorted_wrt (<) seqs
    \<Longrightarrow> (\<forall>n \<in> set seqs. nxt \<le> n) \<Longrightarrow> continuity_loop nxt missing ps = [] \<Longrightarrow> missing = [] \<and> seqs = [nxt..<nxt + length seqs]"
proof (induction nxt missing ps arbitrary: seqs rule: continuity_loop.induct)
  case (1 nxt missing)
  then show ?case by simp
next
  case (2 nxt missing p ps)
  obtain e n where p: "ParsePartFileName p = Some (e, n)" using "2.prems"(1) by (cases "ParsePartFileName p") auto
  let ?t = "map (\<lambda>p. snd (the (ParsePartFileName p))) ps"
  have s: "seqs = n # ?t" using "2.prems"(2) p by simp
  have "missing @ [nxt..<n] = [] \<and> ?t = [n + 1..<n + 1 + length ?t]"
  proof (rule "2.IH" [OF refl, unfolded p option.case prod.case])
    show "\<forall>p \<in> set ps. ParsePartFileName p \<noteq> None" using "2.prems"(1) by simp
    show "?t = ?t" by (rule refl)
    show "sorted_wrt (<) ?t" "\<forall>m \<in> set ?t. n + 1 \<le> m" using "2.prems"(3) unfolding s by (auto simp: Suc_le_eq)
    show "continuity_loop (n + 1) (missing @ [nxt..<n]) ps = []" using "2.prems"(5) p by simp
  qed
  then have t: "?t = [n + 1..<n + 1 + length ?t]" and "missing @ [nxt..<n] = []" by blast+
  then have m: "missing = []" "n \<le> nxt" by auto
  moreover note t
  moreover have "n = nxt" using m(2) "2.prems"(4) s by simp
  moreover have "length seqs = Suc (length ?t)" using s by simp
  moreover have "[nxt..<nxt + Suc (length ?t)] = nxt # [nxt + 1..<nxt + 1 + length ?t]" by (subst upt_conv_Cons) simp_all
  ultimately show ?case using s by metis
qed

lemma part_count_matches:
  "OpenSet E content sizes = Inr st \<Longrightarrow> PartCount (set_Trailer st) = int (length sizes)
     \<and> ValidateHeader (fe_C E) (fe_time E) (set_Header st) = Inr ()"
proof -
  assume "OpenSet E content sizes = Inr st"
  then obtain pr h enc t where st: "readStructure E (PartsReadAt content pr) (size_all pr) (int (length sizes)) = Inr (h, enc, t)"
    "set_Trailer st = t" "set_Header st = h"
    by (auto simp: OpenSet_def e_iff split: if_splits)
  let ?rd = "PartsReadAt content pr"
  obtain raw er where "?rd TrailerLen (size_all pr - int TrailerLen) = (raw, er)" by fastforce
  with st(1) have rh: "ReadHeader E (section_source ?rd 0 (size_all pr)) = Inr (h, enc)"
    and chk: "trailer_check t (int (length enc)) (size_all pr) (int (length sizes)) = Inr ()"
    by (auto simp: readStructure_def e_iff split: prod.splits option.splits if_splits)
  obtain bs e where "section_source ?rd 0 (size_all pr) = (bs, e)" by fastforce
  with rh ReadHeader_sound(1) have "ValidateHeader (fe_C E) (fe_time E) h = Inr ()" by metis
  with chk st show ?thesis by (auto simp: trailer_check_def split: if_splits)
qed

lemma complete_info:
  assumes d: "dir_list d = Inr des" "distinct (map fst des)" and i: "Inventory E sh d = Inr infos" "is_shuffle sh"
    and s: "s \<in> set infos" "Complete s"
  shows "\<exists>h. Header s = Some h \<and> Parts s = map (part_base_name (Entry s)) [1..<Suc (length (Parts s))]
     \<and> PartCount (Trailer s) = int (length (Parts s)) \<and> checkNameMatchesHeader (Entry s) h = Inr ()
     \<and> ValidateHeader (fe_C E) (fe_time E) h = Inr ()"
proof -
  obtain parts where p: "listParts d = Inr parts" "mset infos = mset (map (\<lambda>(e, ps). inspectParts E d e ps) parts)"
    using Inventory_Inr(1) [OF i] by blast
  then have "s \<in> set (map (\<lambda>(e, ps). inspectParts E d e ps) parts)" using s(1) by (metis mset_eq_setD)
  then obtain e ps where e: "(e, ps) \<in> set parts" "s = inspectParts E d e ps" by auto
  then have ps: "ps = parts_of (parsed_parts des) e" using listParts_Inr [OF p(1)] d(1) by auto
  obtain st where st: "openParts E d e ps = Inr st" "Header s = Some (set_Header st)" "Trailer s = set_Trailer st"
    using e(2) s(2) by (auto simp: inspectParts_def Complete_def Let_def split: sum.splits)
  then have c: "checkContinuity ps = Inr ()" "OpenSet E (part_file d ps) (map (dir_size d) ps) = Inr st"
    "checkNameMatchesHeader e (set_Header st) = Inr ()"
    by (auto simp: openParts_def e_iff)
  define seqs where "seqs = part_seqs des e"
  note q = parts_of_names [OF d(2), of e, folded seqs_def]
  have parse: "ParsePartFileName (part_base_name e n) = Some (e, n)" if "n \<in> set seqs" for n
    using q(3) that by (simp add: ParsePartFileName_parse parsePartFileName_iff part_name_def)
  have "([] :: nat list) = [] \<and> seqs = [1..<1 + length seqs]"
  proof (rule continuity_loop_Nil)
    show "\<forall>p \<in> set ps. ParsePartFileName p \<noteq> None" "map (\<lambda>p. snd (the (ParsePartFileName p))) ps = seqs"
      using parse by (auto simp: ps q(1) comp_def intro: map_idI)
    show "sorted_wrt (<) seqs" by (rule q(2))
    show "\<forall>n \<in> set seqs. 1 \<le> n" using q(3) by (auto simp: valid_part_def)
    show "continuity_loop 1 [] ps = []" using c(1) by (auto simp: checkContinuity_def Let_def split: if_splits)
  qed
  then have "ps = map (part_base_name e) [1..<Suc (length ps)]" using q(1) ps by simp
  with st c(3) part_count_matches [OF c(2)] e(2) show ?thesis by simp
qed

text \<open>C28. A set the inventory calls complete is whole and is what its name says: its part files are exactly
  the parts 1, 2, ..., n of its entry in this order, n is the number of parts the writer recorded, and the
  header is valid and agrees with the file names (directory, chain, date, kind and differential number).\<close>

theorem complete_set_is_whole:
  assumes "dir_list d = Inr des" and "distinct (map fst des)" and "Inventory E sh d = Inr infos" and "is_shuffle sh"
    and "s \<in> set infos" and "Complete s"
  shows "\<exists>h. Header s = Some h \<and> Parts s = map (part_base_name (Entry s)) [1..<Suc (length (Parts s))]
     \<and> PartCount (Trailer s) = int (length (Parts s)) \<and> checkNameMatchesHeader (Entry s) h = Inr ()
     \<and> ValidateHeader (fe_C E) (fe_time E) h = Inr ()"
  by (rule complete_info [OF assms])

text \<open>The inventory is a function of the directory: in whatever order Go visits its maps, the list of sets
  is the same, newest first.\<close>

lemma Inventory_determined:
  assumes "is_shuffle sh" and "is_shuffle sh'"
  shows "Inventory E sh d = Inventory E sh' d
     \<and> (\<forall>infos. Inventory E sh d = Inr infos \<longrightarrow> ordered_by (newer_first E) infos \<and> distinct (map Entry infos))"
  using Inventory_unique [OF assms] Inventory_Inr(2,3) [OF _ assms(1)] by blast

section \<open>Restore points hold every complete set once\<close>

lemma mset_groups:
  "distinct ks \<Longrightarrow> f ` set xs \<subseteq> set ks \<Longrightarrow> mset (concat (map (\<lambda>k. filter (\<lambda>x. f x = k) xs) ks)) = mset xs"
proof (induction ks arbitrary: xs)
  case Nil
  then show ?case by simp
next
  case (Cons k ks)
  let ?r = "filter (\<lambda>x. f x \<noteq> k) xs"
  have "filter (\<lambda>x. f x = k') xs = filter (\<lambda>x. f x = k') ?r" if "k' \<in> set ks" for k'
    using that Cons.prems(1) by (auto intro!: filter_cong)
  then have "map (\<lambda>k'. filter (\<lambda>x. f x = k') xs) ks = map (\<lambda>k'. filter (\<lambda>x. f x = k') ?r) ks" by (intro map_cong refl)
  moreover have "mset (concat (map (\<lambda>k'. filter (\<lambda>x. f x = k') ?r) ks)) = mset ?r"
    using Cons.prems by (intro Cons.IH) auto
  moreover have "mset (filter (\<lambda>x. f x = k) xs) + mset ?r = mset xs"
    by (metis mset_filter multiset_partition)
  ultimately show ?case unfolding list.map concat.simps mset_append by (simp only:)
qed

lemma newer_run_then_by: "newer_run = then_by rs_Created True (then_by rs_RunID True (\<lambda>_ _. False))"
  by (auto simp: fun_eq_iff newer_run_def then_by_def)

interpretation run_order: less_order newer_run
  unfolding newer_run_then_by by (intro then_by_order no_order)

lemma rs_RunID_run_of [simp]: "rs_RunID (run_of E infos r) = r"
  by (simp add: run_of_def Let_def)

lemma mset_run_of: "mset (rs_Entries (run_of E infos r)) = mset (map Entry (filter (\<lambda>i. Complete i \<and> run_id i = r) infos))"
  by (simp add: run_of_def Let_def)

lemma mset_concat: "mset (concat xss) = \<Sum>\<^sub># (mset (map mset xss))"
  by (induction xss) auto

lemma summaries_runs:
  assumes "is_shuffle sh"
  shows "mset (BackupRunSummaries E sh infos) = mset (map (run_of E infos) (remdups (map run_id (filter Complete infos))))"
  using assms by (simp add: BackupRunSummaries_def)

lemma summaries_entries:
  assumes "is_shuffle sh"
  shows "mset (concat (map rs_Entries (BackupRunSummaries E sh infos))) = mset (map Entry (filter Complete infos))"
    and "distinct (map rs_RunID (BackupRunSummaries E sh infos))" and "ordered_by newer_run (BackupRunSummaries E sh infos)"
proof -
  let ?ids = "remdups (map run_id (filter Complete infos))" and ?rs = "BackupRunSummaries E sh infos"
  let ?g = "\<lambda>r. filter (\<lambda>i. run_id i = r) (filter Complete infos)"
  have e: "mset (map (\<lambda>s. mset (rs_Entries s)) ?rs) = mset (map (\<lambda>r. mset (map Entry (?g r))) ?ids)"
    using summaries_runs [OF assms, of E infos] by (simp add: mset_run_of conj_commute image_mset.compositionality comp_def)
  have "mset (concat (map rs_Entries ?rs)) = \<Sum>\<^sub># (mset (map (\<lambda>s. mset (rs_Entries s)) ?rs))"
    by (simp only: mset_concat map_map comp_def)
  also have "\<dots> = mset (concat (map (\<lambda>r. map Entry (?g r)) ?ids))"
    by (simp only: mset_concat map_map comp_def e)
  also have "\<dots> = mset (map Entry (concat (map ?g ?ids)))" by (simp add: map_concat comp_def)
  also have "\<dots> = mset (map Entry (filter Complete infos))"
    using mset_groups [of ?ids run_id "filter Complete infos"] by (simp only: mset_map) (simp del: filter_filter)
  finally show "mset (concat (map rs_Entries ?rs)) = mset (map Entry (filter Complete infos))" .
  have "mset (map rs_RunID ?rs) = mset (map rs_RunID (map (run_of E infos) ?ids))"
    using summaries_runs [OF assms, of E infos] by (metis mset_map)
  then have "mset (map rs_RunID ?rs) = mset ?ids" by (simp add: comp_def)
  then show "distinct (map rs_RunID ?rs)" by (metis distinct_remdups mset_eq_imp_distinct_iff)
  show "ordered_by newer_run ?rs" by (simp add: BackupRunSummaries_def run_order.sort_by_ordered)
qed

text \<open>The restore points offered are a partition of the complete sets: every complete set of the inventory
  appears in exactly one run, no incomplete set in any, each run once, newest run first.\<close>

lemma restore_points_partition:
  assumes "is_shuffle sh"
  shows "mset (concat (map rs_Entries (BackupRunSummaries E sh infos))) = mset (map Entry (filter Complete infos))
     \<and> distinct (map rs_RunID (BackupRunSummaries E sh infos)) \<and> ordered_by newer_run (BackupRunSummaries E sh infos)"
  using summaries_entries [OF assms] by blast

section \<open>A directory for the witnesses\<close>

definition demo_entry :: backup_entry where
  "demo_entry = \<lparr>DirectoryName = ''Docs'', ChainID = ''ABC123'', Date = ''2025-01-02'', DiffNumber = 0\<rparr>"

definition demo_backup_dir :: "bytes list \<Rightarrow> backup_dir" where
  "demo_backup_dir ps =
     (let f = map_of (zip (map (part_base_name demo_entry) [1, 2]) ps); g = (\<lambda>n. case f n of None \<Rightarrow> Inl (IOError ''no such file'') | Some c \<Rightarrow> Inr c)
      in \<lparr>dir_list = Inr (map (\<lambda>n. (part_base_name demo_entry n, False)) [1, 2]), dir_size = (\<lambda>n. bindE (g n) (\<lambda>c. Inr (int (length c)))),
          dir_mtime = (\<lambda>_. Inr 0), dir_data = g\<rparr>)"

lemma demo_names:
  "ParsePartFileName (part_base_name demo_entry (Suc 0)) = Some (demo_entry, 1)" "ParsePartFileName (part_base_name demo_entry 2) = Some (demo_entry, 2)"
  "part_base_name demo_entry (Suc 0) \<noteq> part_base_name demo_entry 2"
  by code_simp+

lemma demo_dir_parts: "listParts (demo_backup_dir ps) = Inr [(demo_entry, map (part_base_name demo_entry) [1, 2])]"
  by (simp add: listParts_def demo_backup_dir_def parsed_parts_def List.map_filter_simps demo_names parts_of_def Let_def)

lemma demo_open_parts:
  assumes "length ps = 2" and "OpenSet E (parts_content ps) (part_sizes ps) = Inr st" and "set_Header st = demo_header"
  shows "openParts E (demo_backup_dir ps) demo_entry (map (part_base_name demo_entry) [1, 2]) = Inr st"
    "part_file (demo_backup_dir ps) (map (part_base_name demo_entry) [1, 2]) = parts_content ps"
proof -
  obtain a b where ps: "ps = [a, b]" using assms(1) by (auto simp: length_Suc_conv numeral_2_eq_2)
  let ?n = "map (part_base_name demo_entry) [1, 2]" and ?d = "demo_backup_dir ps"
  show f: "part_file ?d ?n = parts_content ps"
    using demo_names(3) by (auto simp: fun_eq_iff part_file_def parts_content_def demo_backup_dir_def ps less_Suc_eq numeral_2_eq_2)
  have "map (dir_size ?d) ?n = part_sizes ps"
    using demo_names(3) by (auto simp: part_sizes_def demo_backup_dir_def ps)
  moreover have "checkContinuity ?n = Inr ()" by (simp add: checkContinuity_def demo_names numeral_2_eq_2 [symmetric])
  moreover have "checkNameMatchesHeader demo_entry demo_header = Inr ()"
    by (simp add: checkNameMatchesHeader_def demo_entry_def demo_header_def HeaderIsDiff_def IsDiff_def manifest_type_def)
  ultimately show "openParts E ?d demo_entry ?n = Inr st" using assms(2,3) f by (simp add: openParts_def)
qed

lemma demo_inventory:
  assumes "length ps = 2" and "OpenSet E (parts_content ps) (part_sizes ps) = Inr st" and "set_Header st = demo_header" and "is_shuffle sh"
  shows "\<exists>s. Inventory E sh (demo_backup_dir ps) = Inr [s] \<and> Complete s \<and> Entry s = demo_entry
     \<and> Header s = Some demo_header"
proof -
  let ?n = "map (part_base_name demo_entry) [1, 2]" and ?d = "demo_backup_dir ps"
  have "Complete (inspectParts E ?d demo_entry ?n) \<and> Header (inspectParts E ?d demo_entry ?n) = Some demo_header"
    using assms(3) demo_open_parts(1) [OF assms(1-3)] by (simp add: inspectParts_def Complete_def Let_def)
  moreover have "sh [(demo_entry, ?n)] = [(demo_entry, ?n)]"
    using shuffle_mset [OF assms(4), of "[(demo_entry, ?n)]"] by simp
  ultimately show ?thesis by (simp add: Inventory_def demo_dir_parts sortNewestFirst_def)
qed

theorem complete_set_is_whole_witness:
  "\<exists>d infos s. Inventory demo_format (\<lambda>xs. xs) d = Inr infos \<and> s \<in> set infos \<and> Entry s = demo_entry
     \<and> Parts s = map (part_base_name demo_entry) [1..<Suc (length (Parts s))] \<and> PartCount (Trailer s) = int (length (Parts s))"
proof -
  obtain ps st where o: "length ps = 2" "OpenSet demo_format (parts_content ps) (part_sizes ps) = Inr st" "set_Header st = demo_header"
    using demo_opens by blast
  obtain s where s: "Inventory demo_format (\<lambda>xs. xs) (demo_backup_dir ps) = Inr [s]" "Complete s" "Entry s = demo_entry"
    using demo_inventory [OF o shuffle_id(1)] by auto
  have l: "dir_list (demo_backup_dir ps) = Inr (map (\<lambda>n. (part_base_name demo_entry n, False)) [1, 2])"
    "distinct (map fst (map (\<lambda>n. (part_base_name demo_entry n, False)) [1, 2 :: nat]))"
    using demo_names(3) by (simp_all add: demo_backup_dir_def Let_def)
  show ?thesis
    using complete_set_is_whole [OF l s(1) shuffle_id(1) _ s(2)] s
    by (intro exI [of _ "demo_backup_dir ps"] exI [of _ "[s]"] exI [of _ s]) (auto simp del: upt_Suc)
qed

lemma Inventory_determined_witness:
  "Inventory demo_format (\<lambda>xs. xs) (demo_backup_dir []) = Inventory demo_format rev (demo_backup_dir [])"
  by (rule Inventory_determined [OF shuffle_id, THEN conjunct1])

definition demo_info :: "backup_entry \<Rightarrow> set_info" where
  "demo_info e = \<lparr>Entry = e, Parts = [], SizeBytes = 0, Header = Some demo_header, Trailer = no_trailer, Err = None\<rparr>"

lemma restore_points_partition_witness:
  "mset (concat (map rs_Entries (BackupRunSummaries demo_format rev
     [demo_info demo_entry, (demo_info demo_entry)\<lparr>Err := Some Corrupted\<rparr>, demo_info (demo_entry\<lparr>DiffNumber := 1\<rparr>)])))
     = {#demo_entry, demo_entry\<lparr>DiffNumber := 1\<rparr>#}"
  using restore_points_partition [OF shuffle_id(2), of demo_format
     "[demo_info demo_entry, (demo_info demo_entry)\<lparr>Err := Some Corrupted\<rparr>, demo_info (demo_entry\<lparr>DiffNumber := 1\<rparr>)]"]
  by (simp add: demo_info_def Complete_def)

end
