(* ===== verification/Plan.thy ===== *)
theory Plan
  imports Catalog
begin

text \<open>
  The decisions of package \<open>workflow/plan\<close> about keys (\<open>keys.go\<close>) and about full or differential
  backups (\<open>folders.go\<close>). A source is the record \<open>source_dir\<close> of \<open>sources.go\<close>. Reasons are the
  format strings. Times are numbers of nanoseconds, as \<open>time.Duration\<close> counts.
\<close>

section \<open>Sources and keys\<close>

record source_dir =
  Resolved :: string
  normalizedPath :: string
  BackupName :: string
  Warning :: string
  Skip :: bool
  SrcErr :: "err option"

record plan_keys =
  Existing :: "keyset option"
  NewKeysReason :: string

definition ascii_capitalise :: "string \<Rightarrow> string" where
  "ascii_capitalise s = (case s of [] \<Rightarrow> [] | c # cs \<Rightarrow> ascii_upper c # cs)"

definition KeysFor :: "config \<Rightarrow> set_info list \<Rightarrow> plan_keys" where
  "KeysFor cfg infos = (case CurrentKeySet infos of
     None \<Rightarrow> \<lparr>Existing = None, NewKeysReason = ''No existing keys found in the backup directory''\<rparr>
   | Some ks \<Rightarrow>
       let reason = KeySetMismatch cfg ks in
       if reason \<noteq> [] then \<lparr>Existing = None, NewKeysReason = ascii_capitalise reason\<rparr>
       else \<lparr>Existing = Some ks, NewKeysReason = []\<rparr>)"

section \<open>Full or differential\<close>

record folder =
  Base :: "set_info option"
  FolderDiff :: nat
  Reason :: string

definition FolderIsDiff :: "folder \<Rightarrow> bool" where
  "FolderIsDiff p \<longleftrightarrow> Base p \<noteq> None"

definition Label :: "folder \<Rightarrow> string" where
  "Label p = (if FolderIsDiff p then ''Differential'' else ''Full'')"

definition full_folder :: "string \<Rightarrow> folder" where
  "full_folder reason = \<lparr>Base = None, FolderDiff = 0, Reason = reason\<rparr>"

text \<open>\<open>base\<close>: the first complete full backup of the directory; the inventory is sorted newest first.\<close>

definition base_of_dir :: "set_info list \<Rightarrow> string \<Rightarrow> set_info option" where
  "base_of_dir infos dir = find (\<lambda>i. DirectoryName (Entry i) = dir \<and> \<not> IsDiff (Entry i) \<and> Complete i) infos"

definition chain_diffs :: "set_info list \<Rightarrow> string \<Rightarrow> string \<Rightarrow> set_info list" where
  "chain_diffs infos dir cid = filter (\<lambda>i. DirectoryName (Entry i) = dir \<and> ChainID (Entry i) = cid \<and> IsDiff (Entry i)) infos"

definition max_number :: "set_info list \<Rightarrow> nat" where
  "max_number ds = foldl (\<lambda>m i. if DiffNumber (Entry i) > m then DiffNumber (Entry i) else m) 0 ds"

text \<open>
  Whole days between two times: the difference saturates at the bounds of a 64-bit duration, and the days
  are truncated. The code divides by 24 hours in floating point, the model exactly; a difference is
  possible only within microseconds of a whole day.
\<close>

definition nanosPerDay :: int where "nanosPerDay = 24 * 60 * 60 * 10 ^ 9"

definition trunc_div :: "int \<Rightarrow> int \<Rightarrow> int" where
  "trunc_div a b = sgn a * sgn b * (\<bar>a\<bar> div \<bar>b\<bar>)"

definition age_days :: "int \<Rightarrow> int \<Rightarrow> int" where
  "age_days now created = trunc_div (max (- (2 ^ 63)) (min (2 ^ 63 - 1) (now - created))) nanosPerDay"

text \<open>The 64-bit product of the size comparison wraps.\<close>

definition mul64 :: "int \<Rightarrow> int \<Rightarrow> int" where "mul64 x y = int64 (uint64 (x * y))"

definition diff_percent :: "set_info \<Rightarrow> set_info \<Rightarrow> int" where
  "diff_percent d base = trunc_div (mul64 (DataLength (Trailer d)) 100) (DataLength (Trailer base))"

definition header_keys :: "set_info \<Rightarrow> keyset option" where
  "header_keys i = map_option h_KeySet (Header i)"

definition planFolder :: "format_env \<Rightarrow> config \<Rightarrow> set_info list \<Rightarrow> string \<Rightarrow> plan_keys \<Rightarrow> bool \<Rightarrow> int \<Rightarrow> folder" where
  "planFolder E cfg infos dir keys forceFull now =
     (if forceFull then full_folder ''full backup requested'' else
      case Existing keys of None \<Rightarrow> full_folder ''new keys'' | Some ks \<Rightarrow>
      if \<not> IsEnabled (Differential cfg) then full_folder ''differential backups disabled in config.yaml'' else
      case base_of_dir infos dir of None \<Rightarrow> full_folder ''no complete full backup found'' | Some base \<Rightarrow>
      if map_option ks_ID (header_keys base) \<noteq> Some (ks_ID ks) then full_folder ''the latest full backup uses older keys''
      else if age_days now (Created E base) \<ge> IntervalDays (Differential cfg)
        then full_folder ''full backup is %d days old (limit %d)''
      else let ds = chain_diffs infos dir (ChainID (Entry base)); maxNumber = max_number ds; newestDiff = find Complete ds in
      if maxNumber \<ge> MaxDiffNumber then full_folder ''chain %s reached the maximum of %d differentials''
      else if (case newestDiff of None \<Rightarrow> False | Some d \<Rightarrow>
                 DataLength (Trailer base) > 0 \<and> diff_percent d base \<ge> SizePercent (Differential cfg))
        then full_folder ''last differential was %d%% of the full backup (limit %d%%)''
      else \<lparr>Base = Some base, FolderDiff = maxNumber + 1, Reason = ''base: full %s %s, %d days old''\<rparr>)"

text \<open>
  The plans by backup name, in the order of the sources. The base name of a path (\<open>filepath.Base\<close>) is
  a parameter; it is used for a source without a backup name.
\<close>

definition folder_name :: "(string \<Rightarrow> string) \<Rightarrow> source_dir \<Rightarrow> string" where
  "folder_name base_name src = (if BackupName src = [] then base_name (Resolved src) else BackupName src)"

definition Folders :: "(string \<Rightarrow> string) \<Rightarrow> format_env \<Rightarrow> config \<Rightarrow> set_info list \<Rightarrow> source_dir list \<Rightarrow> plan_keys \<Rightarrow> bool \<Rightarrow> int
    \<Rightarrow> string \<rightharpoonup> folder" where
  "Folders base_name E cfg infos sources keys forceFull now =
     foldl (\<lambda>plans src. if SrcErr src \<noteq> None \<or> Skip src then plans
        else plans(folder_name base_name src \<mapsto> planFolder E cfg infos (folder_name base_name src) keys forceFull now))
       Map.empty sources"

definition AnyDifferential :: "(string \<rightharpoonup> folder) \<Rightarrow> string list \<Rightarrow> bool" where
  "AnyDifferential plans names = list_ex (\<lambda>n. case plans n of None \<Rightarrow> False | Some p \<Rightarrow> FolderIsDiff p) names"

section \<open>What a planned differential may rely on\<close>

lemma max_number_bound: "i \<in> set ds \<Longrightarrow> DiffNumber (Entry i) \<le> max_number ds"
proof -
  let ?g = "\<lambda>m i. if DiffNumber (Entry i) > m then DiffNumber (Entry i) else m"
  have "a \<le> foldl ?g a ds \<and> (\<forall>i \<in> set ds. DiffNumber (Entry i) \<le> foldl ?g a ds)" for a
  proof (induction ds arbitrary: a)
    case Nil
    then show ?case by simp
  next
    case (Cons i ds)
    from Cons.IH [of "?g a i"] show ?case by (auto split: if_splits)
  qed
  then show "i \<in> set ds \<Longrightarrow> DiffNumber (Entry i) \<le> max_number ds" by (simp add: max_number_def)
qed

text \<open>What a planned differential promises: see the property below.\<close>

definition good_differential :: "format_env \<Rightarrow> config \<Rightarrow> set_info list \<Rightarrow> string \<Rightarrow> keyset \<Rightarrow> int \<Rightarrow> set_info \<Rightarrow> nat \<Rightarrow> bool" where
  "good_differential E cfg infos dir ks now b n \<longleftrightarrow>
     b \<in> set infos \<and> Complete b \<and> DirectoryName (Entry b) = dir \<and> \<not> IsDiff (Entry b)
   \<and> map_option ks_ID (header_keys b) = Some (ks_ID ks)
   \<and> age_days now (Created E b) < IntervalDays (Differential cfg)
   \<and> 1 \<le> n \<and> n \<le> MaxDiffNumber
   \<and> (\<forall>i \<in> set infos. DirectoryName (Entry i) = dir \<and> ChainID (Entry i) = ChainID (Entry b) \<longrightarrow> DiffNumber (Entry i) < n)
   \<and> (\<forall>i \<in> set infos. DirectoryName (Entry i) = dir \<and> \<not> IsDiff (Entry i) \<and> Complete i \<longrightarrow> Created E i \<le> Created E b)"

lemma planFolder_diff:
  assumes p: "planFolder E cfg infos dir keys forceFull now = f" and b: "Base f = Some b"
    and ord: "ordered_by (newer_first E) infos"
  shows "\<not> forceFull \<and> IsEnabled (Differential cfg) \<and> (\<exists>ks. Existing keys = Some ks \<and> good_differential E cfg infos dir ks now b (FolderDiff f))"
proof -
  obtain ks where ks: "Existing keys = Some ks" "\<not> forceFull" "IsEnabled (Differential cfg)" "base_of_dir infos dir = Some b"
    "map_option ks_ID (header_keys b) = Some (ks_ID ks)" "age_days now (Created E b) < IntervalDays (Differential cfg)"
    "max_number (chain_diffs infos dir (ChainID (Entry b))) < MaxDiffNumber"
    "FolderDiff f = max_number (chain_diffs infos dir (ChainID (Entry b))) + 1"
    using p b by (auto simp: planFolder_def full_folder_def Let_def not_le split: if_splits option.splits)
  have f: "find (\<lambda>i. DirectoryName (Entry i) = dir \<and> \<not> IsDiff (Entry i) \<and> Complete i) infos = Some b"
    using ks(4) by (simp add: base_of_dir_def)
  then obtain k where k: "k < length infos" "b = infos ! k" "DirectoryName (Entry b) = dir" "\<not> IsDiff (Entry b)" "Complete b"
    "\<And>j. j < k \<Longrightarrow> \<not> (DirectoryName (Entry (infos ! j)) = dir \<and> \<not> IsDiff (Entry (infos ! j)) \<and> Complete (infos ! j))"
    by (auto simp: find_Some_iff)
  have newest: "Created E i \<le> Created E b"
    if i: "i \<in> set infos" "DirectoryName (Entry i) = dir" "\<not> IsDiff (Entry i)" "Complete i" for i
  proof -
    obtain j where j: "j < length infos" "i = infos ! j" using i(1) by (auto simp: in_set_conv_nth)
    with i k(6) have "k \<le> j" using not_less by blast
    then have "\<not> newer_first E i b"
      using sorted_wrt_nth_less [OF ord, of k j] j k(2) by (cases "k = j") auto
    then show ?thesis by (auto simp: newer_first_def split: if_splits)
  qed
  have num: "DiffNumber (Entry i) < FolderDiff f"
    if "i \<in> set infos" "DirectoryName (Entry i) = dir" "ChainID (Entry i) = ChainID (Entry b)" for i
  proof (cases "IsDiff (Entry i)")
    case True
    then have "i \<in> set (chain_diffs infos dir (ChainID (Entry b)))" using that by (simp add: chain_diffs_def)
    from max_number_bound [OF this] ks(8) show ?thesis by simp
  next
    case False
    then show ?thesis using ks(8) by (simp add: IsDiff_def)
  qed
  have "b \<in> set infos" using k(1,2) by simp
  then have "good_differential E cfg infos dir ks now b (FolderDiff f)"
    unfolding good_differential_def using ks k newest num by auto
  with ks show ?thesis by blast
qed

lemma Folders_Some:
  assumes "Folders base_name E cfg infos sources keys forceFull now n = Some f"
  shows "\<exists>src \<in> set sources. SrcErr src = None \<and> \<not> Skip src \<and> n = folder_name base_name src
    \<and> f = planFolder E cfg infos n keys forceFull now"
  using assms
proof (induction sources rule: rev_induct)
  case Nil
  then show ?case by (simp add: Folders_def)
next
  case (snoc s ss)
  let ?p = "Folders base_name E cfg infos ss keys forceFull now"
  have step: "Folders base_name E cfg infos (ss @ [s]) keys forceFull now
      = (if SrcErr s \<noteq> None \<or> Skip s then ?p else ?p(folder_name base_name s \<mapsto> planFolder E cfg infos (folder_name base_name s) keys forceFull now))"
    by (simp add: Folders_def)
  show ?case
    using snoc unfolding step by (auto split: if_splits)
qed

lemma KeysFor_Existing:
  "Existing (KeysFor cfg infos) = Some ks \<longleftrightarrow> CurrentKeySet infos = Some ks \<and> KeySetMismatch cfg ks = []"
  by (auto simp: KeysFor_def Let_def split: option.splits)

text \<open>C27. A differential backup is planned only where it can be restored: its base is the newest complete full
  backup of the same directory, that full backup is encrypted with the keys the run uses, which are those of
  the newest complete set and fit the configuration, it is younger than the configured interval, and the
  number of the differential is between 1 and 999 and above that of every set of the chain, complete or
  not.\<close>

theorem planned_differential_restorable:
  assumes "Inventory E sh d = Inr infos" and "is_shuffle sh"
    and "Folders base_name E cfg infos sources (KeysFor cfg infos) forceFull now dir = Some f" and "Base f = Some b"
  shows "\<exists>ks. CurrentKeySet infos = Some ks \<and> KeySetMismatch cfg ks = [] \<and> good_differential E cfg infos dir ks now b (FolderDiff f)"
proof -
  have "planFolder E cfg infos dir (KeysFor cfg infos) forceFull now = f" using Folders_Some [OF assms(3)] by blast
  from planFolder_diff [OF this assms(4) Inventory_Inr(2) [OF assms(1,2)]] KeysFor_Existing show ?thesis by blast
qed

definition demo_plan_config :: config where
  "demo_plan_config = \<lparr>SourceDirectories = [''C:/Docs''], BackupDirectory = ''D:/B'', SplitSizeMB = 100, RetentionKeep = 2, LogLevel = ''info'',
     VerifyAfterBackup = False, ReminderDays = None, AuthenticationMode = AuthModePassword, RecoveryCode = False, PasswordMinLength = 12,
     Exclude = [], OnUnreadableFile = OnUnreadableFail,
     Differential = \<lparr>d_Enabled = None, d_FullBackupIntervalDays = 30, d_MaxSizePercent = 50, d_RetentionKeepDifferentials = 0\<rparr>,
     Argon2 = \<lparr>a2_Time = 3, a2_MemoryMB = 512, a2_Threads = 4\<rparr>, Argon2Notices = [], MissingKeys = [], RetiredKeys = []\<rparr>"

definition demo_source :: source_dir where
  "demo_source = \<lparr>Resolved = ''C:/Docs'', normalizedPath = ''c:/docs'', BackupName = ''Docs'', Warning = [], Skip = False, SrcErr = None\<rparr>"

theorem planned_differential_restorable_witness:
  "\<exists>d infos f b ks. Inventory demo_format rev d = Inr infos
     \<and> Folders id demo_format demo_plan_config infos [demo_source] (KeysFor demo_plan_config infos) False 5 ''Docs'' = Some f
     \<and> FolderDiff f = 1 \<and> good_differential demo_format demo_plan_config infos ''Docs'' ks 5 b (FolderDiff f)"
proof -
  obtain ps st where o: "length ps = 2" "OpenSet demo_format (parts_content ps) (part_sizes ps) = Inr st" "set_Header st = demo_header"
    using demo_opens by blast
  obtain s where s: "Inventory demo_format rev (demo_backup_dir ps) = Inr [s]" "Complete s" "Entry s = demo_entry" "Header s = Some demo_header"
    using demo_inventory [OF o shuffle_id(2)] by auto
  let ?ks = "demo_keyset\<lparr>ks_Slots := [demo_slot]\<rparr>" and ?f = "\<lparr>Base = Some s, FolderDiff = 1, Reason = ''base: full %s %s, %d days old''\<rparr>"
  have "\<not> HasSlotType ?ks SlotRecovery"
    by (simp add: HasSlotType_def SlotIndexes_def demo_slot_def slot_type_def)
  then have "KeySetMismatch demo_plan_config ?ks = []"
    by (simp add: KeySetMismatch_def demo_keyset_def demo_plan_config_def auth_mode_def UseYubiKey_def AuthModeUsesYubiKey_def)
  then have k: "KeysFor demo_plan_config [s] = \<lparr>Existing = Some ?ks, NewKeysReason = []\<rparr>"
    using s by (simp add: KeysFor_def CurrentKeySet_def demo_header_def)
  have "age_days 5 0 = 0" by (simp add: age_days_def trunc_div_def nanosPerDay_def)
  then have "planFolder demo_format demo_plan_config [s] ''Docs'' (KeysFor demo_plan_config [s]) False 5 = ?f"
    using s k by (simp add: planFolder_def demo_plan_config_def IsEnabled_def base_of_dir_def demo_entry_def IsDiff_def header_keys_def
        demo_header_def Created_def HeaderCreated_def demo_format_def IntervalDays_def chain_diffs_def max_number_def MaxDiffNumber_def Let_def)
  then have f: "Folders id demo_format demo_plan_config [s] [demo_source] (KeysFor demo_plan_config [s]) False 5 ''Docs'' = Some ?f"
    by (simp add: Folders_def demo_source_def folder_name_def)
  from planned_differential_restorable [OF s(1) shuffle_id(2) f] s(1) f show ?thesis by fastforce
qed

end
