(* ===== verification/Retention.thy ===== *)
theory Retention
  imports Plan
begin

text \<open>
  Retention: which backup sets are removed (\<open>workflow/plan/retention.go\<close>) and their removal from the
  backup directory together with orphaned logs (\<open>workflow/backup/retention.go\<close>). \<open>sh\<close> parameters are
  the orders in which Go visits its maps.
\<close>

section \<open>Selecting sets\<close>

record chain =
  c_id :: string
  c_fullCreated :: int
  c_hasFull :: bool
  c_sets :: "set_info list"

definition in_dir :: "string \<Rightarrow> set_info \<Rightarrow> bool" where
  "in_dir dir i \<longleftrightarrow> DirectoryName (Entry i) = dir"

text \<open>The chain of the complete sets of a directory with one chain ID; a later full backup overwrites the time.\<close>

definition chain_of :: "format_env \<Rightarrow> string \<Rightarrow> set_info list \<Rightarrow> string \<Rightarrow> chain" where
  "chain_of E dir infos cid =
     (let ss = filter (\<lambda>i. in_dir dir i \<and> Complete i \<and> ChainID (Entry i) = cid) infos;
          fulls = filter (\<lambda>i. \<not> IsDiff (Entry i)) ss
      in \<lparr>c_id = cid, c_fullCreated = (if fulls = [] then 0 else Created E (last fulls)), c_hasFull = (fulls \<noteq> []), c_sets = ss\<rparr>)"

definition chain_ids :: "string \<Rightarrow> set_info list \<Rightarrow> string list" where
  "chain_ids dir infos = remdups (map (\<lambda>i. ChainID (Entry i)) (filter (\<lambda>i. in_dir dir i \<and> Complete i) infos))"

definition newer_chain :: "chain \<Rightarrow> chain \<Rightarrow> bool" where
  "newer_chain a b = (if c_fullCreated a \<noteq> c_fullCreated b then c_fullCreated a > c_fullCreated b else c_id a > c_id b)"

definition ordered_chains :: "format_env \<Rightarrow> (chain list \<Rightarrow> chain list) \<Rightarrow> string \<Rightarrow> set_info list \<Rightarrow> chain list" where
  "ordered_chains E sh dir infos = sort_by newer_chain (filter c_hasFull (sh (map (chain_of E dir infos) (chain_ids dir infos))))"

definition later_diff :: "format_env \<Rightarrow> set_info \<Rightarrow> set_info \<Rightarrow> bool" where
  "later_diff E a b = (if DiffNumber (Entry a) \<noteq> DiffNumber (Entry b) then DiffNumber (Entry a) > DiffNumber (Entry b)
     else Created E a > Created E b)"

definition surplusDifferentials :: "format_env \<Rightarrow> chain \<Rightarrow> int \<Rightarrow> set_info list" where
  "surplusDifferentials E ch keep =
     (let diffs = filter (\<lambda>i. IsDiff (Entry i)) (c_sets ch) in
      if int (length diffs) \<le> keep then [] else drop (nat keep) (sort_by (later_diff E) diffs))"

definition newestPartModTime :: "backup_dir \<Rightarrow> string list \<Rightarrow> int" where
  "newestPartModTime d parts =
     foldl (\<lambda>m p. case dir_mtime d p of Inl _ \<Rightarrow> m | Inr t \<Rightarrow> if t > m then t else m) 0 parts"

definition newest_complete :: "format_env \<Rightarrow> string \<Rightarrow> set_info list \<Rightarrow> int" where
  "newest_complete E dir infos =
     foldl (\<lambda>m i. if Created E i > m then Created E i else m) 0 (filter (\<lambda>i. in_dir dir i \<and> Complete i) infos)"

definition retentionCandidates ::
  "format_env \<Rightarrow> (chain list \<Rightarrow> chain list) \<Rightarrow> backup_dir \<Rightarrow> string \<Rightarrow> set_info list \<Rightarrow> int \<Rightarrow> int \<Rightarrow> set_info list" where
  "retentionCandidates E sh d dir infos keep keepDiffs =
     (let ordered = ordered_chains E sh dir infos;
          cut = keep > 0 \<and> int (length ordered) > keep;
          gone = (if cut then drop (nat keep) ordered else []);
          kept = (if cut then take (nat keep) ordered else ordered);
          surplus = (if keepDiffs > 0 then concat (map (\<lambda>ch. surplusDifferentials E ch keepDiffs) kept) else []);
          newest = newest_complete E dir infos;
          stale = filter (\<lambda>i. newest \<noteq> 0 \<and> newestPartModTime d (Parts i) < newest)
            (filter (\<lambda>i. in_dir dir i \<and> \<not> Complete i) infos)
      in concat (map c_sets gone) @ surplus @ stale)"

datatype retention_error = UnreadableSet set_info

definition source_names :: "source_dir list \<Rightarrow> string list" where
  "source_names sources = remdups (map BackupName (filter (\<lambda>s. SrcErr s = None) sources))"

definition unreadable_set :: "string list \<Rightarrow> set_info list \<Rightarrow> set_info option" where
  "unreadable_set dirs infos =
     find (\<lambda>i. DirectoryName (Entry i) \<in> set dirs \<and> (case Err i of None \<Rightarrow> False | Some e \<Rightarrow> \<not> IsIncomplete e)) infos"

definition Retention ::
  "format_env \<Rightarrow> (chain list \<Rightarrow> chain list) \<Rightarrow> backup_dir \<Rightarrow> source_dir list \<Rightarrow> set_info list \<Rightarrow> int \<Rightarrow> int
     \<Rightarrow> retention_error + (string \<rightharpoonup> set_info list)" where
  "Retention E sh d sources infos keep keepDiffs =
     (if keep \<le> 0 \<and> keepDiffs \<le> 0 then Inr Map.empty
      else let dirs = source_names sources in
        case unreadable_set dirs infos of
          Some i \<Rightarrow> Inl (UnreadableSet i)
        | None \<Rightarrow> Inr (\<lambda>dir. if dir \<in> set dirs then
              (let ss = retentionCandidates E sh d dir infos keep keepDiffs in if ss = [] then None else Some ss)
            else None))"

text \<open>The preview: the planned sets, created now, in front of the inventory.\<close>

definition planned_info :: "header \<Rightarrow> string \<Rightarrow> folder \<Rightarrow> set_info" where
  "planned_info h name f = \<lparr>Entry = \<lparr>DirectoryName = name,
       ChainID = (case Base f of None \<Rightarrow> [] | Some b \<Rightarrow> ChainID (Entry b)), Date = [],
       DiffNumber = (if FolderIsDiff f then FolderDiff f else 0)\<rparr>,
     Parts = [], SizeBytes = 0, Header = Some h, Trailer = no_trailer, Err = None\<rparr>"

text \<open>\<open>now_header\<close> is a header whose creation time reads as the time of the preview, all else empty.\<close>

definition RetentionPreview ::
  "format_env \<Rightarrow> (chain list \<Rightarrow> chain list) \<Rightarrow> backup_dir \<Rightarrow> header \<Rightarrow> config \<Rightarrow> set_info list \<Rightarrow> source_dir list \<Rightarrow> (string \<rightharpoonup> folder)
     \<Rightarrow> set_info list" where
  "RetentionPreview E sh d now_header cfg infos sources folders =
     (let planned = List.map_filter (\<lambda>src. if Skip src then None
              else map_option (planned_info now_header (BackupName src)) (folders (BackupName src))) sources @ infos
      in case Retention E sh d sources planned (RetentionKeep cfg) (d_RetentionKeepDifferentials (Differential cfg)) of
        Inl _ \<Rightarrow> []
      | Inr removed \<Rightarrow> concat (map (\<lambda>n. case removed n of None \<Rightarrow> [] | Some ss \<Rightarrow> ss)
          (rev (remdups (rev (map BackupName (filter (\<lambda>s. SrcErr s = None) sources)))))))"

section \<open>Deleting files\<close>

text \<open>What \<open>os.Remove\<close> answers: done, no such file, or another error.\<close>

datatype remove_result = Removed | NotExist | RemoveError err

definition forget :: "string \<Rightarrow> backup_dir \<Rightarrow> backup_dir" where
  "forget n d = d\<lparr>dir_list := bindE (dir_list d) (\<lambda>des. Inr (filter (\<lambda>p. fst p \<noteq> n) des))\<rparr>"

fun deleteSetFiles :: "(string \<Rightarrow> remove_result) \<Rightarrow> string list \<Rightarrow> backup_dir \<Rightarrow> string list \<times> err option \<times> backup_dir" where
  "deleteSetFiles rm [] d = ([], None, d)"
| "deleteSetFiles rm (p # ps) d = (case rm p of
       Removed \<Rightarrow> (case deleteSetFiles rm ps (forget p d) of (removed, e, d') \<Rightarrow> (p # removed, e, d'))
     | NotExist \<Rightarrow> deleteSetFiles rm ps d
     | RemoveError e \<Rightarrow> ([], Some e, d))"

definition active_ids :: "set_info list \<Rightarrow> string set" where
  "active_ids infos = set (map (\<lambda>i. ChainID (Entry i)) infos) \<union> set (List.map_filter (\<lambda>i. map_option h_RunID (Header i)) infos)"

fun delete_logs :: "(string \<Rightarrow> remove_result) \<Rightarrow> string set \<Rightarrow> string set \<Rightarrow> (string \<times> bool) list \<Rightarrow> backup_dir
    \<Rightarrow> string list \<times> err option \<times> backup_dir" where
  "delete_logs rm active legacy [] d = ([], None, d)"
| "delete_logs rm active legacy ((n, isdir) # des) d =
     (case (if isdir then None else ParseLogFileName n) of
        None \<Rightarrow> delete_logs rm active legacy des d
      | Some (_, runID) \<Rightarrow>
          if runID \<in> active \<or> n \<in> legacy then delete_logs rm active legacy des d
          else (case rm n of
            Removed \<Rightarrow> (case delete_logs rm active legacy des (forget n d) of (ns, e, d') \<Rightarrow> (n # ns, e, d'))
          | NotExist \<Rightarrow> delete_logs rm active legacy des d
          | RemoveError e \<Rightarrow> ([], Some e, d)))"

text \<open>An error of \<open>Inventory\<close> that says the directory does not exist is no error here.\<close>

definition deleteOrphanLogFiles ::
  "format_env \<Rightarrow> ((backup_entry \<times> string list) list \<Rightarrow> (backup_entry \<times> string list) list) \<Rightarrow> (err \<Rightarrow> bool)
     \<Rightarrow> (string \<Rightarrow> remove_result) \<Rightarrow> backup_dir \<Rightarrow> string list \<times> err option \<times> backup_dir" where
  "deleteOrphanLogFiles E shp not_exist rm d =
     (case Inventory E shp d of
        Inl e \<Rightarrow> ([], if not_exist e then None else Some e, d)
      | Inr infos \<Rightarrow> (case dir_list d of
          Inl e \<Rightarrow> ([], if not_exist e then None else Some e, d)
        | Inr des \<Rightarrow> delete_logs rm (active_ids infos) (set (List.map_filter (\<lambda>p. LegacyLogFileName (fst p)) des)) des d))"

fun delete_sets :: "(string \<Rightarrow> remove_result) \<Rightarrow> set_info list \<Rightarrow> backup_dir \<Rightarrow> string list \<times> err option \<times> nat \<times> int \<times> backup_dir" where
  "delete_sets rm [] d = ([], None, 0, 0, d)"
| "delete_sets rm (i # is) d = (case deleteSetFiles rm (Parts i) d of
       (ns, Some e, d') \<Rightarrow> (ns, Some (Wrapped ''Failed to delete old backup set %s: %w.'' e), 0, 0, d')
     | (ns, None, d') \<Rightarrow> (case delete_sets rm is d' of (ns', e, n, b, d'') \<Rightarrow> (ns @ ns', e, Suc n, SizeBytes i + b, d'')))"

datatype cleanup_result = ResultOK | ResultWarnings | ResultFailed

record cleanup =
  cl_deleted :: "string list"
  cl_fact :: "(cleanup_result \<times> nat \<times> int) option"
  cl_err :: "err option"
  cl_dir :: backup_dir

text \<open>
  The removals in the order of the directory names; a held directory is skipped, a failed deletion ends
  the cleanup at once.
\<close>

definition remove_selected ::
  "format_env \<Rightarrow> ((backup_entry \<times> string list) list \<Rightarrow> (backup_entry \<times> string list) list) \<Rightarrow> (err \<Rightarrow> bool)
     \<Rightarrow> (string \<Rightarrow> remove_result) \<Rightarrow> string list \<Rightarrow> (string \<Rightarrow> bool) \<Rightarrow> (string \<rightharpoonup> set_info list) \<Rightarrow> backup_dir \<Rightarrow> cleanup" where
  "remove_selected E shp not_exist rm names hold removals d =
     (let dirs = sort (filter (\<lambda>n. removals n \<noteq> None \<and> \<not> hold n) names) in
      case delete_sets rm (concat (map (\<lambda>n. the (removals n)) dirs)) d of
        (ns, Some e, n, b, d') \<Rightarrow> \<lparr>cl_deleted = ns, cl_fact = Some (ResultFailed, n, b), cl_err = Some e, cl_dir = d'\<rparr>
      | (ns, None, n, b, d') \<Rightarrow> (case deleteOrphanLogFiles E shp not_exist rm d' of
          (logs, _, d'') \<Rightarrow> \<lparr>cl_deleted = ns @ logs, cl_fact = Some (ResultOK, n, b), cl_err = None, cl_dir = d''\<rparr>))"

definition applyRetentionPolicy ::
  "format_env \<Rightarrow> ((backup_entry \<times> string list) list \<Rightarrow> (backup_entry \<times> string list) list) \<Rightarrow> (chain list \<Rightarrow> chain list)
     \<Rightarrow> (err \<Rightarrow> bool) \<Rightarrow> (string \<Rightarrow> remove_result) \<Rightarrow> int \<Rightarrow> int \<Rightarrow> source_dir list \<Rightarrow> (string \<Rightarrow> bool) \<Rightarrow> backup_dir \<Rightarrow> cleanup" where
  "applyRetentionPolicy E shp sh not_exist rm keep keepDiffs sources hold d =
     (let nothing = \<lparr>cl_deleted = [], cl_fact = None, cl_err = None, cl_dir = d\<rparr> in
      if keep \<le> 0 \<and> keepDiffs \<le> 0 then nothing
      else if \<not> list_ex (\<lambda>s. SrcErr s = None) sources then nothing
      else case Inventory E shp d of
        Inl e \<Rightarrow> nothing\<lparr>cl_err := Some (Wrapped ''Failed to scan backups for retention: %w'' e)\<rparr>
      | Inr infos \<Rightarrow> (case Retention E sh d sources infos keep keepDiffs of
          Inl (UnreadableSet i) \<Rightarrow> nothing\<lparr>cl_fact := Some (ResultWarnings, 0, 0)\<rparr>
        | Inr removals \<Rightarrow> remove_selected E shp not_exist rm (source_names sources) hold removals d))"

section \<open>Which sets are removed\<close>

lemma newer_chain_then_by: "newer_chain = then_by c_fullCreated True (then_by c_id True (\<lambda>_ _. False))"
  by (auto simp: fun_eq_iff newer_chain_def then_by_def)

interpretation chain_order: less_order newer_chain
  unfolding newer_chain_then_by by (intro then_by_order no_order)

lemma later_diff_then_by:
  "later_diff E = then_by (\<lambda>i. DiffNumber (Entry i)) True (then_by (Created E) True (\<lambda>_ _. False))"
  by (auto simp: fun_eq_iff later_diff_def then_by_def)

interpretation diff_order: less_order "later_diff E" for E
  unfolding later_diff_then_by by (intro then_by_order no_order)

lemma c_id_chain_of [simp]: "c_id (chain_of E dir infos cid) = cid"
  by (simp add: chain_of_def Let_def)

lemma c_sets_chain_of [simp]:
  "c_sets (chain_of E dir infos cid) = filter (\<lambda>i. in_dir dir i \<and> Complete i \<and> ChainID (Entry i) = cid) infos"
  by (simp add: chain_of_def Let_def)

lemma c_hasFull_chain_of:
  "c_hasFull (chain_of E dir infos cid) \<longleftrightarrow>
     (\<exists>f \<in> set infos. in_dir dir f \<and> Complete f \<and> ChainID (Entry f) = cid \<and> \<not> IsDiff (Entry f))"
  by (auto simp: chain_of_def Let_def filter_empty_conv)

text \<open>The chains that have a complete full backup: those that take part.\<close>

definition full_chains :: "format_env \<Rightarrow> string \<Rightarrow> set_info list \<Rightarrow> chain set" where
  "full_chains E dir infos = chain_of E dir infos ` {ChainID (Entry f) | f. f \<in> set infos \<and> in_dir dir f \<and> Complete f \<and> \<not> IsDiff (Entry f)}"

lemma ordered_chains_facts:
  assumes "is_shuffle sh"
  shows "set (ordered_chains E sh dir infos) = full_chains E dir infos" and "distinct (ordered_chains E sh dir infos)"
    and "ordered_by newer_chain (ordered_chains E sh dir infos)"
    and "a \<in> full_chains E dir infos \<Longrightarrow> b \<in> full_chains E dir infos \<Longrightarrow> a \<noteq> b \<Longrightarrow> newer_chain a b \<or> newer_chain b a"
proof -
  let ?cs = "map (chain_of E dir infos) (chain_ids dir infos)"
  show "set (ordered_chains E sh dir infos) = full_chains E dir infos"
  proof -
    have "{cid \<in> set (chain_ids dir infos). c_hasFull (chain_of E dir infos cid)}
        = {ChainID (Entry f) | f. f \<in> set infos \<and> in_dir dir f \<and> Complete f \<and> \<not> IsDiff (Entry f)}"
      by (auto simp: chain_ids_def c_hasFull_chain_of image_iff)
    moreover have "set (ordered_chains E sh dir infos) = chain_of E dir infos ` {cid \<in> set (chain_ids dir infos). c_hasFull (chain_of E dir infos cid)}"
      using assms by (auto simp: ordered_chains_def)
    ultimately show ?thesis by (simp add: full_chains_def)
  qed
  have "distinct (map c_id ?cs)" by (simp add: comp_def chain_ids_def)
  then have "distinct ?cs" by (simp only: distinct_map)
  then have "distinct (sh ?cs)" using assms by (metis mset_eq_imp_distinct_iff shuffle_mset)
  then show "distinct (ordered_chains E sh dir infos)" by (simp add: ordered_chains_def)
  show "ordered_by newer_chain (ordered_chains E sh dir infos)"
    by (simp add: ordered_chains_def chain_order.sort_by_ordered)
  show "a \<in> full_chains E dir infos \<Longrightarrow> b \<in> full_chains E dir infos \<Longrightarrow> a \<noteq> b \<Longrightarrow> newer_chain a b \<or> newer_chain b a"
  proof -
    assume "a \<in> full_chains E dir infos" "b \<in> full_chains E dir infos" "a \<noteq> b"
    then obtain x y where "a = chain_of E dir infos x" "b = chain_of E dir infos y" by (auto simp: full_chains_def)
    with \<open>a \<noteq> b\<close> have "c_id a < c_id b \<or> c_id b < c_id a" using linorder_less_linear [of x y] by auto
    then show ?thesis by (auto simp: newer_chain_def)
  qed
qed

definition cut_chains :: "format_env \<Rightarrow> (chain list \<Rightarrow> chain list) \<Rightarrow> string \<Rightarrow> set_info list \<Rightarrow> int \<Rightarrow> chain list" where
  "cut_chains E sh dir infos keep =
     (let ordered = ordered_chains E sh dir infos in if keep > 0 \<and> int (length ordered) > keep then drop (nat keep) ordered else [])"

text \<open>A chain is cut when at least \<open>keep\<close> chains are newer.\<close>

lemma in_cut_chains:
  assumes "is_shuffle sh" and "c \<in> full_chains E dir infos"
  shows "c \<in> set (cut_chains E sh dir infos keep) \<longleftrightarrow> keep > 0 \<and> nat keep \<le> card {a \<in> full_chains E dir infos. newer_chain a c}"
proof -
  note f = ordered_chains_facts [OF assms(1), where E = E and dir = dir and infos = infos]
  let ?o = "ordered_chains E sh dir infos"
  have iff: "c \<in> set (drop (nat keep) ?o) \<longleftrightarrow> nat keep \<le> card {a \<in> set ?o. newer_chain a c}"
    using f assms(2) by (intro chain_order.in_drop_iff) auto
  have "keep < int (length ?o)" if "c \<in> set (drop (nat keep) ?o)" "keep > 0"
    using that by (cases "nat keep < length ?o") auto
  then show ?thesis using iff f(1) by (auto simp: cut_chains_def Let_def)
qed

lemma candidates_cases:
  "s \<in> set (retentionCandidates E sh d dir infos keep keepDiffs) \<Longrightarrow>
     (\<exists>c \<in> set (cut_chains E sh dir infos keep). s \<in> set (c_sets c))
   \<or> (keepDiffs > 0 \<and> (\<exists>c \<in> set (ordered_chains E sh dir infos). s \<in> set (surplusDifferentials E c keepDiffs)))
   \<or> (s \<in> set infos \<and> in_dir dir s \<and> \<not> Complete s \<and> newestPartModTime d (Parts s) < newest_complete E dir infos)"
  by (auto simp: retentionCandidates_def cut_chains_def Let_def dest: in_set_takeD split: if_splits)

lemma cut_chains_removed:
  "c \<in> set (cut_chains E sh dir infos keep) \<Longrightarrow> s \<in> set (c_sets c) \<Longrightarrow> s \<in> set (retentionCandidates E sh d dir infos keep keepDiffs)"
  by (auto simp: retentionCandidates_def cut_chains_def Let_def split: if_splits)

lemma surplus_diff: "s \<in> set (surplusDifferentials E c keep) \<Longrightarrow> s \<in> set (c_sets c) \<and> IsDiff (Entry s)"
  by (auto simp: surplusDifferentials_def Let_def split: if_splits dest: in_set_dropD)

lemma cut_chain_of:
  assumes "is_shuffle sh" and "c \<in> set (cut_chains E sh dir infos keep)"
  shows "\<exists>cid. c = chain_of E dir infos cid \<and> c \<in> full_chains E dir infos"
proof -
  have "c \<in> full_chains E dir infos"
    using assms(2) ordered_chains_facts(1) [OF assms(1), where E = E and dir = dir and infos = infos]
    by (auto simp: cut_chains_def Let_def dest: in_set_dropD split: if_splits)
  then show ?thesis by (auto simp: full_chains_def)
qed

lemma complete_full_removed:
  assumes "is_shuffle sh" and "f \<in> set infos" "in_dir dir f" "Complete f" "\<not> IsDiff (Entry f)"
  shows "f \<in> set (retentionCandidates E sh d dir infos keep keepDiffs)
    \<longleftrightarrow> chain_of E dir infos (ChainID (Entry f)) \<in> set (cut_chains E sh dir infos keep)"
proof
  assume "f \<in> set (retentionCandidates E sh d dir infos keep keepDiffs)"
  then obtain c where c: "c \<in> set (cut_chains E sh dir infos keep)" "f \<in> set (c_sets c)"
    using candidates_cases assms(4,5) surplus_diff by blast
  with cut_chain_of [OF assms(1) c(1)] show "chain_of E dir infos (ChainID (Entry f)) \<in> set (cut_chains E sh dir infos keep)"
    by auto
next
  assume "chain_of E dir infos (ChainID (Entry f)) \<in> set (cut_chains E sh dir infos keep)"
  then show "f \<in> set (retentionCandidates E sh d dir infos keep keepDiffs)"
    by (rule cut_chains_removed) (use assms in simp)
qed

text \<open>C23. Retention never strands a differential: a complete full backup is removed only together with every
  complete differential of its chain, so each differential that is kept keeps its full backup.\<close>

theorem retention_never_strands:
  assumes "is_shuffle sh" and "f \<in> set infos" and "in_dir dir f" and "Complete f" and "\<not> IsDiff (Entry f)"
    and "f \<in> set (retentionCandidates E sh d dir infos keep keepDiffs)"
    and "s \<in> set infos" and "in_dir dir s" and "Complete s" and "ChainID (Entry s) = ChainID (Entry f)"
  shows "s \<in> set (retentionCandidates E sh d dir infos keep keepDiffs)"
proof -
  have "chain_of E dir infos (ChainID (Entry f)) \<in> set (cut_chains E sh dir infos keep)"
    using complete_full_removed [OF assms(1-5)] assms(6) by blast
  then show ?thesis by (rule cut_chains_removed) (use assms in simp)
qed

text \<open>C24. Retention keeps exactly the newest chains: a complete full backup is removed if and only if a limit is
  set and at least that many chains with a complete full backup are newer than its chain.\<close>

theorem retention_keeps_newest:
  assumes "is_shuffle sh" and "f \<in> set infos" and "in_dir dir f" and "Complete f" and "\<not> IsDiff (Entry f)"
  shows "f \<in> set (retentionCandidates E sh d dir infos keep keepDiffs) \<longleftrightarrow>
     0 < keep \<and> nat keep \<le> card {c \<in> full_chains E dir infos. newer_chain c (chain_of E dir infos (ChainID (Entry f)))}"
proof -
  have "chain_of E dir infos (ChainID (Entry f)) \<in> full_chains E dir infos"
    using assms(2-5) by (auto simp: full_chains_def)
  from in_cut_chains [OF assms(1) this] complete_full_removed [OF assms] show ?thesis by blast
qed

text \<open>A differential of a kept chain is removed only when enough others of its chain are not older.\<close>

lemma surplus_newest:
  assumes "distinct infos" and "s \<in> set (surplusDifferentials E (chain_of E dir infos cid) keep)" and "0 < keep"
  shows "nat keep \<le> card {y \<in> set infos. in_dir dir y \<and> Complete y \<and> ChainID (Entry y) = cid \<and> IsDiff (Entry y) \<and> y \<noteq> s \<and> \<not> later_diff E s y}"
proof -
  let ?ds = "filter (\<lambda>i. IsDiff (Entry i)) (c_sets (chain_of E dir infos cid))"
  have "s \<in> set (drop (nat keep) (sort_by (later_diff E) ?ds))"
    using assms(2) by (auto simp: surplusDifferentials_def Let_def split: if_splits)
  from diff_order.in_drop_ordered [OF diff_order.sort_by_ordered _ this]
  have "nat keep \<le> card {y \<in> set (sort_by (later_diff E) ?ds). y \<noteq> s \<and> \<not> later_diff E s y}"
    using assms(1) by simp
  also have "{y \<in> set (sort_by (later_diff E) ?ds). y \<noteq> s \<and> \<not> later_diff E s y}
      = {y \<in> set infos. in_dir dir y \<and> Complete y \<and> ChainID (Entry y) = cid \<and> IsDiff (Entry y) \<and> y \<noteq> s \<and> \<not> later_diff E s y}"
    by auto
  finally show ?thesis .
qed

text \<open>The newest differentials of a kept chain stay: a complete differential is removed without its full
  backup only when a limit is set and at least that many other differentials of its chain are not older; in
  particular the newest differential of a kept chain is never removed.\<close>

lemma retention_keeps_newest_differentials:
  assumes "is_shuffle sh" and "distinct infos" and "s \<in> set infos" and "in_dir dir s" and "Complete s" and "IsDiff (Entry s)"
    and "s \<in> set (retentionCandidates E sh d dir infos keep keepDiffs)"
    and "f \<in> set infos" and "in_dir dir f" and "Complete f" and "\<not> IsDiff (Entry f)" and "ChainID (Entry f) = ChainID (Entry s)"
    and "f \<notin> set (retentionCandidates E sh d dir infos keep keepDiffs)"
  shows "0 < keepDiffs \<and> nat keepDiffs \<le> card {y \<in> set infos. in_dir dir y \<and> Complete y \<and> ChainID (Entry y) = ChainID (Entry s)
     \<and> IsDiff (Entry y) \<and> y \<noteq> s \<and> \<not> later_diff E s y}"
proof -
  have no_cut: "\<not> (\<exists>c \<in> set (cut_chains E sh dir infos keep). s \<in> set (c_sets c))"
  proof
    assume "\<exists>c \<in> set (cut_chains E sh dir infos keep). s \<in> set (c_sets c)"
    then obtain c where c: "c \<in> set (cut_chains E sh dir infos keep)" "s \<in> set (c_sets c)" by blast
    with cut_chain_of [OF assms(1) c(1)] assms(8-12) have "f \<in> set (c_sets c)" by auto
    with cut_chains_removed [OF c(1)] assms(13) show False by blast
  qed
  with candidates_cases [OF assms(7)] assms(5) obtain c where
    c: "0 < keepDiffs" "c \<in> set (ordered_chains E sh dir infos)" "s \<in> set (surplusDifferentials E c keepDiffs)" by blast
  then obtain cid where cid: "c = chain_of E dir infos cid"
    using ordered_chains_facts(1) [OF assms(1), where E = E and dir = dir and infos = infos] by (auto simp: full_chains_def)
  then have "cid = ChainID (Entry s)" using surplus_diff [OF c(3)] by simp
  with surplus_newest [OF assms(2) c(3) [unfolded cid] c(1)] c(1) show ?thesis by simp
qed

lemma newest_complete_ge:
  assumes "s \<in> set infos" "in_dir dir s" "Complete s"
  shows "Created E s \<le> newest_complete E dir infos"
proof -
  let ?g = "\<lambda>m i. if Created E i > m then Created E i else m"
  have "m \<le> foldl ?g m is \<and> (\<forall>i \<in> set is. Created E i \<le> foldl ?g m is)" for m "is"
  proof (induction "is" arbitrary: m)
    case Nil
    then show ?case by simp
  next
    case (Cons i "is")
    from Cons.IH [of "?g m i"] show ?case by (auto split: if_splits)
  qed
  then show ?thesis using assms by (simp add: newest_complete_def)
qed

text \<open>C26. The comment of \<open>Retention\<close> promises that a full backup is never removed while a kept differential
  depends on it. That holds for a complete full backup (above). An incomplete one whose parts are older
  than a differential of its chain is removed although the differential stays.\<close>

theorem incomplete_full_removed_under_differential:
  assumes "is_shuffle sh" and "f \<in> set infos" "in_dir dir f" "\<not> IsDiff (Entry f)" "\<not> Complete f"
    and "s \<in> set infos" "in_dir dir s" "IsDiff (Entry s)" "Complete s" "ChainID (Entry s) = ChainID (Entry f)"
    and "\<forall>g \<in> set infos. in_dir dir g \<and> ChainID (Entry g) = ChainID (Entry f) \<and> Complete g \<longrightarrow> IsDiff (Entry g)"
    and "0 \<le> newestPartModTime d (Parts f)" "newestPartModTime d (Parts f) < Created E s"
  shows "f \<in> set (retentionCandidates E sh d dir infos keep keepDiffs) \<and> s \<notin> set (retentionCandidates E sh d dir infos keep keepDiffs)"
proof
  have "newestPartModTime d (Parts f) < newest_complete E dir infos" "newest_complete E dir infos \<noteq> 0"
    using newest_complete_ge [OF assms(6,7,9), of E] assms(12,13) by linarith+
  then show "f \<in> set (retentionCandidates E sh d dir infos keep keepDiffs)"
    using assms(2,3,5) by (auto simp: retentionCandidates_def Let_def)
  have no: "c \<notin> full_chains E dir infos" if "s \<in> set (c_sets c)" for c
    using that assms(10,11) by (auto simp: full_chains_def)
  show "s \<notin> set (retentionCandidates E sh d dir infos keep keepDiffs)"
  proof
    assume "s \<in> set (retentionCandidates E sh d dir infos keep keepDiffs)"
    from candidates_cases [OF this] assms(9) obtain c where
      "c \<in> set (cut_chains E sh dir infos keep) \<or> c \<in> set (ordered_chains E sh dir infos)" "s \<in> set (c_sets c)"
      using surplus_diff by blast
    with no cut_chain_of [OF assms(1)] ordered_chains_facts(1) [OF assms(1), where E = E and dir = dir and infos = infos]
    show False by blast
  qed
qed

section \<open>Which files the cleanup deletes\<close>

lemma deleteSetFiles_subset: "deleteSetFiles rm ps d = (ns, e, d') \<Longrightarrow> set ns \<subseteq> set ps"
proof (induction ps arbitrary: d ns e d')
  case Nil
  then show ?case by simp
next
  case (Cons p ps)
  obtain ns1 e1 d1 where 1: "deleteSetFiles rm ps (forget p d) = (ns1, e1, d1)" by (metis prod.exhaust)
  show ?case
  proof (cases "rm p")
    case Removed
    with 1 Cons.prems Cons.IH [OF 1] show ?thesis by auto
  next
    case NotExist
    with Cons.prems Cons.IH [of d ns e d'] show ?thesis by auto
  next
    case (RemoveError x)
    with Cons.prems show ?thesis by auto
  qed
qed

lemma delete_sets_subset: "delete_sets rm is d = (ns, e, n, b, d') \<Longrightarrow> x \<in> set ns \<Longrightarrow> \<exists>i \<in> set is. x \<in> set (Parts i)"
proof (induction "is" arbitrary: d ns e n b d')
  case Nil
  then show ?case by simp
next
  case (Cons i "is")
  obtain ns1 e1 d1 where 1: "deleteSetFiles rm (Parts i) d = (ns1, e1, d1)" by (metis prod.exhaust)
  show ?case
  proof (cases e1)
    case (Some e0)
    with 1 Cons.prems show ?thesis using deleteSetFiles_subset [OF 1] by auto
  next
    case None
    obtain ns2 e2 n2 b2 d2 where 2: "delete_sets rm is d1 = (ns2, e2, n2, b2, d2)" by (metis prod.exhaust)
    with 1 None Cons.prems have "x \<in> set ns1 \<or> x \<in> set ns2" by auto
    then show ?thesis using deleteSetFiles_subset [OF 1] Cons.IH [OF 2] by auto
  qed
qed

lemma delete_logs_sound:
  "delete_logs rm active legacy des d = (ns, e, d') \<Longrightarrow> n \<in> set ns \<Longrightarrow>
     \<exists>date rid. ParseLogFileName n = Some (date, rid) \<and> rid \<notin> active \<and> n \<notin> legacy"
proof (induction rm active legacy des d arbitrary: ns e d' rule: delete_logs.induct)
  case (1 rm active legacy d)
  then show ?case by simp
next
  case (2 rm active legacy m isdir des d)
  show ?case
  proof (cases "if isdir then None else ParseLogFileName m")
    case None
    with "2.prems" "2.IH"(1) [OF None] show ?thesis by simp
  next
    case (Some p)
    obtain date rid where p: "(date, rid) = p" by (cases p) simp
    note p' = p [symmetric]
    have parse: "ParseLogFileName m = Some (date, rid)" using Some p' by (simp split: if_splits)
    show ?thesis
    proof (cases "rid \<in> active \<or> m \<in> legacy")
      case True
      with "2.prems" "2.IH"(2) [OF Some p True] Some p' show ?thesis by simp
    next
      case False
      show ?thesis
      proof (cases "rm m")
        case Removed
        obtain ns1 e1 d1 where r: "delete_logs rm active legacy des (forget m d) = (ns1, e1, d1)" by (metis prod.exhaust)
        with "2.prems" Removed False Some p' have "n = m \<or> n \<in> set ns1" by auto
        then show ?thesis using "2.IH"(3) [OF Some p False Removed r] parse False by auto
      next
        case NotExist
        with "2.prems" "2.IH"(4) [OF Some p False NotExist] Some p' False show ?thesis by simp
      next
        case (RemoveError x)
        with "2.prems" Some p' False show ?thesis by simp
      qed
    qed
  qed
qed

lemma candidates_subset:
  "is_shuffle sh \<Longrightarrow> s \<in> set (retentionCandidates E sh d dir infos keep keepDiffs) \<Longrightarrow> s \<in> set infos \<and> in_dir dir s"
proof -
  assume sh: "is_shuffle sh" and s: "s \<in> set (retentionCandidates E sh d dir infos keep keepDiffs)"
  have c: "s \<in> set infos \<and> in_dir dir s" if "c \<in> full_chains E dir infos" "s \<in> set (c_sets c)" for c
    using that by (auto simp: full_chains_def)
  from candidates_cases [OF s] show ?thesis
    using c cut_chain_of [OF sh] ordered_chains_facts(1) [OF sh, where E = E and dir = dir and infos = infos] surplus_diff by blast
qed

lemma inventory_part_names:
  assumes "Inventory E shp d = Inr infos" "is_shuffle shp" "i \<in> set infos" "n \<in> set (Parts i)"
  shows "\<exists>seq. ParsePartFileName n = Some (Entry i, seq)"
proof -
  obtain parts where p: "listParts d = Inr parts" "mset infos = mset (map (\<lambda>(e, ps). inspectParts E d e ps) parts)"
    using Inventory_Inr(1) [OF assms(1,2)] by blast
  then have "i \<in> set (map (\<lambda>(e, ps). inspectParts E d e ps) parts)" using assms(3) by (metis mset_eq_setD)
  then obtain e ps where e: "(e, ps) \<in> set parts" "i = inspectParts E d e ps" by auto
  then obtain des where "ps = parts_of (parsed_parts des) e" using listParts_Inr [OF p(1)] by auto
  then obtain seq where "(e, seq, n) \<in> set (parsed_parts des)"
    using assms(4) e(2) by (auto simp: parts_of_def)
  then show ?thesis using e(2) by (auto simp: parsed_parts_iff)
qed

lemma Retention_Some:
  assumes "is_shuffle sh" "Retention E sh d sources infos keep keepDiffs = Inr removals" "removals dir = Some ss" "s \<in> set ss"
  shows "dir \<in> set (source_names sources) \<and> s \<in> set infos \<and> in_dir dir s"
proof -
  have "dir \<in> set (source_names sources) \<and> s \<in> set (retentionCandidates E sh d dir infos keep keepDiffs)"
    using assms(2-4) by (auto simp: Retention_def Let_def split: if_splits option.splits)
  with candidates_subset [OF assms(1), of s] show ?thesis by blast
qed

lemma applied_selection:
  assumes "n \<in> set (cl_deleted (applyRetentionPolicy E shp sh not_exist rm keep keepDiffs sources hold d))"
  shows "\<exists>infos removals. Inventory E shp d = Inr infos \<and> Retention E sh d sources infos keep keepDiffs = Inr removals
     \<and> \<not> (keep \<le> 0 \<and> keepDiffs \<le> 0)
     \<and> n \<in> set (cl_deleted (remove_selected E shp not_exist rm (source_names sources) hold removals d))"
proof -
  note a = assms [unfolded applyRetentionPolicy_def Let_def]
  have on: "\<not> (keep \<le> 0 \<and> keepDiffs \<le> 0)" "list_ex (\<lambda>s. SrcErr s = None) sources"
    using a by (auto simp: list_ex_iff split: if_splits)
  show ?thesis
  proof (cases "Inventory E shp d")
    case (Inl e)
    with a show ?thesis by (simp split: if_splits)
  next
    case (Inr infos)
    show ?thesis
    proof (cases "Retention E sh d sources infos keep keepDiffs")
      case (Inl u)
      with a Inr show ?thesis by (cases u) (simp split: if_splits)
    next
      case (Inr removals)
      with a \<open>Inventory E shp d = Inr infos\<close> on show ?thesis by (simp del: not_le split: if_splits)
    qed
  qed
qed

text \<open>C25. The cleanup touches nothing but RestoreSafe 2 files of the configured directories: every file it deletes
  is a part file of a set of a usable source directory that is not held back, or the log of a run; all
  other files, 1.x backups and temporary files included, are never deleted. When any set of the directories
  cannot be read, nothing is deleted at all.\<close>

theorem cleanup_deletes_only:
  assumes "is_shuffle shp" and "is_shuffle sh"
    and "n \<in> set (cl_deleted (applyRetentionPolicy E shp sh not_exist rm keep keepDiffs sources hold d))"
  shows "((\<exists>e seq. ParsePartFileName n = Some (e, seq) \<and> DirectoryName e \<in> set (source_names sources) \<and> \<not> hold (DirectoryName e))
       \<or> ParseLogFileName n \<noteq> None)
    \<and> (\<exists>infos. Inventory E shp d = Inr infos \<and> unreadable_set (source_names sources) infos = None)"
proof -
  obtain infos removals where i: "Inventory E shp d = Inr infos" "Retention E sh d sources infos keep keepDiffs = Inr removals"
    and on: "\<not> (keep \<le> 0 \<and> keepDiffs \<le> 0)"
    and sel: "n \<in> set (cl_deleted (remove_selected E shp not_exist rm (source_names sources) hold removals d))"
    using applied_selection [OF assms(3)] by blast
  define gone where "gone = concat (map (\<lambda>n. the (removals n)) (sort (filter (\<lambda>n. removals n \<noteq> None \<and> \<not> hold n) (source_names sources))))"
  note sel' = sel [unfolded remove_selected_def Let_def, folded gone_def]
  obtain ns e m b d' where del: "delete_sets rm gone d = (ns, e, m, b, d')" by (metis prod.exhaust)
  obtain logs le d'' where lg: "deleteOrphanLogFiles E shp not_exist rm d' = (logs, le, d'')" by (metis prod.exhaust)
  have u: "unreadable_set (source_names sources) infos = None"
    using i(2) on by (cases "unreadable_set (source_names sources) infos") (auto simp: Retention_def Let_def)
  have "n \<in> set ns \<or> n \<in> set logs"
    using sel' del lg by (cases e) simp_all
  then show ?thesis
  proof
    assume "n \<in> set ns"
    then obtain s where s: "s \<in> set gone" "n \<in> set (Parts s)" using delete_sets_subset [OF del] by blast
    then obtain dir ss where dir: "removals dir = Some ss" "\<not> hold dir" "s \<in> set ss" by (auto simp: gone_def)
    from Retention_Some [OF assms(2) i(2) dir(1,3)] have r: "dir \<in> set (source_names sources)" "s \<in> set infos" "in_dir dir s" by auto
    with inventory_part_names [OF i(1) assms(1) r(2) s(2)] dir(2) i(1) u show ?thesis by (auto simp: in_dir_def)
  next
    assume "n \<in> set logs"
    then obtain infos' des where "delete_logs rm (active_ids infos') (set (List.map_filter (\<lambda>p. LegacyLogFileName (fst p)) des)) des d' = (logs, le, d'')"
      using lg by (auto simp: deleteOrphanLogFiles_def split: sum.splits)
    from delete_logs_sound [OF this \<open>n \<in> set logs\<close>] i(1) u show ?thesis by auto
  qed
qed

section \<open>Examples\<close>

text \<open>Sets created at time \<open>t\<close>, for an environment in which the time of a text is its length.\<close>

definition demo_clock :: format_env where
  "demo_clock = demo_format\<lparr>fe_time := \<lambda>s. Some (int (length s))\<rparr>"

definition demo_set :: "string \<Rightarrow> nat \<Rightarrow> nat \<Rightarrow> set_info" where
  "demo_set cid n t = (demo_info (demo_entry\<lparr>ChainID := cid, DiffNumber := n\<rparr>))
     \<lparr>Header := Some (demo_header\<lparr>h_CreatedUTC := replicate t (CHR ''x'')\<rparr>)\<rparr>"

lemma demo_set_simps [simp]:
  "Entry (demo_set cid n t) = demo_entry\<lparr>ChainID := cid, DiffNumber := n\<rparr>" "Complete (demo_set cid n t)"
  "Created demo_clock (demo_set cid n t) = int t" "in_dir ''Docs'' (demo_set cid n t)" "IsDiff (Entry (demo_set cid n t)) \<longleftrightarrow> 0 < n"
  by (simp_all add: demo_set_def demo_info_def Complete_def Created_def HeaderCreated_def demo_clock_def in_dir_def demo_entry_def IsDiff_def)

lemma demo_set_neq [simp]: "demo_set c n t = demo_set c' n' t' \<longleftrightarrow> c = c' \<and> n = n' \<and> t = t'"
proof
  assume eq: "demo_set c n t = demo_set c' n' t'"
  have "Created demo_clock (demo_set c n t) = Created demo_clock (demo_set c' n' t')"
    "Entry (demo_set c n t) = Entry (demo_set c' n' t')" using eq by simp_all
  then show "c = c' \<and> n = n' \<and> t = t'" by (simp add: demo_entry_def)
qed simp

abbreviation demo_chains :: "set_info list" where
  "demo_chains \<equiv> [demo_set ''B'' 0 4, demo_set ''A'' 2 3, demo_set ''A'' 1 2, demo_set ''A'' 0 1]"

lemma demo_candidates:
  "retentionCandidates demo_clock (\<lambda>xs. xs) d ''Docs'' demo_chains 1 0 = [demo_set ''A'' 2 3, demo_set ''A'' 1 2, demo_set ''A'' 0 1]"
  "retentionCandidates demo_clock (\<lambda>xs. xs) d ''Docs'' demo_chains 0 1 = [demo_set ''A'' 1 2]"
  by (simp_all add: retentionCandidates_def ordered_chains_def chain_ids_def chain_of_def Let_def newer_chain_def demo_entry_def
      surplusDifferentials_def later_diff_def IsDiff_def)

definition demo_log_dir :: backup_dir where
  "demo_log_dir = \<lparr>dir_list = Inr [(''2025-01-02_ABC123.log'', False), (''notes.txt'', False)], dir_size = (\<lambda>_. Inr 0),
     dir_mtime = (\<lambda>_. Inr 0), dir_data = (\<lambda>_. Inr [])\<rparr>"

theorem retention_never_strands_witness:
  "demo_set ''A'' 1 2 \<in> set (retentionCandidates demo_clock (\<lambda>xs. xs) demo_log_dir ''Docs'' demo_chains 1 0)"
  by (rule retention_never_strands [OF shuffle_id(1), of "demo_set ''A'' 0 1"]) (simp_all only: demo_candidates, simp_all add: demo_entry_def IsDiff_def)

theorem retention_keeps_newest_witness:
  "demo_set ''B'' 0 4 \<notin> set (retentionCandidates demo_clock (\<lambda>xs. xs) demo_log_dir ''Docs'' demo_chains 1 0)
     \<and> 1 \<le> card {c \<in> full_chains demo_clock ''Docs'' demo_chains. newer_chain c (chain_of demo_clock ''Docs'' demo_chains ''A'')}"
  using retention_keeps_newest [OF shuffle_id(1), of "demo_set ''A'' 0 1" demo_chains "''Docs''" demo_clock demo_log_dir 1 0]
  unfolding demo_candidates by (simp add: demo_entry_def IsDiff_def)

lemma retention_keeps_newest_differentials_witness:
  "1 \<le> card {y \<in> set demo_chains. in_dir ''Docs'' y \<and> Complete y \<and> ChainID (Entry y) = ''A'' \<and> IsDiff (Entry y)
     \<and> y \<noteq> demo_set ''A'' 1 2 \<and> \<not> later_diff demo_clock (demo_set ''A'' 1 2) y}"
  using retention_keeps_newest_differentials [OF shuffle_id(1), of demo_chains "demo_set ''A'' 1 2" "''Docs''" demo_clock demo_log_dir 0 1 "demo_set ''A'' 0 1"]
  unfolding demo_candidates by (simp add: demo_entry_def IsDiff_def del: One_nat_def)

theorem incomplete_full_removed_under_differential_witness:
  "(demo_set ''A'' 0 1)\<lparr>Err := Some (Incomplete [])\<rparr>
     \<in> set (retentionCandidates demo_clock (\<lambda>xs. xs) demo_log_dir ''Docs''
         [demo_set ''A'' 1 5, (demo_set ''A'' 0 1)\<lparr>Err := Some (Incomplete [])\<rparr>] 3 0)"
proof -
  let ?f = "(demo_set ''A'' 0 1)\<lparr>Err := Some (Incomplete [])\<rparr>"
  have f: "in_dir ''Docs'' ?f" "\<not> IsDiff (Entry ?f)" "\<not> Complete ?f" "ChainID (Entry ?f) = ''A''" "newestPartModTime demo_log_dir (Parts ?f) = 0"
    by (simp_all add: demo_set_def demo_info_def in_dir_def demo_entry_def IsDiff_def Complete_def newestPartModTime_def)
  show ?thesis
    by (rule incomplete_full_removed_under_differential [OF shuffle_id(1), of ?f _ _ "demo_set ''A'' 1 5", THEN conjunct1])
       (use f in \<open>auto simp: demo_entry_def IsDiff_def\<close>)
qed

lemma demo_cleanup:
  defines "r \<equiv> applyRetentionPolicy demo_clock (\<lambda>xs. xs) (\<lambda>xs. xs) (\<lambda>_. False) (\<lambda>_. Removed) 1 0 [demo_source] (\<lambda>_. False) demo_log_dir"
  shows "cl_deleted r = [''2025-01-02_ABC123.log'']" "cl_fact r = Some (ResultOK, 0, 0)" "cl_err r = None"
    "ParsePartFileName ''2025-01-02_ABC123.log'' = None"
proof -
  show p: "ParsePartFileName ''2025-01-02_ABC123.log'' = None" by code_simp
  have q: "ParsePartFileName ''notes.txt'' = None" "ParseLogFileName ''2025-01-02_ABC123.log'' = Some (''2025-01-02'', ''ABC123'')"
    "ParseLogFileName ''notes.txt'' = None" "LegacyLogFileName ''2025-01-02_ABC123.log'' = None" "LegacyLogFileName ''notes.txt'' = None"
    by code_simp+
  with p have inv: "Inventory demo_clock (\<lambda>xs. xs) demo_log_dir = Inr []"
    by (simp add: Inventory_def listParts_def demo_log_dir_def parsed_parts_def List.map_filter_simps Let_def sortNewestFirst_def)
  have "Retention demo_clock (\<lambda>xs. xs) demo_log_dir [demo_source] [] 1 0 = Inr (\<lambda>_. None)"
    by (simp add: Retention_def source_names_def unreadable_set_def retentionCandidates_def ordered_chains_def chain_ids_def Let_def fun_eq_iff)
  with inv p q show "cl_deleted r = [''2025-01-02_ABC123.log'']" "cl_fact r = Some (ResultOK, 0, 0)" "cl_err r = None"
    unfolding r_def
    by (simp_all add: applyRetentionPolicy_def demo_source_def remove_selected_def deleteOrphanLogFiles_def active_ids_def Let_def)
       (simp_all add: demo_log_dir_def List.map_filter_simps active_ids_def)
qed

theorem cleanup_deletes_only_witness:
  "cl_deleted (applyRetentionPolicy demo_clock (\<lambda>xs. xs) (\<lambda>xs. xs) (\<lambda>_. False) (\<lambda>_. Removed) 1 0 [demo_source] (\<lambda>_. False) demo_log_dir)
     = [''2025-01-02_ABC123.log''] \<and> ParseLogFileName ''2025-01-02_ABC123.log'' \<noteq> None"
proof -
  let ?r = "applyRetentionPolicy demo_clock (\<lambda>xs. xs) (\<lambda>xs. xs) (\<lambda>_. False) (\<lambda>_. Removed) 1 0 [demo_source] (\<lambda>_. False) demo_log_dir"
  have "''2025-01-02_ABC123.log'' \<in> set (cl_deleted ?r)" by (simp add: demo_cleanup)
  from cleanup_deletes_only [OF shuffle_id(1) shuffle_id(1) this] demo_cleanup have "ParseLogFileName ''2025-01-02_ABC123.log'' \<noteq> None" by auto
  then show ?thesis by (simp add: demo_cleanup)
qed

end
