(* ===== verification/WinFile.thy ===== *)
theory WinFile
  imports Manifest "HOL-Library.Signed_Division"
begin

text \<open>
  Times, attributes and the files of a restore destination (\<open>format/archive/winfile.go\<close>). The destination
  is a map from paths (their elements, folded as the file system compares names) to nodes; every call of
  the system may fail, which the environment decides by the number of the call, and it decides whether a
  folder is a link when it is asked.
\<close>

section \<open>File times\<close>

definition filetimeEpochDelta :: int where "filetimeEpochDelta = 116444736000000000"

definition wrap64 :: "int \<Rightarrow> int" where "wrap64 x = signed_take_bit 63 x"

definition filetimeToUnixNano :: "int \<Rightarrow> int" where
  "filetimeToUnixNano ft = (if ft = 0 then 0 else wrap64 (wrap64 (ft - filetimeEpochDelta) * 100))"

text \<open>A \<open>Filetime\<close> is its low and its high word; Go's division rounds to zero.\<close>

type_synonym filetime = "32 word \<times> 32 word"

definition unixNanoToFiletime :: "int \<Rightarrow> filetime" where
  "unixNanoToFiletime ns = (if ns = 0 then (0, 0)
     else let ft = ns sdiv 100 + filetimeEpochDelta in (word_of_int ft, word_of_int (drop_bit 32 ft)))"

definition filetime_value :: "filetime \<Rightarrow> int" where
  "filetime_value ft = uint (snd ft) * 2 ^ 32 + uint (fst ft)"

lemma wrap64_id: "- (2 ^ 63) \<le> x \<Longrightarrow> x < 2 ^ 63 \<Longrightarrow> wrap64 x = x"
  unfolding wrap64_def by (rule signed_take_bit_int_eq_self) auto

lemma filetime_value_words:
  "0 \<le> ft \<Longrightarrow> ft < 2 ^ 64 \<Longrightarrow> filetime_value (word_of_int ft, word_of_int (drop_bit 32 ft)) = ft"
proof -
  assume ft: "0 \<le> ft" "ft < 2 ^ 64"
  have "take_bit 32 (drop_bit 32 ft) = drop_bit 32 ft"
    using ft by (simp add: take_bit_int_eq_self drop_bit_eq_div)
  moreover have "drop_bit 32 ft * 2 ^ 32 + take_bit 32 ft = ft"
    by (simp add: drop_bit_eq_div take_bit_eq_mod)
  ultimately show ?thesis using ft by (simp add: filetime_value_def unsigned_of_int)
qed

lemma hundred_sdiv: "(k * 100) sdiv 100 = (k :: int)"
  by (simp add: signed_divide_int_def sgn_mult abs_mult sgn_mult_abs)

text \<open>A file time survives the way into the manifest and back: for every time from 1677 to 2262 except the first instant of 1970, which the manifest cannot tell from no time, the \<open>Filetime\<close> that restore sets is the one that was read.\<close>

lemma filetime_roundtrip:
  assumes "0 < ft" "\<bar>ft - filetimeEpochDelta\<bar> \<le> 92233720368547758" "ft \<noteq> filetimeEpochDelta"
  shows "filetime_value (unixNanoToFiletime (filetimeToUnixNano ft)) = ft"
proof -
  have r: "- 92233720368547758 \<le> ft - filetimeEpochDelta" "ft - filetimeEpochDelta \<le> 92233720368547758" using assms(2) by auto
  have "wrap64 (ft - filetimeEpochDelta) = ft - filetimeEpochDelta" using r by (intro wrap64_id) auto
  moreover have "wrap64 ((ft - filetimeEpochDelta) * 100) = (ft - filetimeEpochDelta) * 100" using r by (intro wrap64_id) auto
  ultimately have n: "filetimeToUnixNano ft = (ft - filetimeEpochDelta) * 100" using assms(1) by (simp add: filetimeToUnixNano_def)
  have "ft < 2 ^ 64" using r by (simp add: filetimeEpochDelta_def)
  then show ?thesis using assms(1,3) n hundred_sdiv [of "ft - filetimeEpochDelta"]
    by (simp add: unixNanoToFiletime_def Let_def filetime_value_words)
qed

lemma filetime_roundtrip_witness:
  "filetime_value (unixNanoToFiletime (filetimeToUnixNano 133000000000000001)) = 133000000000000001"
  by (rule filetime_roundtrip) (simp_all add: filetimeEpochDelta_def)

section \<open>Steps that may fail\<close>

text \<open>One step after another on the same state; the first error ends them.\<close>

definition andThen :: "err option \<times> 's \<Rightarrow> ('s \<Rightarrow> err option \<times> 's) \<Rightarrow> err option \<times> 's" where
  "andThen r f = (case r of (None, s) \<Rightarrow> f s | (Some e, s) \<Rightarrow> (Some e, s))"

lemma andThen_simps [simp]: "andThen (None, s) f = f s" "andThen (Some e, s) f = (Some e, s)"
  by (simp_all add: andThen_def)

lemma andThen_None: "andThen r f = (None, s') \<longleftrightarrow> (\<exists>s. r = (None, s) \<and> f s = (None, s'))"
  by (cases r) (auto simp: andThen_def split: option.splits)

section \<open>The destination\<close>

record dnode =
  dn_data :: "bytes option"
  dn_created :: "filetime option"
  dn_written :: "filetime option"
  dn_attrs :: "32 word"

record disk =
  dk_nodes :: "string list \<rightharpoonup> dnode"
  dk_calls :: nat

record disk_env =
  de_fold :: "string \<Rightarrow> string"
  de_fault :: "nat \<Rightarrow> err option"
  de_link :: "nat \<Rightarrow> bool"

definition node_key :: "disk_env \<Rightarrow> string list \<Rightarrow> string list" where
  "node_key env p = map (de_fold env) p"

definition os_call :: "disk_env \<Rightarrow> disk \<Rightarrow> err option \<times> disk" where
  "os_call env d = (de_fault env (dk_calls d), d\<lparr>dk_calls := Suc (dk_calls d)\<rparr>)"

definition is_dir :: "disk_env \<Rightarrow> disk \<Rightarrow> string list \<Rightarrow> bool" where
  "is_dir env d p \<longleftrightarrow> map_option dn_data (dk_nodes d (node_key env p)) = Some None"

lemma is_dir_iff: "is_dir env d p \<longleftrightarrow> (\<exists>n. dk_nodes d (node_key env p) = Some n \<and> dn_data n = None)"
  by (auto simp: is_dir_def)

definition not_found :: err where "not_found = IOError ''file does not exist''"
definition already_exists :: err where "already_exists = IOError ''file already exists''"

definition new_node :: "bytes option \<Rightarrow> dnode" where
  "new_node data = \<lparr>dn_data = data, dn_created = None, dn_written = None, dn_attrs = 0\<rparr>"

text \<open>A new node in a folder; the folder's own last-write time becomes the present.\<close>

definition add_node :: "disk_env \<Rightarrow> string list \<Rightarrow> bytes option \<Rightarrow> disk \<Rightarrow> disk" where
  "add_node env p data d = d\<lparr>dk_nodes := (dk_nodes d)
     (node_key env (butlast p) := map_option (\<lambda>n. n\<lparr>dn_written := None\<rparr>) (dk_nodes d (node_key env (butlast p))),
      node_key env p := Some (new_node data))\<rparr>"

definition os_create :: "disk_env \<Rightarrow> string list \<Rightarrow> bytes option \<Rightarrow> disk \<Rightarrow> err option \<times> disk" where
  "os_create env p data d = andThen (os_call env d) (\<lambda>d.
     if dk_nodes d (node_key env p) \<noteq> None then (Some already_exists, d)
     else if p = [] \<or> \<not> is_dir env d (butlast p) then (Some not_found, d)
     else (None, add_node env p data d))"

definition os_write :: "disk_env \<Rightarrow> string list \<Rightarrow> bytes \<Rightarrow> disk \<Rightarrow> disk" where
  "os_write env p data d = d\<lparr>dk_nodes := (dk_nodes d)(node_key env p :=
     map_option (\<lambda>n. n\<lparr>dn_data := Some data\<rparr>) (dk_nodes d (node_key env p)))\<rparr>"

definition checkNotReparsePoint :: "disk_env \<Rightarrow> string list \<Rightarrow> disk \<Rightarrow> err option \<times> disk" where
  "checkNotReparsePoint env p d = (case os_call env d of
     (Some e, d') \<Rightarrow> (Some (Wrapped ''Failed to check the restore folder %q: %w.'' e), d')
   | (None, d') \<Rightarrow>
       if dk_nodes d (node_key env p) = None then (Some (Wrapped ''Failed to check the restore folder %q: %w.'' not_found), d')
       else if de_link env (dk_calls d)
         then (Some (Problem ''The restore folder %q is a link to another place (a junction or symbolic link).''), d')
       else (None, d'))"

definition set_time :: "int \<Rightarrow> filetime option \<Rightarrow> filetime option" where
  "set_time t old = (if t = 0 then old else Some (unixNanoToFiletime t))"

definition setTimes :: "disk_env \<Rightarrow> string list \<Rightarrow> int \<Rightarrow> int \<Rightarrow> disk \<Rightarrow> err option \<times> disk" where
  "setTimes env p creation modTime d =
     (case os_call env d of (Some e, d) \<Rightarrow> (Some (Wrapped ''Failed to open %q to set timestamps: %w'' e), d) | (None, d) \<Rightarrow>
      case dk_nodes d (node_key env p) of
        None \<Rightarrow> (Some (Wrapped ''Failed to open %q to set timestamps: %w'' not_found), d)
      | Some n \<Rightarrow>
      (case os_call env d of (Some e, d) \<Rightarrow> (Some (Wrapped ''Failed to set timestamps of %q: %w'' e), d) | (None, d) \<Rightarrow>
         (None, d\<lparr>dk_nodes := (dk_nodes d)(node_key env p \<mapsto>
            n\<lparr>dn_created := set_time creation (dn_created n), dn_written := set_time modTime (dn_written n)\<rparr>)\<rparr>)))"

definition setAttributes :: "disk_env \<Rightarrow> string list \<Rightarrow> 32 word \<Rightarrow> disk \<Rightarrow> err option \<times> disk" where
  "setAttributes env p attrs d =
     (let attrs = attrs AND AttrMask in
      if attrs = 0 then (None, d)
      else case os_call env d of (Some e, d) \<Rightarrow> (Some (Wrapped ''Failed to read attributes of %q: %w'' e), d) | (None, d) \<Rightarrow>
      case dk_nodes d (node_key env p) of
        None \<Rightarrow> (Some (Wrapped ''Failed to read attributes of %q: %w'' not_found), d)
      | Some n \<Rightarrow>
      (case os_call env d of (Some e, d) \<Rightarrow> (Some (Wrapped ''Failed to set attributes of %q: %w'' e), d) | (None, d) \<Rightarrow>
         (None, d\<lparr>dk_nodes := (dk_nodes d)(node_key env p \<mapsto> n\<lparr>dn_attrs := dn_attrs n OR attrs\<rparr>)\<rparr>)))"

text \<open>
  \<open>extendedPath\<close>: \<open>is_abs\<close> and \<open>clean\<close> are those of \<open>path/filepath\<close>.
\<close>

definition extendedPath :: "(string \<Rightarrow> bool) \<Rightarrow> (string \<Rightarrow> string) \<Rightarrow> string \<Rightarrow> string" where
  "extendedPath is_abs clean path =
     (if length path < 248 \<or> \<not> is_abs path \<or> take 4 path = [CHR 0x5C, CHR 0x5C, CHR ''?'', CHR 0x5C] then path
      else let path = clean path in
        if take 2 path = [CHR 0x5C, CHR 0x5C] then [CHR 0x5C, CHR 0x5C, CHR ''?'', CHR 0x5C] @ ''UNC'' @ [CHR 0x5C] @ drop 2 path
        else [CHR 0x5C, CHR 0x5C, CHR ''?'', CHR 0x5C] @ path)"

end
