(* ===== verification/Build.thy ===== *)
theory Build
  imports Manifest Crypto
begin

text \<open>
  Building the data section of a set (\<open>format/archive/build.go\<close>): the walk over the source directory,
  which records one manifest entry per directory and file and puts the content of files into a TAR
  stream. The source directory is a tree of what the operating system answers for each entry; a TAR
  stream is the list of its members (names and contents), its bytes and their length are left to
  \<open>archive/tar\<close>.
\<close>

section \<open>The source directory\<close>

record basic_info =
  bi_ModTime :: int
  bi_ChangeTime :: int
  bi_CreationTime :: int
  bi_Attributes :: "32 word"

text \<open>
  What the system answers for one entry of the walk: its name and whether it is a directory, \<open>d.Info()\<close>
  (the size and whether it is a plain file or directory), the error of listing a directory, \<open>statBasic\<close>,
  opening it for reading with its information and size, and what reading it delivers.
\<close>

record entry_info =
  n_name :: string
  n_isdir :: bool
  n_info :: "(int \<times> bool) result"
  n_listing :: "err option"
  n_basic :: "basic_info result"
  n_open :: "(basic_info \<times> int) result"
  n_read :: source

datatype tree = Tree entry_info "tree list"

section \<open>The builder\<close>

record tar_item =
  ti_name :: string
  ti_data :: bytes

record build_stats =
  st_Excluded :: nat
  st_Skipped :: nat
  st_Stale :: nat
  st_Vanished :: nat
  st_Unchanged :: nat
  st_Stored :: nat

text \<open>
  The options: the directories left out and the exclude patterns as predicates on the path, the base of a
  differential, \<open>errors.Is(err, fs.ErrNotExist)\<close>, the text of an error, the length of a TAR stream, and
  the outcome of the \<open>k\<close>-th check of the context or operation on the stream.
\<close>

record build_opts =
  bo_excluded :: "string \<Rightarrow> bool"
  bo_match :: "string \<Rightarrow> bool \<Rightarrow> bool"
  bo_skip :: bool
  bo_base :: "manifest option"
  bo_not_exist :: "err \<Rightarrow> bool"
  bo_text :: "err \<Rightarrow> string"
  bo_sha256 :: "bytes \<Rightarrow> bytes"
  bo_tar_len :: "tar_item list \<Rightarrow> int"
  bo_op :: "nat \<Rightarrow> err option"

record tar_builder =
  tb_mb :: builder
  tb_items :: "tar_item list"
  tb_stats :: build_stats
  tb_ops :: nat
  tb_onskip :: "(string \<times> string \<times> bool) list"
  tb_progress :: int

definition tb_add :: "mentry \<Rightarrow> tar_builder \<Rightarrow> tar_builder" where
  "tb_add e b = b\<lparr>tb_mb := Add e (tb_mb b)\<rparr>"

definition tb_op :: "build_opts \<Rightarrow> tar_builder \<Rightarrow> err option \<times> tar_builder" where
  "tb_op opts b = (bo_op opts (tb_ops b), b\<lparr>tb_ops := Suc (tb_ops b)\<rparr>)"

text \<open>\<open>baseFiles\<close> of \<open>newTarBuilder\<close>: the files of the full backup by path, the last one of a path.\<close>

definition base_file :: "build_opts \<Rightarrow> string \<Rightarrow> mentry option" where
  "base_file opts rel = (case bo_base opts of None \<Rightarrow> None
     | Some m \<Rightarrow> find (\<lambda>e. EType e = TypeFile \<and> Path e = rel) (rev (m_Entries m)))"

definition tb_origin :: "build_opts \<Rightarrow> string" where
  "tb_origin opts = (if bo_base opts = None then OriginFull else OriginDiff)"

definition newTarBuilder :: "builder \<Rightarrow> tar_builder" where
  "newTarBuilder mb = \<lparr>tb_mb = mb, tb_items = [], tb_stats = \<lparr>st_Excluded = 0, st_Skipped = 0, st_Stale = 0, st_Vanished = 0,
     st_Unchanged = 0, st_Stored = 0\<rparr>, tb_ops = 0, tb_onskip = [], tb_progress = 0\<rparr>"

definition unchanged_since :: "mentry \<Rightarrow> int \<Rightarrow> basic_info \<Rightarrow> bool" where
  "unchanged_since base sz meta \<longleftrightarrow> Size base = sz \<and> ModTime base = bi_ModTime meta \<and> ChangeTime base = bi_ChangeTime meta"

definition fromBase :: "mentry \<Rightarrow> bool \<Rightarrow> bool \<Rightarrow> mentry" where
  "fromBase base stale void = base\<lparr>Origin := OriginFull, Offset := None, Stale := stale, Void := void\<rparr>"

definition count_skipped :: "build_opts \<Rightarrow> string \<Rightarrow> err \<Rightarrow> tar_builder \<Rightarrow> tar_builder" where
  "count_skipped opts rel e b = b\<lparr>tb_stats := (tb_stats b)\<lparr>st_Skipped := Suc (st_Skipped (tb_stats b))\<rparr>,
     tb_onskip := tb_onskip b @ [(rel, bo_text opts e, False)]\<rparr>"

definition skipFile :: "build_opts \<Rightarrow> string \<Rightarrow> err \<Rightarrow> bool \<Rightarrow> tar_builder \<Rightarrow> tar_builder" where
  "skipFile opts rel e headerWritten b =
     (case base_file opts rel of
        Some base \<Rightarrow> let b = tb_add (fromBase base True headerWritten) b in
          b\<lparr>tb_stats := (tb_stats b)\<lparr>st_Stale := Suc (st_Stale (tb_stats b))\<rparr>,
            tb_onskip := tb_onskip b @ [(rel, bo_text opts e, True)]\<rparr>
      | None \<Rightarrow> count_skipped opts rel e (tb_add ((skipped_entry rel (bo_text opts e))\<lparr>Void := headerWritten\<rparr>) b))"

definition vanish :: "tar_builder \<Rightarrow> tar_builder" where
  "vanish b = b\<lparr>tb_stats := (tb_stats b)\<lparr>st_Vanished := Suc (st_Vanished (tb_stats b))\<rparr>\<rparr>"

text \<open>
  \<open>writeFile\<close>: the manifest entry of a file whose content is now in the stream; or that it could not be
  read, with whether a member was started; or that writing failed, which ends the backup. A member that
  was started is filled up with zeros.
\<close>

datatype write_outcome = Written mentry | Unreadable err bool | WriteFailed err

definition put_item :: "string \<Rightarrow> bytes \<Rightarrow> tar_builder \<Rightarrow> tar_builder" where
  "put_item rel c b = b\<lparr>tb_items := tb_items b @ [\<lparr>ti_name = rel, ti_data = c\<rparr>]\<rparr>"

definition stored_entry :: "build_opts \<Rightarrow> string \<Rightarrow> basic_info \<Rightarrow> bytes \<Rightarrow> int \<Rightarrow> mentry" where
  "stored_entry opts rel meta c offset = \<lparr>Path = rel, EType = TypeFile, Size = int (length c), ModTime = bi_ModTime meta,
     ChangeTime = bi_ChangeTime meta, CreationTime = bi_CreationTime meta, Attributes = bi_Attributes meta,
     Hash = hex_encode (bo_sha256 opts c), Origin = tb_origin opts, Offset = Some offset, Stale = False, Void = False, Reason = []\<rparr>"

definition writeFile :: "build_opts \<Rightarrow> string \<Rightarrow> entry_info \<Rightarrow> tar_builder \<Rightarrow> write_outcome \<times> tar_builder" where
  "writeFile opts rel i b0 =
     (case n_open i of Inl e \<Rightarrow> (Unreadable e False, b0) | Inr (meta, sz) \<Rightarrow>
      case tb_op opts b0 of (Some e, b) \<Rightarrow> (WriteFailed (Internal ''Failed to write TAR stream: %w''), b) | (None, b1) \<Rightarrow>
      let offset = bo_tar_len opts (tb_items b1) in
      case tb_op opts b1 of (Some e, b) \<Rightarrow> (WriteFailed (Internal ''Failed to write TAR header for %q: %w''), b) | (None, b2) \<Rightarrow>
      let got = fst (n_read i); c = take (nat sz) got in
      case tb_op opts b2 of (Some e, b) \<Rightarrow> (WriteFailed (Internal ''Failed to write %q to the backup: %w''), b) | (None, b3) \<Rightarrow>
      let b4 = b3\<lparr>tb_progress := tb_progress b3 + int (length c)\<rparr> in
      if length c < nat sz then
        (case tb_op opts b4 of (Some e, b) \<Rightarrow> (WriteFailed (Internal ''Failed to write TAR stream: %w''), b) | (None, b5) \<Rightarrow>
           (Unreadable (case snd (n_read i) of Some e \<Rightarrow> e | None \<Rightarrow> Internal ''the file became smaller during backup (%d of %d bytes)'') True,
            put_item rel (c @ replicate (nat sz - length c) 0) b5))
      else if length got > nat sz then (Unreadable (Internal ''the file grew during backup'') True, put_item rel c b4)
      else (Written (stored_entry opts rel meta c offset), put_item rel c b4))"

section \<open>The walk\<close>

datatype visit_result = Go | SkipDir | Fail err

definition skipDirOrNil :: "entry_info \<Rightarrow> visit_result" where
  "skipDirOrNil i = (if n_isdir i then SkipDir else Go)"

definition newUnreadable :: "err \<Rightarrow> err" where
  "newUnreadable e = Wrapped ''Cannot read %q: %v.'' e"

definition unlisted :: "build_opts \<Rightarrow> string \<Rightarrow> entry_info \<Rightarrow> err \<Rightarrow> tar_builder \<Rightarrow> visit_result \<times> tar_builder" where
  "unlisted opts rel i e b =
     (if bo_not_exist opts e then (skipDirOrNil i, vanish b)
      else if \<not> bo_skip opts then (Fail (newUnreadable e), b)
      else let b = (case SkipLastDirectory rel (bo_text opts e) (tb_mb b) of
          (True, mb) \<Rightarrow> b\<lparr>tb_mb := mb\<rparr>
        | (False, _) \<Rightarrow> tb_add (skipped_entry rel (bo_text opts e)) b)
      in (skipDirOrNil i, count_skipped opts rel e b))"

definition unstatable :: "build_opts \<Rightarrow> string \<Rightarrow> entry_info \<Rightarrow> err \<Rightarrow> tar_builder \<Rightarrow> visit_result \<times> tar_builder" where
  "unstatable opts rel i e b =
     (if bo_not_exist opts e then (skipDirOrNil i, vanish b)
      else if \<not> bo_skip opts then (Fail (newUnreadable e), b)
      else if n_isdir i then (SkipDir, count_skipped opts rel e (tb_add (skipped_entry rel (bo_text opts e)) b))
      else (Go, skipFile opts rel e False b))"

definition dir_entry :: "string \<Rightarrow> basic_info \<Rightarrow> mentry" where
  "dir_entry rel meta = (skipped_entry rel [])\<lparr>EType := TypeDir, ModTime := bi_ModTime meta,
     CreationTime := bi_CreationTime meta, Attributes := bi_Attributes meta\<rparr>"

definition addDir :: "build_opts \<Rightarrow> string \<Rightarrow> entry_info \<Rightarrow> tar_builder \<Rightarrow> visit_result \<times> tar_builder" where
  "addDir opts rel i b = (case n_basic i of
     Inl e \<Rightarrow>
       if bo_not_exist opts e then (SkipDir, vanish b)
       else if \<not> bo_skip opts then (Fail (newUnreadable e), b)
       else (SkipDir, count_skipped opts rel e (tb_add (skipped_entry rel (bo_text opts e)) b))
   | Inr meta \<Rightarrow> (Go, tb_add (dir_entry rel meta) b))"

definition addFile :: "build_opts \<Rightarrow> string \<Rightarrow> entry_info \<Rightarrow> int \<Rightarrow> tar_builder \<Rightarrow> visit_result \<times> tar_builder" where
  "addFile opts rel i sz b =
     (let same = (case (base_file opts rel, n_basic i) of
        (Some base, Inr meta) \<Rightarrow> if unchanged_since base sz meta then Some base else None
      | _ \<Rightarrow> None)
      in case same of
        Some base \<Rightarrow> (let b = tb_add (fromBase base False False) b in
          (Go, b\<lparr>tb_stats := (tb_stats b)\<lparr>st_Unchanged := Suc (st_Unchanged (tb_stats b))\<rparr>, tb_progress := tb_progress b + sz\<rparr>))
      | None \<Rightarrow> (case writeFile opts rel i b of
          (WriteFailed e, b') \<Rightarrow> (Fail e, b')
        | (Unreadable e headerWritten, b') \<Rightarrow>
            if bo_not_exist opts e \<and> \<not> headerWritten then (Go, vanish b')
            else if \<not> bo_skip opts then (Fail (newUnreadable e), b')
            else (Go, skipFile opts rel e headerWritten b')
        | (Written e, b') \<Rightarrow> (let b' = tb_add e b' in
            (Go, b'\<lparr>tb_stats := (tb_stats b')\<lparr>st_Stored := Suc (st_Stored (tb_stats b'))\<rparr>\<rparr>))))"

definition visit :: "build_opts \<Rightarrow> string \<Rightarrow> entry_info \<Rightarrow> err option \<Rightarrow> tar_builder \<Rightarrow> visit_result \<times> tar_builder" where
  "visit opts rel i werr b0 =
     (case tb_op opts b0 of (Some e, b) \<Rightarrow> (Fail e, b) | (None, b) \<Rightarrow>
      case werr of Some e \<Rightarrow> unlisted opts rel i e b | None \<Rightarrow>
      if bo_excluded opts rel then (skipDirOrNil i, b)
      else if bo_match opts rel (n_isdir i)
        then (skipDirOrNil i, b\<lparr>tb_stats := (tb_stats b)\<lparr>st_Excluded := Suc (st_Excluded (tb_stats b))\<rparr>\<rparr>)
      else case n_info i of Inl e \<Rightarrow> unstatable opts rel i e b | Inr (sz, plain) \<Rightarrow>
      if \<not> plain then (Go, b)
      else case ValidatePath rel of Inl e \<Rightarrow> (Fail e, b) | Inr _ \<Rightarrow>
      if n_isdir i then addDir opts rel i b else addFile opts rel i sz b)"

definition child_path :: "string \<Rightarrow> entry_info \<Rightarrow> string" where
  "child_path dir i = (if dir = [] then n_name i else dir @ ''/'' @ n_name i)"

text \<open>
  \<open>filepath.WalkDir\<close>: a directory is visited, then listed; if it cannot be listed it is visited again with
  the error. Skipping a directory goes on with its siblings.
\<close>

fun walk :: "build_opts \<Rightarrow> string \<Rightarrow> tree \<Rightarrow> tar_builder \<Rightarrow> err option \<times> tar_builder"
and walk_list :: "build_opts \<Rightarrow> string \<Rightarrow> tree list \<Rightarrow> tar_builder \<Rightarrow> err option \<times> tar_builder" where
  "walk opts dir (Tree i cs) b =
     (case visit opts (child_path dir i) i None b of
        (Fail e, b) \<Rightarrow> (Some e, b)
      | (SkipDir, b) \<Rightarrow> (None, b)
      | (Go, b) \<Rightarrow> if \<not> n_isdir i then (None, b)
          else case n_listing i of
            None \<Rightarrow> walk_list opts (child_path dir i) cs b
          | Some le \<Rightarrow> (case visit opts (child_path dir i) i (Some le) b of
              (Fail e, b) \<Rightarrow> (Some e, b)
            | (SkipDir, b) \<Rightarrow> (None, b)
            | (Go, b) \<Rightarrow> walk_list opts (child_path dir i) cs b))"
| "walk_list opts dir [] b = (None, b)"
| "walk_list opts dir (c # cs) b = (case walk opts dir c b of (Some e, b) \<Rightarrow> (Some e, b) | (None, b) \<Rightarrow> walk_list opts dir cs b)"

text \<open>
  \<open>BuildTar\<close> on the source directory: the root is only visited; an error of it ends the backup. A root
  that is a file has nothing to walk. Last, the stream is closed.
\<close>

definition BuildTar :: "build_opts \<Rightarrow> tree \<Rightarrow> builder \<Rightarrow> err option \<times> tar_builder" where
  "BuildTar opts root mb = (case root of Tree i cs \<Rightarrow>
     case tb_op opts (newTarBuilder mb) of (Some e, b) \<Rightarrow> (Some e, b) | (None, b) \<Rightarrow>
     if \<not> is_ok (n_info i) then (Some (Internal ''Failed to scan source directory %q: %w''), b)
     else let (werr, b) = (if \<not> n_isdir i then (None, b)
       else case n_listing i of None \<Rightarrow> walk_list opts [] cs b
         | Some le \<Rightarrow> (case tb_op opts b of (Some e, b) \<Rightarrow> (Some e, b)
             | (None, b) \<Rightarrow> (Some (Internal ''Failed to scan source directory %q: %w''), b)))
     in case werr of Some e \<Rightarrow> (Some e, b) | None \<Rightarrow>
       (case tb_op opts b of (Some e, b) \<Rightarrow> (Some (Internal ''Failed to finish TAR stream: %w''), b) | (None, b) \<Rightarrow> (None, b)))"

section \<open>Measuring\<close>

text \<open>
  \<open>MeasureSource\<close>: the sizes of the files the walk would store; everything that cannot be read is left
  out. \<open>newest\<close> gives the later of last-write and creation time of an entry.
\<close>

fun measure_tree :: "build_opts \<Rightarrow> (entry_info \<Rightarrow> int) \<Rightarrow> int option \<Rightarrow> string \<Rightarrow> tree \<Rightarrow> int \<times> int"
and measure_list :: "build_opts \<Rightarrow> (entry_info \<Rightarrow> int) \<Rightarrow> int option \<Rightarrow> string \<Rightarrow> tree list \<Rightarrow> int \<times> int" where
  "measure_tree opts newest since dir (Tree i cs) =
     (let rel = child_path dir i in
      if bo_excluded opts rel \<or> bo_match opts rel (n_isdir i) then (0, 0)
      else if n_isdir i then (if n_listing i = None then measure_list opts newest since rel cs else (0, 0))
      else case n_info i of Inl _ \<Rightarrow> (0, 0) | Inr (sz, plain) \<Rightarrow>
        if \<not> plain then (0, 0)
        else (sz, if (case since of None \<Rightarrow> True | Some t \<Rightarrow> newest i \<ge> t) then sz else 0))"
| "measure_list opts newest since dir [] = (0, 0)"
| "measure_list opts newest since dir (c # cs) =
     (case (measure_tree opts newest since dir c, measure_list opts newest since dir cs) of ((t, ch), (t', ch')) \<Rightarrow> (t + t', ch + ch'))"

section \<open>The stream and the manifest agree\<close>

text \<open>The files of a tree by path.\<close>

fun files_of :: "string \<Rightarrow> tree \<Rightarrow> (string \<times> entry_info) list" where
  "files_of dir (Tree i cs) = (if n_isdir i then concat (map (files_of (child_path dir i)) cs) else [(child_path dir i, i)])"

definition in_tar :: "mentry \<Rightarrow> bool" where
  "in_tar e \<longleftrightarrow> HasContentInSet e \<or> Void e"

text \<open>
  A member of the stream and its entry: either the entry is void, or the member is the whole content of a
  file of the source, with its size and hash.
\<close>

definition matches :: "build_opts \<Rightarrow> (string \<times> entry_info) set \<Rightarrow> tar_item \<Rightarrow> mentry \<Rightarrow> bool" where
  "matches opts F t e \<longleftrightarrow> Path e = ti_name t \<and> (HasContentInSet e \<longrightarrow> \<not> Void e) \<and> (\<not> Void e \<longrightarrow>
     HasContentInSet e \<and> Size e = int (length (ti_data t)) \<and> Hash e = hex_encode (bo_sha256 opts (ti_data t))
     \<and> (\<exists>i. (Path e, i) \<in> F \<and> ti_data t = fst (n_read i)))"

definition base_ok :: "build_opts \<Rightarrow> mentry \<Rightarrow> bool" where
  "base_ok opts e \<longleftrightarrow> (HasContentInSet e \<longrightarrow> Origin e = tb_origin opts) \<and> (EType e = TypeFile \<and> \<not> HasContentInSet e \<longrightarrow>
     (\<exists>base stale void. base_file opts (Path e) = Some base \<and> e = fromBase base stale void))"

definition build_inv :: "build_opts \<Rightarrow> (string \<times> entry_info) set \<Rightarrow> tar_builder \<Rightarrow> bool" where
  "build_inv opts F b \<longleftrightarrow> list_all2 (matches opts F) (tb_items b) (filter in_tar (b_entries (tb_mb b)))
     \<and> list_all (base_ok opts) (b_entries (tb_mb b)) \<and> (\<forall>e \<in> set (b_entries (tb_mb b)). EType e = TypeDir \<longrightarrow> \<not> Void e)"

named_theorems tb_simp

lemma base_file_Some: "base_file opts rel = Some base \<Longrightarrow> EType base = TypeFile \<and> Path base = rel
    \<and> (\<exists>m. bo_base opts = Some m \<and> base \<in> set (m_Entries m))"
  by (auto simp: base_file_def find_Some_iff split: option.splits) (metis length_rev nth_mem set_rev)

lemma fromBase_simps [simp]: "Path (fromBase base s v) = Path base" "EType (fromBase base s v) = EType base"
  "HasContentInSet (fromBase base s v) = False" "Void (fromBase base s v) = v" "Hash (fromBase base s v) = Hash base"
  "Size (fromBase base s v) = Size base" "Origin (fromBase base s v) = OriginFull"
  by (simp_all add: fromBase_def HasContentInSet_def)

lemma skipped_entry_simps [simp]: "Path (skipped_entry p r) = p" "EType (skipped_entry p r) = TypeSkipped"
  "HasContentInSet (skipped_entry p r) = False" "Void (skipped_entry p r) = False"
  by (simp_all add: skipped_entry_def HasContentInSet_def)

lemma tb_op_inv [simp]: "tb_op opts b = (e, b') \<Longrightarrow> build_inv opts F b' = build_inv opts F b"
  by (auto simp: tb_op_def build_inv_def)

lemma dir_entry_simps [simp]: "HasContentInSet (dir_entry p meta) = False" "Void (dir_entry p meta) = False"
  "EType (dir_entry p meta) = TypeDir" "Path (dir_entry p meta) = p"
  by (simp_all add: dir_entry_def HasContentInSet_def skipped_entry_def)

lemma skipped_base_ok [simp]: "base_ok opts (skipped_entry p r)" "base_ok opts (dir_entry p meta)"
  by (simp_all add: base_ok_def)

text \<open>Adding an entry that is not in the stream.\<close>

lemma add_outside:
  "build_inv opts F b \<Longrightarrow> \<not> HasContentInSet e \<Longrightarrow> \<not> Void e \<Longrightarrow> base_ok opts e \<Longrightarrow> build_inv opts F (tb_add e b)"
  by (auto simp: build_inv_def tb_add_def Add_def in_tar_def)

text \<open>Adding the entry of the member just written.\<close>

definition pending :: "build_opts \<Rightarrow> (string \<times> entry_info) set \<Rightarrow> tar_item \<Rightarrow> tar_builder \<Rightarrow> bool" where
  "pending opts F t b \<longleftrightarrow> (\<exists>ts. tb_items b = ts @ [t] \<and> build_inv opts F (b\<lparr>tb_items := ts\<rparr>))"

lemma add_pending:
  "pending opts F t b \<Longrightarrow> in_tar e \<Longrightarrow> matches opts F t e \<Longrightarrow> base_ok opts e \<Longrightarrow> EType e \<noteq> TypeDir \<Longrightarrow>
     build_inv opts F (tb_add e b)"
  by (auto simp: pending_def build_inv_def tb_add_def Add_def intro!: list_all2_appendI)

lemma inv_update [simp]:
  "build_inv opts F (b\<lparr>tb_stats := s\<rparr>) = build_inv opts F b" "build_inv opts F (b\<lparr>tb_onskip := o'\<rparr>) = build_inv opts F b"
  "build_inv opts F (b\<lparr>tb_progress := p\<rparr>) = build_inv opts F b" "build_inv opts F (b\<lparr>tb_ops := k\<rparr>) = build_inv opts F b"
  "build_inv opts F (vanish b) = build_inv opts F b" "build_inv opts F (count_skipped opts rel e b) = build_inv opts F b"
  by (simp_all add: build_inv_def vanish_def count_skipped_def)

lemma pending_update [simp]:
  "pending opts F t (b\<lparr>tb_stats := s\<rparr>) = pending opts F t b"
  by (simp add: pending_def build_inv_def)

lemma pending_put: "build_inv opts F b \<Longrightarrow> pending opts F \<lparr>ti_name = rel, ti_data = c\<rparr> (put_item rel c b)"
  by (auto simp: pending_def put_item_def build_inv_def)

lemma stored_entry_simps [simp]:
  "Path (stored_entry opts rel meta c k) = rel" "EType (stored_entry opts rel meta c k) = TypeFile"
  "HasContentInSet (stored_entry opts rel meta c k)" "Void (stored_entry opts rel meta c k) = False"
  "Stale (stored_entry opts rel meta c k) = False" "Origin (stored_entry opts rel meta c k) = tb_origin opts"
  by (simp_all add: stored_entry_def HasContentInSet_def)

text \<open>What \<open>writeFile\<close> leaves behind in each outcome.\<close>

fun outcome_ok :: "build_opts \<Rightarrow> (string \<times> entry_info) set \<Rightarrow> string \<Rightarrow> write_outcome \<Rightarrow> tar_builder \<Rightarrow> bool" where
  "outcome_ok opts F rel (Written e) b \<longleftrightarrow>
     (\<exists>t. pending opts F t b \<and> matches opts F t e) \<and> HasContentInSet e \<and> Origin e = tb_origin opts \<and> EType e = TypeFile \<and> \<not> Stale e \<and> \<not> Void e"
| "outcome_ok opts F rel (Unreadable e True) b \<longleftrightarrow> (\<exists>t. pending opts F t b \<and> ti_name t = rel)"
| "outcome_ok opts F rel (Unreadable e False) b \<longleftrightarrow> build_inv opts F b"
| "outcome_ok opts F rel (WriteFailed e) b \<longleftrightarrow> True"

lemma put_pending: "build_inv opts F b \<Longrightarrow> \<exists>t. pending opts F t (put_item rel c b) \<and> ti_name t = rel"
  by (metis pending_put tar_item.select_convs(1))

lemma stored_pending:
  assumes "build_inv opts F b" "(rel, i) \<in> F" "c = fst (n_read i)"
  shows "\<exists>t. pending opts F t (put_item rel c b) \<and> matches opts F t (stored_entry opts rel meta c k)"
proof (intro exI conjI)
  show "pending opts F \<lparr>ti_name = rel, ti_data = c\<rparr> (put_item rel c b)"
    using assms(1) by (rule pending_put)
  show "matches opts F \<lparr>ti_name = rel, ti_data = c\<rparr> (stored_entry opts rel meta c k)"
    using assms(2,3) by (auto simp: matches_def) (auto simp: stored_entry_def)
qed

lemma writeFile_ok:
  assumes "build_inv opts F b" "(rel, i) \<in> F" "writeFile opts rel i b = (r, b')"
  shows "outcome_ok opts F rel r b'"
  using assms unfolding writeFile_def Let_def
  by (auto split: sum.splits option.splits if_splits prod.splits intro!: put_pending stored_pending [where i = i])

lemma skipFile_inv:
  assumes "if headerWritten then (\<exists>t. pending opts F t b \<and> ti_name t = rel) else build_inv opts F b"
  shows "build_inv opts F (skipFile opts rel e headerWritten b)"
proof (cases "base_file opts rel")
  case None
  let ?e = "(skipped_entry rel (bo_text opts e))\<lparr>Void := headerWritten\<rparr>"
  have "Path ?e = rel" "EType ?e = TypeSkipped" "\<not> HasContentInSet ?e" "Void ?e = headerWritten"
    by (simp_all add: skipped_entry_def HasContentInSet_def)
  with None show ?thesis using assms
    by (auto simp: skipFile_def in_tar_def matches_def base_ok_def simp del: mentry.simps intro: add_outside add_pending split: if_splits)
next
  case (Some base)
  then have "base_ok opts (fromBase base True headerWritten)" "Path base = rel" "EType base = TypeFile"
    using base_file_Some [OF Some] by (auto simp: base_ok_def)
  with Some show ?thesis using assms
    by (auto simp: skipFile_def in_tar_def matches_def Let_def intro: add_outside add_pending split: if_splits)
qed


lemma skip_last_inv:
  assumes "build_inv opts F b" "SkipLastDirectory rel r (tb_mb b) = (True, mb)"
  shows "build_inv opts F (b\<lparr>tb_mb := mb\<rparr>)"
proof -
  let ?es = "b_entries (tb_mb b)"
  from assms(2) have ne: "?es \<noteq> []" and dir: "EType (last ?es) = TypeDir"
    and mb: "mb = (tb_mb b)\<lparr>b_entries := butlast ?es @ [skipped_entry rel r]\<rparr>"
    by (auto simp: SkipLastDirectory_def Let_def split: if_splits)
  have es: "?es = butlast ?es @ [last ?es]" using ne by simp
  have "\<not> Void (last ?es)" using assms(1) ne dir by (simp add: build_inv_def)
  then have f: "filter in_tar ?es = filter in_tar (butlast ?es)"
    by (subst es) (simp add: in_tar_def HasContentInSet_def dir)
  have "build_inv opts F (b\<lparr>tb_mb := (tb_mb b)\<lparr>b_entries := butlast ?es\<rparr>\<rparr>)"
    using assms(1) by (auto simp: build_inv_def f list_all_iff dest: in_set_butlastD)
  from add_outside [OF this, of "skipped_entry rel r"] show ?thesis
    by (simp add: mb tb_add_def Add_def)
qed

lemma unlisted_inv:
  "build_inv opts F b \<Longrightarrow> unlisted opts rel i e b = (r, b') \<Longrightarrow> build_inv opts F b'"
  by (auto simp: unlisted_def intro!: add_outside skip_last_inv split: if_splits prod.splits bool.splits)

lemma unstatable_inv:
  "build_inv opts F b \<Longrightarrow> unstatable opts rel i e b = (r, b') \<Longrightarrow> build_inv opts F b'"
  by (auto simp: unstatable_def intro!: skipFile_inv add_outside split: if_splits)

lemma addDir_inv:
  "build_inv opts F b \<Longrightarrow> addDir opts rel i b = (r, b') \<Longrightarrow> build_inv opts F b'"
  by (auto simp: addDir_def intro!: add_outside split: if_splits sum.splits)

lemma addFile_inv:
  assumes inv: "build_inv opts F b" and inF: "(rel, i) \<in> F" and r: "addFile opts rel i sz b = (r, b')" and nf: "\<And>e. r \<noteq> Fail e"
  shows "build_inv opts F b'"
proof -
  define same where "same = (case (base_file opts rel, n_basic i) of
      (Some base, Inr meta) \<Rightarrow> if unchanged_since base sz meta then Some base else None | _ \<Rightarrow> None)"
  note r' = r [unfolded addFile_def Let_def, folded same_def]
  show ?thesis
  proof (cases same)
    case (Some base)
    then have "base_file opts rel = Some base" by (auto simp: same_def split: option.splits sum.splits if_splits)
    then have "base_ok opts (fromBase base False False)" using base_file_Some by (fastforce simp: base_ok_def)
    then show ?thesis using r' Some inv by (auto intro!: add_outside)
  next
    case None
    obtain o' c where w: "writeFile opts rel i b = (o', c)" by (cases "writeFile opts rel i b")
    note ok = writeFile_ok [OF inv inF w]
    show ?thesis
    proof (cases o')
      case (Written e)
      then obtain t where "pending opts F t c" "matches opts F t e" "HasContentInSet e" "EType e = TypeFile" "Origin e = tb_origin opts" using ok by auto
      then have "build_inv opts F (tb_add e c)" by (intro add_pending) (auto simp: in_tar_def base_ok_def)
      then show ?thesis using r' None w Written by auto
    next
      case (Unreadable e h)
      then show ?thesis using r' None w nf ok
        by (cases h) (auto split: if_splits intro!: skipFile_inv)
    next
      case (WriteFailed e) then show ?thesis using r' None w nf by auto
    qed
  qed
qed

lemma visit_inv:
  assumes "build_inv opts F b" "n_isdir i \<or> (rel, i) \<in> F" "visit opts rel i werr b = (r, b')" "\<And>e. r \<noteq> Fail e"
  shows "build_inv opts F b'"
  using assms
  by (auto simp: visit_def split: prod.splits option.splits if_splits sum.splits
      dest: unlisted_inv [rotated] unstatable_inv [rotated] addDir_inv [rotated]) (metis addFile_inv tb_op_inv)

text \<open>What every visit keeps, the walk keeps.\<close>

definition visit_keeps :: "(tar_builder \<Rightarrow> bool) \<Rightarrow> (string \<times> entry_info) set \<Rightarrow> build_opts \<Rightarrow> bool" where
  "visit_keeps P F opts \<longleftrightarrow> (\<forall>rel i werr b r b'. n_isdir i \<or> (rel, i) \<in> F \<longrightarrow> visit opts rel i werr b = (r, b') \<longrightarrow>
     (\<forall>e. r \<noteq> Fail e) \<longrightarrow> P b \<longrightarrow> P b')"

lemma walk_keeps:
  assumes "visit_keeps P F opts"
  shows "walk opts dir t b = (None, b') \<Longrightarrow> P b \<Longrightarrow> set (files_of dir t) \<subseteq> F \<Longrightarrow> P b'"
    "walk_list opts dir ts b = (None, b') \<Longrightarrow> P b \<Longrightarrow> (\<forall>t \<in> set ts. set (files_of dir t) \<subseteq> F) \<Longrightarrow> P b'"
  using assms
proof (induction opts dir t b and opts dir ts b arbitrary: b' and b' rule: walk_walk_list.induct)
  case (1 opts dir i cs b)
  let ?p = "child_path dir i"
  have inF: "n_isdir i \<or> (?p, i) \<in> F" using "1.prems"(3) by (auto split: if_splits)
  have keep: "P c'" if "visit opts ?p i w c = (r, c')" "\<forall>e. r \<noteq> Fail e" "P c" for c w r c'
    using "1.prems"(4) inF that unfolding visit_keeps_def by blast
  have sub: "n_isdir i \<Longrightarrow> \<forall>t \<in> set cs. set (files_of ?p t) \<subseteq> F" using "1.prems"(3) by auto
  obtain r c where v: "visit opts ?p i None b = (r, c)" by (cases "visit opts ?p i None b")
  show ?case
  proof (cases r)
    case Go
    then have c: "P c" using keep [OF v] "1.prems"(2) by simp
    show ?thesis
    proof (cases "n_isdir i")
      case False then show ?thesis using c v Go "1.prems"(1) by simp
    next
      case True
      show ?thesis
      proof (cases "n_listing i")
        case None
        then show ?thesis using "1.IH"(1) [OF v [symmetric] Go _ None] True v Go "1.prems" c sub by simp
      next
        case (Some le)
        obtain r' c' where v': "visit opts ?p i (Some le) c = (r', c')" by (cases "visit opts ?p i (Some le) c")
        show ?thesis
        proof (cases r')
          case Go': Go
          then have "P c'" using keep [OF v'] c by simp
          then show ?thesis using "1.IH"(2) [OF v [symmetric] Go _ Some v' [symmetric] Go'] True v v' Go Go' Some "1.prems" sub by simp
        next
          case SkipDir then show ?thesis using keep [OF v'] c True v v' Go Some "1.prems" by simp
        next
          case Fail then show ?thesis using True v v' Go Some "1.prems" by simp
        qed
      qed
    qed
  next
    case SkipDir then show ?thesis using keep [OF v] v "1.prems" by simp
  next
    case Fail then show ?thesis using v "1.prems" by simp
  qed
next
  case (2 opts dir b) then show ?case by simp
next
  case (3 opts dir c cs b) then show ?case by (auto split: prod.splits option.splits)
qed

definition source_files :: "tree \<Rightarrow> (string \<times> entry_info) set" where
  "source_files root = (case root of Tree i cs \<Rightarrow> \<Union> (set (map (\<lambda>c. set (files_of [] c)) cs)))"

lemma BuildTar_keeps:
  assumes "visit_keeps P (source_files root) opts" "P (newTarBuilder mb)" "\<And>b k. P (b\<lparr>tb_ops := k\<rparr>) = P b"
    "BuildTar opts root mb = (None, b')"
  shows "P b'"
proof -
  obtain i cs where root: "root = Tree i cs" by (cases root)
  have sub: "\<forall>t \<in> set cs. set (files_of [] t) \<subseteq> source_files root" by (auto simp: root source_files_def)
  have op: "P b'" if "tb_op opts b = (e, b')" "P b" for b e b' using that assms(3) by (auto simp: tb_op_def)
  note keep = walk_keeps(2) [OF assms(1) _ _ sub]
  show ?thesis using assms(2,4) keep op
    by (auto simp: BuildTar_def root split: prod.splits option.splits if_splits tree.splits)
qed

lemma visit_keeps_inv: "visit_keeps (build_inv opts F) F opts"
  unfolding visit_keeps_def by (blast intro: visit_inv)

section \<open>An example\<close>

definition demo_node :: "string \<Rightarrow> bool \<Rightarrow> bytes \<Rightarrow> entry_info" where
  "demo_node nm dir c = \<lparr>n_name = nm, n_isdir = dir, n_info = Inr (int (length c), True), n_listing = None,
     n_basic = Inr \<lparr>bi_ModTime = 7, bi_ChangeTime = 8, bi_CreationTime = 6, bi_Attributes = 0\<rparr>,
     n_open = Inr (\<lparr>bi_ModTime = 7, bi_ChangeTime = 8, bi_CreationTime = 6, bi_Attributes = 0\<rparr>, int (length c)), n_read = (c, None)\<rparr>"

definition demo_tree :: tree where
  "demo_tree = Tree (demo_node ''root'' True []) [Tree (demo_node ''b'' False [1, 2]) [], Tree (demo_node ''d'' True []) [Tree (demo_node ''x'' False [3]) []]]"

definition demo_build_opts :: build_opts where
  "demo_build_opts = \<lparr>bo_excluded = \<lambda>p. False, bo_match = \<lambda>p d. False, bo_skip = False, bo_base = None, bo_not_exist = \<lambda>e. False,
     bo_text = \<lambda>e. [], bo_sha256 = \<lambda>d. replicate 32 (if d = [] then 0 else hd d), bo_tar_len = \<lambda>is. 512 * int (length is), bo_op = \<lambda>k. None\<rparr>"

definition demo_built :: tar_builder where
  "demo_built = snd (BuildTar demo_build_opts demo_tree (NewBuilder (b_header demo_builder)))"

lemma demo_empty: "b_entries (NewBuilder (b_header demo_builder)) = []"
  by (simp add: NewBuilder_def)

lemma demo_items: "length (tb_items demo_built) = 2"
  by code_simp

lemma demo_fine: "fst (BuildTar demo_build_opts demo_tree (NewBuilder (b_header demo_builder))) = None"
  by code_simp

lemma demo_built_ok: "BuildTar demo_build_opts demo_tree (NewBuilder (b_header demo_builder)) = (None, demo_built)"
  by (metis demo_fine demo_built_def prod.collapse)

lemma built_inv:
  assumes "BuildTar opts root mb = (None, b)" "b_entries mb = []"
  shows "build_inv opts (source_files root) b"
  using BuildTar_keeps [OF visit_keeps_inv _ inv_update(4) assms(1)] assms(2) by (simp add: build_inv_def newTarBuilder_def)

text \<open>C19. The manifest describes the stream: in a data section built from scratch, the entries with content in the set and the void ones are the members of the stream, in the same order and under the same names; every such member that is not void is the whole content of that file of the source as it was read, with the size and hash its entry gives; and every file entry without content in the set is the entry the full backup has for that path.\<close>

theorem stream_matches_manifest:
  assumes "BuildTar opts root mb = (None, b)" "b_entries mb = []"
  shows "list_all2 (matches opts (source_files root)) (tb_items b) (filter in_tar (b_entries (tb_mb b)))
    \<and> list_all (base_ok opts) (b_entries (tb_mb b))"
  using built_inv [OF assms] by (simp add: build_inv_def)

lemma stream_matches_manifest_witness:
  "list_all2 (matches demo_build_opts (source_files demo_tree)) (tb_items demo_built) (filter in_tar (b_entries (tb_mb demo_built)))
    \<and> length (tb_items demo_built) = 2"
  using stream_matches_manifest [OF demo_built_ok, OF demo_empty] demo_items by simp

section \<open>A backup that must be complete\<close>

definition whole_entry :: "mentry \<Rightarrow> bool" where
  "whole_entry e \<longleftrightarrow> EType e \<noteq> TypeSkipped \<and> \<not> Stale e \<and> \<not> Void e"

definition whole_inv :: "tar_builder \<Rightarrow> bool" where
  "whole_inv b \<longleftrightarrow> list_all whole_entry (b_entries (tb_mb b)) \<and> st_Skipped (tb_stats b) = 0 \<and> st_Stale (tb_stats b) = 0"

lemma whole_op [simp]: "tb_op opts b = (e, b') \<Longrightarrow> whole_inv b' = whole_inv b"
  by (auto simp: tb_op_def whole_inv_def)

lemma whole_updates [simp]: "whole_inv (vanish b) = whole_inv b" "whole_inv (b\<lparr>tb_ops := k\<rparr>) = whole_inv b"
  "whole_inv (b\<lparr>tb_progress := p\<rparr>) = whole_inv b" "whole_inv (put_item rel c b) = whole_inv b"
  "whole_inv (tb_add e b) \<longleftrightarrow> whole_entry e \<and> whole_inv b"
  by (auto simp: whole_inv_def vanish_def put_item_def tb_add_def Add_def)

lemma writeFile_whole:
  "writeFile opts rel i b = (r, b') \<Longrightarrow> whole_inv b \<Longrightarrow> whole_inv b' \<and> (\<forall>e. r = Written e \<longrightarrow> whole_entry e)"
  by (auto simp: writeFile_def Let_def whole_entry_def split: sum.splits option.splits prod.splits if_splits)

lemma whole_fromBase [simp]: "base_file opts rel = Some base \<Longrightarrow> whole_entry (fromBase base False False)"
  by (auto simp: whole_entry_def fromBase_def dest: base_file_Some)

text \<open>What \<open>addFile\<close> may have done, in one rule for all that has to be kept.\<close>

lemma addFile_cases:
  assumes "addFile opts rel i sz b = (r, b')" "\<And>e. r \<noteq> Fail e"
  obtains (same) base where "base_file opts rel = Some base"
      "b' = (let c = tb_add (fromBase base False False) b in
         c\<lparr>tb_stats := (tb_stats c)\<lparr>st_Unchanged := Suc (st_Unchanged (tb_stats c))\<rparr>, tb_progress := tb_progress c + sz\<rparr>)"
  | (stored) e c where "writeFile opts rel i b = (Written e, c)"
      "b' = (let c = tb_add e c in c\<lparr>tb_stats := (tb_stats c)\<lparr>st_Stored := Suc (st_Stored (tb_stats c))\<rparr>\<rparr>)"
  | (gone) e c where "writeFile opts rel i b = (Unreadable e False, c)" "b' = vanish c"
  | (unread) e h c where "writeFile opts rel i b = (Unreadable e h, c)" "bo_skip opts" "b' = skipFile opts rel e h c"
proof -
  define base_same where "base_same = (case (base_file opts rel, n_basic i) of
      (Some base, Inr meta) \<Rightarrow> if unchanged_since base sz meta then Some base else None | _ \<Rightarrow> None)"
  note r = assms(1) [unfolded addFile_def Let_def, folded base_same_def]
  show ?thesis
  proof (cases base_same)
    case (Some base)
    then have "base_file opts rel = Some base" by (auto simp: base_same_def split: option.splits sum.splits if_splits)
    then show ?thesis using r Some same by (auto simp: Let_def)
  next
    case None
    then show ?thesis using r assms(2) stored gone unread
      by (auto simp: Let_def split: prod.splits write_outcome.splits if_splits)
  qed
qed

lemma stats_inv [simp]: "whole_inv (b\<lparr>tb_stats := (tb_stats b)\<lparr>st_Unchanged := k\<rparr>\<rparr>) = whole_inv b"
  "whole_inv (b\<lparr>tb_stats := (tb_stats b)\<lparr>st_Stored := k\<rparr>\<rparr>) = whole_inv b"
  "whole_inv (b\<lparr>tb_stats := (tb_stats b)\<lparr>st_Excluded := k\<rparr>\<rparr>) = whole_inv b"
  "whole_inv (b\<lparr>tb_stats := (tb_stats b)\<lparr>st_Unchanged := k\<rparr>, tb_progress := p\<rparr>) = whole_inv b"
  by (auto simp: whole_inv_def)

lemma addFile_whole:
  assumes "addFile opts rel i sz b = (r, b')" "whole_inv b" "\<not> bo_skip opts" "\<And>e. r \<noteq> Fail e"
  shows "whole_inv b'"
  using assms(1,4)
  by (rule addFile_cases) (use assms(2,3) in \<open>auto simp: Let_def dest: writeFile_whole\<close>)

lemma dir_whole [simp]: "whole_entry (dir_entry rel meta)"
  by (simp add: whole_entry_def dir_entry_def skipped_entry_def)

lemma visit_whole:
  "visit opts rel i werr b = (r, b') \<Longrightarrow> whole_inv b \<Longrightarrow> \<not> bo_skip opts \<Longrightarrow> (\<And>e. r \<noteq> Fail e) \<Longrightarrow> whole_inv b'"
  by (auto simp: visit_def unlisted_def unstatable_def addDir_def
      split: prod.splits option.splits if_splits sum.splits) (metis addFile_whole whole_op)

text \<open>A file is recorded, or something vanished.\<close>

definition recorded :: "string \<Rightarrow> tar_builder \<Rightarrow> bool" where
  "recorded rel b \<longleftrightarrow> st_Vanished (tb_stats b) > 0 \<or> (\<exists>e \<in> set (b_entries (tb_mb b)). Path e = rel \<and> EType e = TypeFile)"

lemma recorded_updates [simp]: "recorded rel (vanish b)" "recorded rel (b\<lparr>tb_ops := k\<rparr>) = recorded rel b"
  "recorded rel (b\<lparr>tb_progress := p\<rparr>) = recorded rel b" "recorded rel (put_item q c b) = recorded rel b"
  "recorded rel (tb_add e b) \<longleftrightarrow> (Path e = rel \<and> EType e = TypeFile) \<or> recorded rel b"
  "recorded rel (b\<lparr>tb_stats := (tb_stats b)\<lparr>st_Unchanged := k\<rparr>\<rparr>) = recorded rel b"
  "recorded rel (b\<lparr>tb_stats := (tb_stats b)\<lparr>st_Stored := k\<rparr>\<rparr>) = recorded rel b"
  "recorded rel (b\<lparr>tb_stats := (tb_stats b)\<lparr>st_Excluded := k\<rparr>\<rparr>) = recorded rel b"
  "recorded rel (b\<lparr>tb_stats := (tb_stats b)\<lparr>st_Unchanged := k\<rparr>, tb_progress := p\<rparr>) = recorded rel b"
  by (auto simp: recorded_def vanish_def put_item_def tb_add_def Add_def)

lemma recorded_op [simp]: "tb_op opts b = (e, b') \<Longrightarrow> recorded rel b' = recorded rel b"
  by (auto simp: tb_op_def)

lemma writeFile_recorded:
  "writeFile opts rel i b = (r, b') \<Longrightarrow> (recorded q b \<longrightarrow> recorded q b') \<and> (\<forall>e. r = Written e \<longrightarrow> Path e = rel \<and> EType e = TypeFile)"
  by (auto simp: writeFile_def Let_def split: sum.splits option.splits prod.splits if_splits)

lemma addFile_recorded:
  assumes "addFile opts rel i sz b = (r, b')" "\<not> bo_skip opts" "\<And>e. r \<noteq> Fail e"
  shows "recorded rel b' \<and> (recorded q b \<longrightarrow> recorded q b')"
  using assms(1,3)
  by (rule addFile_cases) (use assms(2) in \<open>auto simp: Let_def dest: base_file_Some writeFile_recorded\<close>)

definition excludes_nothing :: "build_opts \<Rightarrow> bool" where
  "excludes_nothing opts \<longleftrightarrow> (\<forall>p d. \<not> bo_excluded opts p \<and> \<not> bo_match opts p d)"

lemma visit_recorded:
  assumes "visit opts rel i werr b = (r, b')" "\<not> bo_skip opts" "\<And>e. r \<noteq> Fail e"
  shows "recorded q b \<Longrightarrow> recorded q b'"
    "excludes_nothing opts \<Longrightarrow> r = SkipDir \<Longrightarrow> recorded q b'"
    "excludes_nothing opts \<Longrightarrow> \<not> n_isdir i \<Longrightarrow> n_info i = Inr (sz, True) \<Longrightarrow> recorded rel b'"
proof -
  have add: "recorded q c \<Longrightarrow> recorded q b'" "recorded rel b'" "r \<noteq> SkipDir" if "addFile opts rel i z c = (r, b')" for c z
    using addFile_recorded [OF that assms(2,3)] that assms(3)
    by (auto simp: addFile_def Let_def split: prod.splits option.splits write_outcome.splits if_splits sum.splits)
  show "recorded q b \<Longrightarrow> recorded q b'"
    using assms add by (auto simp: visit_def unlisted_def unstatable_def addDir_def
        split: prod.splits option.splits if_splits sum.splits)
  show "excludes_nothing opts \<Longrightarrow> r = SkipDir \<Longrightarrow> recorded q b'"
    using assms add by (auto simp: visit_def unlisted_def unstatable_def addDir_def excludes_nothing_def
        split: prod.splits option.splits if_splits sum.splits) (blast dest: add(3))
  show "excludes_nothing opts \<Longrightarrow> \<not> n_isdir i \<Longrightarrow> n_info i = Inr (sz, True) \<Longrightarrow> recorded rel b'"
    using assms add by (auto simp: visit_def unlisted_def unstatable_def addDir_def excludes_nothing_def
        split: prod.splits option.splits if_splits sum.splits)
qed

lemma visit_keeps_recorded: "\<not> bo_skip opts \<Longrightarrow> visit_keeps (recorded q) UNIV opts"
  unfolding visit_keeps_def using visit_recorded(1) by blast

lemma walk_recorded:
  assumes "\<not> bo_skip opts" "excludes_nothing opts" "n_info j = Inr (sz, True)"
  shows "walk opts dir t b = (None, b') \<Longrightarrow> (rel, j) \<in> set (files_of dir t) \<Longrightarrow> recorded rel b'"
    "walk_list opts dir ts b = (None, b') \<Longrightarrow> t \<in> set ts \<Longrightarrow> (rel, j) \<in> set (files_of dir t) \<Longrightarrow> recorded rel b'"
  using assms
proof (induction opts dir t b and opts dir ts b arbitrary: b' and b' t rule: walk_walk_list.induct)
  case (1 opts dir i cs b)
  let ?p = "child_path dir i"
  obtain r c where v: "visit opts ?p i None b = (r, c)" by (cases "visit opts ?p i None b")
  note rec = visit_recorded [OF v "1.prems"(3)]
  show ?case
  proof (cases "n_isdir i \<and> r = Go")
    case False
    then show ?thesis using "1.prems" v rec by (cases r) (auto split: if_splits)
  next
    case True
    then obtain t where t: "t \<in> set cs" "(rel, j) \<in> set (files_of ?p t)" using "1.prems"(2) by auto
    show ?thesis
    proof (cases "n_listing i")
      case None
      then show ?thesis using "1.IH"(1) [OF v [symmetric] _ _ None _ t] True v "1.prems" by simp
    next
      case (Some le)
      obtain r' c' where v': "visit opts ?p i (Some le) c = (r', c')" by (cases "visit opts ?p i (Some le) c")
      note rec' = visit_recorded [OF v' "1.prems"(3)]
      show ?thesis
        using "1.IH"(2) [OF v [symmetric] _ _ Some v' [symmetric] _ _ t] True v v' Some "1.prems" rec' by (cases r') auto
    qed
  qed
next
  case (2 opts dir b) then show ?case by simp
next
  case (3 opts dir c cs b)
  then obtain d where w: "walk opts dir c b = (None, d)" and ws: "walk_list opts dir cs d = (None, b')"
    by (auto split: prod.splits option.splits)
  show ?case
  proof (cases "t = c")
    case True
    then have "recorded rel d" using "3.IH"(1) [OF w] "3.prems" by simp
    then show ?thesis using walk_keeps(2) [OF visit_keeps_recorded [OF "3.prems"(4)] ws] by simp
  next
    case False
    then show ?thesis using "3.IH"(2) [OF w [symmetric] _ ws, of t] "3.prems" by simp
  qed
qed

text \<open>With unreadable files ending the backup, what is finished is whole: the manifest has no skipped, stale or void entry, and unless something was deleted during the walk every plain file of the source has its entry when nothing is excluded.\<close>

lemma strict_backup_whole:
  assumes "BuildTar opts root mb = (None, b)" "b_entries mb = []" "\<not> bo_skip opts"
  shows "list_all whole_entry (b_entries (tb_mb b))
    \<and> (excludes_nothing opts \<and> n_isdir (case root of Tree i cs \<Rightarrow> i) \<and> st_Vanished (tb_stats b) = 0 \<longrightarrow>
        (\<forall>(rel, i) \<in> source_files root. \<forall>sz. n_info i = Inr (sz, True) \<longrightarrow>
          (\<exists>e \<in> set (b_entries (tb_mb b)). Path e = rel \<and> EType e = TypeFile)))"
proof (intro conjI impI)
  have "visit_keeps whole_inv (source_files root) opts" using assms(3) visit_whole unfolding visit_keeps_def by blast
  from BuildTar_keeps [OF this _ whole_updates(2) assms(1)] show "list_all whole_entry (b_entries (tb_mb b))"
    using assms(2) by (simp add: whole_inv_def newTarBuilder_def)
  assume free: "excludes_nothing opts \<and> n_isdir (case root of Tree i cs \<Rightarrow> i) \<and> st_Vanished (tb_stats b) = 0"
  obtain i cs where root: "root = Tree i cs" by (cases root)
  obtain c where w: "\<exists>d. walk_list opts [] cs d = (None, c)" and b: "tb_stats b = tb_stats c" "tb_mb b = tb_mb c"
    using assms(1) free by (auto simp: BuildTar_def root tb_op_def split: prod.splits option.splits if_splits) blast
  show "\<forall>(rel, i) \<in> source_files root. \<forall>sz. n_info i = Inr (sz, True) \<longrightarrow>
      (\<exists>e \<in> set (b_entries (tb_mb b)). Path e = rel \<and> EType e = TypeFile)"
    using w free b walk_recorded(2) [OF assms(3)] by (fastforce simp: source_files_def root recorded_def)
qed

lemma demo_excludes: "excludes_nothing demo_build_opts"
  by (simp add: excludes_nothing_def demo_build_opts_def)

lemma demo_strict: "\<not> bo_skip demo_build_opts"
  by (simp add: demo_build_opts_def)

lemma strict_backup_whole_witness:
  "list_all whole_entry (b_entries (tb_mb demo_built)) \<and>
   (\<exists>e \<in> set (b_entries (tb_mb demo_built)). Path e = ''d/x'' \<and> EType e = TypeFile)"
proof -
  have "(''d/x'', demo_node ''x'' False [3]) \<in> source_files demo_tree"
    by (simp add: source_files_def demo_tree_def child_path_def demo_node_def)
  moreover have "n_info (demo_node ''x'' False [3]) = Inr (1, True)" by (simp add: demo_node_def)
  moreover have "n_isdir (case demo_tree of Tree i cs \<Rightarrow> i)" by (simp add: demo_tree_def demo_node_def)
  moreover have "st_Vanished (tb_stats demo_built) = 0" by code_simp
  ultimately show ?thesis
    using strict_backup_whole [OF demo_built_ok demo_empty demo_strict] demo_excludes by fastforce
qed

end
