(* ===== verification/Restore.thy ===== *)
theory Restore
  imports WinFile Ordering
begin

text \<open>
  Restoring or verifying the files of a restore point (\<open>format/archive/restore.go\<close>): the \<open>Restorer\<close> takes
  the members of TAR streams one by one, writes or hashes them and compares them with the target manifest.
  A TAR stream is the list of its members with the error that ended it; a member's data is what
  reading it delivers.
\<close>

section \<open>The restorer\<close>

datatype action = ActionExtract | ActionSkip

type_synonym decide = "string \<Rightarrow> (mentry option \<times> action) result"

record tar_member =
  tm_reg :: bool
  tm_name :: string
  tm_size :: int
  tm_data :: source

type_synonym tar_stream = "tar_member list \<times> err option"

record restore_env =
  rv_disk :: disk_env
  rv_sha256 :: "bytes \<Rightarrow> bytes"
  rv_dest :: "string list"
  rv_verify :: bool
  rv_own :: bool
  rv_target :: manifest

record restorer =
  r_disk :: disk
  r_done :: "string set"
  r_failures :: "string list"

definition NewRestorer :: "disk \<Rightarrow> restorer" where
  "NewRestorer d = \<lparr>r_disk = d, r_done = {}, r_failures = []\<rparr>"

definition on_disk :: "(disk \<Rightarrow> err option \<times> disk) \<Rightarrow> restorer \<Rightarrow> err option \<times> restorer" where
  "on_disk f r = (case f (r_disk r) of (e, d) \<Rightarrow> (e, r\<lparr>r_disk := d\<rparr>))"

text \<open>
  \<open>targetPath\<close>: the elements of the path in the destination; \<open>clean_elems\<close> is what \<open>filepath.Join\<close> and
  \<open>filepath.Clean\<close> do to the elements of an absolute path.
\<close>

fun clean_elems :: "string list \<Rightarrow> string list \<Rightarrow> string list" where
  "clean_elems acc [] = rev acc"
| "clean_elems acc (e # es) =
     (if e = [] \<or> e = ''.'' then clean_elems acc es
      else if e = ''..'' then clean_elems (tl acc) es
      else clean_elems (e # acc) es)"

definition targetPath :: "restore_env \<Rightarrow> string \<Rightarrow> string list result" where
  "targetPath env rel = bindE (ValidatePath rel) (\<lambda>_.
     let p = clean_elems [] (rv_dest env @ split_char (CHR ''/'') rel); root = clean_elems [] (rv_dest env)
     in if take (length root) p \<noteq> root then Inl (Problem ''Invalid path in backup (path traversal): %q.'') else Inr p)"

fun create_dirs :: "restore_env \<Rightarrow> mentry list \<Rightarrow> restorer \<Rightarrow> err option \<times> restorer" where
  "create_dirs env [] r = (None, r)"
| "create_dirs env (e # es) r =
     (if EType e \<noteq> TypeDir then create_dirs env es r
      else case targetPath env (Path e) of Inl err \<Rightarrow> (Some err, r) | Inr p \<Rightarrow>
        (case on_disk (os_create (rv_disk env) p None) r of
           (Some err, r) \<Rightarrow> (Some (Wrapped ''Failed to create directory %q: %w.'' err), r)
         | (None, r) \<Rightarrow> andThen (on_disk (checkNotReparsePoint (rv_disk env) p) r) (create_dirs env es)))"

definition CreateDirectories :: "restore_env \<Rightarrow> restorer \<Rightarrow> err option \<times> restorer" where
  "CreateDirectories env r =
     (if rv_verify env then (None, r)
      else andThen (on_disk (checkNotReparsePoint (rv_disk env) (rv_dest env)) r) (create_dirs env (m_Entries (rv_target env))))"

definition checkHash :: "restore_env \<Rightarrow> mentry \<Rightarrow> bytes \<Rightarrow> err option" where
  "checkHash env e c = (if hex_encode (rv_sha256 env c) \<noteq> Hash e
     then Some (Problem ''Content of %q does not match its checksum.'') else None)"

text \<open>What was read before an error is in the file.\<close>

definition extractFile :: "restore_env \<Rightarrow> source \<Rightarrow> mentry \<Rightarrow> restorer \<Rightarrow> err option \<times> restorer" where
  "extractFile env content e r =
     (if rv_verify env
      then (case snd content of Some err \<Rightarrow> (Some (Wrapped ''Failed to read %q from the backup: %w'' err), r)
        | None \<Rightarrow> (checkHash env e (fst content), r))
      else case targetPath env (Path e) of Inl err \<Rightarrow> (Some err, r) | Inr p \<Rightarrow>
      andThen (on_disk (checkNotReparsePoint (rv_disk env) (butlast p)) r) (\<lambda>r.
        case on_disk (os_create (rv_disk env) p (Some [])) r of
          (Some err, r) \<Rightarrow> (Some (Wrapped ''Failed to create file %q: %w.'' err), r)
        | (None, r) \<Rightarrow>
          (case on_disk (os_call (rv_disk env)) (r\<lparr>r_disk := os_write (rv_disk env) p (fst content) (r_disk r)\<rparr>) of (werr, r) \<Rightarrow>
           case on_disk (os_call (rv_disk env)) r of (cerr, r) \<Rightarrow>
           case (if snd content \<noteq> None then snd content else werr) of
             Some err \<Rightarrow> (Some (Wrapped ''Failed to write file %q: %w'' err), r)
           | None \<Rightarrow> (case cerr of Some err \<Rightarrow> (Some (Wrapped ''Failed to close file %q: %w'' err), r)
           | None \<Rightarrow> (case checkHash env e (fst content) of Some err \<Rightarrow> (Some err, r)
           | None \<Rightarrow> andThen (on_disk (setTimes (rv_disk env) p (CreationTime e) (ModTime e)) r)
               (on_disk (setAttributes (rv_disk env) p (Attributes e))))))))"

fun ExtractSection :: "restore_env \<Rightarrow> decide \<Rightarrow> tar_member list \<Rightarrow> err option \<Rightarrow> restorer \<Rightarrow> err option \<times> restorer" where
  "ExtractSection env decide [] fin r =
     (case fin of None \<Rightarrow> (None, r) | Some err \<Rightarrow> (Some (Wrapped ''Failed to read TAR entry: %w.'' err), r))"
| "ExtractSection env decide (t # ts) fin r =
     (if \<not> tm_reg t then (Some (Problem ''Unexpected TAR entry type %q for %q.''), r)
      else case decide (tm_name t) of
        Inl err \<Rightarrow> (Some err, r)
      | Inr (_, ActionSkip) \<Rightarrow>
          (case snd (tm_data t) of Some err \<Rightarrow> (Some (Wrapped ''Failed to read TAR entry %q: %w'' err), r)
           | None \<Rightarrow> ExtractSection env decide ts fin r)
      | Inr (None, ActionExtract) \<Rightarrow> (Some (Internal ''Internal error: no manifest entry for %q.''), r)
      | Inr (Some e, ActionExtract) \<Rightarrow>
          if EType e \<noteq> TypeFile \<or> Path e \<noteq> tm_name t then (Some (Internal ''Internal error: no manifest entry for %q.''), r)
          else if Path e \<in> r_done r then (Some (Problem ''File %q appears twice in the backup.''), r)
          else if tm_size t \<noteq> Size e
            then (Some (Problem ''Size of %q in the backup (%d bytes) does not match the manifest (%d bytes).''), r)
          else andThen (extractFile env (tm_data t) e r)
            (\<lambda>r. ExtractSection env decide ts fin (r\<lparr>r_done := insert (Path e) (r_done r)\<rparr>)))"

definition missing_files :: "restore_env \<Rightarrow> restorer \<Rightarrow> string list" where
  "missing_files env r = map Path (filter (\<lambda>e. EType e = TypeFile \<and> (rv_own env \<longrightarrow> HasContentInSet e) \<and> Path e \<notin> r_done r)
     (m_Entries (rv_target env)))"

definition is_dir_entry :: "mentry \<Rightarrow> bool" where
  "is_dir_entry e \<longleftrightarrow> EType e = TypeDir"

definition depth :: "mentry \<Rightarrow> nat" where
  "depth e = count_list (Path e) (CHR ''/'')"

fun finish_dirs :: "restore_env \<Rightarrow> mentry list \<Rightarrow> restorer \<Rightarrow> err option \<times> restorer" where
  "finish_dirs env [] r = (None, r)"
| "finish_dirs env (d # ds) r =
     (case targetPath env (Path d) of Inl err \<Rightarrow> (Some err, r) | Inr p \<Rightarrow>
      andThen (on_disk (setTimes (rv_disk env) p (CreationTime d) (ModTime d)) r) (\<lambda>r.
      andThen (on_disk (setAttributes (rv_disk env) p (Attributes d)) r) (finish_dirs env ds)))"

definition Finish :: "restore_env \<Rightarrow> restorer \<Rightarrow> err option \<times> restorer" where
  "Finish env r =
     (if missing_files env r \<noteq> [] then
        (Some (Problem ''%d file(s) listed in the manifest were not found in the backup data (first: %q).''),
         r\<lparr>r_failures := missing_files env r\<rparr>)
      else if rv_verify env then (None, r)
      else finish_dirs env (sort_by (\<lambda>a b. depth a > depth b) (filter is_dir_entry (m_Entries (rv_target env)))) r)"

definition SkippedFiles :: "manifest \<Rightarrow> string list" where
  "SkippedFiles m = map Path (filter (\<lambda>e. EType e = TypeSkipped) (m_Entries m))"

definition StaleFiles :: "manifest \<Rightarrow> string list" where
  "StaleFiles m = map Path (filter Stale (m_Entries m))"

definition by_path :: "manifest \<Rightarrow> string \<Rightarrow> mentry option" where
  "by_path m name = find (\<lambda>e. Path e = name) (rev (m_Entries m))"

definition DecideFromBase :: "manifest \<Rightarrow> decide" where
  "DecideFromBase target name = (case by_path target name of
     Some e \<Rightarrow> if EType e = TypeFile \<and> Origin e = OriginFull then Inr (Some e, ActionExtract) else Inr (None, ActionSkip)
   | None \<Rightarrow> Inr (None, ActionSkip))"

definition DecideOwn :: "manifest \<Rightarrow> decide" where
  "DecideOwn m name = (case by_path m name of
     Some e \<Rightarrow> if HasContentInSet e then Inr (Some e, ActionExtract)
       else if Void e then Inr (None, ActionSkip)
       else Inl (Problem ''Backup data contains %q, which is not in the manifest.'')
   | None \<Rightarrow> Inl (Problem ''Backup data contains %q, which is not in the manifest.''))"

section \<open>Paths in the destination\<close>

lemma clean_elems_append: "clean_elems acc (xs @ ys) = clean_elems (rev (clean_elems acc xs)) ys"
  by (induction xs arbitrary: acc) auto

lemma clean_elems_safe: "list_all safe_segment es \<Longrightarrow> clean_elems acc es = rev acc @ es"
  by (induction es arbitrary: acc) (auto simp: safe_segment_def)

lemma targetPath_eq:
  "targetPath env rel = bindE (ValidatePath rel) (\<lambda>_. Inr (clean_elems [] (rv_dest env) @ split_char (CHR ''/'') rel))"
proof (cases "ValidatePath rel")
  case (Inr u)
  then have "list_all safe_segment (split_char (CHR ''/'') rel)" using ValidatePath_spec by simp
  then show ?thesis by (simp add: targetPath_def Let_def clean_elems_append clean_elems_safe Inr)
qed (simp add: targetPath_def)

text \<open>A restored file cannot leave the destination: \<open>targetPath\<close> gives every path that \<open>ValidatePath\<close> accepts its own elements below the cleaned destination, and refuses every other; the check of the joined path is never what refuses it.\<close>

lemma targetPath_inside:
  "targetPath env rel = (case ValidatePath rel of Inl err \<Rightarrow> Inl err
     | Inr _ \<Rightarrow> Inr (clean_elems [] (rv_dest env) @ split_char (CHR ''/'') rel))"
  by (simp add: targetPath_eq bindE_def split: sum.splits)

definition entry_key :: "restore_env \<Rightarrow> mentry \<Rightarrow> string list" where
  "entry_key env e = node_key (rv_disk env) (rv_dest env @ split_char (CHR ''/'') (Path e))"

definition dest_key :: "restore_env \<Rightarrow> string list" where
  "dest_key env = node_key (rv_disk env) (rv_dest env)"

definition below :: "restore_env \<Rightarrow> string list \<Rightarrow> bool" where
  "below env k \<longleftrightarrow> (\<exists>q. q \<noteq> [] \<and> k = dest_key env @ q)"

definition dest_clean :: "restore_env \<Rightarrow> bool" where
  "dest_clean env \<longleftrightarrow> clean_elems [] (rv_dest env) = rv_dest env"

lemma below_entry [simp]: "below env (entry_key env e)" "entry_key env e \<noteq> dest_key env"
  by (auto simp: below_def entry_key_def dest_key_def node_key_def)

lemma not_below_dest [simp]: "\<not> below env (dest_key env)"
  by (simp add: below_def)

lemma targetPath_Inr:
  "dest_clean env \<Longrightarrow> targetPath env rel = Inr p \<longleftrightarrow> ValidatePath rel = Inr () \<and> p = rv_dest env @ split_char (CHR ''/'') rel"
  by (auto simp: targetPath_eq bindE_def dest_clean_def split: sum.splits)

lemma parent_key:
  assumes "p = rv_dest env @ split_char (CHR ''/'') rel"
  shows "p \<noteq> []" "node_key (rv_disk env) (butlast p) = dest_key env \<or> below env (node_key (rv_disk env) (butlast p))"
proof -
  let ?q = "butlast (split_char (CHR ''/'') rel)"
  have b: "butlast p = rv_dest env @ ?q" by (simp add: assms butlast_append)
  show "p \<noteq> []" by (simp add: assms)
  show "node_key (rv_disk env) (butlast p) = dest_key env \<or> below env (node_key (rv_disk env) (butlast p))"
    by (cases "?q = []") (auto simp: b below_def node_key_def dest_key_def)
qed

section \<open>What a successful restore leaves\<close>

definition file_node :: "mentry \<Rightarrow> bytes \<Rightarrow> dnode" where
  "file_node e c = \<lparr>dn_data = Some c, dn_created = set_time (CreationTime e) None, dn_written = set_time (ModTime e) None,
     dn_attrs = Attributes e AND AttrMask\<rparr>"

definition dir_node :: "mentry \<Rightarrow> dnode" where
  "dir_node e = \<lparr>dn_data = None, dn_created = set_time (CreationTime e) None, dn_written = set_time (ModTime e) None,
     dn_attrs = Attributes e AND AttrMask\<rparr>"

definition file_ok :: "restore_env \<Rightarrow> tar_member set \<Rightarrow> (string list \<rightharpoonup> dnode) \<Rightarrow> mentry \<Rightarrow> bool" where
  "file_ok env T nodes e \<longleftrightarrow> (\<exists>t \<in> T. tm_name t = Path e \<and> tm_size t = Size e
     \<and> hex_encode (rv_sha256 env (fst (tm_data t))) = Hash e \<and> nodes (entry_key env e) = Some (file_node e (fst (tm_data t))))"

definition done_files :: "restore_env \<Rightarrow> string set \<Rightarrow> mentry set" where
  "done_files env D = {e \<in> set (m_Entries (rv_target env)). EType e = TypeFile \<and> Path e \<in> D}"

definition restore_inv :: "restore_env \<Rightarrow> disk \<Rightarrow> tar_member set \<Rightarrow> mentry list \<Rightarrow> restorer \<Rightarrow> bool" where
  "restore_inv env d0 T ds r \<longleftrightarrow> (let nodes = dk_nodes (r_disk r) in
     (\<forall>e \<in> set ds. nodes (entry_key env e) = Some (new_node None))
   \<and> (\<forall>p \<in> r_done r. \<exists>e \<in> done_files env (r_done r). Path e = p)
   \<and> (\<forall>e \<in> done_files env (r_done r). file_ok env T nodes e)
   \<and> (\<forall>k. below env k \<longrightarrow> nodes k \<noteq> None \<longrightarrow> k \<in> entry_key env ` set ds \<or> k \<in> entry_key env ` done_files env (r_done r))
   \<and> (\<forall>k. \<not> below env k \<longrightarrow> k \<noteq> dest_key env \<longrightarrow> nodes k = dk_nodes d0 k)
   \<and> distinct (map (entry_key env) ds) \<and> map_option dn_data (nodes (dest_key env)) = Some None)"

lemma on_disk_None: "on_disk f r = (e, r') \<longleftrightarrow> (\<exists>d. f (r_disk r) = (e, d) \<and> r' = r\<lparr>r_disk := d\<rparr>)"
  by (auto simp: on_disk_def split: prod.splits)

lemma check_None: "checkNotReparsePoint env p d = (None, d') \<Longrightarrow> dk_nodes d' = dk_nodes d"
  by (auto simp: checkNotReparsePoint_def os_call_def split: option.splits prod.splits if_splits)

lemma setTimes_None:
  "setTimes env p c m d = (None, d') \<Longrightarrow> \<exists>n. dk_nodes d (node_key env p) = Some n
     \<and> dk_nodes d' = (dk_nodes d)(node_key env p \<mapsto> n\<lparr>dn_created := set_time c (dn_created n), dn_written := set_time m (dn_written n)\<rparr>)"
  by (auto simp: setTimes_def os_call_def split: option.splits prod.splits)

lemma setAttributes_None:
  "setAttributes env p a d = (None, d') \<Longrightarrow> dk_nodes d (node_key env p) = Some n
     \<Longrightarrow> dk_nodes d' = (dk_nodes d)(node_key env p \<mapsto> n\<lparr>dn_attrs := dn_attrs n OR (a AND AttrMask)\<rparr>)"
  by (auto simp: setAttributes_def os_call_def Let_def map_upd_triv split: option.splits prod.splits if_splits)

lemma create_None:
  "os_create env p data d = (None, d') \<Longrightarrow> dk_nodes d (node_key env p) = None \<and> is_dir env d (butlast p)
     \<and> dk_nodes d' = dk_nodes (add_node env p data d)"
  by (auto simp: os_create_def os_call_def andThen_None is_dir_iff add_node_def split: if_splits)

text \<open>Two disks that differ only in one new node and in the times of the destination itself.\<close>

definition one_new :: "restore_env \<Rightarrow> mentry \<Rightarrow> dnode \<Rightarrow> (string list \<rightharpoonup> dnode) \<Rightarrow> (string list \<rightharpoonup> dnode) \<Rightarrow> bool" where
  "one_new env e n nodes nodes' \<longleftrightarrow> nodes (entry_key env e) = None \<and> nodes' (entry_key env e) = Some n
     \<and> (\<forall>k. k \<noteq> dest_key env \<longrightarrow> k \<noteq> entry_key env e \<longrightarrow> nodes' k = nodes k)
     \<and> map_option dn_data (nodes' (dest_key env)) = map_option dn_data (nodes (dest_key env))"

lemma create_new:
  assumes inv: "restore_inv env d0 T ds r" and c: "os_create (rv_disk env) p data (r_disk r) = (None, d')"
    and p: "p = rv_dest env @ split_char (CHR ''/'') (Path e)"
  shows "one_new env e (new_node data) (dk_nodes (r_disk r)) (dk_nodes d')"
proof -
  let ?nodes = "dk_nodes (r_disk r)" and ?pk = "node_key (rv_disk env) (butlast p)"
  have key: "node_key (rv_disk env) p = entry_key env e" by (simp add: entry_key_def p)
  note c' = create_None [OF c, unfolded key]
  obtain n where n: "?nodes ?pk = Some n" "dn_data n = None" using c' by (auto simp: is_dir_iff)
  have same: "?pk \<noteq> dest_key env \<Longrightarrow> n\<lparr>dn_written := None\<rparr> = n"
  proof -
    assume "?pk \<noteq> dest_key env"
    then have "below env ?pk" using parent_key(2) [OF p] by blast
    then have "?pk \<in> entry_key env ` set ds \<or> ?pk \<in> entry_key env ` done_files env (r_done r)"
      using inv n by (auto simp: restore_inv_def Let_def)
    then show ?thesis
    proof
      assume "?pk \<in> entry_key env ` set ds"
      then show ?thesis using inv n by (auto simp: restore_inv_def Let_def new_node_def)
    next
      assume "?pk \<in> entry_key env ` done_files env (r_done r)"
      then have "\<exists>e' c. n = file_node e' c" using inv n by (fastforce simp: restore_inv_def Let_def file_ok_def)
      then show ?thesis using n by (auto simp: file_node_def)
    qed
  qed
  show ?thesis using c' n same by (auto simp: one_new_def add_node_def key below_entry(2) [symmetric])
qed

lemma restore_inv_dirs: "restore_inv env d0 T ds r \<Longrightarrow> e \<in> set ds \<Longrightarrow> dk_nodes (r_disk r) (entry_key env e) = Some (new_node None)"
  by (auto simp: restore_inv_def Let_def)

lemma restore_inv_files: "restore_inv env d0 T ds r \<Longrightarrow> e \<in> done_files env (r_done r) \<Longrightarrow> file_ok env T (dk_nodes (r_disk r)) e"
  by (auto simp: restore_inv_def Let_def)

lemma restore_inv_done: "restore_inv env d0 T ds r \<Longrightarrow> p \<in> r_done r \<Longrightarrow> \<exists>e \<in> done_files env (r_done r). Path e = p"
  by (auto simp: restore_inv_def Let_def)

lemma restore_inv_only: "restore_inv env d0 T ds r \<Longrightarrow> below env k \<Longrightarrow> dk_nodes (r_disk r) k \<noteq> None \<Longrightarrow>
    k \<in> entry_key env ` set ds \<or> k \<in> entry_key env ` done_files env (r_done r)"
  by (auto simp: restore_inv_def Let_def)

lemma restore_inv_out: "restore_inv env d0 T ds r \<Longrightarrow> \<not> below env k \<Longrightarrow> k \<noteq> dest_key env \<Longrightarrow> dk_nodes (r_disk r) k = dk_nodes d0 k"
  by (auto simp: restore_inv_def Let_def)

lemma restore_inv_distinct: "restore_inv env d0 T ds r \<Longrightarrow> distinct (map (entry_key env) ds)"
  by (auto simp: restore_inv_def Let_def)

lemma restore_inv_root: "restore_inv env d0 T ds r \<Longrightarrow> map_option dn_data (dk_nodes (r_disk r) (dest_key env)) = Some None"
  by (auto simp: restore_inv_def Let_def)

lemma file_ok_cong: "nodes' (entry_key env e) = nodes (entry_key env e) \<Longrightarrow> file_ok env T nodes' e = file_ok env T nodes e"
  by (simp add: file_ok_def)

lemma one_new_fresh:
  assumes "restore_inv env d0 T ds r" "one_new env e n (dk_nodes (r_disk r)) nodes'" "e' \<in> set ds \<or> e' \<in> done_files env (r_done r)"
  shows "entry_key env e' \<noteq> entry_key env e" "nodes' (entry_key env e') = dk_nodes (r_disk r) (entry_key env e')"
proof -
  show "entry_key env e' \<noteq> entry_key env e"
    using assms restore_inv_dirs [OF assms(1), of e'] restore_inv_files [OF assms(1), of e']
    by (auto simp: one_new_def file_ok_def)
  then show "nodes' (entry_key env e') = dk_nodes (r_disk r) (entry_key env e')"
    using assms(2) by (simp add: one_new_def)
qed

lemma one_new_only:
  assumes "restore_inv env d0 T ds r" "one_new env e n (dk_nodes (r_disk r)) nodes'" "below env k" "nodes' k \<noteq> None" "k \<noteq> entry_key env e"
  shows "k \<in> entry_key env ` set ds \<or> k \<in> entry_key env ` done_files env (r_done r)"
proof -
  have "k \<noteq> dest_key env" using assms(3) by auto
  then have "dk_nodes (r_disk r) k \<noteq> None" using assms(2,4,5) by (simp add: one_new_def)
  then show ?thesis by (rule restore_inv_only [OF assms(1,3)])
qed

lemma one_new_out:
  assumes "restore_inv env d0 T ds r" "one_new env e n (dk_nodes (r_disk r)) nodes'" "\<not> below env k" "k \<noteq> dest_key env"
  shows "nodes' k = dk_nodes d0 k"
proof -
  have "k \<noteq> entry_key env e" using assms(3) by auto
  then show ?thesis using assms(2,4) restore_inv_out [OF assms(1,3,4)] by (simp add: one_new_def)
qed

lemma one_new_dir:
  assumes inv: "restore_inv env d0 T ds r" and new: "one_new env e (new_node None) (dk_nodes (r_disk r)) (dk_nodes d)"
  shows "restore_inv env d0 T (ds @ [e]) (r\<lparr>r_disk := d\<rparr>)"
  unfolding restore_inv_def Let_def
proof (intro conjI ballI allI impI)
  note fresh = one_new_fresh [OF inv new]
  show "dk_nodes (r_disk (r\<lparr>r_disk := d\<rparr>)) (entry_key env e') = Some (new_node None)" if "e' \<in> set (ds @ [e])" for e'
    using that new fresh(2) restore_inv_dirs [OF inv] by (auto simp: one_new_def)
  show "\<exists>e' \<in> done_files env (r_done (r\<lparr>r_disk := d\<rparr>)). Path e' = p" if "p \<in> r_done (r\<lparr>r_disk := d\<rparr>)" for p
    using restore_inv_done [OF inv] that by simp
  show "file_ok env T (dk_nodes (r_disk (r\<lparr>r_disk := d\<rparr>))) e'" if "e' \<in> done_files env (r_done (r\<lparr>r_disk := d\<rparr>))" for e'
    using that restore_inv_files [OF inv, of e'] file_ok_cong [of "dk_nodes d" env e' "dk_nodes (r_disk r)" T] fresh(2) [of e'] by simp
  show "k \<in> entry_key env ` set (ds @ [e]) \<or> k \<in> entry_key env ` done_files env (r_done (r\<lparr>r_disk := d\<rparr>))"
    if "below env k" "dk_nodes (r_disk (r\<lparr>r_disk := d\<rparr>)) k \<noteq> None" for k
    using one_new_only [OF inv new that(1)] that(2) by auto
  show "dk_nodes (r_disk (r\<lparr>r_disk := d\<rparr>)) k = dk_nodes d0 k" if "\<not> below env k" "k \<noteq> dest_key env" for k
    using one_new_out [OF inv new that] by simp
  have "entry_key env e \<notin> entry_key env ` set ds" using fresh(1) by (metis imageE)
  then show "distinct (map (entry_key env) (ds @ [e]))" using restore_inv_distinct [OF inv] by simp
  show "map_option dn_data (dk_nodes (r_disk (r\<lparr>r_disk := d\<rparr>)) (dest_key env)) = Some None"
    using restore_inv_root [OF inv] new by (simp add: one_new_def)
qed

lemma one_new_file:
  assumes inv: "restore_inv env d0 T ds r"
    and new: "one_new env e (file_node e (fst (tm_data t))) (dk_nodes (r_disk r)) (dk_nodes d)"
    and t: "t \<in> T" "tm_name t = Path e" "tm_size t = Size e" "hex_encode (rv_sha256 env (fst (tm_data t))) = Hash e"
    and e: "e \<in> set (m_Entries (rv_target env))" "EType e = TypeFile" "distinct (map Path (m_Entries (rv_target env)))"
  shows "restore_inv env d0 T ds (r\<lparr>r_disk := d, r_done := insert (Path e) (r_done r)\<rparr>)"
proof -
  let ?D = "insert (Path e) (r_done r)"
  note fresh = one_new_fresh [OF inv new]
  have "e' = e" if "e' \<in> set (m_Entries (rv_target env))" "Path e' = Path e" for e'
    using that e by (auto simp: distinct_map inj_on_def)
  then have df: "done_files env ?D = insert e (done_files env (r_done r))"
    using e by (auto simp: done_files_def)
  have sel: "r_disk (r\<lparr>r_disk := d, r_done := ?D\<rparr>) = d" "r_done (r\<lparr>r_disk := d, r_done := ?D\<rparr>) = ?D" by simp_all
  show ?thesis unfolding restore_inv_def Let_def sel
  proof (intro conjI ballI allI impI)
    show "dk_nodes d (entry_key env e') = Some (new_node None)" if "e' \<in> set ds" for e'
      using that fresh(2) restore_inv_dirs [OF inv] by auto
    show "\<exists>e' \<in> done_files env ?D. Path e' = p" if "p \<in> ?D" for p
      using restore_inv_done [OF inv] that by (auto simp: df)
    show "file_ok env T (dk_nodes d) e'" if "e' \<in> done_files env ?D" for e'
    proof (cases "e' = e")
      case True then show ?thesis using t new by (auto simp: file_ok_def one_new_def)
    next
      case False
      then have "e' \<in> done_files env (r_done r)" using that df by auto
      then show ?thesis using restore_inv_files [OF inv, of e'] file_ok_cong [of "dk_nodes d" env e' "dk_nodes (r_disk r)" T] fresh(2) [of e'] by simp
    qed
    show "k \<in> entry_key env ` set ds \<or> k \<in> entry_key env ` done_files env ?D"
      if "below env k" "dk_nodes d k \<noteq> None" for k
      using one_new_only [OF inv new that] by (auto simp: df)
    show "dk_nodes d k = dk_nodes d0 k" if "\<not> below env k" "k \<noteq> dest_key env" for k
      by (rule one_new_out [OF inv new that])
    show "distinct (map (entry_key env) ds)" by (rule restore_inv_distinct [OF inv])
    show "map_option dn_data (dk_nodes d (dest_key env)) = Some None"
      using restore_inv_root [OF inv] new by (simp add: one_new_def)
  qed
qed

lemma restore_inv_same_nodes:
  "restore_inv env d0 T ds r \<Longrightarrow> dk_nodes d = dk_nodes (r_disk r) \<Longrightarrow> restore_inv env d0 T ds (r\<lparr>r_disk := d\<rparr>)"
  by (simp add: restore_inv_def)

lemma create_dirs_inv:
  "create_dirs env es r = (None, r') \<Longrightarrow> dest_clean env \<Longrightarrow> restore_inv env d0 T ds r \<Longrightarrow>
     restore_inv env d0 T (ds @ filter is_dir_entry es) r' \<and> r_done r' = r_done r"
proof (induction es arbitrary: r ds)
  case (Cons e es)
  show ?case
  proof (cases "EType e = TypeDir")
    case True
    then obtain p d d' where p: "targetPath env (Path e) = Inr p"
      and c: "os_create (rv_disk env) p None (r_disk r) = (None, d)"
      and k: "checkNotReparsePoint (rv_disk env) p d = (None, d')"
      and rest: "create_dirs env es (r\<lparr>r_disk := d'\<rparr>) = (None, r')"
      using Cons.prems(1) by (auto simp: on_disk_None andThen_None split: sum.splits prod.splits option.splits)
    have "p = rv_dest env @ split_char (CHR ''/'') (Path e)" using p targetPath_Inr [OF Cons.prems(2)] by simp
    from one_new_dir [OF Cons.prems(3) create_new [OF Cons.prems(3) c this]]
    have "restore_inv env d0 T (ds @ [e]) (r\<lparr>r_disk := d'\<rparr>)"
      using restore_inv_same_nodes [of env d0 T "ds @ [e]" "r\<lparr>r_disk := d\<rparr>" d'] check_None [OF k] by simp
    from Cons.IH [OF rest Cons.prems(2) this] True show ?thesis by (simp add: is_dir_entry_def)
  qed (use Cons in \<open>simp add: is_dir_entry_def\<close>)
qed simp

lemma extractFile_new:
  assumes "extractFile env src e r = (None, r')" "\<not> rv_verify env" "dest_clean env" "restore_inv env d0 T ds r"
  shows "one_new env e (file_node e (fst src)) (dk_nodes (r_disk r)) (dk_nodes (r_disk r'))
    \<and> hex_encode (rv_sha256 env (fst src)) = Hash e \<and> snd src = None \<and> r' = r\<lparr>r_disk := r_disk r'\<rparr>"
proof -
  let ?D = "rv_disk env"
  obtain p where tp: "targetPath env (Path e) = Inr p"
    using assms(1,2) by (auto simp: extractFile_def split: sum.splits)
  then have p: "p = rv_dest env @ split_char (CHR ''/'') (Path e)" using targetPath_Inr [OF assms(3)] by simp
  have key: "node_key ?D p = entry_key env e" by (simp add: entry_key_def p)
  obtain e1 d1 where k': "checkNotReparsePoint ?D (butlast p) (r_disk r) = (e1, d1)" by fastforce
  obtain e2 d2 where c': "os_create ?D p (Some []) d1 = (e2, d2)" by fastforce
  obtain e3 d3 where w': "os_call ?D (os_write ?D p (fst src) d2) = (e3, d3)" by fastforce
  obtain e4 d4 where w2': "os_call ?D d3 = (e4, d4)" by fastforce
  obtain e5 d5 where t': "setTimes ?D p (CreationTime e) (ModTime e) d4 = (e5, d5)" by fastforce
  obtain e6 d6 where a': "setAttributes ?D p (Attributes e) d5 = (e6, d6)" by fastforce
  have ok: "e1 = None \<and> e2 = None \<and> e3 = None \<and> e4 = None \<and> snd src = None \<and> checkHash env e (fst src) = None
      \<and> e5 = None \<and> e6 = None \<and> r' = r\<lparr>r_disk := d6\<rparr>"
    using assms(1,2) by (auto simp: extractFile_def tp on_disk_def andThen_def k' c' w' w2' t' a' split: option.splits if_splits)
  note h = ok [THEN conjunct2, THEN conjunct2, THEN conjunct2, THEN conjunct2]
  from ok have k: "checkNotReparsePoint ?D (butlast p) (r_disk r) = (None, d1)" and c: "os_create ?D p (Some []) d1 = (None, d2)"
    and w: "os_call ?D (os_write ?D p (fst src) d2) = (None, d3)" "os_call ?D d3 = (None, d4)"
    and t: "setTimes ?D p (CreationTime e) (ModTime e) d4 = (None, d5)" and a: "setAttributes ?D p (Attributes e) d5 = (None, d6)"
    using k' c' w' w2' t' a' by simp_all
  have n4: "dk_nodes d4 = dk_nodes (os_write ?D p (fst src) d2)" using w by (auto simp: os_call_def)
  have inv1: "restore_inv env d0 T ds (r\<lparr>r_disk := d1\<rparr>)" using assms(4) check_None [OF k] by (simp add: restore_inv_same_nodes)
  have new: "one_new env e (new_node (Some [])) (dk_nodes (r_disk r)) (dk_nodes d2)"
    using create_new [OF inv1 _ p, of "Some []" d2] c check_None [OF k] by simp
  have "dk_nodes d4 (entry_key env e) = Some (new_node (Some (fst src)))"
    using new by (simp add: n4 os_write_def key one_new_def new_node_def)
  with setTimes_None [OF t] have n5: "dk_nodes d5 = (dk_nodes d4)(entry_key env e \<mapsto> (new_node (Some (fst src)))
      \<lparr>dn_created := set_time (CreationTime e) None, dn_written := set_time (ModTime e) None\<rparr>)"
    by (auto simp: key new_node_def)
  then have "dk_nodes d6 = (dk_nodes d5)(entry_key env e \<mapsto> file_node e (fst src))"
    using setAttributes_None [OF a] by (simp add: key file_node_def new_node_def)
  then have "one_new env e (file_node e (fst src)) (dk_nodes (r_disk r)) (dk_nodes d6)"
    using new n5 by (auto simp: one_new_def n4 os_write_def key)
  then show ?thesis using h by (auto simp: checkHash_def split: if_splits)
qed

section \<open>Parents\<close>

lemma join_path_snoc: "ss \<noteq> [] \<Longrightarrow> join_path (ss @ [l]) = join_path ss @ CHR ''/'' # l"
  by (induction ss rule: join_path.induct) auto

lemma split_snoc_slash:
  assumes "ss \<noteq> []" "\<And>s. s \<in> set ss \<Longrightarrow> CHR ''/'' \<notin> set s"
  shows "split_char (CHR ''/'') (join_path ss @ ''/'') = ss @ [[]]"
proof -
  have "split_char (CHR ''/'') (join_path (ss @ [[]])) = ss @ [[]]" by (rule split_join_path) (use assms in auto)
  then show ?thesis using assms(1) by (simp add: join_path_snoc)
qed

lemma path_Dir_valid:
  assumes "ValidatePath p = Inr ()"
  shows "path_Dir p = (if butlast (split_char (CHR ''/'') p) = [] then ''.'' else join_path (butlast (split_char (CHR ''/'') p)))"
proof -
  let ?segs = "split_char (CHR ''/'') p"
  define ss l where "ss = butlast ?segs" and "l = last ?segs"
  have segs: "?segs = ss @ [l]" by (simp add: ss_def l_def)
  have safe: "list_all safe_segment (ss @ [l])" using assms ValidatePath_spec segs by simp
  then have plain: "\<And>s. s \<in> set ss \<Longrightarrow> CHR ''/'' \<notin> set s" "\<And>s. s \<in> set ss \<Longrightarrow> s \<noteq> []" "CHR ''/'' \<notin> set l"
    "list_all (\<lambda>seg. seg \<noteq> ''.'' \<and> seg \<noteq> ''..'') (ss @ [[]])"
    by (auto simp: list_all_iff safe_segment_def)
  have p: "p = join_path (ss @ [l])" using join_path_split [of p] segs by simp
  show ?thesis
  proof (cases "ss = []")
    case True
    then have "p = l" using p by simp
    then have "dropWhile (\<lambda>c. c \<noteq> CHR ''/'') (rev p) = []" using plain(3) by (auto simp: dropWhile_eq_Nil_conv)
    then have "path_Dir p = path_Clean (rev [])" by (simp only: path_Dir_def)
    moreover have "butlast ?segs = []" using segs True by simp
    ultimately show ?thesis by (simp add: path_Clean_def clean_step_def)
  next
    case False
    then have pl: "p = join_path ss @ CHR ''/'' # l" using p by (simp add: join_path_snoc)
    then have d: "rev (dropWhile (\<lambda>c. c \<noteq> CHR ''/'') (rev p)) = join_path ss @ ''/''"
      using dropWhile_append2 [of "rev l" "\<lambda>c. c \<noteq> CHR ''/''" "CHR ''/'' # rev (join_path ss)"] plain(3)
      by (simp add: pl) (metis rev.simps(2) rev_rev_ident)
    obtain s ss' where s: "ss = s # ss'" using False by (cases ss) auto
    then have hd: "hd (join_path ss @ ''/'') \<noteq> CHR ''/''" "join_path ss \<noteq> []"
      using plain(1,2) [of s] by (cases ss'; cases s; auto)+
    have "filter (\<lambda>s. s \<noteq> []) (ss @ [[]]) = ss" using plain(2) by (simp add: filter_id_conv)
    then have "path_Clean (join_path ss @ ''/'') = join_path ss"
      using hd clean_plain [OF plain(4)] split_snoc_slash [OF False plain(1)] by (simp add: path_Clean_def Let_def)
    moreover have "butlast ?segs = ss" using segs by simp
    ultimately show ?thesis using False d by (simp add: path_Dir_def)
  qed
qed

section \<open>The contract of a section\<close>

text \<open>
  What a section has to be for the files of a manifest, without the destination: the paths done after it,
  if it is accepted.
\<close>

fun accept :: "restore_env \<Rightarrow> decide \<Rightarrow> tar_member list \<Rightarrow> string set \<Rightarrow> string set option" where
  "accept env decide [] D = Some D"
| "accept env decide (t # ts) D =
     (if \<not> tm_reg t \<or> snd (tm_data t) \<noteq> None then None
      else case decide (tm_name t) of
        Inl _ \<Rightarrow> None
      | Inr (_, ActionSkip) \<Rightarrow> accept env decide ts D
      | Inr (None, ActionExtract) \<Rightarrow> None
      | Inr (Some e, ActionExtract) \<Rightarrow>
          if EType e = TypeFile \<and> Path e = tm_name t \<and> Path e \<notin> D \<and> tm_size t = Size e
             \<and> hex_encode (rv_sha256 env (fst (tm_data t))) = Hash e
          then accept env decide ts (insert (Path e) D) else None)"

lemma verify_extract:
  assumes "rv_verify env"
  shows "ExtractSection env decide ts fin r = (None, r') \<longleftrightarrow>
    fin = None \<and> (\<exists>D. accept env decide ts (r_done r) = Some D \<and> r' = r\<lparr>r_done := D\<rparr>)"
proof (induction ts arbitrary: r)
  case Nil then show ?case by (auto split: option.splits)
next
  case (Cons t ts)
  have ext: "extractFile env (tm_data t) e r = (None, r'') \<longleftrightarrow> snd (tm_data t) = None
      \<and> hex_encode (rv_sha256 env (fst (tm_data t))) = Hash e \<and> r'' = r" for e r''
    using assms by (auto simp: extractFile_def checkHash_def split: option.splits)
  show ?case
    by (auto simp: Cons.IH andThen_None ext split: sum.splits prod.splits option.splits action.splits)
qed

definition picks_from :: "restore_env \<Rightarrow> decide \<Rightarrow> bool" where
  "picks_from env decide \<longleftrightarrow> (\<forall>name e a. decide name = Inr (Some e, a) \<longrightarrow> e \<in> set (m_Entries (rv_target env)))"

lemma by_path_Some: "by_path m name = Some e \<Longrightarrow> e \<in> set (m_Entries m) \<and> Path e = name"
  by (auto simp: by_path_def find_Some_iff) (metis length_rev nth_mem set_rev)

lemma picks [simp]: "picks_from env (DecideOwn (rv_target env))" "picks_from env (DecideFromBase (rv_target env))"
  by (auto simp: picks_from_def DecideOwn_def DecideFromBase_def dest: by_path_Some split: option.splits if_splits)

lemma restore_extract:
  assumes "\<not> rv_verify env" "dest_clean env" "picks_from env decide" "distinct (map Path (m_Entries (rv_target env)))"
  shows "ExtractSection env decide ts fin r = (None, r') \<Longrightarrow> restore_inv env d0 T ds r \<Longrightarrow> set ts \<subseteq> T \<Longrightarrow>
    fin = None \<and> accept env decide ts (r_done r) = Some (r_done r') \<and> restore_inv env d0 T ds r'"
proof (induction ts arbitrary: r)
  case Nil then show ?case by (auto split: option.splits)
next
  case (Cons t ts)
  show ?case
  proof (cases "\<exists>e. decide (tm_name t) = Inr (Some e, ActionExtract)")
    case True
    then obtain e where e: "decide (tm_name t) = Inr (Some e, ActionExtract)" by blast
    have E: "tm_reg t" "EType e = TypeFile" "Path e = tm_name t" "Path e \<notin> r_done r" "tm_size t = Size e"
      using Cons.prems(1) e by (auto split: if_splits)
    obtain r1 where x: "extractFile env (tm_data t) e r = (None, r1)"
      and rest: "ExtractSection env decide ts fin (r1\<lparr>r_done := insert (Path e) (r_done r1)\<rparr>) = (None, r')"
      using Cons.prems(1) e E by (auto simp: andThen_None)
    from extractFile_new [OF x assms(1,2) Cons.prems(2)]
    have new: "one_new env e (file_node e (fst (tm_data t))) (dk_nodes (r_disk r)) (dk_nodes (r_disk r1))"
      and h: "hex_encode (rv_sha256 env (fst (tm_data t))) = Hash e" "snd (tm_data t) = None"
      and r1: "r1 = r\<lparr>r_disk := r_disk r1\<rparr>" by blast+
    have mem: "e \<in> set (m_Entries (rv_target env))" using assms(3) e by (auto simp: picks_from_def)
    have "restore_inv env d0 T ds (r\<lparr>r_disk := r_disk r1, r_done := insert (Path e) (r_done r)\<rparr>)"
      by (rule one_new_file [OF Cons.prems(2) new]) (use Cons.prems(3) E h mem assms(4) in auto)
    moreover have "r1\<lparr>r_done := insert (Path e) (r_done r1)\<rparr> = r\<lparr>r_disk := r_disk r1, r_done := insert (Path e) (r_done r)\<rparr>"
      by (subst r1, subst (2) r1) simp
    ultimately show ?thesis using Cons.IH [of "r\<lparr>r_disk := r_disk r1, r_done := insert (Path e) (r_done r)\<rparr>"] rest Cons.prems(3) e E h by auto
  next
    case False
    then show ?thesis using Cons.prems Cons.IH
      by (auto split: if_splits sum.splits prod.splits action.splits option.splits)
  qed
qed

section \<open>The end of a restore\<close>

lemma finish_dirs_None:
  "finish_dirs env es r = (None, r') \<Longrightarrow> dest_clean env \<Longrightarrow> distinct (map (entry_key env) es) \<Longrightarrow>
     (\<forall>e \<in> set es. dk_nodes (r_disk r) (entry_key env e) = Some (new_node None)) \<Longrightarrow>
     (\<forall>e \<in> set es. dk_nodes (r_disk r') (entry_key env e) = Some (dir_node e)) \<and>
     (\<forall>k. k \<notin> entry_key env ` set es \<longrightarrow> dk_nodes (r_disk r') k = dk_nodes (r_disk r) k)"
proof (induction es arbitrary: r)
  case (Cons e es)
  obtain p d1 d2 where p: "targetPath env (Path e) = Inr p"
    and t: "setTimes (rv_disk env) p (CreationTime e) (ModTime e) (r_disk r) = (None, d1)"
    and a: "setAttributes (rv_disk env) p (Attributes e) d1 = (None, d2)"
    and rest: "finish_dirs env es (r\<lparr>r_disk := d2\<rparr>) = (None, r')"
    using Cons.prems(1) by (auto simp: on_disk_None andThen_None split: sum.splits)
  have key: "node_key (rv_disk env) p = entry_key env e"
    using p targetPath_Inr [OF Cons.prems(2)] by (simp add: entry_key_def)
  have n: "dk_nodes (r_disk r) (entry_key env e) = Some (new_node None)" using Cons.prems(4) by simp
  have "dk_nodes d2 = (dk_nodes (r_disk r))(entry_key env e \<mapsto> dir_node e)"
    using setTimes_None [OF t] setAttributes_None [OF a] n by (auto simp: key dir_node_def new_node_def)
  moreover have ne: "entry_key env e \<notin> entry_key env ` set es" and d: "distinct (map (entry_key env) es)" using Cons.prems(3) by auto
  ultimately have "\<forall>e' \<in> set es. dk_nodes (r_disk (r\<lparr>r_disk := d2\<rparr>)) (entry_key env e') = Some (new_node None)"
    using Cons.prems(4) by (auto simp: image_iff)
  from Cons.IH [OF rest Cons.prems(2) d this] ne \<open>dk_nodes d2 = _\<close> show ?case by (auto simp: image_iff)
qed simp

definition dir_entries :: "restore_env \<Rightarrow> mentry list" where
  "dir_entries env = filter is_dir_entry (m_Entries (rv_target env))"

definition fresh_dest :: "restore_env \<Rightarrow> disk \<Rightarrow> bool" where
  "fresh_dest env d \<longleftrightarrow> map_option dn_data (dk_nodes d (dest_key env)) = Some None \<and> (\<forall>k. below env k \<longrightarrow> dk_nodes d k = None)"

fun extract_all :: "restore_env \<Rightarrow> (decide \<times> tar_stream) list \<Rightarrow> restorer \<Rightarrow> err option \<times> restorer" where
  "extract_all env [] r = (None, r)"
| "extract_all env ((decide, ts, fin) # ss) r = andThen (ExtractSection env decide ts fin r) (extract_all env ss)"

definition restore_run :: "restore_env \<Rightarrow> (decide \<times> tar_stream) list \<Rightarrow> disk \<Rightarrow> err option \<times> restorer" where
  "restore_run env ss d = andThen (CreateDirectories env (NewRestorer d)) (\<lambda>r. andThen (extract_all env ss r) (Finish env))"

definition members :: "(decide \<times> tar_stream) list \<Rightarrow> tar_member set" where
  "members ss = (\<Union>(decide, ts, fin) \<in> set ss. set ts)"

definition restored :: "restore_env \<Rightarrow> disk \<Rightarrow> tar_member set \<Rightarrow> disk \<Rightarrow> bool" where
  "restored env d0 T d \<longleftrightarrow>
     (\<forall>e \<in> set (m_Entries (rv_target env)). EType e = TypeDir \<longrightarrow> dk_nodes d (entry_key env e) = Some (dir_node e))
   \<and> (\<forall>e \<in> set (m_Entries (rv_target env)). EType e = TypeFile \<longrightarrow> file_ok env T (dk_nodes d) e)
   \<and> (\<forall>k. below env k \<longrightarrow> dk_nodes d k \<noteq> None \<longrightarrow>
        (\<exists>e \<in> set (m_Entries (rv_target env)). (EType e = TypeDir \<or> EType e = TypeFile) \<and> k = entry_key env e))
   \<and> (\<forall>k. \<not> below env k \<longrightarrow> k \<noteq> dest_key env \<longrightarrow> dk_nodes d k = dk_nodes d0 k)"

lemma CreateDirectories_inv:
  assumes "CreateDirectories env (NewRestorer d0) = (None, r)" "\<not> rv_verify env" "dest_clean env" "fresh_dest env d0"
  shows "restore_inv env d0 T (dir_entries env) r \<and> r_done r = {}"
proof -
  obtain d where c: "checkNotReparsePoint (rv_disk env) (rv_dest env) d0 = (None, d)"
    and m: "create_dirs env (m_Entries (rv_target env)) ((NewRestorer d0)\<lparr>r_disk := d\<rparr>) = (None, r)"
    using assms(1,2) by (auto simp: CreateDirectories_def on_disk_None andThen_None NewRestorer_def)
  have "restore_inv env d0 T [] ((NewRestorer d0)\<lparr>r_disk := d\<rparr>)"
    using assms(4) check_None [OF c] by (simp add: restore_inv_def Let_def NewRestorer_def fresh_dest_def done_files_def)
  from create_dirs_inv [OF m assms(3) this] show ?thesis by (simp add: dir_entries_def NewRestorer_def)
qed

lemma extract_all_inv:
  assumes "\<not> rv_verify env" "dest_clean env" "distinct (map Path (m_Entries (rv_target env)))"
  shows "extract_all env ss r = (None, r') \<Longrightarrow> (\<forall>(decide, s) \<in> set ss. picks_from env decide) \<Longrightarrow> members ss \<subseteq> T \<Longrightarrow>
    restore_inv env d0 T ds r \<Longrightarrow> restore_inv env d0 T ds r'"
proof (induction ss arbitrary: r)
  case (Cons s ss)
  obtain decide ts fin where s: "s = (decide, ts, fin)" by (cases s) auto
  obtain r1 where x: "ExtractSection env decide ts fin r = (None, r1)" "extract_all env ss r1 = (None, r')"
    using Cons.prems(1) by (auto simp: s andThen_None)
  have "restore_inv env d0 T ds r1"
    using restore_extract [OF assms(1,2) _ assms(3) x(1) Cons.prems(4)] Cons.prems(2,3) s by (auto simp: members_def)
  then show ?case using Cons.IH [OF x(2)] Cons.prems by (auto simp: members_def)
qed simp

lemma all_done:
  assumes "missing_files env r = []" "\<not> rv_own env" "e \<in> set (m_Entries (rv_target env))" "EType e = TypeFile"
  shows "e \<in> done_files env (r_done r)"
  using assms by (auto simp: missing_files_def done_files_def filter_empty_conv)

lemma run_restored:
  assumes run: "restore_run env ss d0 = (None, r)" and mode: "\<not> rv_verify env" "\<not> rv_own env"
    and env: "dest_clean env" "fresh_dest env d0" "distinct (map Path (m_Entries (rv_target env)))"
      "\<forall>(decide, s) \<in> set ss. picks_from env decide"
  shows "restored env d0 (members ss) (r_disk r)"
proof -
  obtain r1 r2 where c: "CreateDirectories env (NewRestorer d0) = (None, r1)" and x: "extract_all env ss r1 = (None, r2)"
    and f: "Finish env r2 = (None, r)" using run by (auto simp: restore_run_def andThen_None)
  let ?ds = "dir_entries env" and ?es = "set (m_Entries (rv_target env))"
  have inv: "restore_inv env d0 (members ss) ?ds r2"
    using extract_all_inv [OF mode(1) env(1,3) x env(4)] CreateDirectories_inv [OF c mode(1) env(1,2)] by blast
  let ?sorted = "sort_by (\<lambda>a b. depth a > depth b) ?ds"
  have m: "missing_files env r2 = []" and fd: "finish_dirs env ?sorted r2 = (None, r)"
    using f mode(1) by (auto simp: Finish_def dir_entries_def split: if_splits)
  have "distinct (map (entry_key env) ?sorted)" using restore_inv_distinct [OF inv] by simp
  from finish_dirs_None [OF fd env(1) this] restore_inv_dirs [OF inv]
  have dirs: "\<forall>e \<in> set ?ds. dk_nodes (r_disk r) (entry_key env e) = Some (dir_node e)"
    and other: "\<And>k. k \<notin> entry_key env ` set ?ds \<Longrightarrow> dk_nodes (r_disk r) k = dk_nodes (r_disk r2) k" by auto
  have files: "file_ok env (members ss) (dk_nodes (r_disk r)) e" if e: "e \<in> ?es" "EType e = TypeFile" for e
  proof -
    note ok = restore_inv_files [OF inv all_done [OF m mode(2) e]]
    then have "entry_key env e \<notin> entry_key env ` set ?ds"
      using restore_inv_dirs [OF inv] by (auto simp: file_ok_def file_node_def new_node_def)
    then show ?thesis using ok other file_ok_cong by metis
  qed
  have only: "\<exists>e \<in> ?es. (EType e = TypeDir \<or> EType e = TypeFile) \<and> k = entry_key env e"
    if k: "below env k" "dk_nodes (r_disk r) k \<noteq> None" for k
  proof (cases "k \<in> entry_key env ` set ?ds")
    case True then show ?thesis by (auto simp: dir_entries_def is_dir_entry_def)
  next
    case False
    then show ?thesis using restore_inv_only [OF inv k(1)] other [of k] k(2) by (auto simp: done_files_def)
  qed
  have out: "dk_nodes (r_disk r) k = dk_nodes d0 k" if "\<not> below env k" "k \<noteq> dest_key env" for k
  proof -
    have "k \<notin> entry_key env ` set ?ds" using that(1) by auto
    then show ?thesis using restore_inv_out [OF inv that] other [of k] by simp
  qed
  show ?thesis unfolding restored_def using dirs files only out by (auto simp: dir_entries_def is_dir_entry_def)
qed

text \<open>A restore that reports success has restored exactly the target: into an empty folder, whatever calls of the system were made on the way, every directory of the manifest exists with its times and attributes, every file has the content of a member of that name whose SHA-256 is the one of its entry, with its times and attributes, nothing else is in the folder, and nothing outside it changed.\<close>

lemma restore_exact:
  assumes run: "restore_run env ss d0 = (None, r)" and mode: "\<not> rv_verify env" "\<not> rv_own env"
    and env: "dest_clean env" "fresh_dest env d0" "distinct (map Path (m_Entries (rv_target env)))"
      "\<forall>(decide, s) \<in> set ss. picks_from env decide"
  shows "restored env d0 (members ss) (r_disk r)"
  by (rule run_restored [OF assms])

section \<open>What verifies restores\<close>

definition calm :: "restore_env \<Rightarrow> bool" where
  "calm env \<longleftrightarrow> (\<forall>k. de_fault (rv_disk env) k = None \<and> \<not> de_link (rv_disk env) k)"

definition restorable :: "restore_env \<Rightarrow> bool" where
  "restorable env \<longleftrightarrow> (\<forall>e \<in> set (m_Entries (rv_target env)). ValidatePath (Path e) = Inr ())
     \<and> parents_first (m_Entries (rv_target env)) \<and> distinct (map (entry_key env) (m_Entries (rv_target env)))"

lemma restorable_paths: "restorable env \<Longrightarrow> distinct (map Path (m_Entries (rv_target env)))"
  unfolding restorable_def distinct_map inj_on_def entry_key_def by simp

lemma calm_call [simp]: "calm env \<Longrightarrow> os_call (rv_disk env) d = (None, d\<lparr>dk_calls := Suc (dk_calls d)\<rparr>)"
  by (simp add: calm_def os_call_def)

lemma calm_check: "calm env \<Longrightarrow> dk_nodes d (node_key (rv_disk env) p) \<noteq> None \<Longrightarrow>
    \<exists>d'. checkNotReparsePoint (rv_disk env) p d = (None, d') \<and> dk_nodes d' = dk_nodes d"
  by (simp add: checkNotReparsePoint_def) (simp add: calm_def)

lemma calm_times: "calm env \<Longrightarrow> dk_nodes d (node_key (rv_disk env) p) \<noteq> None \<Longrightarrow>
    \<exists>d'. setTimes (rv_disk env) p c m d = (None, d') \<and> dk_nodes d' (node_key (rv_disk env) p) \<noteq> None
      \<and> (\<forall>k. dk_nodes d k \<noteq> None \<longrightarrow> dk_nodes d' k \<noteq> None)"
  by (auto simp: setTimes_def)

lemma calm_attributes: "calm env \<Longrightarrow> dk_nodes d (node_key (rv_disk env) p) \<noteq> None \<Longrightarrow>
    \<exists>d'. setAttributes (rv_disk env) p a d = (None, d') \<and> (\<forall>k. dk_nodes d k \<noteq> None \<longrightarrow> dk_nodes d' k \<noteq> None)"
  by (auto simp: setAttributes_def Let_def)

lemma calm_create: "calm env \<Longrightarrow> dk_nodes d (node_key (rv_disk env) p) = None \<Longrightarrow> p \<noteq> [] \<Longrightarrow> is_dir (rv_disk env) d (butlast p) \<Longrightarrow>
    \<exists>d'. os_create (rv_disk env) p data d = (None, d') \<and> dk_nodes d' (node_key (rv_disk env) p) \<noteq> None"
  by (simp add: os_create_def is_dir_iff) (simp add: add_node_def)

lemma parent_is_dir:
  assumes "restore_inv env d0 T ds r" "ValidatePath (Path e) = Inr ()"
    "path_Dir (Path e) = ''.'' \<or> path_Dir (Path e) \<in> Path ` set ds"
    "\<And>e'. e' \<in> set ds \<Longrightarrow> ValidatePath (Path e') = Inr ()"
  shows "is_dir (rv_disk env) (r_disk r) (butlast (rv_dest env @ split_char (CHR ''/'') (Path e)))"
proof -
  let ?q = "butlast (split_char (CHR ''/'') (Path e))"
  have b: "butlast (rv_dest env @ split_char (CHR ''/'') (Path e)) = rv_dest env @ ?q" by (simp add: butlast_append)
  have root: "is_dir (rv_disk env) (r_disk r) (rv_dest env)"
    using restore_inv_root [OF assms(1)] by (simp add: is_dir_iff dest_key_def)
  show ?thesis
  proof (cases "?q = []")
    case True then show ?thesis using root b by simp
  next
    case False
    have no: "\<And>s. s \<in> set ?q \<Longrightarrow> CHR ''/'' \<notin> set s" using split_char_no_sep by (metis in_set_butlastD)
    have dir: "path_Dir (Path e) = join_path ?q" using path_Dir_valid [OF assms(2)] False by simp
    have "\<forall>s \<in> set ?q. safe_segment s" using assms(2) ValidatePath_spec by (auto simp: list_all_iff dest: in_set_butlastD)
    then have "?q \<noteq> [''.'']" unfolding safe_segment_def by (metis list.set_intros(1))
    then have "path_Dir (Path e) \<noteq> ''.''" using split_join_path [OF False no] dir by auto
    then obtain e' where e': "e' \<in> set ds" "Path e' = join_path ?q" using assms(3) dir by auto
    then have "dk_nodes (r_disk r) (node_key (rv_disk env) (rv_dest env @ ?q)) = Some (new_node None)"
      using restore_inv_dirs [OF assms(1) e'(1)] split_join_path [OF False no] by (simp add: entry_key_def)
    then show ?thesis by (simp add: is_dir_iff b new_node_def)
  qed
qed

lemma fresh_key:
  assumes "restore_inv env d0 T ds r" "distinct (map (entry_key env) (m_Entries (rv_target env)))"
    "e \<in> set (m_Entries (rv_target env))" "set ds \<subseteq> set (m_Entries (rv_target env))" "e \<notin> set ds" "Path e \<notin> r_done r"
  shows "dk_nodes (r_disk r) (entry_key env e) = None"
proof (rule ccontr)
  assume "dk_nodes (r_disk r) (entry_key env e) \<noteq> None"
  then obtain e' where "e' \<in> set ds \<or> e' \<in> done_files env (r_done r)" "entry_key env e' = entry_key env e"
    using restore_inv_only [OF assms(1) below_entry(1)] by fastforce
  moreover from this assms have "e' = e" by (auto simp: distinct_map inj_on_def done_files_def)
  ultimately show False using assms(5,6) by (auto simp: done_files_def)
qed

lemma create_dirs_total:
  assumes "calm env" "dest_clean env" "restorable env"
  shows "m_Entries (rv_target env) = pre @ es \<Longrightarrow> restore_inv env d0 T (filter is_dir_entry pre) r \<Longrightarrow> r_done r = {} \<Longrightarrow>
    \<exists>r'. create_dirs env es r = (None, r')"
proof (induction es arbitrary: r pre)
  case (Cons e es)
  show ?case
  proof (cases "is_dir_entry e")
    case False
    then show ?thesis using Cons.IH [of "pre @ [e]" r] Cons.prems by (simp add: is_dir_entry_def)
  next
    case True
    have v: "\<And>e'. e' \<in> set (pre @ e # es) \<Longrightarrow> ValidatePath (Path e') = Inr ()" "parents_first (pre @ e # es)"
      "distinct (map (entry_key env) (pre @ e # es))"
      using assms(3) Cons.prems(1) by (auto simp: restorable_def)
    define p where "p = rv_dest env @ split_char (CHR ''/'') (Path e)"
    have ne: "p \<noteq> []" by (simp add: p_def)
    have tp: "targetPath env (Path e) = Inr p" using v(1) targetPath_Inr [OF assms(2)] by (simp add: p_def)
    have key: "node_key (rv_disk env) p = entry_key env e" by (simp add: p_def entry_key_def)
    have "e \<notin> set pre" using v(3) by auto
    then have fresh: "dk_nodes (r_disk r) (entry_key env e) = None"
      using fresh_key [OF Cons.prems(2), of e] v(3) Cons.prems(1,3) by auto
    have "path_Dir (Path e) = ''.'' \<or> path_Dir (Path e) \<in> dirs_of pre"
      using v(2) unfolding parents_first_def by (auto dest: spec [of _ "length pre"])
    then have par: "is_dir (rv_disk env) (r_disk r) (butlast p)"
      unfolding p_def using v(1) by (intro parent_is_dir [OF Cons.prems(2)]) (auto simp: dirs_of_def is_dir_entry_def image_iff)
    obtain d where c: "os_create (rv_disk env) p None (r_disk r) = (None, d)" "dk_nodes d (node_key (rv_disk env) p) \<noteq> None"
      using calm_create [OF assms(1), of "r_disk r" p None] fresh key par ne by auto
    obtain d' where k: "checkNotReparsePoint (rv_disk env) p d = (None, d')" using calm_check [OF assms(1) c(2)] by blast
    have one: "create_dirs env [e] r = (None, r\<lparr>r_disk := d'\<rparr>)"
      using True by (simp add: is_dir_entry_def tp on_disk_def c(1) k)
    from create_dirs_inv [OF one assms(2) Cons.prems(2)] True
    have "restore_inv env d0 T (filter is_dir_entry (pre @ [e])) (r\<lparr>r_disk := d'\<rparr>)" by simp
    then obtain r' where "create_dirs env es (r\<lparr>r_disk := d'\<rparr>) = (None, r')"
      using Cons.IH [of "pre @ [e]" "r\<lparr>r_disk := d'\<rparr>"] Cons.prems by auto
    then show ?thesis using True by (simp add: is_dir_entry_def tp on_disk_def c(1) k)
  qed
qed simp

lemma extractFile_total:
  assumes "calm env" "dest_clean env" "restorable env" "\<not> rv_verify env" and inv: "restore_inv env d0 T (dir_entries env) r"
    and e: "e \<in> set (m_Entries (rv_target env))" "EType e = TypeFile" "Path e \<notin> r_done r"
    and src: "snd src = None" "hex_encode (rv_sha256 env (fst src)) = Hash e"
  shows "\<exists>r'. extractFile env src e r = (None, r')"
proof -
  let ?D = "rv_disk env"
  define p where "p = rv_dest env @ split_char (CHR ''/'') (Path e)"
  have v: "\<And>e'. e' \<in> set (m_Entries (rv_target env)) \<Longrightarrow> ValidatePath (Path e') = Inr ()"
    and d: "distinct (map (entry_key env) (m_Entries (rv_target env)))" and par: "parents_first (m_Entries (rv_target env))"
    using assms(3) by (auto simp: restorable_def)
  have tp: "targetPath env (Path e) = Inr p" using v [OF e(1)] targetPath_Inr [OF assms(2)] by (simp add: p_def)
  have key: "node_key ?D p = entry_key env e" by (simp add: p_def entry_key_def)
  have "e \<notin> set (dir_entries env)" using e(2) by (auto simp: dir_entries_def is_dir_entry_def)
  then have fresh: "dk_nodes (r_disk r) (node_key ?D p) = None"
    using fresh_key [OF inv d e(1) _ _ e(3)] key by (auto simp: dir_entries_def)
  obtain i where i: "i < length (m_Entries (rv_target env))" "m_Entries (rv_target env) ! i = e"
    using e(1) by (auto simp: in_set_conv_nth)
  have "path_Dir (Path e) = ''.'' \<or> path_Dir (Path e) \<in> dirs_of (take i (m_Entries (rv_target env)))"
    using par i unfolding parents_first_def by blast
  then have dir: "is_dir ?D (r_disk r) (butlast p)"
    unfolding p_def using v e(1) by (intro parent_is_dir [OF inv])
      (auto simp: dirs_of_def dir_entries_def is_dir_entry_def image_iff dest: in_set_takeD)
  obtain d1 where k: "checkNotReparsePoint ?D (butlast p) (r_disk r) = (None, d1)" "dk_nodes d1 = dk_nodes (r_disk r)"
    using calm_check [OF assms(1)] dir by (auto simp: is_dir_iff)
  obtain d2 where c: "os_create ?D p (Some []) d1 = (None, d2)" "dk_nodes d2 (node_key ?D p) \<noteq> None"
    using calm_create [OF assms(1), of d1 p "Some []"] fresh dir k(2) by (auto simp: is_dir_iff p_def)
  define d4 where "d4 = (os_write ?D p (fst src) d2)\<lparr>dk_calls := Suc (Suc (dk_calls (os_write ?D p (fst src) d2)))\<rparr>"
  have n4: "dk_nodes d4 (node_key ?D p) \<noteq> None" using c(2) by (simp add: d4_def os_write_def)
  obtain d5 where t: "setTimes ?D p (CreationTime e) (ModTime e) d4 = (None, d5)" "dk_nodes d5 (node_key ?D p) \<noteq> None"
    using calm_times [OF assms(1) n4] by blast
  obtain d6 where a: "setAttributes ?D p (Attributes e) d5 = (None, d6)" using calm_attributes [OF assms(1) t(2)] by blast
  have h: "checkHash env e (fst src) = None" using src by (simp add: checkHash_def)
  show ?thesis using assms(1,4) t a
    by (simp add: extractFile_def tp on_disk_def andThen_def k c src h d4_def)
qed

lemma extract_total:
  assumes "calm env" "dest_clean env" "restorable env" "\<not> rv_verify env" "picks_from env decide"
  shows "accept env decide ts (r_done r) = Some D \<Longrightarrow> restore_inv env d0 T (dir_entries env) r \<Longrightarrow> set ts \<subseteq> T \<Longrightarrow>
    \<exists>r'. ExtractSection env decide ts None r = (None, r')"
proof (induction ts arbitrary: r)
  case (Cons t ts)
  note paths = restorable_paths [OF assms(3)]
  show ?case
  proof (cases "\<exists>e. decide (tm_name t) = Inr (Some e, ActionExtract)")
    case True
    then obtain e where e: "decide (tm_name t) = Inr (Some e, ActionExtract)" by blast
    have E: "tm_reg t" "EType e = TypeFile" "Path e = tm_name t" "Path e \<notin> r_done r" "tm_size t = Size e"
      "snd (tm_data t) = None" "hex_encode (rv_sha256 env (fst (tm_data t))) = Hash e"
      and acc: "accept env decide ts (insert (Path e) (r_done r)) = Some D"
      using Cons.prems(1) e by (auto split: if_splits)
    have mem: "e \<in> set (m_Entries (rv_target env))" using assms(5) e by (auto simp: picks_from_def)
    obtain r1 where x: "extractFile env (tm_data t) e r = (None, r1)"
      using extractFile_total [OF assms(1-4) Cons.prems(2) mem E(2,4,6,7)] by blast
    let ?r = "r1\<lparr>r_done := insert (Path e) (r_done r1)\<rparr>"
    have one: "ExtractSection env decide [t] None r = (None, ?r)" using e E x by simp
    from restore_extract [OF assms(4,2,5) paths one Cons.prems(2), of] Cons.prems(3)
    have inv: "restore_inv env d0 T (dir_entries env) ?r" by simp
    have "r_done r1 = r_done r" using extractFile_new [OF x assms(4,2) Cons.prems(2)] by (metis restorer.simps(2) restorer.surjective restorer.update_convs(1))
    then obtain r' where "ExtractSection env decide ts None ?r = (None, r')"
      using Cons.IH [OF _ inv] acc Cons.prems(3) by auto
    then show ?thesis using e E x by simp
  next
    case False
    then show ?thesis using Cons.prems Cons.IH
      by (auto split: if_splits sum.splits prod.splits action.splits option.splits)
  qed
qed simp

lemma finish_total:
  assumes "calm env" "dest_clean env"
  shows "(\<forall>e \<in> set es. ValidatePath (Path e) = Inr () \<and> dk_nodes (r_disk r) (entry_key env e) \<noteq> None) \<Longrightarrow>
    \<exists>r'. finish_dirs env es r = (None, r')"
proof (induction es arbitrary: r)
  case (Cons e es)
  define p where "p = rv_dest env @ split_char (CHR ''/'') (Path e)"
  have tp: "targetPath env (Path e) = Inr p" using Cons.prems targetPath_Inr [OF assms(2)] by (simp add: p_def)
  have key: "node_key (rv_disk env) p = entry_key env e" by (simp add: p_def entry_key_def)
  have ex: "dk_nodes (r_disk r) (node_key (rv_disk env) p) \<noteq> None" using Cons.prems key by simp
  obtain d1 where t: "setTimes (rv_disk env) p (CreationTime e) (ModTime e) (r_disk r) = (None, d1)"
    "dk_nodes d1 (node_key (rv_disk env) p) \<noteq> None" "\<forall>k. dk_nodes (r_disk r) k \<noteq> None \<longrightarrow> dk_nodes d1 k \<noteq> None"
    using calm_times [OF assms(1) ex] by blast
  obtain d2 where a: "setAttributes (rv_disk env) p (Attributes e) d1 = (None, d2)" "\<forall>k. dk_nodes d1 k \<noteq> None \<longrightarrow> dk_nodes d2 k \<noteq> None"
    using calm_attributes [OF assms(1) t(2)] by blast
  have "\<exists>r'. finish_dirs env es (r\<lparr>r_disk := d2\<rparr>) = (None, r')"
    using Cons.prems t(3) a(2) by (intro Cons.IH) simp
  then show ?case by (simp add: tp on_disk_def t(1) a(1))
qed simp

lemma accept_mode [simp]: "accept (env\<lparr>rv_verify := v\<rparr>) decide ts D = accept env decide ts D"
  by (induction ts arbitrary: D) (auto split: sum.splits prod.splits option.splits action.splits)

lemma verify_all:
  assumes "rv_verify env"
  shows "extract_all env ss r = (None, r') \<Longrightarrow> r_disk r' = r_disk r"
  by (induction ss arbitrary: r) (auto simp: andThen_None verify_extract [OF assms] split: prod.splits)

lemma extract_all_total:
  assumes "calm env" "dest_clean env" "restorable env" "\<not> rv_verify env"
  shows "extract_all (env\<lparr>rv_verify := True\<rparr>) ss rv = (None, rv') \<Longrightarrow> r_done rv = r_done r \<Longrightarrow> restore_inv env d0 T (dir_entries env) r \<Longrightarrow>
    members ss \<subseteq> T \<Longrightarrow> (\<forall>(decide, s) \<in> set ss. picks_from env decide) \<Longrightarrow>
    \<exists>r'. extract_all env ss r = (None, r') \<and> r_done r' = r_done rv' \<and> restore_inv env d0 T (dir_entries env) r'"
proof (induction ss arbitrary: rv r)
  case (Cons s ss)
  obtain decide ts fin where s: "s = (decide, ts, fin)" by (cases s) auto
  obtain rv1 where x: "ExtractSection (env\<lparr>rv_verify := True\<rparr>) decide ts fin rv = (None, rv1)"
    and rest: "extract_all (env\<lparr>rv_verify := True\<rparr>) ss rv1 = (None, rv')"
    using Cons.prems(1) by (auto simp: s andThen_None)
  from x obtain D where fin: "fin = None" and acc: "accept env decide ts (r_done r) = Some D" and rv1: "r_done rv1 = D"
    using Cons.prems(2) by (auto simp: verify_extract)
  have sub: "set ts \<subseteq> T" and pk: "picks_from env decide" using Cons.prems(4,5) s by (auto simp: members_def)
  obtain r1 where e: "ExtractSection env decide ts None r = (None, r1)"
    using extract_total [OF assms pk acc Cons.prems(3) sub] by blast
  from restore_extract [OF assms(4,2) pk restorable_paths [OF assms(3)] e Cons.prems(3) sub]
  have r1: "r_done r1 = D" "restore_inv env d0 T (dir_entries env) r1" using acc by auto
  have "\<exists>r'. extract_all env ss r1 = (None, r') \<and> r_done r' = r_done rv' \<and> restore_inv env d0 T (dir_entries env) r'"
    using Cons.prems(4,5) by (intro Cons.IH [OF rest]) (auto simp: rv1 r1 members_def)
  then show ?case by (simp add: s fin e)
qed simp

lemma run_verified:
  assumes ver: "restore_run (env\<lparr>rv_verify := True\<rparr>) ss d = (None, rv)" and mode: "\<not> rv_verify env"
    and env: "calm env" "dest_clean env" "restorable env" "fresh_dest env d0" "\<forall>(decide, s) \<in> set ss. picks_from env decide"
  shows "\<exists>r. restore_run env ss d0 = (None, r)"
proof -
  obtain rv2 where xv: "extract_all (env\<lparr>rv_verify := True\<rparr>) ss (NewRestorer d) = (None, rv2)"
    and fv: "Finish (env\<lparr>rv_verify := True\<rparr>) rv2 = (None, rv)"
    using ver by (auto simp: restore_run_def andThen_None CreateDirectories_def)
  have root: "dk_nodes d0 (node_key (rv_disk env) (rv_dest env)) \<noteq> None"
    using env(4) by (auto simp: fresh_dest_def dest_key_def)
  obtain d1 where k: "checkNotReparsePoint (rv_disk env) (rv_dest env) d0 = (None, d1)" "dk_nodes d1 = dk_nodes d0"
    using calm_check [OF env(1) root] by blast
  let ?r0 = "(NewRestorer d0)\<lparr>r_disk := d1\<rparr>"
  have "restore_inv env d0 (members ss) (filter is_dir_entry []) ?r0"
    using env(4) k(2) by (simp add: restore_inv_def Let_def NewRestorer_def fresh_dest_def done_files_def)
  then obtain r1 where c: "create_dirs env (m_Entries (rv_target env)) ?r0 = (None, r1)"
    using create_dirs_total [OF env(1-3) append_Nil [symmetric], of d0 "members ss" ?r0] by (auto simp: NewRestorer_def)
  have cd: "CreateDirectories env (NewRestorer d0) = (None, r1)"
    using c k(1) mode by (simp add: CreateDirectories_def on_disk_def NewRestorer_def)
  from CreateDirectories_inv [OF cd mode env(2,4)]
  have i1: "restore_inv env d0 (members ss) (dir_entries env) r1" "r_done r1 = {}" by blast+
  obtain r2 where x: "extract_all env ss r1 = (None, r2)" "r_done r2 = r_done rv2" "restore_inv env d0 (members ss) (dir_entries env) r2"
    using extract_all_total [OF env(1-3) mode xv _ i1(1) _ env(5)] i1(2) by (auto simp: NewRestorer_def)
  have m: "missing_files env r2 = []"
    using fv x(2) by (auto simp: Finish_def missing_files_def split: if_splits)
  have "\<exists>r. finish_dirs env (sort_by (\<lambda>a b. depth a > depth b) (dir_entries env)) r2 = (None, r)"
    using restore_inv_dirs [OF x(3)] env(3) by (intro finish_total [OF env(1,2)]) (auto simp: restorable_def dir_entries_def)
  then show ?thesis using cd x(1) m mode by (simp add: restore_run_def Finish_def dir_entries_def)
qed

text \<open>C18. Verify checks what restore needs: when verifying the same sections succeeds, restoring them into an empty folder succeeds as well, if the system carries out its calls, no folder is a link, and the manifest is one that reading it accepts (valid paths, parents first, no two that the file system takes for the same).\<close>

theorem verified_restores:
  assumes ver: "restore_run (env\<lparr>rv_verify := True\<rparr>) ss d = (None, rv)" and mode: "\<not> rv_verify env"
    and env: "calm env" "dest_clean env" "restorable env" "fresh_dest env d0" "\<forall>(decide, s) \<in> set ss. picks_from env decide"
  shows "\<exists>r. restore_run env ss d0 = (None, r)"
  by (rule run_verified [OF assms])

section \<open>An example\<close>

definition demo_disk_env :: disk_env where
  "demo_disk_env = \<lparr>de_fold = \<lambda>s. s, de_fault = \<lambda>k. None, de_link = \<lambda>k. False\<rparr>"

definition demo_restore :: "(bytes \<Rightarrow> bytes) \<Rightarrow> manifest \<Rightarrow> restore_env" where
  "demo_restore sha m = \<lparr>rv_disk = demo_disk_env, rv_sha256 = sha, rv_dest = [''C'', ''out''], rv_verify = False, rv_own = False, rv_target = m\<rparr>"

definition demo_disk :: disk where
  "demo_disk = \<lparr>dk_nodes = [[''C'', ''out''] \<mapsto> new_node None], dk_calls = 0\<rparr>"

definition demo_sha :: "bytes \<Rightarrow> bytes" where
  "demo_sha c = replicate 32 (if c = [] then 0 else hd c)"

lemma demo_restore_simps [simp]: "rv_target (demo_restore sha m) = m" "rv_sha256 (demo_restore sha m) = sha"
  "\<not> rv_verify (demo_restore sha m)" "\<not> rv_own (demo_restore sha m)"
  by (simp_all add: demo_restore_def)

lemma demo_calm [simp]: "calm (demo_restore sha m)"
  by (simp add: calm_def demo_restore_def demo_disk_env_def)

lemma demo_dest_clean [simp]: "dest_clean (demo_restore sha m)"
  by (simp add: dest_clean_def demo_restore_def)

lemma demo_key: "entry_key (demo_restore sha m) e = [''C'', ''out''] @ split_char (CHR ''/'') (Path e)"
  by (simp add: entry_key_def node_key_def demo_restore_def demo_disk_env_def)

lemma demo_fresh [simp]: "fresh_dest (demo_restore sha m) demo_disk"
  by (auto simp: fresh_dest_def demo_disk_def dest_key_def below_def node_key_def demo_restore_def demo_disk_env_def new_node_def)

definition demo_sections :: "(decide \<times> tar_stream) list" where
  "demo_sections = [(DecideOwn (builder_manifest demo_builder),
     [\<lparr>tm_reg = True, tm_name = ''d/f'', tm_size = 3, tm_data = ([0, 1, 2], None)\<rparr>], None)]"

definition demo_restore_env :: restore_env where
  "demo_restore_env = demo_restore demo_sha (builder_manifest demo_builder)"

lemma demo_picks: "\<forall>(decide, s) \<in> set demo_sections. picks_from demo_restore_env decide"
  using picks(1) [of demo_restore_env] by (simp add: demo_sections_def demo_restore_env_def)

lemma demo_run_ok: "\<exists>r. restore_run demo_restore_env demo_sections demo_disk = (None, r)"
proof -
  have "fst (restore_run demo_restore_env demo_sections demo_disk) = None" by code_simp
  then show ?thesis by (metis prod.collapse)
qed

lemma demo_verify_ok: "\<exists>r. restore_run (demo_restore_env\<lparr>rv_verify := True\<rparr>) demo_sections demo_disk = (None, r)"
proof -
  have "fst (restore_run (demo_restore_env\<lparr>rv_verify := True\<rparr>) demo_sections demo_disk) = None" by code_simp
  then show ?thesis by (metis prod.collapse)
qed

lemma demo_entries_valid: "restorable demo_restore_env"
  unfolding restorable_def
proof (intro conjI)
  obtain isDiff where ok: "entries_ok id isDiff (m_Entries (builder_manifest demo_builder))"
    using ValidateManifest_entries [OF demo_valid] by blast
  show "\<forall>e \<in> set (m_Entries (rv_target demo_restore_env)). ValidatePath (Path e) = Inr ()"
    using ok by (simp add: entries_ok_def demo_restore_env_def list_all_iff)
  show "parents_first (m_Entries (rv_target demo_restore_env))" using ok by (simp add: entries_ok_def demo_restore_env_def)
  have "distinct (map Path (m_Entries (builder_manifest demo_builder)))" using ok by (simp add: entries_ok_def)
  then show "distinct (map (entry_key demo_restore_env) (m_Entries (rv_target demo_restore_env)))"
    by (auto simp: demo_restore_env_def distinct_map inj_on_def demo_key) (metis join_path_split)
qed

lemmas demo_restore_facts = demo_calm [of demo_sha "builder_manifest demo_builder", folded demo_restore_env_def]
  demo_dest_clean [of demo_sha "builder_manifest demo_builder", folded demo_restore_env_def]
  demo_fresh [of demo_sha "builder_manifest demo_builder", folded demo_restore_env_def]
  demo_restore_simps(3,4) [of demo_sha "builder_manifest demo_builder", folded demo_restore_env_def]

lemma restore_exact_witness:
  "\<exists>r. restore_run demo_restore_env demo_sections demo_disk = (None, r) \<and> restored demo_restore_env demo_disk (members demo_sections) (r_disk r)"
proof -
  obtain r where run: "restore_run demo_restore_env demo_sections demo_disk = (None, r)" using demo_run_ok by blast
  from run restore_exact [OF run demo_restore_facts(4,5,2,3) restorable_paths [OF demo_entries_valid] demo_picks]
  show ?thesis by blast
qed

lemma verified_restores_witness:
  "\<exists>r. restore_run demo_restore_env demo_sections demo_disk = (None, r)"
proof -
  obtain rv where "restore_run (demo_restore_env\<lparr>rv_verify := True\<rparr>) demo_sections demo_disk = (None, rv)"
    using demo_verify_ok by blast
  from verified_restores [OF this demo_restore_facts(4,1,2) demo_entries_valid demo_restore_facts(3) demo_picks]
  show ?thesis .
qed

end
