(* ===== verification/Archive.thy ===== *)
theory Archive
  imports Build Restore
begin

text \<open>
  From backup to restore: the data sections that \<open>BuildTar\<close> writes (\<open>format/archive/build.go\<close>) are the ones
  that verify and restore accept (\<open>format/archive/restore.go\<close>), for a full backup and for a differential
  with its full backup. A TAR stream read back is the list of members that were written.
\<close>

section \<open>Sections that match their manifest\<close>

definition member_of :: "tar_item \<Rightarrow> tar_member" where
  "member_of t = \<lparr>tm_reg = True, tm_name = ti_name t, tm_size = int (length (ti_data t)), tm_data = (ti_data t, None)\<rparr>"

definition member_ok :: "(bytes \<Rightarrow> bytes) \<Rightarrow> tar_member \<Rightarrow> mentry \<Rightarrow> bool" where
  "member_ok sha t e \<longleftrightarrow> tm_reg t \<and> snd (tm_data t) = None \<and> tm_name t = Path e \<and> (HasContentInSet e \<longleftrightarrow> \<not> Void e)
     \<and> (\<not> Void e \<longrightarrow> tm_size t = Size e \<and> hex_encode (sha (fst (tm_data t))) = Hash e)"

definition section_ok :: "(bytes \<Rightarrow> bytes) \<Rightarrow> mentry list \<Rightarrow> tar_member list \<Rightarrow> bool" where
  "section_ok sha es ts \<longleftrightarrow> list_all2 (member_ok sha) ts (filter in_tar es)"

definition own_paths :: "mentry list \<Rightarrow> string set" where
  "own_paths es = Path ` {e \<in> set es. HasContentInSet e}"

lemma by_path_distinct:
  assumes "distinct (map Path (m_Entries m))" "e \<in> set (m_Entries m)"
  shows "by_path m (Path e) = Some e"
proof (cases "by_path m (Path e)")
  case None then show ?thesis using assms(2) by (auto simp: by_path_def find_None_iff)
next
  case (Some e')
  then show ?thesis using assms by_path_Some [OF Some] by (auto simp: distinct_map inj_on_def)
qed

text \<open>A set's own section is accepted against its manifest.\<close>

lemma accept_own:
  assumes "distinct (map Path (m_Entries m))"
  shows "section_ok (rv_sha256 env) es ts \<Longrightarrow> set es \<subseteq> set (m_Entries m) \<Longrightarrow> distinct (map Path es) \<Longrightarrow> D \<inter> own_paths es = {} \<Longrightarrow>
    accept env (DecideOwn m) ts D = Some (D \<union> own_paths es)"
proof (induction es arbitrary: ts D)
  case Nil then show ?case by (simp add: section_ok_def own_paths_def)
next
  case (Cons e es)
  have bp: "by_path m (Path e) = Some e" using by_path_distinct [OF assms] Cons.prems(2) by simp
  show ?case
  proof (cases "in_tar e")
    case False
    then have "own_paths (e # es) = own_paths es" by (auto simp: own_paths_def in_tar_def)
    then show ?thesis using Cons False by (simp add: section_ok_def)
  next
    case True
    then obtain t ts' where ts: "ts = t # ts'" "member_ok (rv_sha256 env) t e" "section_ok (rv_sha256 env) es ts'"
      using Cons.prems(1) by (auto simp: section_ok_def list_all2_Cons2)
    show ?thesis
    proof (cases "Void e")
      case True
      then have "\<not> HasContentInSet e" using ts(2) by (simp add: member_ok_def)
      then have "own_paths (e # es) = own_paths es" by (auto simp: own_paths_def)
      moreover have "DecideOwn m (tm_name t) = Inr (None, ActionSkip)"
        using ts(2) True \<open>\<not> HasContentInSet e\<close> by (simp add: member_ok_def DecideOwn_def bp)
      ultimately show ?thesis using Cons ts by (simp add: member_ok_def)
    next
      case False
      then have c: "HasContentInSet e" using ts(2) by (simp add: member_ok_def)
      then have own: "own_paths (e # es) = insert (Path e) (own_paths es)" by (auto simp: own_paths_def)
      have "Path e \<notin> D" using Cons.prems(4) own by auto
      have "Path e \<notin> own_paths es" using Cons.prems(3) by (auto simp: own_paths_def image_iff)
      moreover have "DecideOwn m (tm_name t) = Inr (Some e, ActionExtract)"
        using ts(2) c by (simp add: member_ok_def DecideOwn_def bp)
      ultimately show ?thesis
        using Cons.IH [OF ts(3), of "insert (Path e) D"] Cons.prems(2-4) own ts False c \<open>Path e \<notin> D\<close>
        by (auto simp: member_ok_def HasContentInSet_def)
    qed
  qed
qed

text \<open>The files a differential takes from the full backup.\<close>

definition from_base_ok :: "mentry list \<Rightarrow> mentry list \<Rightarrow> bool" where
  "from_base_ok base es \<longleftrightarrow> (\<forall>e \<in> set es. EType e = TypeFile \<longrightarrow>
     HasContentInSet e \<and> Origin e = OriginDiff
   \<or> \<not> HasContentInSet e \<and> Origin e = OriginFull \<and> (\<exists>b \<in> set base. EType b = TypeFile \<and> Path b = Path e \<and> Hash b = Hash e \<and> Size b = Size e))"

definition all_stored :: "mentry list \<Rightarrow> bool" where
  "all_stored es \<longleftrightarrow> (\<forall>e \<in> set es. EType e = TypeFile \<longrightarrow> HasContentInSet e)"

definition base_paths :: "mentry list \<Rightarrow> string set" where
  "base_paths es = Path ` {e \<in> set es. EType e = TypeFile \<and> Origin e = OriginFull}"

lemma accept_base:
  assumes dm: "distinct (map Path (m_Entries m))" and db: "distinct (map Path base)"
    and ok: "from_base_ok base (m_Entries m)" and full: "all_stored base"
  shows "section_ok (rv_sha256 env) es ts \<Longrightarrow> set es \<subseteq> set base \<Longrightarrow> distinct (map Path es) \<Longrightarrow> D \<inter> Path ` set es = {} \<Longrightarrow>
    \<exists>E. accept env (DecideFromBase m) ts D = Some E \<and> E = D \<union> (base_paths (m_Entries m) \<inter> own_paths es)"
proof (induction es arbitrary: ts D)
  case Nil then show ?case by (simp add: section_ok_def own_paths_def)
next
  case (Cons e es)
  show ?case
  proof (cases "in_tar e")
    case False
    then have "own_paths (e # es) = own_paths es" by (auto simp: own_paths_def in_tar_def)
    then show ?thesis using Cons False by (auto simp: section_ok_def)
  next
    case True
    then obtain t ts' where ts: "ts = t # ts'" "member_ok (rv_sha256 env) t e" "section_ok (rv_sha256 env) es ts'"
      using Cons.prems(1) by (auto simp: section_ok_def list_all2_Cons2)
    have reg: "tm_reg t" "snd (tm_data t) = None" "tm_name t = Path e" using ts(2) by (auto simp: member_ok_def)
    note IH = Cons.IH [OF ts(3)]
    show ?thesis
    proof (cases "Path e \<in> base_paths (m_Entries m)")
      case False
      then have "DecideFromBase m (Path e) = Inr (None, ActionSkip)"
        unfolding DecideFromBase_def base_paths_def by (cases "by_path m (Path e)") (auto simp: image_iff dest!: by_path_Some)
      moreover have "base_paths (m_Entries m) \<inter> own_paths (e # es) = base_paths (m_Entries m) \<inter> own_paths es"
        using False by (auto simp: own_paths_def)
      ultimately show ?thesis using IH [of D] Cons.prems(2-4) ts(1) reg by auto
    next
      case True
      then obtain x where x: "x \<in> set (m_Entries m)" "Path x = Path e" "EType x = TypeFile" "Origin x = OriginFull"
        by (auto simp: base_paths_def)
      have dec: "DecideFromBase m (Path e) = Inr (Some x, ActionExtract)"
        using by_path_distinct [OF dm x(1)] x by (simp add: DecideFromBase_def)
      obtain b where b: "b \<in> set base" "EType b = TypeFile" "Path b = Path e" "Hash b = Hash x" "Size b = Size x"
        using ok x unfolding from_base_ok_def by (metis type_distinct(7))
      have "b = e" using b db Cons.prems(2) by (auto simp: distinct_map inj_on_def)
      then have c: "HasContentInSet e" using full b(1,2) by (auto simp: all_stored_def)
      then have fit: "tm_size t = Size x" "hex_encode (rv_sha256 env (fst (tm_data t))) = Hash x"
        using ts(2) b(4,5) \<open>b = e\<close> by (auto simp: member_ok_def)
      have own: "own_paths (e # es) = insert (Path e) (own_paths es)" using c by (auto simp: own_paths_def)
      have "Path e \<notin> D" "(insert (Path e) D) \<inter> Path ` set es = {}" using Cons.prems(3,4) by auto
      then show ?thesis using IH [of "insert (Path e) D"] Cons.prems(2,3) ts(1) reg dec x fit own True by auto
    qed
  qed
qed

section \<open>What a backup writes, restore accepts\<close>

lemma built_section:
  assumes "BuildTar opts root mb = (None, b)" "b_entries mb = []"
  shows "section_ok (bo_sha256 opts) (b_entries (tb_mb b)) (map member_of (tb_items b))"
proof -
  have "list_all2 (matches opts (source_files root)) (tb_items b) (filter in_tar (b_entries (tb_mb b)))"
    using built_inv [OF assms] by (simp add: build_inv_def)
  then show ?thesis unfolding section_ok_def list_all2_map1
    by (rule list_all2_mono) (auto simp: matches_def member_ok_def member_of_def)
qed

lemma built_full:
  assumes "BuildTar opts root mb = (None, b)" "b_entries mb = []" "bo_base opts = None"
  shows "all_stored (b_entries (tb_mb b))"
  using built_inv [OF assms(1,2)] assms(3)
  by (auto simp: build_inv_def all_stored_def base_ok_def list_all_iff base_file_def)

lemma built_diff:
  assumes "BuildTar opts root mb = (None, b)" "b_entries mb = []" "bo_base opts = Some m0"
  shows "from_base_ok (m_Entries m0) (b_entries (tb_mb b))"
  unfolding from_base_ok_def
proof (intro ballI impI)
  fix e assume e: "e \<in> set (b_entries (tb_mb b))" "EType e = TypeFile"
  then have ok: "base_ok opts e" using built_inv [OF assms(1,2)] by (auto simp: build_inv_def list_all_iff)
  show "HasContentInSet e \<and> Origin e = OriginDiff \<or> \<not> HasContentInSet e \<and> Origin e = OriginFull \<and>
      (\<exists>b \<in> set (m_Entries m0). EType b = TypeFile \<and> Path b = Path e \<and> Hash b = Hash e \<and> Size b = Size e)"
  proof (cases "HasContentInSet e")
    case True then show ?thesis using ok assms(3) by (simp add: base_ok_def tb_origin_def)
  next
    case False
    then obtain base s v where "base_file opts (Path e) = Some base" "e = fromBase base s v" using ok e(2) by (auto simp: base_ok_def)
    then have "\<exists>x \<in> set (m_Entries m0). EType x = TypeFile \<and> Path x = Path e \<and> x = base"
      using base_file_Some [of opts "Path e" base] assms(3) by simp
    then show ?thesis using False \<open>e = fromBase base s v\<close> by auto
  qed
qed

definition own_section :: "tar_builder \<Rightarrow> decide \<times> tar_stream" where
  "own_section b = (DecideOwn (builder_manifest (tb_mb b)), map member_of (tb_items b), None)"

definition base_section :: "tar_builder \<Rightarrow> tar_builder \<Rightarrow> decide \<times> tar_stream" where
  "base_section b b0 = (DecideFromBase (builder_manifest (tb_mb b)), map member_of (tb_items b0), None)"

lemma valid_distinct:
  "ValidateManifest to_lower m = Inr () \<Longrightarrow> distinct (map Path (m_Entries m))"
  using ValidateManifest_entries [of to_lower m]
  by (auto simp: entries_ok_def distinct_map inj_on_def)

lemma all_found:
  assumes "\<forall>e \<in> set (m_Entries (rv_target env)). EType e = TypeFile \<longrightarrow> Path e \<in> r_done r"
  shows "missing_files env r = []"
  using assms by (auto simp: missing_files_def filter_empty_conv)

lemma verify_full:
  assumes b: "BuildTar opts root mb = (None, b)" "b_entries mb = []" "bo_base opts = None"
    and m: "ValidateManifest to_lower (builder_manifest (tb_mb b)) = Inr ()" "rv_target env = builder_manifest (tb_mb b)"
    and env: "rv_sha256 env = bo_sha256 opts" "rv_verify env"
  shows "\<exists>r. restore_run env [own_section b] d = (None, r)"
proof -
  let ?m = "builder_manifest (tb_mb b)"
  have es: "m_Entries ?m = b_entries (tb_mb b)" by (simp add: builder_manifest_def)
  have acc: "accept env (DecideOwn ?m) (map member_of (tb_items b)) {} = Some (own_paths (b_entries (tb_mb b)))"
    using accept_own [OF valid_distinct [OF m(1)], where es = "b_entries (tb_mb b)" and env = env and D = "{}"] built_section [OF b(1,2)] valid_distinct [OF m(1)]
    by (simp add: env(1) es)
  have "missing_files env r = []" if "r_done r = own_paths (b_entries (tb_mb b))" for r
    using built_full [OF b] that by (intro all_found) (auto simp: m(2) es own_paths_def all_stored_def)
  then show ?thesis
    by (simp add: restore_run_def CreateDirectories_def env(2) own_section_def andThen_None verify_extract acc NewRestorer_def Finish_def)
qed

lemma verify_diff:
  assumes b0: "BuildTar opts0 root0 mb0 = (None, b0)" "b_entries mb0 = []" "bo_base opts0 = None"
    and b: "BuildTar opts root mb = (None, b)" "b_entries mb = []" "bo_base opts = Some (builder_manifest (tb_mb b0))"
    and m: "ValidateManifest to_lower (builder_manifest (tb_mb b0)) = Inr ()"
      "ValidateManifest to_lower (builder_manifest (tb_mb b)) = Inr ()" "rv_target env = builder_manifest (tb_mb b)"
    and env: "rv_sha256 env = bo_sha256 opts" "rv_sha256 env = bo_sha256 opts0" "rv_verify env"
  shows "\<exists>r. restore_run env [base_section b b0, own_section b] d = (None, r)"
proof -
  let ?m = "builder_manifest (tb_mb b)" and ?n = "builder_manifest (tb_mb b0)"
  let ?es = "b_entries (tb_mb b)" and ?fs = "b_entries (tb_mb b0)"
  have es: "m_Entries ?m = ?es" "m_Entries ?n = ?fs" by (simp_all add: builder_manifest_def)
  note d = valid_distinct [OF m(2)] and d0 = valid_distinct [OF m(1)]
  have fb: "from_base_ok ?fs ?es" using built_diff [OF b] es by simp
  have full: "all_stored ?fs" by (rule built_full [OF b0])
  let ?D = "base_paths ?es \<inter> own_paths ?fs"
  have acc0: "accept env (DecideFromBase ?m) (map member_of (tb_items b0)) {} = Some ?D"
    using accept_base [OF d, where base = ?fs and es = ?fs and env = env and D = "{}"] built_section [OF b0(1,2)] d0 fb full by (simp add: env(2) [symmetric] es)
  have "base_paths ?es \<inter> own_paths ?es = {}"
  proof -
    have "x = y" if "x \<in> set ?es" "y \<in> set ?es" "Path x = Path y" for x y
      using that d by (auto simp: es distinct_map inj_on_def)
    moreover have "\<not> HasContentInSet x" if "x \<in> set ?es" "EType x = TypeFile" "Origin x = OriginFull" for x
      using fb that by (auto simp: from_base_ok_def)
    ultimately show ?thesis unfolding base_paths_def own_paths_def by fast
  qed
  then have acc: "accept env (DecideOwn ?m) (map member_of (tb_items b)) ?D = Some (?D \<union> own_paths ?es)"
    using accept_own [OF d, where es = ?es and env = env and D = ?D] built_section [OF b(1,2)] d by (auto simp: env(1) es)
  have "missing_files env r = []" if r: "r_done r = ?D \<union> own_paths ?es" for r
  proof (rule all_found, intro ballI impI)
    fix e assume "e \<in> set (m_Entries (rv_target env))" "EType e = TypeFile"
    then have e: "e \<in> set ?es" "EType e = TypeFile" by (simp_all add: m(3) es)
    show "Path e \<in> r_done r"
    proof (cases "HasContentInSet e")
      case True then show ?thesis using e(1) r by (auto simp: own_paths_def)
    next
      case False
      then obtain x where x: "Origin e = OriginFull" "x \<in> set ?fs" "EType x = TypeFile" "Path x = Path e"
        using fb e unfolding from_base_ok_def by blast
      then have "Path e \<in> own_paths ?fs" using full by (auto simp: own_paths_def all_stored_def image_iff)
      then show ?thesis using e x(1) r by (auto simp: base_paths_def)
    qed
  qed
  then show ?thesis
    by (simp add: restore_run_def CreateDirectories_def env(3) own_section_def base_section_def andThen_None verify_extract acc0 acc
        NewRestorer_def Finish_def)
qed

text \<open>The manifest as the destination's file system takes its paths: names it does not tell apart are also the same to \<open>strings.ToLower\<close>.\<close>

definition folds_like :: "(string \<Rightarrow> string) \<Rightarrow> restore_env \<Rightarrow> bool" where
  "folds_like to_lower env \<longleftrightarrow> (\<forall>e e'. entry_key env e = entry_key env e' \<longrightarrow> to_lower (Path e) = to_lower (Path e'))"

lemma valid_restorable:
  assumes "ValidateManifest to_lower (rv_target env) = Inr ()" "folds_like to_lower env"
  shows "restorable env"
proof -
  let ?es = "m_Entries (rv_target env)"
  have ok: "entries_ok to_lower (mh_SetType (m_Header (rv_target env)) = SetTypeDiff) ?es"
    using ValidateManifest_entries [OF assms(1)] by blast
  then have "distinct (map (\<lambda>e. to_lower (Path e)) ?es)" by (simp add: entries_ok_def)
  then have "distinct (map (entry_key env) ?es)"
    using assms(2) unfolding folds_like_def distinct_map inj_on_def by meson
  then show ?thesis using ok by (simp add: restorable_def entries_ok_def list_all_iff)
qed

lemma restore_all:
  assumes "\<exists>r. restore_run (env\<lparr>rv_verify := True\<rparr>) ss d = (None, r)" "\<not> rv_verify env" "\<not> rv_own env"
    and env: "calm env" "dest_clean env" "restorable env" "fresh_dest env d0" "\<forall>(decide, s) \<in> set ss. picks_from env decide"
  shows "\<exists>r. restore_run env ss d0 = (None, r) \<and> restored env d0 (members ss) (r_disk r)"
proof -
  obtain rv where "restore_run (env\<lparr>rv_verify := True\<rparr>) ss d = (None, rv)" using assms(1) by blast
  from run_verified [OF this assms(2) env] obtain r where "restore_run env ss d0 = (None, r)" by blast
  with run_restored [OF this assms(2,3) env(2,4) restorable_paths [OF env(3)] env(5)] show ?thesis by blast
qed

lemma full_restores:
  assumes b: "BuildTar opts root mb = (None, b)" "b_entries mb = []" "bo_base opts = None"
    and m: "ValidateManifest to_lower (builder_manifest (tb_mb b)) = Inr ()" "rv_target env = builder_manifest (tb_mb b)"
    and mode: "rv_sha256 env = bo_sha256 opts" "\<not> rv_verify env" "\<not> rv_own env"
    and env: "calm env" "dest_clean env" "folds_like to_lower env" "fresh_dest env d0"
  shows "\<exists>r. restore_run env [own_section b] d0 = (None, r) \<and> restored env d0 (set (map member_of (tb_items b))) (r_disk r)"
proof -
  have "restorable env" using valid_restorable m env(3) by simp
  moreover have "picks_from env (DecideOwn (builder_manifest (tb_mb b)))" using picks(1) [of env] m(2) by simp
  ultimately show ?thesis
    using restore_all [OF verify_full [OF b m(1), of "env\<lparr>rv_verify := True\<rparr>" d0] mode(2,3) env(1,2) _ env(4)] m(2) mode(1)
    by (simp add: own_section_def members_def)
qed

lemma diff_restores:
  assumes b0: "BuildTar opts0 root0 mb0 = (None, b0)" "b_entries mb0 = []" "bo_base opts0 = None"
    and b: "BuildTar opts root mb = (None, b)" "b_entries mb = []" "bo_base opts = Some (builder_manifest (tb_mb b0))"
    and m: "ValidateManifest to_lower (builder_manifest (tb_mb b0)) = Inr ()"
      "ValidateManifest to_lower (builder_manifest (tb_mb b)) = Inr ()" "rv_target env = builder_manifest (tb_mb b)"
    and mode: "rv_sha256 env = bo_sha256 opts" "rv_sha256 env = bo_sha256 opts0" "\<not> rv_verify env" "\<not> rv_own env"
    and env: "calm env" "dest_clean env" "folds_like to_lower env" "fresh_dest env d0"
  shows "\<exists>r. restore_run env [base_section b b0, own_section b] d0 = (None, r)
    \<and> restored env d0 (set (map member_of (tb_items b0 @ tb_items b))) (r_disk r)"
proof -
  have "restorable env" using valid_restorable m env(3) by simp
  moreover have "picks_from env (DecideOwn (builder_manifest (tb_mb b)))" "picks_from env (DecideFromBase (builder_manifest (tb_mb b)))"
    using picks [of env] m(3) by simp_all
  ultimately show ?thesis
    using restore_all [OF verify_diff [OF b0 b m(1,2), of "env\<lparr>rv_verify := True\<rparr>" d0] mode(3,4) env(1,2) _ env(4)] m(3) mode(1,2)
    by (simp add: own_section_def base_section_def members_def)
qed

section \<open>An example\<close>

text \<open>A folder in which one file has changed, and the header of a differential.\<close>

definition demo_tree2 :: tree where
  "demo_tree2 = Tree (demo_node ''root'' True []) [Tree (demo_node ''b'' False [5, 6, 7]) [], Tree (demo_node ''d'' True []) [Tree (demo_node ''x'' False [3]) []]]"

definition demo_diff_builder :: builder where
  "demo_diff_builder = NewBuilder ((b_header demo_builder)\<lparr>mh_SetType := SetTypeDiff, mh_DiffNumber := 1\<rparr>)"

lemma demo_folds: "folds_like id (demo_restore sha m)"
  unfolding folds_like_def demo_key same_append_eq by (metis join_path_split)

end
