(* ===== verification/SetWriter.thy ===== *)
theory SetWriter
  imports Container Naming Archive
begin

text \<open>
  Writing a complete set (\<open>format/setwriter/write.go\<close>): the TAR of the source goes through the container
  writer and the split writer into part files with the temporary suffix, which get their final names only
  when everything is on disk. The backup directory is a map from file names to contents. What the system
  answers is an environment: the outcomes of the split writer, of \<open>os.Stat\<close>, \<open>os.Rename\<close> and \<open>os.Remove\<close>.
\<close>

section \<open>Parameters and environment\<close>

record set_base =
  sb_Header :: header
  sb_Manifest :: manifest
  sb_ManifestSHA256 :: string

record set_params =
  sp_SourceDir :: string
  sp_Patterns :: "string list"
  sp_OutputDir :: string
  sp_Entry :: backup_entry
  sp_Base :: "set_base option"
  sp_RunID :: string
  sp_KeySet :: keyset
  sp_Master :: bytes
  sp_SplitSize :: int
  sp_SyncParts :: bool

text \<open>
  \<open>se_build\<close> are the options and answers of \<open>BuildTar\<close> and \<open>se_tree\<close> the source; \<open>se_tar\<close> is the TAR format
  of \<open>archive/tar\<close>; \<open>se_nonce\<close>, \<open>se_now\<close> and \<open>se_version\<close> go into the header. The renames and removals of
  part files fail by their index.
\<close>

record set_env =
  se_format :: format_env
  se_split :: split_env
  se_build :: build_opts
  se_tree :: tree
  se_tar :: "tar_item list \<Rightarrow> bytes"
  se_nonce :: "bytes result"
  se_now :: string
  se_version :: string
  se_rename :: "nat \<Rightarrow> err option"
  se_remove :: "nat \<Rightarrow> bool"

type_synonym file_dir = "string \<rightharpoonup> bytes"

record set_result =
  sr_Parts :: "string list"
  sr_Write :: write_result
  sr_Manifest :: footer
  sr_Stats :: build_stats

section \<open>Final names\<close>

definition trim_suffix :: "string \<Rightarrow> string \<Rightarrow> string" where
  "trim_suffix s suf = (if length suf \<le> length s \<and> drop (length s - length suf) s = suf then take (length s - length suf) s else s)"

fun finalize_from :: "(nat \<Rightarrow> err option) \<Rightarrow> nat \<Rightarrow> string list \<Rightarrow> file_dir \<Rightarrow> string list result \<times> file_dir" where
  "finalize_from ren i [] fd = (Inr [], fd)"
| "finalize_from ren i (tmp # tmps) fd =
     (let dst = trim_suffix tmp TempSuffix in
      if dst = tmp then (Inl (Internal ''Internal error: part %q has no temporary suffix.''), fd)
      else if fd dst \<noteq> None then (Inl (Problem ''Backup file %q already exists.''), fd)
      else case ren i of
        Some e \<Rightarrow> (Inl (Wrapped ''Failed to finalize part file %q: %w.'' e), fd)
      | None \<Rightarrow> (case finalize_from ren (Suc i) tmps (fd(dst := fd tmp, tmp := None)) of
          (Inl e, fd) \<Rightarrow> (Inl e, fd)
        | (Inr final, fd) \<Rightarrow> (Inr (dst # final), fd)))"

definition FinalizeParts :: "(nat \<Rightarrow> err option) \<Rightarrow> string list \<Rightarrow> file_dir \<Rightarrow> string list result \<times> file_dir" where
  "FinalizeParts ren tmps fd = finalize_from ren 0 tmps fd"

definition remove_files :: "(nat \<Rightarrow> bool) \<Rightarrow> string list \<Rightarrow> file_dir \<Rightarrow> file_dir" where
  "remove_files rem ps fd = (\<lambda>f. if \<exists>i < length ps. ps ! i = f \<and> rem i then None else fd f)"

fun firstError :: "err option list \<Rightarrow> err option" where
  "firstError [] = None"
| "firstError (Some e # es) = Some e"
| "firstError (None # es) = firstError es"

lemma firstError_None [simp]: "firstError es = None \<longleftrightarrow> list_all (\<lambda>e. e = None) es"
  by (induction es rule: firstError.induct) auto

definition toSlash :: "string \<Rightarrow> string" where
  "toSlash p = map (\<lambda>c. if c = CHR 0x5C then CHR ''/'' else c) p"

section \<open>Writing\<close>

definition params_check :: "set_params \<Rightarrow> err option" where
  "params_check p = (case sp_Base p of
     Some b \<Rightarrow> if DiffNumber (sp_Entry p) < 1 \<or> h_ChainID (sb_Header b) \<noteq> ChainID (sp_Entry p)
         \<or> h_DirectoryName (sb_Header b) \<noteq> DirectoryName (sp_Entry p)
       then Some (Internal ''Internal error: differential %s does not match its base %s_%s.'') else None
   | None \<Rightarrow> if DiffNumber (sp_Entry p) \<noteq> 0 then Some (Internal ''Internal error: differential %s has no base.'') else None)"

definition set_type :: "set_params \<Rightarrow> string" where
  "set_type p = (if sp_Base p = None then SetTypeFull else SetTypeDiff)"

definition set_header :: "set_env \<Rightarrow> set_params \<Rightarrow> header result" where
  "set_header env p = bindE (NewHeader (set_type p) (ChainID (sp_Entry p)) (sp_RunID p) (DirectoryName (sp_Entry p)) (Date (sp_Entry p))
       (sp_KeySet p) (se_nonce env) (se_now env) (se_version env)) (\<lambda>h. Inr (case sp_Base p of
     None \<Rightarrow> h
   | Some b \<Rightarrow> h\<lparr>h_DiffNumber := int (DiffNumber (sp_Entry p)), h_BaseDate := h_Date (sb_Header b),
                 h_BaseManifestSHA256 := sb_ManifestSHA256 b\<rparr>))"

definition set_builder :: "set_params \<Rightarrow> builder" where
  "set_builder p = NewBuilder \<lparr>mh_ManifestVersion = 0, mh_SetType = set_type p, mh_ChainID = ChainID (sp_Entry p),
     mh_DiffNumber = int (DiffNumber (sp_Entry p)), mh_DirectoryName = DirectoryName (sp_Entry p),
     mh_SourcePath = toSlash (sp_SourceDir p), mh_HashAlg = [], mh_Exclude = sp_Patterns p\<rparr>"

definition temp_name :: "set_params \<Rightarrow> nat \<Rightarrow> string" where
  "temp_name p seq = PartFileName (sp_OutputDir p) (sp_Entry p) seq @ TempSuffix"

definition set_tar :: "set_env \<Rightarrow> set_params \<Rightarrow> err option \<times> tar_builder" where
  "set_tar env p = BuildTar ((se_build env)\<lparr>bo_base := map_option sb_Manifest (sp_Base p)\<rparr>) (se_tree env) (set_builder p)"

text \<open>
  \<open>Write\<close>: the TAR producer and the container writer run at the same time, joined by a pipe; what the
  producer wrote before it failed is the data the writer reads before the error. The buffer in front of the
  split writer passes the bytes on in order.
\<close>

definition WriteBackupSet :: "set_env \<Rightarrow> set_params \<Rightarrow> file_dir \<Rightarrow> set_result result \<times> file_dir" where
  "WriteBackupSet env p fd =
     (case params_check p of Some e \<Rightarrow> (Inl e, fd) | None \<Rightarrow>
      case set_header env p of Inl e \<Rightarrow> (Inl e, fd) | Inr h \<Rightarrow>
      let sw = SetSyncOnClose (sp_SyncParts p) (NewWriter (sp_SplitSize p));
          (tarErr, tb) = set_tar env p;
          man = (case tarErr of Some e \<Rightarrow> ([], Some e)
            | None \<Rightarrow> (case EncodeManifest (fe_lower (se_format env)) (fe_lines (se_format env)) (tb_mb tb) of
                Inl e \<Rightarrow> ([], Some e) | Inr bs \<Rightarrow> (bs, None)));
          (res, sw) = WriteSet (se_format env) (split_write (se_split env)) h (sp_Master p) (sp_SplitSize p)
             (se_tar env (tb_items tb), tarErr) man sw;
          (closeErr, sw) = WriterClose (se_split env) sw;
          tempParts = WriterPaths (temp_name p) sw;
          fd = fd ++ map_of (zip tempParts (files sw))
      in case firstError [tarErr, case res of Inl e \<Rightarrow> Some e | Inr _ \<Rightarrow> None, closeErr] of
           Some e \<Rightarrow> (Inl (if tarErr \<noteq> None then Wrapped ''Creating TAR failed: %w'' e else e), remove_files (se_remove env) tempParts fd)
         | None \<Rightarrow> (case res of Inl e \<Rightarrow> (Inl e, fd) | Inr w \<Rightarrow>
             if int (length tempParts) \<noteq> PartCount (wr_Trailer w)
               then (Inl (Internal ''Internal error: wrote %d part(s), trailer expects %d.''), remove_files (se_remove env) tempParts fd)
             else case FinalizeParts (se_rename env) tempParts fd of
               (Inl e, fd) \<Rightarrow> (Inl e, fd)
             | (Inr final, fd) \<Rightarrow> (Inr \<lparr>sr_Parts = final, sr_Write = w, sr_Manifest = computeFooter (b_entries (tb_mb tb)), sr_Stats = tb_stats tb\<rparr>, fd)))"

section \<open>Writes that all succeed\<close>

text \<open>
  A writer refines another when whatever it does without an error the other does too; then a set that the
  one wrote is the set the other writes. The split writer on a system with faults refines the one without.
\<close>

locale writer_refines =
  fixes wr wr' :: "'w writer"
  assumes refines: "wr w p = (None, w') \<Longrightarrow> wr' w p = (None, w')"
begin

lemma writeEncryptedChunk_refines:
  "writeEncryptedChunk wr C key aad i b f w = (Inr u, w') \<Longrightarrow> writeEncryptedChunk wr' C key aad i b f w = (Inr u, w')"
  by (auto simp: writeEncryptedChunk_def split: prod.splits option.splits dest: refines)

lemma encrypt_loop_refines:
  "encrypt_loop wr C key aad src i w = (Inr u, w') \<Longrightarrow> encrypt_loop wr' C key aad src i w = (Inr u, w')"
proof (induction "length (fst src)" arbitrary: src i w rule: less_induct)
  case less
  obtain e b src' where r: "read_full ChunkSize src = (e, b, src')" by (cases "read_full ChunkSize src")
  let ?final = "e = Some EOF \<or> e = Some UnexpectedEOF"
  have ok: "\<not> (e \<noteq> None \<and> e \<noteq> Some UnexpectedEOF \<and> e \<noteq> Some EOF)"
    using less.prems by (subst (asm) encrypt_loop.simps) (auto simp: r split: if_splits)
  obtain w1 where c: "writeEncryptedChunk wr C key aad i b ?final w = (Inr (), w1)"
    using less.prems ok by (subst (asm) encrypt_loop.simps) (auto simp: r Let_def split: prod.splits sum.splits if_splits)
  note c' = writeEncryptedChunk_refines [OF c]
  show ?case
  proof (cases ?final)
    case True
    then show ?thesis using less.prems c c' by (subst (asm) encrypt_loop.simps, subst encrypt_loop.simps) (auto simp: r)
  next
    case False
    then have e: "e = None" using ok by auto
    then have rest: "encrypt_loop wr C key aad src' (Suc i) w1 = (Inr u, w')"
      using less.prems c False by (subst (asm) encrypt_loop.simps) (simp add: r)
    have "length (fst src') < length (fst src)"
      using r e by (auto simp: read_full_def ChunkSize_def split: prod.splits if_splits)
    from less.hyps [OF this rest] c' e show ?thesis by (subst encrypt_loop.simps) (simp add: r)
  qed
qed

lemma EncryptStream_refines:
  "EncryptStream wr C src key aad w = (Inr u, w') \<Longrightarrow> EncryptStream wr' C src key aad w = (Inr u, w')"
  by (auto simp: EncryptStream_def split: sum.splits dest: encrypt_loop_refines)

lemma encryptManifest_refines:
  "encryptManifest wr C man key aad w = (Inr x, w') \<Longrightarrow> encryptManifest wr' C man key aad w = (Inr x, w')"
  by (auto simp: encryptManifest_def split: prod.splits option.splits sum.splits dest: EncryptStream_refines)

end

lemma count_refines: "writer_refines wr wr' \<Longrightarrow> writer_refines (count_write wr) (count_write wr')"
  unfolding writer_refines_def count_write_def by (auto split: prod.splits option.splits)

lemma WriteSet_refines:
  assumes "writer_refines wr wr'" "WriteSet E wr h master n data man w = (Inr res, w')"
  shows "WriteSet E wr' h master n data man w = (Inr res, w')"
proof -
  note c = count_refines [OF assms(1)]
  obtain enc keys s0 s1 s2 s3 msum where
    enc: "EncodeHeader E h = Inr enc" and keys: "DeriveSectionKeys (fe_C E) master (HashHeader (fe_C E) enc) = Inr keys"
    and w0: "count_write wr (w, 0) enc = (None, s0)"
    and w1: "EncryptStream (count_write wr) (fe_C E) data (key_Data keys) (sectionAAD (HashHeader (fe_C E) enc) sectionData) s0 = (Inr (), s1)"
    and w2: "encryptManifest (count_write wr) (fe_C E) man (key_Manifest keys) (sectionAAD (HashHeader (fe_C E) enc) sectionManifest) s1 = (Inr msum, s2)"
    and w3: "count_write wr s2 (EncodeTrailer (fe_C E) \<lparr>DataOffset = snd s0, DataLength = snd s1 - snd s0, ManifestOffset = snd s1,
       ManifestLength = snd s2 - snd s1, PartCount = part_count n (snd s2 + int TrailerLen)\<rparr>) = (None, s3)"
    using assms(2) unfolding WriteSet_def Let_def by (auto split: sum.splits prod.splits option.splits)
  note r = writer_refines.refines [OF c w0] writer_refines.EncryptStream_refines [OF c w1] writer_refines.encryptManifest_refines [OF c w2]
    writer_refines.refines [OF c w3]
  show ?thesis using assms(2) unfolding WriteSet_def Let_def by (simp add: enc keys w0 w1 w2 w3 r)
qed

lemma openNext_refines: "openNext env s = (None, s') \<Longrightarrow> openNext no_faults s = (None, s')"
  by (auto simp: openNext_def no_faults_def Let_def split: option.splits)

lemma closeCurrent_refines: "closeCurrent env s = (None, s') \<Longrightarrow> closeCurrent no_faults s = (None, s')"
  by (auto simp: closeCurrent_def no_faults_def Let_def split: if_splits)

lemma split_loop_refines:
  "split_loop env p n s = (k, None, s') \<Longrightarrow> split_loop no_faults p n s = (k, None, s')"
proof (induction "length p" arbitrary: p n s rule: less_induct)
  case less
  show ?case
  proof (cases "p = []")
    case True then show ?thesis using less.prems by (simp add: split_loop.simps)
  next
    case False
    obtain s1 where o1: "(if current s then (None, s) else openNext env s) = (None, s1)"
      using less.prems False by (subst (asm) split_loop.simps) (auto split: prod.splits option.splits if_splits)
    then have o2: "(if current s then (None, s) else openNext no_faults s) = (None, s1)"
      using openNext_refines by (auto split: if_splits)
    have room: "\<not> maxBytes s1 - written s1 \<le> 0"
      using less.prems False by (subst (asm) split_loop.simps) (auto simp: o1 split: if_splits)
    define m where "m = nat (min (int (length p)) (maxBytes s1 - written s1))"
    have w: "write_res env (fileWriteCalls s1) m = None"
      using less.prems False room by (subst (asm) split_loop.simps) (auto simp: o1 m_def Let_def split: option.splits)
    note e = split_loop_step [OF False o1 room m_def [symmetric] w]
    note f = split_loop_step [OF False o2 room m_def [symmetric], unfolded no_faults_def, simplified, folded no_faults_def]
    have "0 < m" using False room by (simp add: m_def)
    then have l: "length (drop m p) < length p" using False by simp
    define s2 where "s2 = append_current (take m p) s1"
    show ?thesis
    proof (cases "written s2 \<ge> maxBytes s2")
      case True
      then obtain s3 where c: "closeCurrent env s2 = (None, s3)" and rest: "split_loop env (drop m p) (n + m) s3 = (k, None, s')"
        using less.prems e by (auto simp: s2_def Let_def split: prod.splits option.splits if_splits)
      from less.hyps [OF l rest] closeCurrent_refines [OF c] f True show ?thesis by (simp add: s2_def Let_def)
    next
      case False
      then have rest: "split_loop env (drop m p) (n + m) s2 = (k, None, s')" using less.prems e by (simp add: s2_def Let_def)
      from less.hyps [OF l rest] f False show ?thesis by (simp add: s2_def Let_def)
    qed
  qed
qed

interpretation split_refines: writer_refines "split_write env" "split_write no_faults"
  by unfold_locales (auto simp: split_write_def WriterWrite_def split: if_splits, metis prod.collapse snd_conv split_loop_refines)

lemmas split_set_refines = WriteSet_refines [OF split_refines.writer_refines_axioms]

section \<open>The renames\<close>

definition temp_of :: "string \<Rightarrow> string" where
  "temp_of f = f @ TempSuffix"

lemma trim_temp [simp]: "trim_suffix (temp_of f) TempSuffix = f"
  by (simp add: trim_suffix_def temp_of_def)

lemma temp_of_neq [simp]: "temp_of f \<noteq> f" "f \<noteq> temp_of f" "temp_of f = temp_of g \<longleftrightarrow> f = g"
  by (simp_all add: temp_of_def TempSuffix_def)

text \<open>The directory after the first \<open>k\<close> parts have their final names.\<close>

definition renamed :: "nat \<Rightarrow> string list \<Rightarrow> file_dir \<Rightarrow> file_dir" where
  "renamed k fs fd = (\<lambda>f. if f \<in> set (take k fs) then fd (temp_of f) else if f \<in> temp_of ` set (take k fs) then None else fd f)"

lemma finalize_renamed:
  "finalize_from ren i (map temp_of fs) fd = (r, fd') \<Longrightarrow> distinct fs \<Longrightarrow> set fs \<inter> temp_of ` set fs = {} \<Longrightarrow>
     \<exists>k \<le> length fs. fd' = renamed k fs fd \<and> (case r of Inr final \<Rightarrow> k = length fs \<and> final = fs | Inl _ \<Rightarrow> k < length fs)"
proof (induction fs arbitrary: i fd r)
  case Nil then show ?case by (auto simp: renamed_def)
next
  case (Cons f fs)
  show ?case
  proof (cases "fd f \<noteq> None \<or> ren i \<noteq> None")
    case True
    then have "fd' = fd \<and> (\<exists>e. r = Inl e)" using Cons.prems(1) by (auto simp: Let_def split: option.splits if_splits)
    then show ?thesis by (intro exI [of _ 0]) (auto simp: renamed_def)
  next
    case False
    let ?fd = "fd(f := fd (temp_of f), temp_of f := None)"
    obtain r1 where x: "finalize_from ren (Suc i) (map temp_of fs) ?fd = (r1, fd')"
      and r: "case r1 of Inl e \<Rightarrow> r = Inl e | Inr final \<Rightarrow> r = Inr (f # final)"
      using Cons.prems(1) False by (auto simp: Let_def split: prod.splits sum.splits)
    have d: "distinct fs" "set fs \<inter> temp_of ` set fs = {}" using Cons.prems(2,3) by auto
    from Cons.IH [OF x d] obtain k where k: "k \<le> length fs" "fd' = renamed k fs ?fd"
      "case r1 of Inr final \<Rightarrow> k = length fs \<and> final = fs | Inl _ \<Rightarrow> k < length fs" by blast
    have "renamed k fs ?fd = renamed (Suc k) (f # fs) fd"
    proof
      fix g
      have "f \<notin> set (take k fs)" "f \<notin> temp_of ` set fs" "temp_of f \<notin> set fs" "temp_of f \<notin> temp_of ` set (take k fs)"
        using Cons.prems(2,3) by (auto dest: in_set_takeD)
      then show "renamed k fs ?fd g = renamed (Suc k) (f # fs) fd g"
        by (auto simp: renamed_def dest: in_set_takeD)
    qed
    then show ?thesis using k r by (intro exI [of _ "Suc k"]) (auto split: sum.splits)
  qed
qed

definition final_name :: "set_params \<Rightarrow> nat \<Rightarrow> string" where
  "final_name p seq = PartFileName (sp_OutputDir p) (sp_Entry p) seq"

lemma temp_name: "temp_name p seq = temp_of (final_name p seq)"
  by (simp add: temp_name_def final_name_def temp_of_def)

lemma final_last: "last (final_name p seq) = CHR ''c''" "final_name p seq \<noteq> []"
  by (simp_all add: final_name_def PartFileName_def path_join_def part_base_name_def)

lemma final_not_temp: "final_name p i \<noteq> temp_of (final_name q j)"
proof
  assume "final_name p i = temp_of (final_name q j)"
  then have "last (final_name p i) = last (temp_of (final_name q j))" by simp
  then show False by (simp add: final_last temp_of_def TempSuffix_def)
qed

lemma final_inj: "final_name p i = final_name p j \<longleftrightarrow> i = j"
proof
  assume "final_name p i = final_name p j"
  then have "show_pad3 i = show_pad3 j"
    by (simp add: final_name_def PartFileName_def path_join_def part_base_name_def split: if_splits)
  then show "i = j" by (metis dec_val_show_pad3)
qed simp

definition final_names :: "set_params \<Rightarrow> nat \<Rightarrow> string list" where
  "final_names p n = map (final_name p) [1..<Suc n]"

lemma final_names_ok: "distinct (final_names p n)" "set (final_names p n) \<inter> temp_of ` set (final_names p n) = {}"
  using final_not_temp by (auto simp: final_names_def distinct_map inj_on_def final_inj)

lemma length_final_names [simp]: "length (final_names p n) = n"
  by (simp add: final_names_def)

lemma WriterPaths_temp: "WriterPaths (temp_name p) sw = map temp_of (final_names p (length (files sw)))"
  by (simp add: WriterPaths_def final_names_def temp_name)

section \<open>What is written before the renames\<close>

text \<open>The directory when the parts are written under their temporary names.\<close>

definition with_temps :: "set_params \<Rightarrow> bytes list \<Rightarrow> file_dir \<Rightarrow> file_dir" where
  "with_temps p ps fd = fd ++ map_of (zip (map temp_of (final_names p (length ps))) ps)"

lemma with_temps_final: "with_temps p ps fd (final_name p i) = fd (final_name p i)"
proof -
  have "map_of (zip (map temp_of (final_names p (length ps))) ps) (final_name p i) = None"
    using final_not_temp by (auto simp: map_of_eq_None_iff final_names_def dest!: set_zip_leftD) 
  then show ?thesis by (simp only: with_temps_def map_add_def option.case)
qed

lemma with_temps_nth:
  assumes "i < length ps"
  shows "with_temps p ps fd (temp_of (final_name p (Suc i))) = Some (ps ! i)"
proof -
  have "map temp_of (final_names p (length ps)) ! i = temp_of (final_name p (Suc i))"
    using assms by (simp add: final_names_def del: upt_Suc)
  moreover have "distinct (map temp_of (final_names p (length ps)))"
    using final_names_ok(1) by (simp add: distinct_map inj_on_def)
  ultimately have "map_of (zip (map temp_of (final_names p (length ps))) ps) (temp_of (final_name p (Suc i))) = Some (ps ! i)"
    using assms map_of_zip_nth [of "map temp_of (final_names p (length ps))" ps i] by simp
  then show ?thesis by (simp add: with_temps_def)
qed

lemma op_header [simp]: "tb_op opts b = (e, b') \<Longrightarrow> tb_mb b' = tb_mb b"
  by (auto simp: tb_op_def)

lemma header_updates [simp]: "b_header (tb_mb (tb_add e b)) = b_header (tb_mb b)" "tb_mb (vanish b) = tb_mb b"
  "tb_mb (put_item rel c b) = tb_mb b" "tb_mb (count_skipped opts rel er b) = tb_mb b"
  by (simp_all add: tb_add_def Add_def vanish_def put_item_def count_skipped_def)

lemma skipFile_header [simp]: "b_header (tb_mb (skipFile opts rel e h b)) = b_header (tb_mb b)"
  by (auto simp: skipFile_def Let_def split: option.splits)

lemma writeFile_header: "writeFile opts rel i b = (r, b') \<Longrightarrow> tb_mb b' = tb_mb b"
  by (auto simp: writeFile_def Let_def split: sum.splits option.splits prod.splits if_splits)

lemma addFile_header:
  assumes "addFile opts rel i sz b = (r, b')" "\<And>e. r \<noteq> Fail e"
  shows "b_header (tb_mb b') = b_header (tb_mb b)"
  using assms by (rule addFile_cases) (auto simp: Let_def dest: writeFile_header)

lemma skip_last_header: "SkipLastDirectory rel t mb = (x, mb') \<Longrightarrow> b_header mb' = b_header mb"
  by (auto simp: SkipLastDirectory_def Let_def split: if_splits)

lemma visit_header: "visit opts rel i werr b = (r, b') \<Longrightarrow> (\<And>e. r \<noteq> Fail e) \<Longrightarrow> b_header (tb_mb b') = b_header (tb_mb b)"
  by (auto simp: visit_def unlisted_def unstatable_def addDir_def dest: skip_last_header
      split: prod.splits option.splits if_splits sum.splits bool.splits) (metis addFile_header op_header)

lemma built_header:
  assumes "BuildTar opts root mb = (None, b)"
  shows "b_header (tb_mb b) = b_header mb"
proof -
  have "visit_keeps (\<lambda>b. b_header (tb_mb b) = b_header mb) (source_files root) opts"
    unfolding visit_keeps_def using visit_header by metis
  from BuildTar_keeps [OF this _ _ assms] show ?thesis by (simp add: newTarBuilder_def)
qed

section \<open>A written set is whole\<close>

lemma WriterClose_refines: "WriterClose env s = (None, s') \<Longrightarrow> WriterClose no_faults s = (None, s')"
  by (simp add: WriterClose_def closeCurrent_refines)

text \<open>What a run that reports success went through.\<close>

lemma WriteBackupSet_Inr:
  assumes "WriteBackupSet env p fd = (Inr r, fd')"
  obtains h tb bs s s' where
    "params_check p = None" "set_header env p = Inr h" "set_tar env p = (None, tb)"
    "EncodeManifest (fe_lower (se_format env)) (fe_lines (se_format env)) (tb_mb tb) = Inr bs"
    "WriteSet (se_format env) (split_write no_faults) h (sp_Master p) (sp_SplitSize p) (se_tar env (tb_items tb), None) (bs, None)
       (SetSyncOnClose (sp_SyncParts p) (NewWriter (sp_SplitSize p))) = (Inr (sr_Write r), s)"
    "WriterClose no_faults s = (None, s')" "sr_Parts r = final_names p (length (files s'))"
    "fd' = renamed (length (files s')) (final_names p (length (files s'))) (with_temps p (files s') fd)"
    "sr_Manifest r = computeFooter (b_entries (tb_mb tb))"
proof -
  obtain h where h: "params_check p = None" "set_header env p = Inr h"
    using assms by (auto simp: WriteBackupSet_def split: option.splits sum.splits)
  obtain te tb where t: "set_tar env p = (te, tb)" by fastforce
  define man where "man = (case te of Some e \<Rightarrow> ([], Some e)
    | None \<Rightarrow> (case EncodeManifest (fe_lower (se_format env)) (fe_lines (se_format env)) (tb_mb tb) of Inl e \<Rightarrow> ([], Some e) | Inr bs \<Rightarrow> (bs, None)))"
  obtain res s where w: "WriteSet (se_format env) (split_write (se_split env)) h (sp_Master p) (sp_SplitSize p) (se_tar env (tb_items tb), te) man
     (SetSyncOnClose (sp_SyncParts p) (NewWriter (sp_SplitSize p))) = (res, s)" by fastforce
  obtain ce s' where c: "WriterClose (se_split env) s = (ce, s')" by fastforce
  note run = assms [unfolded WriteBackupSet_def Let_def, simplified h t prod.case option.case sum.case, folded man_def, simplified w c prod.case]
  have ok: "te = None" "ce = None" "\<exists>x. res = Inr x"
    using run by (auto split: option.splits sum.splits if_splits)
  then obtain x where x: "res = Inr x" by blast
  have "EncodeManifest (fe_lower (se_format env)) (fe_lines (se_format env)) (tb_mb tb) \<noteq> Inl e" for e
  proof
    assume "EncodeManifest (fe_lower (se_format env)) (fe_lines (se_format env)) (tb_mb tb) = Inl e"
    then have "snd man = Some e" using ok(1) by (simp add: man_def)
    then show False using w x
      by (auto simp: WriteSet_def Let_def encryptManifest_def split: sum.splits prod.splits option.splits)
  qed
  then obtain bs where bs: "EncodeManifest (fe_lower (se_format env)) (fe_lines (se_format env)) (tb_mb tb) = Inr bs"
    by (cases "EncodeManifest (fe_lower (se_format env)) (fe_lines (se_format env)) (tb_mb tb)") auto
  have "\<exists>final. FinalizeParts (se_rename env) (WriterPaths (temp_name p) s') (fd ++ map_of (zip (WriterPaths (temp_name p) s') (files s'))) = (Inr final, fd')
      \<and> r = \<lparr>sr_Parts = final, sr_Write = x, sr_Manifest = computeFooter (b_entries (tb_mb tb)), sr_Stats = tb_stats tb\<rparr>"
    using run ok x by (auto split: if_splits prod.splits sum.splits)
  then obtain final where f: "finalize_from (se_rename env) 0 (map temp_of (final_names p (length (files s')))) (with_temps p (files s') fd) = (Inr final, fd')"
    and r: "r = \<lparr>sr_Parts = final, sr_Write = x, sr_Manifest = computeFooter (b_entries (tb_mb tb)), sr_Stats = tb_stats tb\<rparr>"
    unfolding FinalizeParts_def WriterPaths_temp with_temps_def by blast
  from finalize_renamed [OF f final_names_ok]
  have fin: "final = final_names p (length (files s'))"
    "fd' = renamed (length (files s')) (final_names p (length (files s'))) (with_temps p (files s') fd)" by auto
  show thesis
    using that [OF h t [unfolded ok(1)] bs _ _ _ fin(2)] split_set_refines [OF w [unfolded x ok(1)]] WriterClose_refines [OF c [unfolded ok(2)]] fin r
    by (simp add: man_def ok(1) bs)
qed

lemma set_matches:
  assumes "params_check p = None" "set_header env p = Inr h" "set_tar env p = (None, tb)"
  shows "manifest_matches (builder_manifest (tb_mb tb)) h"
  using assms(1,2) built_header [OF assms(3) [unfolded set_tar_def]]
  by (auto simp: manifest_matches_def builder_manifest_def set_builder_def NewBuilder_def set_header_def NewHeader_def params_check_def set_type_def
      e_iff split: option.splits if_splits)

text \<open>The bytes of the files of a list.\<close>

definition files_size :: "file_dir \<Rightarrow> string list \<Rightarrow> nat" where
  "files_size fd fs = length (concat (map (\<lambda>f. the (fd f)) fs))"

lemma renamed_final:
  assumes "length ps = n" "i < n"
  shows "renamed n (final_names p n) (with_temps p ps fd) (final_name p (Suc i)) = Some (ps ! i)"
    "renamed n (final_names p n) (with_temps p ps fd) (temp_of (final_name p (Suc i))) = None"
proof -
  have m: "final_name p (Suc i) \<in> set (final_names p n)" using assms(2) by (auto simp: final_names_def simp del: upt_Suc)
  then show "renamed n (final_names p n) (with_temps p ps fd) (final_name p (Suc i)) = Some (ps ! i)"
    using with_temps_nth [of i ps p fd] assms by (simp add: renamed_def)
  have "temp_of (final_name p (Suc i)) \<notin> set (final_names p n)" using m final_names_ok(2) by blast
  then show "renamed n (final_names p n) (with_temps p ps fd) (temp_of (final_name p (Suc i))) = None"
    using m by (simp add: renamed_def)
qed

lemma set_written:
  assumes run: "WriteBackupSet env p fd = (Inr r, fd')" and C: "crypto_ok (fe_C (se_format env))" "0 < sp_SplitSize p"
    and json: "\<And>h. set_header env p = Inr h \<Longrightarrow> header_json_ok (se_format env) h"
      "json_ok (fe_lines (se_format env)) (builder_manifest (tb_mb (snd (set_tar env p))))"
    and size: "files_size fd' (sr_Parts r) < 2 ^ 63" "length (sr_Parts r) < 2 ^ 32"
  shows "\<exists>ps st keys. sr_Parts r = final_names p (length ps)
    \<and> (\<forall>i < length ps. fd' (final_name p (Suc i)) = Some (ps ! i) \<and> fd' (final_name p (Suc i) @ TempSuffix) = None)
    \<and> OpenSet (se_format env) (parts_content ps) (part_sizes ps) = Inr st \<and> set_header env p = Inr (set_Header st)
    \<and> SetSectionKeys (se_format env) st (sp_Master p) = Inr keys
    \<and> DecryptData (se_format env) (parts_content ps) st keys buf_write [] = (Inr (), se_tar env (tb_items (snd (set_tar env p))))
    \<and> ReadManifest (se_format env) (parts_content ps) st keys = Inr (builder_manifest (tb_mb (snd (set_tar env p))), wr_ManifestSHA256 (sr_Write r))"
proof -
  from WriteBackupSet_Inr [OF run] obtain h tb bs s s' where
    h: "params_check p = None" "set_header env p = Inr h" "set_tar env p = (None, tb)"
    and bs: "EncodeManifest (fe_lower (se_format env)) (fe_lines (se_format env)) (tb_mb tb) = Inr bs"
    and w: "WriteSet (se_format env) (split_write no_faults) h (sp_Master p) (sp_SplitSize p) (se_tar env (tb_items tb), None) (bs, None)
       (SetSyncOnClose (sp_SyncParts p) (NewWriter (sp_SplitSize p))) = (Inr (sr_Write r), s)" "WriterClose no_faults s = (None, s')"
    and fin: "sr_Parts r = final_names p (length (files s'))"
      "fd' = renamed (length (files s')) (final_names p (length (files s'))) (with_temps p (files s') fd)" by metis
  note at = renamed_final [OF refl, of _ "files s'" p fd, folded fin(2)]
  have "map (\<lambda>f. the (fd' f)) (sr_Parts r) = files s'"
    by (rule nth_equalityI) (use at(1) in \<open>auto simp: fin(1) final_names_def simp del: upt_Suc\<close>)
  then have sz: "int (length (concat (files s'))) < 2 ^ 63" using size(1) by (simp add: files_size_def del: length_concat)
  have dec: "DecodeManifest (fe_lower (se_format env)) (fe_lines (se_format env)) (bs, None) = Inr (builder_manifest (tb_mb tb))"
    using manifest_reads_back [OF bs] json(2) h(3) by simp
  have n: "length (files s') < 2 ^ 32" using size(2) fin(1) by simp
  from set_reads_back [OF C(1) json(1) [OF h(2)] C(2) w sz n dec set_matches [OF h]]
  show ?thesis using h fin(1) at by (auto simp: temp_of_def)
qed

text \<open>C16. A set that was written can be restored: when \<open>Write\<close> reports success, whatever faults the system had to offer, the parts are in the backup directory under their final names and none under its temporary name; they open as a set with the header that was made for it, the data section decrypts to the TAR of the source that was walked, and the manifest section gives the manifest that describes it, with the checksum \<open>Write\<close> reported.\<close>

theorem written_set_whole:
  assumes run: "WriteBackupSet env p fd = (Inr r, fd')" and C: "crypto_ok (fe_C (se_format env))" "0 < sp_SplitSize p"
    and json: "\<And>h. set_header env p = Inr h \<Longrightarrow> header_json_ok (se_format env) h"
      "json_ok (fe_lines (se_format env)) (builder_manifest (tb_mb (snd (set_tar env p))))"
    and size: "files_size fd' (sr_Parts r) < 2 ^ 63" "length (sr_Parts r) < 2 ^ 32"
  shows "\<exists>ps st keys. sr_Parts r = final_names p (length ps)
    \<and> (\<forall>i < length ps. fd' (final_name p (Suc i)) = Some (ps ! i) \<and> fd' (final_name p (Suc i) @ TempSuffix) = None)
    \<and> OpenSet (se_format env) (parts_content ps) (part_sizes ps) = Inr st \<and> set_header env p = Inr (set_Header st)
    \<and> SetSectionKeys (se_format env) st (sp_Master p) = Inr keys
    \<and> DecryptData (se_format env) (parts_content ps) st keys buf_write [] = (Inr (), se_tar env (tb_items (snd (set_tar env p))))
    \<and> ReadManifest (se_format env) (parts_content ps) st keys = Inr (builder_manifest (tb_mb (snd (set_tar env p))), wr_ManifestSHA256 (sr_Write r))"
  by (rule set_written [OF assms])

section \<open>A set that failed\<close>

definition own_name :: "set_params \<Rightarrow> string \<Rightarrow> bool" where
  "own_name p f \<longleftrightarrow> (\<exists>i. f = final_name p i \<or> f = temp_of (final_name p i))"

text \<open>The directory after a run that stopped: \<open>k\<close> of the parts \<open>ps\<close> have final names, and no others changed.\<close>

definition part_way :: "set_params \<Rightarrow> file_dir \<Rightarrow> bytes list \<Rightarrow> nat \<Rightarrow> file_dir \<Rightarrow> bool" where
  "part_way p fd ps k fd' \<longleftrightarrow> (\<forall>i < k. fd' (final_name p (Suc i)) = Some (ps ! i))
     \<and> (\<forall>i. k \<le> i \<longrightarrow> fd' (final_name p (Suc i)) = fd (final_name p (Suc i))) \<and> (\<forall>f. \<not> own_name p f \<longrightarrow> fd' f = fd f)"

lemma with_temps_other: "\<not> own_name p f \<Longrightarrow> with_temps p ps fd f = fd f"
proof -
  assume "\<not> own_name p f"
  then have "map_of (zip (map temp_of (final_names p (length ps))) ps) f = None"
    by (auto simp: map_of_eq_None_iff final_names_def own_name_def dest!: set_zip_leftD)
  then show ?thesis by (simp only: with_temps_def map_add_def option.case)
qed

lemma in_take_names: "k \<le> n \<Longrightarrow> f \<in> set (take k (final_names p n)) \<longleftrightarrow> (\<exists>i < k. f = final_name p (Suc i))"
  by (auto simp: final_names_def take_map take_upt image_iff simp del: upt_Suc) (metis Suc_le_mono Suc_pred less_Suc_eq_le not_less_eq)

lemma part_way_renamed:
  assumes "k \<le> length ps"
  shows "part_way p fd ps k (renamed k (final_names p (length ps)) (with_temps p ps fd))"
  unfolding part_way_def
proof (intro conjI allI impI)
  note mem = in_take_names [OF assms]
  show "renamed k (final_names p (length ps)) (with_temps p ps fd) (final_name p (Suc i)) = Some (ps ! i)" if "i < k" for i
    using that assms with_temps_nth [of i ps p fd] by (auto simp: renamed_def mem final_inj)
  show "renamed k (final_names p (length ps)) (with_temps p ps fd) (final_name p (Suc i)) = fd (final_name p (Suc i))" if "k \<le> i" for i
  proof -
    have "final_name p (Suc i) \<notin> temp_of ` set (take k (final_names p (length ps)))" using final_not_temp by (auto simp: mem)
    then show ?thesis using that with_temps_final by (auto simp: renamed_def mem final_inj)
  qed
  show "renamed k (final_names p (length ps)) (with_temps p ps fd) f = fd f" if "\<not> own_name p f" for f
  proof -
    have "f \<notin> set (take k (final_names p (length ps)))" "f \<notin> temp_of ` set (take k (final_names p (length ps)))"
      using that by (auto simp: mem own_name_def)
    then show ?thesis using with_temps_other [OF that] by (simp add: renamed_def)
  qed
qed

lemma part_way_removed:
  "part_way p fd ps 0 (remove_files rem (map temp_of (final_names p (length ps))) (with_temps p ps fd))"
proof -
  have keep: "remove_files rem (map temp_of (final_names p (length ps))) (with_temps p ps fd) f = with_temps p ps fd f"
    if "\<not> own_name p f \<or> (\<exists>j. f = final_name p (Suc j))" for f
  proof -
    have "f \<noteq> map temp_of (final_names p (length ps)) ! i" if "i < length ps" for i
      using \<open>\<not> own_name p f \<or> _\<close> that by (auto simp: final_names_def own_name_def simp del: upt_Suc) (metis final_not_temp)
    then have "\<not> (\<exists>i < length (map temp_of (final_names p (length ps))). map temp_of (final_names p (length ps)) ! i = f \<and> rem i)"
      by (metis length_map length_final_names)
    then show ?thesis by (simp only: remove_files_def if_False)
  qed
  show ?thesis unfolding part_way_def
  proof (intro conjI allI impI)
    fix i
    show "remove_files rem (map temp_of (final_names p (length ps))) (with_temps p ps fd) (final_name p (Suc i)) = fd (final_name p (Suc i))"
      using keep [of "final_name p (Suc i)"] with_temps_final by auto
  qed (use keep with_temps_other in auto)
qed


section \<open>An example\<close>

lemma finalize_total:
  "\<forall>f \<in> set fs. fd f = None \<Longrightarrow> distinct fs \<Longrightarrow> set fs \<inter> temp_of ` set fs = {} \<Longrightarrow>
     \<exists>final fd'. finalize_from (\<lambda>_. None) i (map temp_of fs) fd = (Inr final, fd')"
proof (induction fs arbitrary: i fd)
  case (Cons f fs)
  have "\<exists>final fd'. finalize_from (\<lambda>_. None) (Suc i) (map temp_of fs) (fd(f := fd (temp_of f), temp_of f := None)) = (Inr final, fd')"
    using Cons.prems by (intro Cons.IH) auto
  then obtain final fd' where "finalize_from (\<lambda>_. None) (Suc i) (map temp_of fs) (fd(f := fd (temp_of f), temp_of f := None)) = (Inr final, fd')" by blast
  then show ?case using Cons.prems(1) by (intro exI [of _ "f # final"] exI [of _ fd']) (simp add: Let_def del: fun_upd_apply)
qed simp

lemma length_set_bytes:
  "crypto_ok C \<Longrightarrow> length (set_bytes C master enc n d mb)
     = length enc + length (data_section C master enc d) + length (manifest_section C master enc mb) + TrailerLen"
  by (simp add: set_bytes_def Let_def length_EncodeTrailer)

text \<open>A writer without faults, a source that is read and a directory without parts of the set are enough.\<close>

lemma set_writes:
  assumes h: "params_check p = None" "set_header env p = Inr h" "EncodeHeader (se_format env) h = Inr enc"
    and t: "set_tar env p = (None, tb)" "EncodeManifest (fe_lower (se_format env)) (fe_lines (se_format env)) (tb_mb tb) = Inr bs"
    and C: "crypto_ok (fe_C (se_format env))" "0 < sp_SplitSize p" "length (sp_Master p) = KeyLen"
    and fresh: "\<And>i. fd (final_name p i) = None" and sys: "se_split env = no_faults" "se_rename env = (\<lambda>_. None)"
  shows "\<exists>r fd'. WriteBackupSet env p fd = (Inr r, fd') \<and> wr_ManifestSHA256 (sr_Write r) = hex_encode (sha256 (fe_C (se_format env)) bs)
    \<and> files_size fd' (sr_Parts r) = length (set_bytes (fe_C (se_format env)) (sp_Master p) enc (sp_SplitSize p) (se_tar env (tb_items tb)) bs)
    \<and> int (length (sr_Parts r)) = part_count (sp_SplitSize p)
         (int (length (set_bytes (fe_C (se_format env)) (sp_Master p) enc (sp_SplitSize p) (se_tar env (tb_items tb)) bs)))"
proof -
  let ?C = "fe_C (se_format env)" and ?sw = "SetSyncOnClose (sp_SyncParts p) (NewWriter (sp_SplitSize p))"
  let ?bytes = "set_bytes ?C (sp_Master p) enc (sp_SplitSize p) (se_tar env (tb_items tb)) bs"
  have g: "split_inv ?sw \<and> maxBytes ?sw = sp_SplitSize p"
    using split_inv_NewWriter [OF C(2)] by (simp add: NewWriter_def SetSyncOnClose_def split_inv_def)
  obtain res s where w: "WriteSet (se_format env) (split_write no_faults) h (sp_Master p) (sp_SplitSize p) (se_tar env (tb_items tb), None) (bs, None) ?sw = (Inr res, s)"
    using byte_sink.WriteSet_sink [OF split_sink C(1) g h(3) C(3)] by blast
  obtain e s' where c: "WriterClose no_faults s = (e, s')" by fastforce
  note e = conjunct1 [OF WriterClose_files [OF c]]
  note f = WriteSet_files_sync [OF C(1,2) w c h(3)]
  let ?fs = "final_names p (length (files s'))"
  have none: "\<forall>f \<in> set ?fs. with_temps p (files s') fd f = None"
    using with_temps_final fresh by (auto simp: final_names_def simp del: upt_Suc)
  obtain final fd' where fin: "finalize_from (\<lambda>_. None) 0 (map temp_of ?fs) (with_temps p (files s') fd) = (Inr final, fd')"
    using finalize_total [OF none final_names_ok, of 0] by blast
  have fd': "final = ?fs" "fd' = renamed (length (files s')) ?fs (with_temps p (files s') fd)"
    using finalize_renamed [OF fin final_names_ok] by auto
  have "map (\<lambda>f. the (fd' f)) ?fs = files s'"
    unfolding fd'(2) using renamed_final(1) [OF refl] by (intro nth_equalityI) (auto simp: final_names_def simp del: upt_Suc)
  then have "files_size fd' ?fs = length ?bytes" by (simp only: files_size_def f(1))
  moreover have "WriteBackupSet env p fd
      = (Inr \<lparr>sr_Parts = final, sr_Write = res, sr_Manifest = computeFooter (b_entries (tb_mb tb)), sr_Stats = tb_stats tb\<rparr>, fd')"
    using fin f(2,4) by (simp add: WriteBackupSet_def Let_def h t sys w c e FinalizeParts_def WriterPaths_temp with_temps_def)
  moreover have "int (length ?fs) = part_count (sp_SplitSize p) (int (length ?bytes))"
    using f(2) by (simp add: set_layout_def length_set_bytes [OF C(1)] ac_simps)
  ultimately show ?thesis using f(3) fd'(1) by simp
qed

definition zero_node :: "string \<Rightarrow> bool \<Rightarrow> bytes \<Rightarrow> entry_info" where
  "zero_node nm dir c = (demo_node nm dir c)\<lparr>n_basic := Inr \<lparr>bi_ModTime = 0, bi_ChangeTime = 0, bi_CreationTime = 0, bi_Attributes = 0\<rparr>,
     n_open := Inr (\<lparr>bi_ModTime = 0, bi_ChangeTime = 0, bi_CreationTime = 0, bi_Attributes = 0\<rparr>, int (length c))\<rparr>"

definition demo_set_opts :: build_opts where
  "demo_set_opts = demo_build_opts\<lparr>bo_sha256 := \<lambda>_. replicate 32 0\<rparr>"

definition demo_set_tree :: tree where
  "demo_set_tree = Tree (zero_node ''root'' True []) [Tree (zero_node ''d'' True []) [Tree (zero_node ''f'' False [1, 2, 3]) []]]"

definition demo_set_env :: set_env where
  "demo_set_env = \<lparr>se_format = demo_format, se_split = no_faults, se_build = demo_set_opts, se_tree = demo_set_tree,
     se_tar = \<lambda>is. concat (map ti_data is), se_nonce = Inr (replicate 32 7), se_now = ''t'', se_version = ''2.0.0'',
     se_rename = \<lambda>_. None, se_remove = \<lambda>_. True\<rparr>"

definition demo_set_params :: set_params where
  "demo_set_params = \<lparr>sp_SourceDir = ''C:/Docs'', sp_Patterns = [], sp_OutputDir = ''D:'',
     sp_Entry = \<lparr>DirectoryName = ''Docs'', ChainID = ''ABC123'', Date = ''2025-01-02'', DiffNumber = 0\<rparr>,
     sp_Base = None, sp_RunID = ''DEF456'', sp_KeySet = demo_keyset\<lparr>ks_Slots := [demo_slot]\<rparr>, sp_Master = replicate 32 6,
     sp_SplitSize = 100, sp_SyncParts = True\<rparr>"

lemma demo_write_simps: "se_format demo_set_env = demo_format" "se_split demo_set_env = no_faults" "sp_SplitSize demo_set_params = 100"
  "sp_Master demo_set_params = replicate 32 6" "sp_SyncParts demo_set_params = True" "se_rename demo_set_env = (\<lambda>_. None)"
  "se_tar demo_set_env = (\<lambda>is. concat (map ti_data is))"
  by (simp_all add: demo_set_env_def demo_set_params_def)

lemma demo_set_header: "params_check demo_set_params = None" "set_header demo_set_env demo_set_params = Inr demo_header"
  by (simp_all add: params_check_def demo_set_params_def set_header_def set_type_def NewHeader_def demo_set_env_def demo_header_def)

lemma demo_tar_built: "set_tar demo_set_env demo_set_params = BuildTar demo_set_opts demo_set_tree (NewBuilder (b_header demo_builder))"
proof -
  have "set_builder demo_set_params = NewBuilder (b_header demo_builder)" "sp_Base demo_set_params = None"
    by (simp_all add: set_builder_def demo_set_params_def demo_builder_def NewBuilder_def Add_def set_type_def toSlash_def)
  moreover have "demo_set_opts\<lparr>bo_base := None\<rparr> = demo_set_opts" by (simp add: demo_set_opts_def demo_build_opts_def)
  ultimately show ?thesis by (simp add: set_tar_def demo_set_env_def)
qed

lemma demo_set_tar: "\<exists>tb. set_tar demo_set_env demo_set_params = (None, tb) \<and> tb_mb tb = demo_builder \<and> concat (map ti_data (tb_items tb)) = [1, 2, 3]
    \<and> st_Skipped (tb_stats tb) = 0 \<and> st_Stale (tb_stats tb) = 0"
proof -
  let ?b = "BuildTar demo_set_opts demo_set_tree (NewBuilder (b_header demo_builder))"
  have "fst ?b = None \<and> tb_mb (snd ?b) = demo_builder \<and> concat (map ti_data (tb_items (snd ?b))) = [1, 2, 3]
     \<and> st_Skipped (tb_stats (snd ?b)) = 0 \<and> st_Stale (tb_stats (snd ?b)) = 0" by code_simp
  then show ?thesis unfolding demo_tar_built by (metis prod.collapse)
qed

lemma demo_set_written:
  "\<exists>r fd'. WriteBackupSet demo_set_env demo_set_params Map.empty = (Inr r, fd') \<and> files_size fd' (sr_Parts r) = 136 \<and> length (sr_Parts r) = 2"
proof -
  obtain tb where tb: "set_tar demo_set_env demo_set_params = (None, tb)" "tb_mb tb = demo_builder" "concat (map ti_data (tb_items tb)) = [1, 2, 3]"
    using demo_set_tar by blast
  have enc: "EncodeManifest (fe_lower (se_format demo_set_env)) (fe_lines (se_format demo_set_env)) (tb_mb tb) = Inr demo_manifest_bytes"
    using demo_valid by (simp add: tb(2) demo_write_simps EncodeManifest_def demo_format_def demo_manifest_bytes_def Let_def)
  have m: "length (sp_Master demo_set_params) = KeyLen" by (simp add: demo_write_simps KeyLen_def)
  have l: "length (data_section (fe_C demo_format) k e [1, 2, 3]) = 24" "length (manifest_section (fe_C demo_format) k e demo_manifest_bytes) = 35" for k e
    by (simp_all add: data_section_def manifest_section_def Let_def length_enc_bytes [OF demo_format_ok(1)] demo_manifest_length ChunkSize_def)
  have "crypto_ok (fe_C (se_format demo_set_env))" "0 < sp_SplitSize demo_set_params" "EncodeHeader (se_format demo_set_env) demo_header
      = Inr (magicPrefix @ [FormatVersion, 0] @ be_bytes 4 1 @ [1])"
    using demo_format_ok(1) demo_encoded by (simp_all add: demo_write_simps)
  from set_writes [OF demo_set_header this(3) tb(1) enc this(1,2) m, of Map.empty]
  obtain r fd' where "WriteBackupSet demo_set_env demo_set_params Map.empty = (Inr r, fd')" "files_size fd' (sr_Parts r) = 136"
    "int (length (sr_Parts r)) = part_count 100 136"
    by (auto simp: demo_write_simps tb(3) length_set_bytes [OF demo_format_ok(1)] l TrailerLen_def demo_set_env_def)
  then show ?thesis by (auto simp: part_count_def)
qed

lemma demo_json_line: "json_ok (fe_lines demo_format) (builder_manifest demo_builder)"
  using demo_json_ok by (simp add: demo_format_def)

lemma written_set_whole_witness:
  "\<exists>r fd' ps st keys. WriteBackupSet demo_set_env demo_set_params Map.empty = (Inr r, fd') \<and> length ps = 2
    \<and> OpenSet demo_format (parts_content ps) (part_sizes ps) = Inr st \<and> set_Header st = demo_header
    \<and> SetSectionKeys demo_format st (replicate 32 6) = Inr keys
    \<and> DecryptData demo_format (parts_content ps) st keys buf_write [] = (Inr (), [1, 2, 3])"
proof -
  obtain r fd' where run: "WriteBackupSet demo_set_env demo_set_params Map.empty = (Inr r, fd')" "files_size fd' (sr_Parts r) = 136" "length (sr_Parts r) = 2"
    using demo_set_written by blast
  obtain tb where tb: "set_tar demo_set_env demo_set_params = (None, tb)" "tb_mb tb = demo_builder" "concat (map ti_data (tb_items tb)) = [1, 2, 3]"
    using demo_set_tar by blast
  have split: "0 < sp_SplitSize demo_set_params" and sz: "files_size fd' (sr_Parts r) < 2 ^ 63" "length (sr_Parts r) < 2 ^ 32"
    using run by (simp_all add: demo_write_simps)
  have j: "header_json_ok (se_format demo_set_env) h" if "set_header demo_set_env demo_set_params = Inr h" for h
    using that demo_format_ok(2) by (simp add: demo_set_header demo_write_simps)
  have m: "json_ok (fe_lines (se_format demo_set_env)) (builder_manifest (tb_mb (snd (set_tar demo_set_env demo_set_params))))"
    using demo_json_line by (simp add: demo_write_simps tb)
  have c: "crypto_ok (fe_C (se_format demo_set_env))" using demo_format_ok(1) by (simp add: demo_write_simps)
  from written_set_whole [OF run(1) c split j m sz] run(1,3) show ?thesis
    by (auto simp: demo_write_simps tb demo_set_header)
qed

definition demo_full_disk :: set_env where
  "demo_full_disk = demo_set_env\<lparr>se_nonce := Inl EOF\<rparr>"


end
