(* ===== verification/RestorePoint.thy ===== *)
theory RestorePoint
  imports SetWriter
begin

text \<open>
  Reading a restore point, a full backup or a differential with its full backup
  (\<open>workflow/restorepoint/restorepoint.go\<close> and \<open>decrypt_pipeline.go\<close>): the manifest, the link to the full
  backup, and the data sections, which are decrypted into a pipe and taken apart by the \<open>Restorer\<close>.
\<close>

section \<open>The pipe\<close>

text \<open>
  An open set is the set with the contents of its part files. \<open>pe_tar\<close> is the reading of a TAR stream
  (\<open>archive/tar\<close>) from bytes that end with an error or the plain end; \<open>pe_broken\<close> tells for the first and
  second data section whether decrypting had to stop because nobody read on.
\<close>

type_synonym open_set = "backup_set \<times> (nat \<Rightarrow> bytes result)"

record point_env =
  pe_format :: format_env
  pe_tar :: "bytes \<Rightarrow> err option \<Rightarrow> tar_stream"
  pe_broken :: "nat \<Rightarrow> bool"
  pe_disk :: disk_env

definition pipe_error :: "bool \<Rightarrow> bool \<Rightarrow> err option \<Rightarrow> err option \<Rightarrow> err option" where
  "pipe_error verifyOnly broken consumeErr decErr =
     (case consumeErr of
        Some e \<Rightarrow> if decErr = None \<or> broken
          then Some (Wrapped (if verifyOnly then ''Verification failed: %w'' else ''Extraction failed: %w'') e)
          else map_option (Wrapped ''Decryption failed: %w'') decErr
      | None \<Rightarrow> map_option (Wrapped ''Decryption failed: %w'') decErr)"

definition decrypt_section ::
  "point_env \<Rightarrow> nat \<Rightarrow> restore_env \<Rightarrow> open_set \<Rightarrow> section_keys \<Rightarrow> decide \<Rightarrow> restorer \<Rightarrow> err option \<times> restorer" where
  "decrypt_section P k env s keys decide r =
     (let (res, plain) = DecryptData (pe_format P) (snd s) (fst s) keys buf_write [];
          decErr = (case res of Inl e \<Rightarrow> Some e | Inr _ \<Rightarrow> None);
          (ts, fin) = pe_tar P plain decErr;
          (consumeErr, r) = ExtractSection env decide ts fin r
      in (pipe_error (rv_verify env) (pe_broken P k) consumeErr decErr, r))"

section \<open>The link to the full backup\<close>

definition checkBaseLink :: "header \<Rightarrow> header \<Rightarrow> string \<Rightarrow> err option" where
  "checkBaseLink diff base msum =
     (if HeaderIsDiff base then Some (Problem ''The base of %s_%s is not a full backup.'')
      else if h_ChainID base \<noteq> h_ChainID diff \<or> h_DirectoryName base \<noteq> h_DirectoryName diff \<or> h_Date base \<noteq> h_BaseDate diff
        then Some (Problem ''The full backup %s_%s_%s does not belong to differential %03d (expected full backup of %s).'')
      else if ks_ID (h_KeySet base) \<noteq> ks_ID (h_KeySet diff)
        then Some (Problem ''The full backup of chain %s uses different keys than differential %03d.'')
      else if msum \<noteq> h_BaseManifestSHA256 diff
        then Some (Problem ''The full backup of chain %s is not the one differential %03d was created from (manifest checksum mismatch).'')
      else None)"

section \<open>Reading\<close>

text \<open>\<open>read\<close> up to the restorer: the manifest and, for a differential, the keys of the full backup.\<close>

definition open_point ::
  "point_env \<Rightarrow> open_set \<Rightarrow> open_set option \<Rightarrow> bytes \<Rightarrow> (manifest \<times> section_keys \<times> (open_set \<times> section_keys) option) result" where
  "open_point P s base master =
     (let diff = HeaderIsDiff (set_Header (fst s)) in
      if diff \<and> base = None then Inl (Problem ''The full backup of chain %s is required to restore %s_%s.'')
      else bindE (SetSectionKeys (pe_format P) (fst s) master) (\<lambda>keys.
        bindE (ReadManifest (pe_format P) (snd s) (fst s) keys) (\<lambda>(m, _).
        if \<not> diff then Inr (m, keys, None)
        else case base of None \<Rightarrow> Inl (Problem ''The full backup of chain %s is required to restore %s_%s.'')
        | Some b \<Rightarrow>
          bindE (SetSectionKeys (pe_format P) (fst b) master) (\<lambda>baseKeys.
          case ReadManifest (pe_format P) (snd b) (fst b) baseKeys of
            Inl e \<Rightarrow> Inl (Wrapped ''Full backup of chain %s: %w'' e)
          | Inr (_, baseSum) \<Rightarrow>
              (case checkBaseLink (set_Header (fst s)) (set_Header (fst b)) baseSum of
                 Some e \<Rightarrow> Inl e
               | None \<Rightarrow> Inr (m, keys, Some (b, baseKeys)))))))"

definition point_restorer :: "point_env \<Rightarrow> bool \<Rightarrow> bool \<Rightarrow> string list \<Rightarrow> manifest \<Rightarrow> restore_env" where
  "point_restorer P verifyOnly own dest m = \<lparr>rv_disk = pe_disk P, rv_sha256 = sha256 (fe_C (pe_format P)), rv_dest = dest,
     rv_verify = verifyOnly, rv_own = own, rv_target = m\<rparr>"

definition read_point ::
  "point_env \<Rightarrow> open_set \<Rightarrow> open_set option \<Rightarrow> bytes \<Rightarrow> string list \<Rightarrow> bool \<Rightarrow> disk \<Rightarrow> manifest result \<times> restorer" where
  "read_point P s base master dest verifyOnly d =
     (case open_point P s base master of Inl e \<Rightarrow> (Inl e, NewRestorer d) | Inr (m, keys, baseKeys) \<Rightarrow>
      let env = point_restorer P verifyOnly False dest m;
          (e, r) = andThen (CreateDirectories env (NewRestorer d)) (\<lambda>r.
            andThen (case baseKeys of None \<Rightarrow> (None, r) | Some (b, bk) \<Rightarrow> decrypt_section P 0 env b bk (DecideFromBase m) r) (\<lambda>r.
            andThen (decrypt_section P 1 env s keys (DecideOwn m) r) (Finish env)))
      in (case e of Some e \<Rightarrow> Inl e | None \<Rightarrow> Inr m, r))"

definition RestorePoint :: "point_env \<Rightarrow> open_set \<Rightarrow> open_set option \<Rightarrow> bytes \<Rightarrow> string list \<Rightarrow> disk \<Rightarrow> manifest result \<times> restorer" where
  "RestorePoint P s base master dest d = read_point P s base master dest False d"

definition VerifyPoint :: "point_env \<Rightarrow> open_set \<Rightarrow> open_set option \<Rightarrow> bytes \<Rightarrow> disk \<Rightarrow> manifest result \<times> restorer" where
  "VerifyPoint P s base master d = read_point P s base master [] True d"

definition VerifyOwnData :: "point_env \<Rightarrow> open_set \<Rightarrow> bytes \<Rightarrow> disk \<Rightarrow> manifest result \<times> restorer" where
  "VerifyOwnData P s master d =
     (case bindE (SetSectionKeys (pe_format P) (fst s) master) (\<lambda>keys.
           bindE (ReadManifest (pe_format P) (snd s) (fst s) keys) (\<lambda>(m, _). Inr (m, keys))) of
        Inl e \<Rightarrow> (Inl e, NewRestorer d)
      | Inr (m, keys) \<Rightarrow>
        let env = point_restorer P True True [] m;
            (e, r) = andThen (decrypt_section P 1 env s keys (DecideOwn m) (NewRestorer d)) (Finish env)
        in (case e of Some e \<Rightarrow> Inl e | None \<Rightarrow> Inr m, r))"

definition SectionSize :: "backup_set \<Rightarrow> backup_set option \<Rightarrow> int" where
  "SectionSize s base = (case base of None \<Rightarrow> DataLength (set_Trailer s)
     | Some b \<Rightarrow> add64 (DataLength (set_Trailer s)) (DataLength (set_Trailer b)))"

text \<open>What is reported of a restore point: the log lines are left out.\<close>

definition ReportSkippedFiles :: "manifest \<Rightarrow> nat" where
  "ReportSkippedFiles m = length (SkippedFiles m)"

definition ReportStaleFiles :: "manifest \<Rightarrow> nat" where
  "ReportStaleFiles m = length (StaleFiles m)"

section \<open>Sets that stand\<close>

text \<open>An open set has a header and gives, for a master key, its manifest, the manifest's checksum and its data.\<close>

definition set_stands :: "format_env \<Rightarrow> bytes \<Rightarrow> open_set \<Rightarrow> header \<Rightarrow> manifest \<Rightarrow> string \<Rightarrow> bytes \<Rightarrow> bool" where
  "set_stands F master s h m msum plain \<longleftrightarrow> set_Header (fst s) = h \<and> (\<exists>keys. SetSectionKeys F (fst s) master = Inr keys
     \<and> DecryptData F (snd s) (fst s) keys buf_write [] = (Inr (), plain) \<and> ReadManifest F (snd s) (fst s) keys = Inr (m, msum))"

lemma open_full:
  assumes "set_stands (pe_format P) master s h m msum plain" "\<not> HeaderIsDiff h"
  shows "\<exists>keys. open_point P s base master = Inr (m, keys, None) \<and> DecryptData (pe_format P) (snd s) (fst s) keys buf_write [] = (Inr (), plain)"
  using assms by (auto simp: open_point_def set_stands_def Let_def)

lemma open_diff:
  assumes "set_stands (pe_format P) master s h m msum plain" "HeaderIsDiff h"
    "set_stands (pe_format P) master b h0 m0 msum0 plain0" "checkBaseLink h h0 msum0 = None"
  shows "\<exists>keys bkeys. open_point P s (Some b) master = Inr (m, keys, Some (b, bkeys))
    \<and> DecryptData (pe_format P) (snd s) (fst s) keys buf_write [] = (Inr (), plain)
    \<and> DecryptData (pe_format P) (snd b) (fst b) bkeys buf_write [] = (Inr (), plain0)"
  using assms by (auto simp: open_point_def set_stands_def Let_def)

text \<open>A section that decrypts is taken apart as its members.\<close>

lemma decrypt_section_ok:
  assumes "DecryptData (pe_format P) (snd s) (fst s) keys buf_write [] = (Inr (), plain)" "pe_tar P plain None = (ts, None)"
    "ExtractSection env decide ts None r = (None, r')"
  shows "decrypt_section P k env s keys decide r = (None, r')"
  using assms by (simp add: decrypt_section_def Let_def pipe_error_def)

lemma read_full:
  assumes "set_stands (pe_format P) master s h m msum plain" "\<not> HeaderIsDiff h" "pe_tar P plain None = (ts, None)"
    and run: "restore_run (point_restorer P v False dest m) [(DecideOwn m, ts, None)] d = (None, r)"
  shows "read_point P s base master dest v d = (Inr m, r)"
proof -
  obtain keys where k: "open_point P s base master = Inr (m, keys, None)"
    "DecryptData (pe_format P) (snd s) (fst s) keys buf_write [] = (Inr (), plain)"
    using open_full [OF assms(1,2)] by blast
  note sec = decrypt_section_ok [OF k(2) assms(3)]
  from run show ?thesis
    by (auto simp: read_point_def k(1) Let_def restore_run_def andThen_None sec)
qed

lemma read_diff:
  assumes "set_stands (pe_format P) master s h m msum plain" "HeaderIsDiff h" "pe_tar P plain None = (ts, None)"
    "set_stands (pe_format P) master b h0 m0 msum0 plain0" "checkBaseLink h h0 msum0 = None" "pe_tar P plain0 None = (ts0, None)"
    and run: "restore_run (point_restorer P v False dest m) [(DecideFromBase m, ts0, None), (DecideOwn m, ts, None)] d = (None, r)"
  shows "read_point P s (Some b) master dest v d = (Inr m, r)"
proof -
  obtain keys bkeys where k: "open_point P s (Some b) master = Inr (m, keys, Some (b, bkeys))"
    "DecryptData (pe_format P) (snd s) (fst s) keys buf_write [] = (Inr (), plain)"
    "DecryptData (pe_format P) (snd b) (fst b) bkeys buf_write [] = (Inr (), plain0)"
    using open_diff [OF assms(1,2,4,5)] by blast
  note sec = decrypt_section_ok [OF k(2) assms(3)] decrypt_section_ok [OF k(3) assms(6)]
  from run show ?thesis
    by (auto simp: read_point_def k(1) Let_def restore_run_def andThen_None sec)
qed

section \<open>From backup to restore\<close>

text \<open>
  A set that \<open>Write\<close> reported as written, with what the model leaves to the outside: the JSON of its header
  and manifest reads back, its sizes fit the integers of the format, and the backup hashes with the SHA-256
  of the container.
\<close>

definition written_ok :: "set_env \<Rightarrow> set_params \<Rightarrow> file_dir \<Rightarrow> set_result \<Rightarrow> file_dir \<Rightarrow> bool" where
  "written_ok env p fd r fd' \<longleftrightarrow> WriteBackupSet env p fd = (Inr r, fd') \<and> crypto_ok (fe_C (se_format env)) \<and> 0 < sp_SplitSize p
     \<and> (\<forall>h. set_header env p = Inr h \<longrightarrow> header_json_ok (se_format env) h)
     \<and> json_ok (fe_lines (se_format env)) (builder_manifest (tb_mb (snd (set_tar env p))))
     \<and> files_size fd' (sr_Parts r) < 2 ^ 63 \<and> length (sr_Parts r) < 2 ^ 32
     \<and> bo_sha256 (se_build env) = sha256 (fe_C (se_format env))"

definition set_manifest :: "set_env \<Rightarrow> set_params \<Rightarrow> manifest" where
  "set_manifest env p = builder_manifest (tb_mb (snd (set_tar env p)))"

text \<open>The set as it is opened from the backup directory.\<close>

definition stored_set :: "format_env \<Rightarrow> file_dir \<Rightarrow> string list \<Rightarrow> open_set \<Rightarrow> bool" where
  "stored_set F fd parts s \<longleftrightarrow> (\<exists>ps. map fd parts = map Some ps \<and> OpenSet F (parts_content ps) (part_sizes ps) = Inr (fst s) \<and> snd s = parts_content ps)"

text \<open>The TAR reader reads what the TAR writer wrote.\<close>

definition tar_reads :: "point_env \<Rightarrow> set_env \<Rightarrow> tar_item list \<Rightarrow> bool" where
  "tar_reads P env items \<longleftrightarrow> pe_tar P (se_tar env items) None = (map member_of items, None)"

definition set_items :: "set_env \<Rightarrow> set_params \<Rightarrow> tar_item list" where
  "set_items env p = tb_items (snd (set_tar env p))"

lemma written_stands:
  assumes "written_ok env p fd r fd'"
  shows "\<exists>s h. stored_set (se_format env) fd' (sr_Parts r) s \<and> set_header env p = Inr h
    \<and> set_stands (se_format env) (sp_Master p) s h (set_manifest env p) (wr_ManifestSHA256 (sr_Write r)) (se_tar env (tb_items (snd (set_tar env p))))"
proof -
  have a: "WriteBackupSet env p fd = (Inr r, fd')" "crypto_ok (fe_C (se_format env))" "0 < sp_SplitSize p"
    "\<And>h. set_header env p = Inr h \<Longrightarrow> header_json_ok (se_format env) h"
    "json_ok (fe_lines (se_format env)) (builder_manifest (tb_mb (snd (set_tar env p))))"
    "files_size fd' (sr_Parts r) < 2 ^ 63" "length (sr_Parts r) < 2 ^ 32"
    using assms by (simp_all add: written_ok_def)
  obtain ps st keys where w: "sr_Parts r = final_names p (length ps)" "\<forall>i < length ps. fd' (final_name p (Suc i)) = Some (ps ! i)"
    "OpenSet (se_format env) (parts_content ps) (part_sizes ps) = Inr st" "set_header env p = Inr (set_Header st)"
    "SetSectionKeys (se_format env) st (sp_Master p) = Inr keys"
    "DecryptData (se_format env) (parts_content ps) st keys buf_write [] = (Inr (), se_tar env (tb_items (snd (set_tar env p))))"
    "ReadManifest (se_format env) (parts_content ps) st keys = Inr (set_manifest env p, wr_ManifestSHA256 (sr_Write r))"
    using set_written [OF a] unfolding set_manifest_def by blast
  have "map fd' (sr_Parts r) = map Some ps"
    by (rule nth_equalityI) (use w(2) in \<open>auto simp: w(1) final_names_def simp del: upt_Suc\<close>)
  then show ?thesis using w(3-)
    by (intro exI [of _ "(st, parts_content ps)"] exI [of _ "set_Header st"]) (auto simp: stored_set_def set_stands_def)
qed

lemma written_built:
  assumes "written_ok env p fd r fd'"
  shows "params_check p = None" "BuildTar ((se_build env)\<lparr>bo_base := map_option sb_Manifest (sp_Base p)\<rparr>) (se_tree env) (set_builder p) = (None, snd (set_tar env p))"
    "b_entries (set_builder p) = []" "ValidateManifest (fe_lower (se_format env)) (set_manifest env p) = Inr ()"
proof -
  obtain tb bs where t: "params_check p = None" "set_tar env p = (None, tb)"
    "EncodeManifest (fe_lower (se_format env)) (fe_lines (se_format env)) (tb_mb tb) = Inr bs"
    using assms WriteBackupSet_Inr [of env p fd r fd'] unfolding written_ok_def by metis
  then show "params_check p = None" "BuildTar ((se_build env)\<lparr>bo_base := map_option sb_Manifest (sp_Base p)\<rparr>) (se_tree env) (set_builder p) = (None, snd (set_tar env p))"
    "ValidateManifest (fe_lower (se_format env)) (set_manifest env p) = Inr ()"
    by (simp_all add: set_tar_def Encode_Inr set_manifest_def)
  show "b_entries (set_builder p) = []" by (simp add: set_builder_def NewBuilder_def)
qed

text \<open>What is asked of the system and the folder restored to: no faults, a clean path, names folded as the backup did, an empty folder.\<close>

definition good_dest :: "point_env \<Rightarrow> string list \<Rightarrow> manifest \<Rightarrow> disk \<Rightarrow> bool" where
  "good_dest P dest m d \<longleftrightarrow> (let env = point_restorer P False False dest m in
     calm env \<and> dest_clean env \<and> folds_like (fe_lower (pe_format P)) env \<and> fresh_dest env d)"

lemma point_restorer_simps [simp]: "rv_target (point_restorer P v own dest m) = m" "rv_verify (point_restorer P v own dest m) = v"
  "rv_own (point_restorer P v own dest m) = own" "rv_sha256 (point_restorer P v own dest m) = sha256 (fe_C (pe_format P))"
  by (simp_all add: point_restorer_def)

lemma set_header_fields:
  assumes "set_header env p = Inr h"
  shows "HeaderIsDiff h \<longleftrightarrow> sp_Base p \<noteq> None" "h_ChainID h = ChainID (sp_Entry p)" "h_DirectoryName h = DirectoryName (sp_Entry p)"
    "h_Date h = Date (sp_Entry p)" "h_KeySet h = sp_KeySet p"
    "sp_Base p = Some b \<Longrightarrow> h_BaseDate h = h_Date (sb_Header b) \<and> h_BaseManifestSHA256 h = sb_ManifestSHA256 b"
  using assms by (cases "sp_Base p"; auto simp: set_header_def NewHeader_def HeaderIsDiff_def set_type_def SetTypeFull_def SetTypeDiff_def e_iff)+

lemma full_point:
  assumes w: "written_ok env p fd r fd'" "sp_Base p = None" and P: "pe_format P = se_format env" "tar_reads P env (set_items env p)"
    and d: "good_dest P dest (set_manifest env p) d0"
  shows "\<exists>s r'. stored_set (se_format env) fd' (sr_Parts r) s \<and> set_header env p = Inr (set_Header (fst s))
    \<and> RestorePoint P s None (sp_Master p) dest d0 = (Inr (set_manifest env p), r')
    \<and> restored (point_restorer P False False dest (set_manifest env p)) d0 (set (map member_of (set_items env p))) (r_disk r')"
proof -
  obtain s h where s: "stored_set (se_format env) fd' (sr_Parts r) s" "set_header env p = Inr h"
    "set_stands (pe_format P) (sp_Master p) s h (set_manifest env p) (wr_ManifestSHA256 (sr_Write r)) (se_tar env (set_items env p))"
    using written_stands [OF w(1)] unfolding P(1) set_items_def by blast
  note b = written_built [OF w(1)]
  have full: "\<not> HeaderIsDiff h" using set_header_fields(1) [OF s(2)] w(2) by simp
  have sha: "bo_sha256 (se_build env) = sha256 (fe_C (se_format env))" using w(1) by (simp add: written_ok_def)
  let ?env = "point_restorer P False False dest (set_manifest env p)"
  obtain r' where r': "restore_run ?env [own_section (snd (set_tar env p))] d0 = (None, r')"
    "restored ?env d0 (set (map member_of (tb_items (snd (set_tar env p))))) (r_disk r')"
    using full_restores [OF b(2,3) _ b(4) [unfolded set_manifest_def], of ?env d0] d w(2) sha P(1)
    by (auto simp: good_dest_def Let_def set_manifest_def)
  have "RestorePoint P s None (sp_Master p) dest d0 = (Inr (set_manifest env p), r')"
    unfolding RestorePoint_def using read_full [OF s(3) full P(2) [unfolded tar_reads_def]] r'(1)
    by (simp add: own_section_def set_manifest_def set_items_def)
  moreover have "set_header env p = Inr (set_Header (fst s))" using s(2,3) by (simp add: set_stands_def)
  ultimately show ?thesis using s(1) r'(2) by (intro exI [of _ s] exI [of _ r']) (simp add: set_items_def)
qed

text \<open>A run that makes a differential of the full backup of another run, with the same keys.\<close>

definition differential_of :: "set_env \<Rightarrow> set_params \<Rightarrow> set_env \<Rightarrow> set_params \<Rightarrow> set_result \<Rightarrow> bool" where
  "differential_of env p env0 p0 r0 \<longleftrightarrow> sp_Base p0 = None \<and> (\<exists>h0. set_header env0 p0 = Inr h0
       \<and> sp_Base p = Some \<lparr>sb_Header = h0, sb_Manifest = set_manifest env0 p0, sb_ManifestSHA256 = wr_ManifestSHA256 (sr_Write r0)\<rparr>)
     \<and> ks_ID (sp_KeySet p) = ks_ID (sp_KeySet p0) \<and> sp_Master p = sp_Master p0 \<and> se_format env = se_format env0"

lemma diff_linked:
  assumes "differential_of env p env0 p0 r0" "params_check p = None" "set_header env p = Inr h" "set_header env0 p0 = Inr h0"
  shows "HeaderIsDiff h" "\<not> HeaderIsDiff h0" "checkBaseLink h h0 (wr_ManifestSHA256 (sr_Write r0)) = None"
proof -
  let ?b = "\<lparr>sb_Header = h0, sb_Manifest = set_manifest env0 p0, sb_ManifestSHA256 = wr_ManifestSHA256 (sr_Write r0)\<rparr>"
  have b: "sp_Base p = Some ?b" "sp_Base p0 = None" "ks_ID (sp_KeySet p) = ks_ID (sp_KeySet p0)"
    using assms(1,4) by (auto simp: differential_of_def)
  note f = set_header_fields [OF assms(3)] and f0 = set_header_fields [OF assms(4)]
  show "HeaderIsDiff h" "\<not> HeaderIsDiff h0" using f(1) f0(1) b by auto
  then show "checkBaseLink h h0 (wr_ManifestSHA256 (sr_Write r0)) = None"
    using f(2-5) f(6) [OF b(1)] f0(2-5) b assms(2) by (simp add: checkBaseLink_def params_check_def split: if_splits)
qed

lemma diff_point:
  assumes w0: "written_ok env0 p0 fd0 r0 fd0'" and w: "written_ok env p fd r fd'" and l: "differential_of env p env0 p0 r0"
    and P: "pe_format P = se_format env" "tar_reads P env0 (set_items env0 p0)" "tar_reads P env (set_items env p)"
    and d: "good_dest P dest (set_manifest env p) d0"
  shows "\<exists>s b r'. stored_set (se_format env) fd' (sr_Parts r) s \<and> stored_set (se_format env) fd0' (sr_Parts r0) b
    \<and> set_header env p = Inr (set_Header (fst s)) \<and> RestorePoint P s (Some b) (sp_Master p) dest d0 = (Inr (set_manifest env p), r')
    \<and> restored (point_restorer P False False dest (set_manifest env p)) d0 (set (map member_of (set_items env0 p0 @ set_items env p))) (r_disk r')"
proof -
  have same: "se_format env0 = se_format env" "sp_Master p0 = sp_Master p" "sp_Base p0 = None" using l by (simp_all add: differential_of_def)
  obtain s h where s: "stored_set (se_format env) fd' (sr_Parts r) s" "set_header env p = Inr h"
    "set_stands (pe_format P) (sp_Master p) s h (set_manifest env p) (wr_ManifestSHA256 (sr_Write r)) (se_tar env (set_items env p))"
    using written_stands [OF w] unfolding P(1) set_items_def by blast
  obtain b h0 where b: "stored_set (se_format env) fd0' (sr_Parts r0) b" "set_header env0 p0 = Inr h0"
    "set_stands (pe_format P) (sp_Master p) b h0 (set_manifest env0 p0) (wr_ManifestSHA256 (sr_Write r0)) (se_tar env0 (set_items env0 p0))"
    using written_stands [OF w0] unfolding P(1) set_items_def same by blast
  note n = written_built [OF w] and n0 = written_built [OF w0]
  note k = diff_linked [OF l n(1) s(2) b(2)]
  have sha: "bo_sha256 (se_build env) = sha256 (fe_C (se_format env))" "bo_sha256 (se_build env0) = sha256 (fe_C (se_format env))"
    using w w0 same by (simp_all add: written_ok_def)
  have base: "map_option sb_Manifest (sp_Base p) = Some (set_manifest env0 p0)" using l by (auto simp: differential_of_def)
  let ?env = "point_restorer P False False dest (set_manifest env p)"
  obtain r' where r': "restore_run ?env [base_section (snd (set_tar env p)) (snd (set_tar env0 p0)), own_section (snd (set_tar env p))] d0 = (None, r')"
    "restored ?env d0 (set (map member_of (tb_items (snd (set_tar env0 p0)) @ tb_items (snd (set_tar env p))))) (r_disk r')"
    using diff_restores [OF n0(2,3) _ n(2,3) _ n0(4) [unfolded set_manifest_def] n(4) [unfolded set_manifest_def, folded same(1)], of ?env d0] d base sha P(1) same
    by (auto simp: good_dest_def Let_def set_manifest_def)
  have "RestorePoint P s (Some b) (sp_Master p) dest d0 = (Inr (set_manifest env p), r')"
    unfolding RestorePoint_def
    using read_diff [OF s(3) k(1) P(3) [unfolded tar_reads_def] b(3) k(3) P(2) [unfolded tar_reads_def]] r'(1)
    by (simp add: own_section_def base_section_def set_manifest_def set_items_def)
  moreover have "set_header env p = Inr (set_Header (fst s))" using s(2,3) by (simp add: set_stands_def)
  ultimately show ?thesis using s(1) b(1) r'(2) by (intro exI [of _ s] exI [of _ b] exI [of _ r']) (simp add: set_items_def)
qed

end
