(* ===== verification/PointSafety.thy ===== *)
theory PointSafety
  imports RestorePoint
begin

text \<open>
  What reading a restore point may touch, whatever comes of it (\<open>workflow/restorepoint\<close> on
  \<open>format/archive\<close>): the nodes below the destination when it restores, nothing when it verifies; and what
  it has checked when it succeeds.
\<close>

section \<open>What reading may touch\<close>

definition same_outside :: "restore_env \<Rightarrow> disk \<Rightarrow> disk \<Rightarrow> bool" where
  "same_outside env d d' \<longleftrightarrow> (\<forall>k. \<not> below env k \<longrightarrow> k \<noteq> dest_key env \<longrightarrow> dk_nodes d' k = dk_nodes d k)"

lemma same_refl [simp]: "same_outside env d d"
  by (simp add: same_outside_def)

lemma same_trans: "same_outside env d d' \<Longrightarrow> same_outside env d' d'' \<Longrightarrow> same_outside env d d''"
  by (simp add: same_outside_def)

lemma same_nodes: "dk_nodes d' = dk_nodes d \<Longrightarrow> same_outside env d d'"
  by (simp add: same_outside_def)

lemma same_andThen:
  "same_outside env d (r_disk (snd x)) \<Longrightarrow> (\<And>r. same_outside env (r_disk r) (r_disk (snd (f r)))) \<Longrightarrow> same_outside env d (r_disk (snd (andThen x f)))"
  by (cases x) (auto simp: andThen_def split: option.splits intro: same_trans)

lemma same_on_disk: "same_outside env (r_disk r) (snd (f (r_disk r))) \<Longrightarrow> same_outside env (r_disk r) (r_disk (snd (on_disk f r)))"
  by (cases "f (r_disk r)") (simp add: on_disk_def)

lemma target_key:
  assumes "dest_clean env" "targetPath env rel = Inr p"
  shows "below env (node_key (rv_disk env) p)" "node_key (rv_disk env) (butlast p) = dest_key env \<or> below env (node_key (rv_disk env) (butlast p))"
proof -
  have p: "p = rv_dest env @ split_char (CHR ''/'') rel" using assms by (simp add: targetPath_Inr)
  then show "below env (node_key (rv_disk env) p)" by (auto simp: below_def node_key_def dest_key_def)
  show "node_key (rv_disk env) (butlast p) = dest_key env \<or> below env (node_key (rv_disk env) (butlast p))" by (rule parent_key(2) [OF p])
qed

lemma same_create:
  "dest_clean env \<Longrightarrow> targetPath env rel = Inr p \<Longrightarrow> same_outside env d (snd (os_create (rv_disk env) p data d))"
  using target_key [of env rel p] by (auto simp: os_create_def os_call_def same_outside_def add_node_def andThen_def split: option.splits)

lemma same_write: "dest_clean env \<Longrightarrow> targetPath env rel = Inr p \<Longrightarrow> same_outside env d (os_write (rv_disk env) p data d)"
  using target_key(1) [of env rel p] by (auto simp: same_outside_def os_write_def)

lemma same_check: "same_outside env d (snd (checkNotReparsePoint e p d))"
  by (auto simp: checkNotReparsePoint_def os_call_def same_outside_def split: option.splits)

lemma same_call: "same_outside env d (snd (os_call e d))"
  by (simp add: os_call_def same_outside_def)

lemma same_times: "dest_clean env \<Longrightarrow> targetPath env rel = Inr p \<Longrightarrow> same_outside env d (snd (setTimes (rv_disk env) p c m d))"
  using target_key(1) [of env rel p] by (auto simp: setTimes_def os_call_def same_outside_def split: option.splits)

lemma same_attributes: "dest_clean env \<Longrightarrow> targetPath env rel = Inr p \<Longrightarrow> same_outside env d (snd (setAttributes (rv_disk env) p a d))"
  using target_key(1) [of env rel p] by (auto simp: setAttributes_def os_call_def Let_def same_outside_def split: option.splits)

lemma same_on:
  "same_outside env (r_disk r) (r_disk (snd (on_disk (checkNotReparsePoint e p) r)))"
  "same_outside env (r_disk r) (r_disk (snd (on_disk (os_call e) r)))"
  by (rule same_on_disk, rule same_check same_call)+

lemma same_at:
  assumes "dest_clean env" "targetPath env rel = Inr p"
  shows "same_outside env (r_disk r) (r_disk (snd (on_disk (os_create (rv_disk env) p data) r)))"
    "same_outside env d (os_write (rv_disk env) p bytes d)"
    "same_outside env (r_disk r) (r_disk (snd (on_disk (setTimes (rv_disk env) p c m) r)))"
    "same_outside env (r_disk r) (r_disk (snd (on_disk (setAttributes (rv_disk env) p a) r)))"
  by (rule same_on_disk same_create [OF assms] same_write [OF assms] same_times [OF assms] same_attributes [OF assms])+

lemma same_create_dirs: "dest_clean env \<Longrightarrow> same_outside env (r_disk r) (r_disk (snd (create_dirs env es r)))"
proof (induction es arbitrary: r)
  case (Cons e es)
  show ?case
  proof (cases "EType e = TypeDir \<and> (\<exists>p. targetPath env (Path e) = Inr p)")
    case False
    then show ?thesis using Cons by (auto split: sum.splits)
  next
    case True
    then obtain p where p: "EType e = TypeDir" "targetPath env (Path e) = Inr p" by blast
    obtain x r1 where c: "on_disk (os_create (rv_disk env) p None) r = (x, r1)" by fastforce
    have s1: "same_outside env (r_disk r) (r_disk r1)"
      using same_at(1) [OF Cons.prems p(2), of r None] c by simp
    have "same_outside env (r_disk r1) (r_disk (snd (andThen (on_disk (checkNotReparsePoint (rv_disk env) p) r1) (create_dirs env es))))"
      by (rule same_andThen) (use same_on Cons.IH [OF Cons.prems] in blast)+
    then show ?thesis using s1 p c by (auto split: option.splits intro: same_trans)
  qed
qed simp

lemma same_extractFile:
  assumes "dest_clean env"
  shows "same_outside env (r_disk r) (r_disk (snd (extractFile env content e r)))"
proof (cases "\<not> rv_verify env \<and> (\<exists>p. targetPath env (Path e) = Inr p)")
  case False
  then show ?thesis by (auto simp: extractFile_def split: option.splits sum.splits)
next
  case True
  then obtain p where p: "targetPath env (Path e) = Inr p" "\<not> rv_verify env" by blast
  note steps = same_at [OF assms p(1)]
  obtain x0 r0 where c0: "on_disk (checkNotReparsePoint (rv_disk env) (butlast p)) r = (x0, r0)" by fastforce
  obtain x1 r1 where c1: "on_disk (os_create (rv_disk env) p (Some [])) r0 = (x1, r1)" by fastforce
  let ?w = "r1\<lparr>r_disk := os_write (rv_disk env) p (fst content) (r_disk r1)\<rparr>"
  obtain x2 r2 where c2: "on_disk (os_call (rv_disk env)) ?w = (x2, r2)" by fastforce
  obtain x3 r3 where c3: "on_disk (os_call (rv_disk env)) r2 = (x3, r3)" by fastforce
  have s: "same_outside env (r_disk r) (r_disk r0)" "same_outside env (r_disk r0) (r_disk r1)" "same_outside env (r_disk r1) (r_disk ?w)"
      "same_outside env (r_disk ?w) (r_disk r2)" "same_outside env (r_disk r2) (r_disk r3)"
    using same_on(1) [of env r "rv_disk env" "butlast p"] steps(1) [of r0 "Some []"] steps(2) [of "r_disk r1"]
      same_on(2) [of env ?w "rv_disk env"] same_on(2) [of env r2 "rv_disk env"] c0 c1 c2 c3 by simp_all
  have s1: "same_outside env (r_disk r) (r_disk r1)" and s3: "same_outside env (r_disk r) (r_disk r3)" using s by (blast intro: same_trans)+
  have t: "same_outside env (r_disk r3) (r_disk (snd (andThen (on_disk (setTimes (rv_disk env) p (CreationTime e) (ModTime e)) r3)
       (on_disk (setAttributes (rv_disk env) p (Attributes e))))))"
    by (rule same_andThen) (use steps(3,4) in blast)+
  show ?thesis using s(1) s1 s3 same_trans [OF s3 t] p by (auto simp: extractFile_def andThen_def c0 c1 c2 c3 split: option.splits)
qed

lemma extract_step:
  "(\<exists>err. ExtractSection env decide (t # ts) fin r = (Some err, r)) \<or> ExtractSection env decide (t # ts) fin r = ExtractSection env decide ts fin r
   \<or> (\<exists>e. ExtractSection env decide (t # ts) fin r = andThen (extractFile env (tm_data t) e r)
        (\<lambda>r. ExtractSection env decide ts fin (r\<lparr>r_done := insert (Path e) (r_done r)\<rparr>)))"
proof (cases "\<exists>e. tm_reg t \<and> decide (tm_name t) = Inr (Some e, ActionExtract) \<and> EType e = TypeFile \<and> Path e = tm_name t
    \<and> Path e \<notin> r_done r \<and> tm_size t = Size e")
  case True
  then obtain e where "tm_reg t" "decide (tm_name t) = Inr (Some e, ActionExtract)" "EType e = TypeFile" "Path e = tm_name t"
    "Path e \<notin> r_done r" "tm_size t = Size e" by blast
  then show ?thesis by (intro disjI2 exI [of _ e]) simp
next
  case False
  then show ?thesis by (auto split: sum.splits prod.splits option.splits action.splits)
qed

lemma same_ExtractSection: "dest_clean env \<Longrightarrow> same_outside env (r_disk r) (r_disk (snd (ExtractSection env decide ts fin r)))"
proof (induction ts arbitrary: r)
  case Nil then show ?case by (simp split: option.splits)
next
  case (Cons t ts)
  have "same_outside env (r_disk r) (r_disk (snd (andThen (extractFile env (tm_data t) e r)
      (\<lambda>r. ExtractSection env decide ts fin (r\<lparr>r_done := insert (Path e) (r_done r)\<rparr>)))))" for e
    by (rule same_andThen) (use same_extractFile [OF Cons.prems] Cons.IH [OF Cons.prems, of "q\<lparr>r_done := D\<rparr>" for q D] in auto)
  then show ?case using extract_step [of env decide t ts fin r] Cons.IH [OF Cons.prems, of r] by (elim disjE exE) simp_all
qed

lemma same_finish_dirs: "dest_clean env \<Longrightarrow> same_outside env (r_disk r) (r_disk (snd (finish_dirs env ds r)))"
proof (induction ds arbitrary: r)
  case (Cons d ds)
  show ?case
  proof (cases "targetPath env (Path d)")
    case (Inr p)
    note steps = same_at(3,4) [OF Cons.prems Inr] and ih = Cons.IH [OF Cons.prems]
    have "same_outside env (r_disk q) (r_disk (snd (andThen (on_disk (setAttributes (rv_disk env) p (Attributes d)) q) (finish_dirs env ds))))" for q
      by (rule same_andThen) (use steps ih in blast)+
    then show ?thesis using Inr steps(1) by (auto intro: same_andThen)
  qed simp
qed simp

lemma same_Finish: "dest_clean env \<Longrightarrow> same_outside env (r_disk r) (r_disk (snd (Finish env r)))"
  by (simp add: Finish_def same_finish_dirs)

lemma same_CreateDirectories: "dest_clean env \<Longrightarrow> same_outside env (r_disk r) (r_disk (snd (CreateDirectories env r)))"
  unfolding CreateDirectories_def by (auto intro!: same_andThen same_on_disk same_check same_create_dirs)

lemma same_decrypt_section: "dest_clean env \<Longrightarrow> same_outside env (r_disk r) (r_disk (snd (decrypt_section P k env s keys decide r)))"
proof -
  assume c: "dest_clean env"
  obtain res plain where d: "DecryptData (pe_format P) (snd s) (fst s) keys buf_write [] = (res, plain)" by fastforce
  obtain ts fin where t: "pe_tar P plain (case res of Inl e \<Rightarrow> Some e | Inr _ \<Rightarrow> None) = (ts, fin)" by fastforce
  show ?thesis using same_ExtractSection [OF c, of r decide ts fin]
    by (auto simp: decrypt_section_def Let_def d t split: prod.splits)
qed

text \<open>Verifying writes nothing, whatever comes of it.\<close>

lemma verify_disk_section: "rv_verify env \<Longrightarrow> r_disk (snd (ExtractSection env decide ts fin r)) = r_disk r"
proof (induction ts arbitrary: r)
  case Nil then show ?case by (simp split: option.splits)
next
  case (Cons t ts)
  have x: "r_disk (snd (extractFile env c e r)) = r_disk r" for c e using Cons.prems by (auto simp: extractFile_def split: option.splits)
  have "r_disk (snd (andThen (extractFile env (tm_data t) e r) (\<lambda>r. ExtractSection env decide ts fin (r\<lparr>r_done := insert (Path e) (r_done r)\<rparr>)))) = r_disk r" for e
    using x [of "tm_data t" e] Cons.IH [OF Cons.prems] by (auto simp: andThen_def split: option.splits prod.splits)
  then show ?case using extract_step [of env decide t ts fin r] Cons.IH [OF Cons.prems, of r] by (elim disjE exE) simp_all
qed

lemma verify_decrypt_section: "rv_verify env \<Longrightarrow> r_disk (snd (decrypt_section P k env s keys decide r)) = r_disk r"
proof -
  assume c: "rv_verify env"
  obtain res plain where d: "DecryptData (pe_format P) (snd s) (fst s) keys buf_write [] = (res, plain)" by fastforce
  obtain ts fin where t: "pe_tar P plain (case res of Inl e \<Rightarrow> Some e | Inr _ \<Rightarrow> None) = (ts, fin)" by fastforce
  show ?thesis using verify_disk_section [OF c, of decide ts fin r]
    by (auto simp: decrypt_section_def Let_def d t split: prod.splits)
qed

section \<open>Restore points\<close>

lemma same_outside_point: "same_outside (point_restorer P v own dest m) d d' \<longleftrightarrow> same_outside (point_restorer P v own dest m') d d'"
  by (simp add: same_outside_def below_def dest_key_def point_restorer_def)

lemma same_read_point:
  assumes "dest_clean (point_restorer P v False dest m0)"
  shows "same_outside (point_restorer P v False dest m0) d (r_disk (snd (read_point P s base master dest v d)))"
proof (cases "open_point P s base master")
  case (Inl e) then show ?thesis by (simp add: read_point_def NewRestorer_def)
next
  case (Inr x)
  obtain m keys bks where x: "x = (m, keys, bks)" by (metis prod.exhaust)
  let ?env = "point_restorer P v False dest m"
  have c: "dest_clean ?env" using assms by (simp add: dest_clean_def point_restorer_def)
  have sec: "same_outside ?env (r_disk r) (r_disk (snd (decrypt_section P k ?env b ks dec r)))" for r k b ks dec
    using same_decrypt_section [OF c] .
  have fin: "same_outside ?env (r_disk r) (r_disk (snd (andThen (decrypt_section P 1 ?env s keys (DecideOwn m) r) (Finish ?env))))" for r
    by (rule same_andThen [OF sec same_Finish [OF c]])
  have base: "same_outside ?env (r_disk r) (r_disk (snd (andThen (case bks of None \<Rightarrow> (None, r)
       | Some (b, bk) \<Rightarrow> decrypt_section P 0 ?env b bk (DecideFromBase m) r) (\<lambda>r. andThen (decrypt_section P 1 ?env s keys (DecideOwn m) r) (Finish ?env)))))" for r
    by (rule same_andThen) (use sec fin in \<open>auto split: option.splits\<close>)
  obtain e r where run: "andThen (CreateDirectories ?env (NewRestorer d)) (\<lambda>r. andThen (case bks of None \<Rightarrow> (None, r)
       | Some (b, bk) \<Rightarrow> decrypt_section P 0 ?env b bk (DecideFromBase m) r) (\<lambda>r. andThen (decrypt_section P 1 ?env s keys (DecideOwn m) r) (Finish ?env))) = (e, r)"
    (is "?run = _") by fastforce
  have "same_outside ?env d (r_disk (snd ?run))"
    by (rule same_andThen) (use same_CreateDirectories [OF c, of "NewRestorer d"] base in \<open>auto simp: NewRestorer_def\<close>)
  then have "same_outside ?env d (r_disk r)" by (simp only: run snd_conv)
  then have "same_outside ?env d (r_disk (snd (read_point P s base master dest v d)))" by (simp add: read_point_def Inr x Let_def run [unfolded One_nat_def])
  then show ?thesis using same_outside_point by blast
qed

lemma verify_sections_disk:
  assumes "rv_verify env"
  shows "r_disk (snd (andThen (case bks of None \<Rightarrow> (None, r) | Some (b, bk) \<Rightarrow> decrypt_section P 0 env b bk dec r)
    (\<lambda>r. andThen (decrypt_section P 1 env s keys own r) (Finish env)))) = r_disk r"
proof -
  have f: "r_disk (snd (Finish env r)) = r_disk r" for r using assms by (simp add: Finish_def)
  have t: "r_disk (snd (andThen (decrypt_section P 1 env s keys own r) (Finish env))) = r_disk r" for r
    using verify_decrypt_section [OF assms, of P 1 s keys own r] f by (cases "decrypt_section P 1 env s keys own r") (auto simp: andThen_def split: option.splits)
  show ?thesis
  proof (cases bks)
    case None then show ?thesis using t by simp
  next
    case (Some x)
    obtain b bk where x: "x = (b, bk)" by (cases x)
    show ?thesis using verify_decrypt_section [OF assms, of P 0 b bk dec r] t
      by (cases "decrypt_section P 0 env b bk dec r") (auto simp: Some x andThen_def split: option.splits)
  qed
qed

lemma verify_disk:
  "r_disk (snd (VerifyPoint P s base master d)) = d \<and> r_disk (snd (VerifyOwnData P s master d)) = d"
proof
  show "r_disk (snd (VerifyPoint P s base master d)) = d"
  proof (cases "open_point P s base master")
    case (Inl e) then show ?thesis by (simp add: VerifyPoint_def read_point_def NewRestorer_def)
  next
    case (Inr x)
    obtain m keys bks where x: "x = (m, keys, bks)" by (metis prod.exhaust)
    have v: "rv_verify (point_restorer P True False [] m)" by simp
    note run = verify_sections_disk [OF v, where bks = bks and r = "NewRestorer d" and P = P and dec = "DecideFromBase m" and s = s and keys = keys and own = "DecideOwn m", unfolded One_nat_def]
    then show ?thesis
      by (simp add: VerifyPoint_def read_point_def Inr x Let_def CreateDirectories_def case_prod_unfold cong: option.case_cong) (simp add: NewRestorer_def)
  qed
  show "r_disk (snd (VerifyOwnData P s master d)) = d"
  proof (cases "bindE (SetSectionKeys (pe_format P) (fst s) master) (\<lambda>keys.
           bindE (ReadManifest (pe_format P) (snd s) (fst s) keys) (\<lambda>(m, _). Inr (m, keys)))")
    case (Inl e) then show ?thesis by (simp add: VerifyOwnData_def NewRestorer_def)
  next
    case (Inr x)
    obtain m keys where x: "x = (m, keys)" by (cases x)
    have v: "rv_verify (point_restorer P True True [] m)" by simp
    note run = verify_sections_disk [OF v, where bks = None and r = "NewRestorer d" and P = P and s = s and keys = keys and own = "DecideOwn m", simplified]
    then show ?thesis by (simp add: VerifyOwnData_def Inr [unfolded case_prod_unfold] x Let_def case_prod_unfold) (simp add: NewRestorer_def)
  qed
qed

text \<open>C10. Verifying writes nothing: \<open>Verify\<close> and \<open>VerifyOwnData\<close> leave the disk as it was, whatever they find.\<close>

theorem verify_writes_nothing:
  "r_disk (snd (VerifyPoint P s base master d)) = d \<and> r_disk (snd (VerifyOwnData P s master d)) = d"
  by (rule verify_disk)

lemma open_point_diff:
  assumes "open_point P s base master = Inr (m, keys, bks)" "HeaderIsDiff (set_Header (fst s))"
  shows "\<exists>b bkeys m0 msum. base = Some b \<and> SetSectionKeys (pe_format P) (fst b) master = Inr bkeys
    \<and> ReadManifest (pe_format P) (snd b) (fst b) bkeys = Inr (m0, msum) \<and> checkBaseLink (set_Header (fst s)) (set_Header (fst b)) msum = None"
  using assms by (auto simp: open_point_def Let_def e_iff split: option.splits sum.splits if_splits)

end
