(* ===== verification/EndToEnd.thy ===== *)
theory EndToEnd
  imports PointSafety
begin

text \<open>
  From a backup to its restore: the writer of sets (\<open>format/setwriter\<close>), the container, the manifest and
  the reader of restore points (\<open>workflow/restorepoint\<close>) together. \<open>written_ok\<close> and \<open>good_dest\<close> name what
  is left to the outside.
\<close>

section \<open>Backup and restore\<close>

text \<open>C2. What a full backup stored comes back: when \<open>Write\<close> has reported a full backup as written, whatever faults it met, the parts in the backup directory open as a set, and restoring it with the same master key into an empty folder succeeds and leaves exactly the files and folders of its manifest, each file with the contents that were archived.\<close>

theorem full_backup_comes_back:
  assumes "written_ok env p fd r fd'" "sp_Base p = None" "pe_format P = se_format env" "tar_reads P env (set_items env p)"
    and "good_dest P dest (set_manifest env p) d0"
  shows "\<exists>s r'. stored_set (se_format env) fd' (sr_Parts r) s \<and> RestorePoint P s None (sp_Master p) dest d0 = (Inr (set_manifest env p), r')
    \<and> restored (point_restorer P False False dest (set_manifest env p)) d0 (set (map member_of (set_items env p))) (r_disk r')"
  using full_point [OF assms] by blast

text \<open>C1. What a differential stored comes back together with its full backup: when both were reported as written, the differential against the manifest of the full backup and under the same keys, restoring the two into an empty folder succeeds and leaves exactly the files and folders of the differential's manifest, each file with contents archived in one of the two.\<close>

theorem differential_comes_back:
  assumes "written_ok env0 p0 fd0 r0 fd0'" "written_ok env p fd r fd'" "differential_of env p env0 p0 r0"
    and "pe_format P = se_format env" "tar_reads P env0 (set_items env0 p0)" "tar_reads P env (set_items env p)"
    and "good_dest P dest (set_manifest env p) d0"
  shows "\<exists>s b r'. stored_set (se_format env) fd' (sr_Parts r) s \<and> stored_set (se_format env) fd0' (sr_Parts r0) b
    \<and> set_header env p = Inr (set_Header (fst s)) \<and> RestorePoint P s (Some b) (sp_Master p) dest d0 = (Inr (set_manifest env p), r')
    \<and> restored (point_restorer P False False dest (set_manifest env p)) d0 (set (map member_of (set_items env0 p0 @ set_items env p))) (r_disk r')"
  by (rule diff_point [OF assms])

section \<open>Whatever a set holds\<close>

text \<open>C3. A restore stays in its folder: whatever the sets hold and however the restore ends, with success or with any error of the backup, the key or the system, nothing outside the destination folder has changed.\<close>

theorem restore_confined:
  assumes "clean_elems [] dest = dest" "\<nexists>q. k = node_key (pe_disk P) dest @ q"
  shows "dk_nodes (r_disk (snd (RestorePoint P s base master dest d))) k = dk_nodes d k"
proof -
  let ?env = "point_restorer P False False dest \<lparr>m_Header = undefined, m_Entries = [], m_Footer = undefined\<rparr>"
  have "same_outside ?env d (r_disk (snd (read_point P s base master dest False d)))"
    by (rule same_read_point) (use assms(1) in \<open>simp add: dest_clean_def point_restorer_def\<close>)
  moreover have "\<not> below ?env k" "k \<noteq> dest_key ?env" using assms(2) by (auto simp: below_def dest_key_def point_restorer_def)
  ultimately show ?thesis by (simp add: same_outside_def RestorePoint_def)
qed

text \<open>C4. A differential is only ever read with its own full backup: when \<open>Restore\<close> or \<open>Verify\<close> of a differential succeeds, the set given as its base is a full backup of the same chain and folder, of the date the differential names and under the same keys, and its manifest, opened with the keys, has the checksum the differential recorded when it was made.\<close>

theorem differential_only_with_its_full:
  assumes "read_point P s base master dest v d = (Inr m, r)" "HeaderIsDiff (set_Header (fst s))"
  shows "\<exists>b keys m0. base = Some b \<and> \<not> HeaderIsDiff (set_Header (fst b))
    \<and> h_ChainID (set_Header (fst b)) = h_ChainID (set_Header (fst s)) \<and> h_DirectoryName (set_Header (fst b)) = h_DirectoryName (set_Header (fst s))
    \<and> h_Date (set_Header (fst b)) = h_BaseDate (set_Header (fst s)) \<and> ks_ID (h_KeySet (set_Header (fst b))) = ks_ID (h_KeySet (set_Header (fst s)))
    \<and> SetSectionKeys (pe_format P) (fst b) master = Inr keys
    \<and> ReadManifest (pe_format P) (snd b) (fst b) keys = Inr (m0, h_BaseManifestSHA256 (set_Header (fst s)))"
proof -
  obtain m' keys bks where "open_point P s base master = Inr (m', keys, bks)" using assms(1) by (auto simp: read_point_def split: sum.splits)
  from open_point_diff [OF this assms(2)] show ?thesis by (auto simp: checkBaseLink_def split: if_splits)
qed

section \<open>A JSON of tables\<close>

text \<open>For the example: values are written as their positions in a table.\<close>

definition pos :: "'a list \<Rightarrow> 'a \<Rightarrow> nat" where
  "pos xs x = length (takeWhile (\<lambda>y. y \<noteq> x) xs)"

lemma nth_pos: "x \<in> set xs \<Longrightarrow> pos xs x < length xs \<and> xs ! pos xs x = x"
  unfolding pos_def by (induction xs) auto

definition table_json :: "manifest_header list \<Rightarrow> mentry list \<Rightarrow> footer list \<Rightarrow> line_json" where
  "table_json hs es fs = \<lparr>enc_header = \<lambda>h. [of_nat (pos hs h)], enc_entry = \<lambda>e. [of_nat (pos es e)],
     enc_footer = \<lambda>f. footer_prefix @ [of_nat (pos fs f)], dec_header = \<lambda>l. Some (hs ! unat (hd l)),
     dec_entry = \<lambda>l. Some (es ! unat (hd l)), dec_footer = \<lambda>l. Some (fs ! unat (last l))\<rparr>"

lemma small_byte: "n < 10 \<Longrightarrow> unat (of_nat n :: byte) = n \<and> (of_nat n :: byte) \<noteq> 0x0A \<and> (of_nat n :: byte) \<noteq> 0x0D"
proof -
  assume "n < 10"
  then have "unat (of_nat n :: byte) = n" by (simp add: unat_of_nat)
  then show ?thesis using \<open>n < 10\<close> by auto
qed

lemma small_pos: "x \<in> set xs \<Longrightarrow> length xs \<le> 10 \<Longrightarrow> unat (of_nat (pos xs x) :: byte) = pos xs x \<and> (of_nat (pos xs x) :: byte) \<noteq> 0x0A
    \<and> (of_nat (pos xs x) :: byte) \<noteq> 0x0D"
  using small_byte [of "pos xs x"] nth_pos [of x xs] by simp

lemma table_json_ok:
  assumes "m_Header m \<in> set hs" "set (m_Entries m) \<subseteq> set es" "m_Footer m \<in> set fs" "length hs \<le> 10" "length es \<le> 10" "length fs \<le> 10"
  shows "json_ok (table_json hs es fs) m"
proof -
  have fp: "footer_prefix = [123, 34, 101, 110, 100, 34, 58]" by code_simp
  have e: "e \<in> set (m_Entries m) \<Longrightarrow> e \<in> set es" for e using assms(2) by blast
  show ?thesis using small_pos [OF assms(1,4)] small_pos [OF assms(3,6)] small_pos [OF e assms(5)] nth_pos [OF assms(1)] nth_pos [OF assms(3)] nth_pos [OF e]
    by (simp add: json_ok_def manifest_lines_def table_json_def list_all_iff line_ok_def maxLineBytes_def fp)
qed

lemma table_lines: "length (unlines (manifest_lines (table_json hs es fs) m)) = 11 + 2 * length (m_Entries m)"
proof -
  have "length footer_prefix = 7" by code_simp
  moreover have "length (concat (map (\<lambda>l. l @ [0x0A]) (map (enc_entry (table_json hs es fs)) xs))) = 2 * length xs" for xs
    by (induction xs) (simp_all add: table_json_def)
  ultimately show ?thesis by (simp add: unlines_def manifest_lines_def del: length_concat) (simp add: table_json_def)
qed

section \<open>An example\<close>

text \<open>A full backup of a folder, and a differential of it after one file has changed.\<close>

definition pair_opts :: build_opts where
  "pair_opts = demo_build_opts\<lparr>bo_sha256 := fold32\<rparr>"

definition pair_full :: tar_builder where
  "pair_full = snd (BuildTar pair_opts demo_tree (NewBuilder (b_header demo_builder)))"

definition pair_diff :: tar_builder where
  "pair_diff = snd (BuildTar (pair_opts\<lparr>bo_base := Some (builder_manifest (tb_mb pair_full))\<rparr>) demo_tree2 demo_diff_builder)"

lemma pair_full_built: "BuildTar pair_opts demo_tree (NewBuilder (b_header demo_builder)) = (None, pair_full)"
proof -
  have "fst (BuildTar pair_opts demo_tree (NewBuilder (b_header demo_builder))) = None" by code_simp
  then show ?thesis by (metis pair_full_def prod.collapse)
qed

lemma pair_diff_built: "BuildTar (pair_opts\<lparr>bo_base := Some (builder_manifest (tb_mb pair_full))\<rparr>) demo_tree2 demo_diff_builder = (None, pair_diff)"
proof -
  have "fst (BuildTar (pair_opts\<lparr>bo_base := Some (builder_manifest (tb_mb pair_full))\<rparr>) demo_tree2 demo_diff_builder) = None" by code_simp
  then show ?thesis by (metis pair_diff_def prod.collapse)
qed

lemma pair_valid: "ValidateManifest id (builder_manifest (tb_mb pair_full)) = Inr ()" "ValidateManifest id (builder_manifest (tb_mb pair_diff)) = Inr ()"
  by code_simp+

lemma pair_entries: "length (b_entries (tb_mb pair_full)) = 3" "length (b_entries (tb_mb pair_diff)) = 3"
  by code_simp+

definition pair_json :: line_json where
  "pair_json = table_json [b_header (tb_mb pair_full), b_header (tb_mb pair_diff)] (b_entries (tb_mb pair_full) @ b_entries (tb_mb pair_diff))
     [computeFooter (b_entries (tb_mb pair_full)), computeFooter (b_entries (tb_mb pair_diff))]"

definition pair_sum :: string where
  "pair_sum = hex_encode (fold32 (unlines (manifest_lines pair_json (builder_manifest (tb_mb pair_full)))))"

definition pair_params :: set_params where
  "pair_params = demo_set_params\<lparr>sp_Entry := (sp_Entry demo_set_params)\<lparr>Date := ''2025-02-03'', DiffNumber := 1\<rparr>,
     sp_Base := Some \<lparr>sb_Header = demo_header, sb_Manifest = builder_manifest (tb_mb pair_full), sb_ManifestSHA256 = pair_sum\<rparr>\<rparr>"

definition pair_header :: header where
  "pair_header = demo_header\<lparr>h_SetType := SetTypeDiff, h_DiffNumber := 1, h_Date := ''2025-02-03'', h_BaseDate := ''2025-01-02'',
     h_BaseManifestSHA256 := pair_sum\<rparr>"

definition pair_format :: format_env where
  "pair_format = demo_format\<lparr>fe_marshal := \<lambda>h. Inr [if HeaderIsDiff h then 2 else 1],
     fe_unmarshal := \<lambda>b. Some (if b = [2] then pair_header else demo_header, False), fe_lines := pair_json\<rparr>"

definition pair_tar :: "tar_item list \<Rightarrow> bytes" where
  "pair_tar items = [if items = tb_items pair_diff then 1 else 0]"

definition pair_env0 :: set_env where
  "pair_env0 = demo_set_env\<lparr>se_format := pair_format, se_build := pair_opts, se_tree := demo_tree, se_tar := pair_tar\<rparr>"

definition pair_env :: set_env where
  "pair_env = pair_env0\<lparr>se_tree := demo_tree2\<rparr>"

definition pair_point :: point_env where
  "pair_point = \<lparr>pe_format = pair_format, pe_tar = \<lambda>plain e. (map member_of (tb_items (if plain = [1] then pair_diff else pair_full)), e),
     pe_broken = \<lambda>_. False, pe_disk = demo_disk_env\<rparr>"

lemma pair_simps: "fe_C pair_format = demo_crypto" "fe_lower pair_format = id" "fe_lines pair_format = pair_json" "fe_time pair_format = (\<lambda>_. Some 0)"
  "se_format pair_env0 = pair_format" "se_format pair_env = pair_format" "se_build pair_env0 = pair_opts" "se_build pair_env = pair_opts"
  "se_tree pair_env0 = demo_tree" "se_tree pair_env = demo_tree2" "se_tar pair_env0 = pair_tar" "se_tar pair_env = pair_tar"
  "se_split pair_env0 = no_faults" "se_split pair_env = no_faults" "se_rename pair_env0 = (\<lambda>_. None)" "se_rename pair_env = (\<lambda>_. None)"
  "sp_SplitSize pair_params = 100" "sp_Master pair_params = replicate 32 6" "pe_format pair_point = pair_format"
  by (simp_all add: pair_format_def demo_format_def pair_env0_def pair_env_def demo_set_env_def pair_params_def demo_set_params_def pair_point_def)

lemma pair_headers: "params_check pair_params = None" "set_header pair_env pair_params = Inr pair_header" "set_header pair_env0 demo_set_params = Inr demo_header"
  by (simp_all add: params_check_def pair_params_def demo_set_params_def set_header_def set_type_def NewHeader_def pair_env_def pair_env0_def demo_set_env_def
      pair_header_def demo_header_def)

lemma pair_header_valid: "ValidateHeader C (\<lambda>_. Some 0) pair_header = Inr ()"
proof -
  have "idPattern ''ABC123''" "idPattern ''DEF456''" "datePattern ''2025-01-02''" "datePattern ''2025-02-03''" "ValidateBackupEntryName ''Docs'' = Inr ()"
    by code_simp+
  moreover have "length pair_sum = 64" by (simp add: pair_sum_def)
  ultimately show ?thesis
    by (simp add: ValidateHeader_def pair_header_def demo_header_def setNonceLen_def demo_keyset_valid SetTypeFull_def SetTypeDiff_def)
qed

lemma pair_encoded: "EncodeHeader pair_format demo_header = Inr (magicPrefix @ [FormatVersion, 0] @ be_bytes 4 1 @ [1])"
  "EncodeHeader pair_format pair_header = Inr (magicPrefix @ [FormatVersion, 0] @ be_bytes 4 1 @ [2])"
  "header_json_ok pair_format demo_header" "header_json_ok pair_format pair_header"
  by (simp_all add: EncodeHeader_def pair_simps demo_header_valid pair_header_valid maxHeaderJSON_def header_json_ok_def)
    (simp_all add: maxHeaderJSON_def pair_format_def HeaderIsDiff_def demo_header_def pair_header_def SetTypeFull_def SetTypeDiff_def)

lemma pair_tars: "set_tar pair_env0 demo_set_params = (None, pair_full)" "set_tar pair_env pair_params = (None, pair_diff)"
proof -
  have "set_builder demo_set_params = NewBuilder (b_header demo_builder)" "sp_Base demo_set_params = None" "set_builder pair_params = demo_diff_builder"
    by (simp_all add: set_builder_def demo_set_params_def demo_builder_def NewBuilder_def Add_def set_type_def toSlash_def pair_params_def demo_diff_builder_def)
  moreover have "pair_opts\<lparr>bo_base := None\<rparr> = pair_opts" by (simp add: pair_opts_def demo_build_opts_def)
  ultimately show "set_tar pair_env0 demo_set_params = (None, pair_full)" "set_tar pair_env pair_params = (None, pair_diff)"
    using pair_full_built pair_diff_built by (simp_all add: set_tar_def pair_simps) (simp add: pair_params_def)
qed

lemma pair_json_ok: "json_ok pair_json (builder_manifest (tb_mb pair_full))" "json_ok pair_json (builder_manifest (tb_mb pair_diff))"
  unfolding pair_json_def by (rule table_json_ok; simp add: builder_manifest_def pair_entries)+

lemma pair_encodes: "EncodeManifest id pair_json (tb_mb pair_full) = Inr (unlines (manifest_lines pair_json (builder_manifest (tb_mb pair_full))))"
  "EncodeManifest id pair_json (tb_mb pair_diff) = Inr (unlines (manifest_lines pair_json (builder_manifest (tb_mb pair_diff))))"
  using pair_valid by (simp_all add: EncodeManifest_def Let_def)

lemma pair_length:
  assumes "length (b_entries (tb_mb tb)) = 3"
  shows "length (set_bytes demo_crypto master (magicPrefix @ [FormatVersion, 0] @ be_bytes 4 1 @ [b]) n (pair_tar items)
    (unlines (manifest_lines pair_json (builder_manifest (tb_mb tb))))) = 137"
proof -
  have "length (unlines (manifest_lines pair_json (builder_manifest (tb_mb tb)))) = 17"
    using assms by (simp only: pair_json_def table_lines) (simp add: builder_manifest_def)
  then show ?thesis
    by (simp add: length_set_bytes demo_crypto_ok data_section_def manifest_section_def Let_def length_enc_bytes ChunkSize_def pair_tar_def TrailerLen_def)
qed

lemma pair_written:
  assumes h: "params_check p = None" "set_header env p = Inr h" "EncodeHeader pair_format h = Inr (magicPrefix @ [FormatVersion, 0] @ be_bytes 4 1 @ [b])"
      "header_json_ok pair_format h"
    and t: "set_tar env p = (None, tb)" "EncodeManifest id pair_json (tb_mb tb) = Inr (unlines (manifest_lines pair_json (builder_manifest (tb_mb tb))))"
      "json_ok pair_json (builder_manifest (tb_mb tb))" "length (b_entries (tb_mb tb)) = 3"
    and e: "se_format env = pair_format" "se_tar env = pair_tar" "se_split env = no_faults" "se_rename env = (\<lambda>_. None)" "se_build env = pair_opts"
      "sp_SplitSize p = 100" "sp_Master p = replicate 32 6"
  shows "\<exists>r fd'. written_ok env p Map.empty r fd'
    \<and> wr_ManifestSHA256 (sr_Write r) = hex_encode (fold32 (unlines (manifest_lines pair_json (builder_manifest (tb_mb tb))))) \<and> length (sr_Parts r) = 2"
proof -
  have C: "crypto_ok (fe_C (se_format env))" "0 < sp_SplitSize p" "length (sp_Master p) = KeyLen" "sha256 demo_crypto = fold32"
    using demo_crypto_ok by (simp_all add: e pair_simps KeyLen_def demo_crypto_def)
  obtain r fd' where r: "WriteBackupSet env p Map.empty = (Inr r, fd')" "files_size fd' (sr_Parts r) = 137"
    "wr_ManifestSHA256 (sr_Write r) = hex_encode (fold32 (unlines (manifest_lines pair_json (builder_manifest (tb_mb tb)))))"
    "int (length (sr_Parts r)) = part_count 100 137"
    using set_writes [OF h(1,2) h(3) [folded e(1)] t(1) _ C(1-3) _ e(3,4), of _ Map.empty, unfolded e pair_simps, OF t(2)]
    unfolding C(4) pair_length [OF t(4)] by auto
  then show ?thesis using h(2,4) t(1,3) C(1,4)
    by (intro exI [of _ r] exI [of _ fd']) (auto simp: written_ok_def e pair_simps part_count_def pair_opts_def)
qed

lemmas pair_env_facts = pair_simps(5-16)

lemma pair_written_both:
  "\<exists>r fd'. written_ok pair_env0 demo_set_params Map.empty r fd' \<and> wr_ManifestSHA256 (sr_Write r) = pair_sum \<and> length (sr_Parts r) = 2"
  "\<exists>r fd'. written_ok pair_env pair_params Map.empty r fd'"
  using pair_written [OF demo_set_header(1) pair_headers(3) pair_encoded(1,3) pair_tars(1) pair_encodes(1) pair_json_ok(1) pair_entries(1)]
    pair_written [OF pair_headers(1,2) pair_encoded(2,4) pair_tars(2) pair_encodes(2) pair_json_ok(2) pair_entries(2)]
  by (auto simp: pair_simps demo_write_simps pair_sum_def)

lemma pair_linked: "wr_ManifestSHA256 (sr_Write r) = pair_sum \<Longrightarrow> differential_of pair_env pair_params pair_env0 demo_set_params r"
  by (simp add: differential_of_def pair_headers pair_simps demo_write_simps set_manifest_def pair_tars) (simp add: pair_params_def demo_set_params_def)

lemma pair_reads: "tar_reads pair_point pair_env0 (set_items pair_env0 demo_set_params)" "tar_reads pair_point pair_env (set_items pair_env pair_params)"
  by (auto simp: tar_reads_def set_items_def pair_tars pair_simps pair_tar_def pair_point_def)

lemma pair_point_env: "point_restorer pair_point False False [''C'', ''out''] m = demo_restore fold32 m"
  by (simp add: point_restorer_def pair_simps demo_restore_def) (simp add: pair_point_def demo_crypto_def)

lemma pair_dest: "good_dest pair_point [''C'', ''out''] m demo_disk"
  using demo_folds by (simp add: good_dest_def pair_point_env pair_simps)

lemma full_backup_comes_back_witness:
  "\<exists>r fd' s r'. written_ok pair_env0 demo_set_params Map.empty r fd' \<and> stored_set pair_format fd' (sr_Parts r) s
    \<and> RestorePoint pair_point s None (replicate 32 6) [''C'', ''out''] demo_disk = (Inr (builder_manifest (tb_mb pair_full)), r')"
proof -
  obtain r fd' where w: "written_ok pair_env0 demo_set_params Map.empty r fd'" using pair_written_both(1) by blast
  have "sp_Base demo_set_params = None" "pe_format pair_point = se_format pair_env0" by (simp_all add: demo_set_params_def pair_simps)
  from full_backup_comes_back [OF w this pair_reads(1) pair_dest] w show ?thesis
    unfolding pair_simps demo_write_simps set_manifest_def pair_tars snd_conv by blast
qed

lemma differential_comes_back_witness:
  "\<exists>r0 fd0' r fd' s b r'. written_ok pair_env0 demo_set_params Map.empty r0 fd0' \<and> written_ok pair_env pair_params Map.empty r fd'
    \<and> stored_set pair_format fd' (sr_Parts r) s \<and> stored_set pair_format fd0' (sr_Parts r0) b
    \<and> RestorePoint pair_point s (Some b) (replicate 32 6) [''C'', ''out''] demo_disk = (Inr (builder_manifest (tb_mb pair_diff)), r')"
proof -
  obtain r0 fd0' where w0: "written_ok pair_env0 demo_set_params Map.empty r0 fd0'" "wr_ManifestSHA256 (sr_Write r0) = pair_sum"
    using pair_written_both(1) by blast
  obtain r fd' where w: "written_ok pair_env pair_params Map.empty r fd'" using pair_written_both(2) by blast
  have "pe_format pair_point = se_format pair_env" by (simp add: pair_simps)
  from differential_comes_back [OF w0(1) w pair_linked [OF w0(2)] this pair_reads pair_dest] w0(1) w show ?thesis
    unfolding pair_simps set_manifest_def pair_tars snd_conv by blast
qed

lemma restore_confined_witness:
  "\<forall>s. dk_nodes (r_disk (snd (RestorePoint pair_point s None (replicate 32 6) [''C'', ''out''] demo_disk))) [''D'', ''notes''] = None"
proof -
  have "\<nexists>q. [''D'', ''notes''] = node_key (pe_disk pair_point) [''C'', ''out''] @ q"
    by (simp add: pair_point_def demo_disk_env_def node_key_def)
  from restore_confined [OF _ this] show ?thesis by (intro allI) (simp add: demo_disk_def)
qed

lemma differential_only_with_its_full_witness:
  "\<exists>s b m r. read_point pair_point s (Some b) (replicate 32 6) [''C'', ''out''] False demo_disk = (Inr m, r) \<and> HeaderIsDiff (set_Header (fst s))
    \<and> \<not> HeaderIsDiff (set_Header (fst b)) \<and> h_Date (set_Header (fst b)) = h_BaseDate (set_Header (fst s))"
proof -
  obtain r0 fd0' where w0: "written_ok pair_env0 demo_set_params Map.empty r0 fd0'" "wr_ManifestSHA256 (sr_Write r0) = pair_sum"
    using pair_written_both(1) by blast
  obtain r fd' where w: "written_ok pair_env pair_params Map.empty r fd'" using pair_written_both(2) by blast
  have "pe_format pair_point = se_format pair_env" by (simp add: pair_simps)
  from diff_point [OF w0(1) w pair_linked [OF w0(2)] this pair_reads pair_dest]
  obtain s b m r' where x: "set_header pair_env pair_params = Inr (set_Header (fst s))"
    "read_point pair_point s (Some b) (replicate 32 6) [''C'', ''out''] False demo_disk = (Inr m, r')"
    unfolding RestorePoint_def pair_simps by blast
  have "HeaderIsDiff (set_Header (fst s))" using set_header_fields(1) [OF x(1)] by (simp add: pair_params_def)
  from differential_only_with_its_full [OF x(2) this] x(2) this show ?thesis by blast
qed

end
