(* ===== verification/Facts.thy ===== *)
theory Facts
  imports Manifest
begin

text \<open>
  The log of a run (\<open>logging/logging.go\<close>, \<open>line.go\<close>, \<open>facts.go\<close>, \<open>fsx/append.go\<close>): its lines, the facts in it
  that are read back, and the temporary file that is appended to the log in the backup directory when the
  logger closes. The layout of times and the JSON of a fact are an environment.
\<close>

section \<open>Lines\<close>

record fact =
  f_Kind :: string
  f_Result :: string
  f_Set :: string
  f_Warnings :: int
  f_Skipped :: int
  f_Stale :: int
  f_Bytes :: int
  f_Removed :: int
  f_Seconds :: int
  f_Error :: string
  f_Time :: int

record log_env =
  lo_format :: "int \<Rightarrow> string"
  lo_parse :: "string \<Rightarrow> int option"
  lo_marshal :: "fact \<Rightarrow> string option"
  lo_unmarshal :: "string \<Rightarrow> fact option"

definition FactBackup :: string where "FactBackup = ''backup''"
definition FactVerify :: string where "FactVerify = ''verify''"
definition FactSet :: string where "FactSet = ''set''"
definition FactCleanup :: string where "FactCleanup = ''cleanup''"
definition FactRestore :: string where "FactRestore = ''restore''"

definition RunOK :: string where "RunOK = ''ok''"
definition RunWarnings :: string where "RunWarnings = ''warnings''"
definition RunFailed :: string where "RunFailed = ''failed''"
definition RunCancelled :: string where "RunCancelled = ''cancelled''"

definition SeverityInfo :: string where "SeverityInfo = ''INFO ''"
definition SeverityDebug :: string where "SeverityDebug = ''DEBUG''"
definition SeverityWarn :: string where "SeverityWarn = ''WARN ''"
definition SeverityFact :: string where "SeverityFact = ''FACT ''"
definition SeverityError :: string where "SeverityError = ''ERROR''"

definition timestampLayout :: string where "timestampLayout = ''2006-01-02 15:04:05''"
definition linePrefixLen :: nat where "linePrefixLen = 1 + length timestampLayout + 2 + length SeverityInfo + 3"

definition newline :: char where "newline = CHR 0x0A"

definition FormatLine :: "log_env \<Rightarrow> int \<Rightarrow> string \<Rightarrow> string \<Rightarrow> string" where
  "FormatLine L t severity msg = ''['' @ lo_format L t @ ''] '' @ severity @ '' - '' @ msg @ [newline]"

record log_line =
  ll_Time :: int
  ll_Severity :: string
  ll_Message :: string

definition ParseLine :: "log_env \<Rightarrow> string \<Rightarrow> log_line option" where
  "ParseLine L line =
     (let n = length timestampLayout in
      if length line < linePrefixLen \<or> line ! 0 \<noteq> CHR ''['' \<or> line ! (1 + n) \<noteq> CHR '']'' then None
      else let sev = take (linePrefixLen - 3 - (1 + n + 2)) (drop (1 + n + 2) line) in
        if take 3 (drop (linePrefixLen - 3) line) \<noteq> '' - '' then None
        else case lo_parse L (take n (drop 1 line)) of
          None \<Rightarrow> None
        | Some t \<Rightarrow> Some \<lparr>ll_Time = t, ll_Severity = sev, ll_Message = drop linePrefixLen line\<rparr>)"

section \<open>Facts\<close>

definition Unread :: "fact \<Rightarrow> int" where
  "Unread f = f_Skipped f + f_Stale f"

record run_facts =
  rf_Backup :: "fact option"
  rf_Sets :: "string \<rightharpoonup> fact"
  rf_Verify :: "string \<rightharpoonup> fact"
  rf_Cleanup :: "fact option"
  rf_Restored :: "string \<rightharpoonup> fact"

definition no_facts :: run_facts where
  "no_facts = \<lparr>rf_Backup = None, rf_Sets = Map.empty, rf_Verify = Map.empty, rf_Cleanup = None, rf_Restored = Map.empty\<rparr>"

definition parseFact :: "log_env \<Rightarrow> string \<Rightarrow> fact option" where
  "parseFact L line = (case ParseLine L line of None \<Rightarrow> None | Some l \<Rightarrow>
     if ll_Severity l \<noteq> SeverityFact then None
     else case lo_unmarshal L (ll_Message l) of None \<Rightarrow> None | Some f \<Rightarrow>
       if f_Kind f = [] then None else Some (f\<lparr>f_Time := ll_Time l\<rparr>))"

definition add_fact :: "run_facts \<Rightarrow> fact \<Rightarrow> run_facts" where
  "add_fact r f =
     (if f_Kind f = FactBackup then r\<lparr>rf_Backup := Some f\<rparr>
      else if f_Kind f = FactSet then (if f_Set f \<noteq> [] then r\<lparr>rf_Sets := (rf_Sets r)(f_Set f \<mapsto> f)\<rparr> else r)
      else if f_Kind f = FactCleanup then r\<lparr>rf_Cleanup := Some f\<rparr>
      else if f_Kind f = FactVerify then (if f_Set f \<noteq> [] then r\<lparr>rf_Verify := (rf_Verify r)(f_Set f \<mapsto> f)\<rparr> else r)
      else if f_Kind f = FactRestore then (if f_Set f \<noteq> [] then r\<lparr>rf_Restored := (rf_Restored r)(f_Set f \<mapsto> f)\<rparr> else r)
      else r)"

definition maxLogLine :: nat where "maxLogLine = 1024 * 1024"

definition log_lines :: "bytes \<Rightarrow> string list \<times> err option" where
  "log_lines bs = (let ls = raw_lines [] bs; ok = takeWhile (\<lambda>l. length l < maxLogLine) ls
     in (map (string_of_bytes \<circ> drop_cr) ok, if ok \<noteq> ls then Some (Internal ''bufio.Scanner: token too long'') else None))"

definition ReadFacts :: "log_env \<Rightarrow> bytes result \<Rightarrow> run_facts \<times> err option" where
  "ReadFacts L content = (case content of Inl e \<Rightarrow> (no_facts, Some e)
     | Inr bs \<Rightarrow> (case log_lines bs of (ls, e) \<Rightarrow> (foldl add_fact no_facts (List.map_filter (parseFact L) ls), e)))"

section \<open>The logger\<close>

text \<open>
  The lines go to a temporary file, \<open>lg_actual\<close>; \<open>lg_output\<close> is what the user saw. The files are a map
  from names to contents, and an append may stop after some of its bytes.
\<close>

type_synonym files = "string \<rightharpoonup> bytes"

record logger =
  lg_debug :: bool
  lg_open :: bool
  lg_original :: string
  lg_actual :: string
  lg_outputOnly :: bool
  lg_output :: string

definition parseLogLevel :: "string \<Rightarrow> bool" where
  "parseLogLevel levelStr \<longleftrightarrow> levelStr = ''debug''"

definition writeLine :: "log_env \<Rightarrow> err option \<Rightarrow> int \<Rightarrow> string \<Rightarrow> bool \<Rightarrow> string \<Rightarrow> logger \<times> files \<Rightarrow> logger \<times> files" where
  "writeLine L werr t severity mirror msg x = (case x of (lg, fs) \<Rightarrow>
     let line = FormatLine L t severity msg;
         lg = (if mirror then lg\<lparr>lg_output := lg_output lg @ line\<rparr> else lg)
     in if \<not> lg_open lg then (lg, fs)
        else case werr of
          Some e \<Rightarrow> (lg\<lparr>lg_output := lg_output lg @ ''Warning: Writing to log file failed: %v'' @ [newline]\<rparr>, fs)
        | None \<Rightarrow> (lg, fs(lg_actual lg \<mapsto> (case fs (lg_actual lg) of None \<Rightarrow> [] | Some b \<Rightarrow> b) @ bytes_of_string line)))"

datatype log_event = LogFact fact | LogInfo string | LogDebug string | LogWarn string | LogError string
  | LogInfoOnly string | LogWarnOnly string

definition log_write :: "log_env \<Rightarrow> err option \<Rightarrow> int \<Rightarrow> log_event \<Rightarrow> logger \<times> files \<Rightarrow> logger \<times> files" where
  "log_write L werr t ev x = (case ev of
     LogFact f \<Rightarrow> (case lo_marshal L f of None \<Rightarrow> x | Some msg \<Rightarrow> writeLine L werr t SeverityFact False msg x)
   | LogInfo msg \<Rightarrow> writeLine L werr t SeverityInfo True msg x
   | LogDebug msg \<Rightarrow> (if lg_debug (fst x) then writeLine L werr t SeverityDebug True msg x else x)
   | LogWarn msg \<Rightarrow> writeLine L werr t SeverityWarn True msg x
   | LogError msg \<Rightarrow> writeLine L werr t SeverityError True msg x
   | LogInfoOnly msg \<Rightarrow> writeLine L werr t SeverityInfo False msg x
   | LogWarnOnly msg \<Rightarrow> writeLine L werr t SeverityWarn False msg x)"

text \<open>\<open>temp\<close> is what \<open>os.CreateTemp\<close> returns; the version is the first line of a log that is not there yet.\<close>

definition NewLogger :: "log_env \<Rightarrow> string result \<Rightarrow> int \<Rightarrow> string \<Rightarrow> string \<Rightarrow> string \<Rightarrow> files \<Rightarrow> (logger \<times> files) result" where
  "NewLogger L temp now version logPath levelStr fs = (case temp of
     Inl e \<Rightarrow> Inl (Wrapped ''Log file in temp directory could not be created: %w.'' e)
   | Inr actual \<Rightarrow>
       let x = (\<lparr>lg_debug = parseLogLevel levelStr, lg_open = True, lg_original = logPath, lg_actual = actual, lg_outputOnly = False,
                 lg_output = []\<rparr>, fs(actual \<mapsto> []))
       in Inr (if fs logPath = None then log_write L None now (LogInfoOnly (''RestoreSafe v'' @ version)) x else x))"

definition NewOutputLogger :: "string \<Rightarrow> logger" where
  "NewOutputLogger levelStr = \<lparr>lg_debug = parseLogLevel levelStr, lg_open = False, lg_original = [], lg_actual = [], lg_outputOnly = True,
     lg_output = []\<rparr>"

definition HasFile :: "logger \<Rightarrow> bool" where
  "HasFile lg \<longleftrightarrow> \<not> lg_outputOnly lg"

record append_env =
  ap_open :: "err option"
  ap_seek :: "err option"
  ap_write :: "(nat \<times> err) option"
  ap_close :: "err option"

definition AppendFile :: "append_env \<Rightarrow> string \<Rightarrow> bytes \<Rightarrow> files \<Rightarrow> err option \<times> files" where
  "AppendFile A path data fs = (case ap_open A of Some e \<Rightarrow> (Some e, fs) | None \<Rightarrow>
     let old = (case fs path of None \<Rightarrow> [] | Some b \<Rightarrow> b);
         (e, content) = (case ap_seek A of Some e \<Rightarrow> (Some e, old) | None \<Rightarrow>
           (case ap_write A of None \<Rightarrow> (None, old @ data) | Some (n, e) \<Rightarrow> (Some e, old @ take n data)))
     in (if e = None then ap_close A else e, fs(path \<mapsto> content)))"

text \<open>\<open>removed\<close> tells whether the temporary file could be removed.\<close>

definition LoggerClose :: "append_env \<Rightarrow> bool \<Rightarrow> logger \<times> files \<Rightarrow> logger \<times> files" where
  "LoggerClose A removed x = (case x of (lg, fs) \<Rightarrow>
     let lg = lg\<lparr>lg_open := False\<rparr> in
     if lg_actual lg = [] \<or> lg_original lg = [] then (lg, fs)
     else case fs (lg_actual lg) of
       None \<Rightarrow> (lg\<lparr>lg_output := lg_output lg @ ''Error reading log file in temp directory: %v.'' @ [newline]\<rparr>, fs)
     | Some data \<Rightarrow> (case AppendFile A (lg_original lg) data fs of
         (Some e, fs) \<Rightarrow> (lg\<lparr>lg_output := lg_output lg @ ''Error writing log file to backup directory: %v.'' @ [newline]
             @ ''Log file is located in temp directory: %s'' @ [newline]\<rparr>, fs)
       | (None, fs) \<Rightarrow> (lg, if removed then fs(lg_actual lg := None) else fs)))"

section \<open>Nothing logged is lost\<close>

text \<open>C13. What a run has logged is never lost: closing the logger either appends everything it wrote to the log in the backup directory, behind what was there, or leaves it in the temporary file and says so; other files do not change.\<close>

theorem closed_log_kept:
  assumes "LoggerClose A removed (lg, fs) = (lg', fs')" "lg_actual lg \<noteq> []" "lg_original lg \<noteq> []" "lg_actual lg \<noteq> lg_original lg"
    "fs (lg_actual lg) = Some data"
  shows "(fs' (lg_original lg) = Some ((case fs (lg_original lg) of None \<Rightarrow> [] | Some b \<Rightarrow> b) @ data)
      \<or> fs' (lg_actual lg) = Some data \<and> lg_output lg' \<noteq> lg_output lg)
    \<and> (\<forall>f. f \<noteq> lg_original lg \<longrightarrow> f \<noteq> lg_actual lg \<longrightarrow> fs' f = fs f)"
  using assms by (auto simp: LoggerClose_def AppendFile_def Let_def split: option.splits prod.splits if_splits)

section \<open>Facts are read back\<close>

definition log_ok :: "log_env \<Rightarrow> (int \<Rightarrow> int) \<Rightarrow> bool" where
  "log_ok L sec \<longleftrightarrow> (\<forall>t. length (lo_format L t) = length timestampLayout \<and> newline \<notin> set (lo_format L t) \<and> lo_parse L (lo_format L t) = Some (sec t))"

definition event_line :: "log_env \<Rightarrow> bool \<Rightarrow> log_event \<Rightarrow> (string \<times> string) option" where
  "event_line L debug ev = (case ev of LogFact f \<Rightarrow> map_option (Pair SeverityFact) (lo_marshal L f) | LogInfo m \<Rightarrow> Some (SeverityInfo, m)
     | LogDebug m \<Rightarrow> if debug then Some (SeverityDebug, m) else None | LogWarn m \<Rightarrow> Some (SeverityWarn, m) | LogError m \<Rightarrow> Some (SeverityError, m)
     | LogInfoOnly m \<Rightarrow> Some (SeverityInfo, m) | LogWarnOnly m \<Rightarrow> Some (SeverityWarn, m))"

text \<open>What the writers of the log keep to: messages on one line of less than a megabyte, facts with a kind whose JSON reads back.\<close>

definition event_ok :: "log_env \<Rightarrow> log_event \<Rightarrow> bool" where
  "event_ok L ev \<longleftrightarrow> (case event_line L True ev of None \<Rightarrow> True
       | Some (sev, m) \<Rightarrow> newline \<notin> set m \<and> CHR 0x0D \<notin> set m \<and> linePrefixLen + length m < maxLogLine)
     \<and> (case ev of LogFact f \<Rightarrow> f_Kind f \<noteq> [] \<and> (\<exists>m. lo_marshal L f = Some m \<and> lo_unmarshal L m = Some (f\<lparr>f_Time := 0\<rparr>)) | _ \<Rightarrow> True)"

definition event_fact :: "(int \<Rightarrow> int) \<Rightarrow> int \<times> log_event \<Rightarrow> fact option" where
  "event_fact sec ev = (case snd ev of LogFact f \<Rightarrow> Some (f\<lparr>f_Time := sec (fst ev)\<rparr>) | _ \<Rightarrow> None)"

definition log_all :: "log_env \<Rightarrow> (int \<times> log_event) list \<Rightarrow> logger \<times> files \<Rightarrow> logger \<times> files" where
  "log_all L evs x = foldl (\<lambda>x (t, ev). log_write L None t ev x) x evs"

definition event_text :: "log_env \<Rightarrow> bool \<Rightarrow> int \<times> log_event \<Rightarrow> string option" where
  "event_text L debug ev = map_option (\<lambda>(sev, m). butlast (FormatLine L (fst ev) sev m)) (event_line L debug (snd ev))"

definition logged :: "log_env \<Rightarrow> bool \<Rightarrow> (int \<times> log_event) list \<Rightarrow> bytes" where
  "logged L debug evs = concat (map (\<lambda>l. bytes_of_string l @ [0x0A]) (List.map_filter (event_text L debug) evs))"

lemma newline_byte [simp]: "bytes_of_string [newline] = [0x0A]"
  by (simp add: bytes_of_string_def newline_def)

lemma bytes_not_in: "c \<notin> set s \<Longrightarrow> of_nat (of_char c) \<notin> set (bytes_of_string s)"
proof
  assume c: "c \<notin> set s" "of_nat (of_char c) \<in> set (bytes_of_string s)"
  then obtain d where d: "d \<in> set s" "(of_nat (of_char d) :: byte) = of_nat (of_char c)" by (auto simp: bytes_of_string_def)
  then have "bytes_of_string [d] = bytes_of_string [c]" by (simp add: bytes_of_string_def)
  then show False using d(1) c(1) by (simp add: bytes_of_string_inj)
qed

lemma FormatLine_butlast: "FormatLine L t sev m = butlast (FormatLine L t sev m) @ [newline]"
  by (simp add: FormatLine_def butlast_append)

lemma log_effect:
  assumes "lg_open lg" "fs (lg_actual lg) = Some c"
  shows "log_write L None t ev (lg, fs) = (lg', fs') \<Longrightarrow> fs' = fs(lg_actual lg \<mapsto> c @ logged L (lg_debug lg) [(t, ev)])
    \<and> lg_open lg' \<and> lg_actual lg' = lg_actual lg \<and> lg_original lg' = lg_original lg \<and> lg_debug lg' = lg_debug lg"
proof -
  have w: "bytes_of_string (FormatLine L t sev m) = bytes_of_string (butlast (FormatLine L t sev m)) @ [0x0A]" for sev m
    by (subst FormatLine_butlast) (simp add: bytes_of_string_append)
  show "log_write L None t ev (lg, fs) = (lg', fs') \<Longrightarrow> ?thesis" using assms
    by (cases ev) (auto simp: log_write_def writeLine_def Let_def w logged_def event_text_def event_line_def List.map_filter_def fun_upd_idem split: option.splits if_splits)
qed

lemma logged_Cons: "logged L d (e # es) = logged L d [e] @ logged L d es"
  by (simp add: logged_def List.map_filter_def)

lemma log_all_effect:
  "lg_open lg \<Longrightarrow> fs (lg_actual lg) = Some c \<Longrightarrow> log_all L evs (lg, fs) = (lg', fs') \<Longrightarrow>
     fs' = fs(lg_actual lg \<mapsto> c @ logged L (lg_debug lg) evs) \<and> lg_actual lg' = lg_actual lg \<and> lg_original lg' = lg_original lg"
proof (induction evs arbitrary: lg fs c)
  case Nil then show ?case by (auto simp: log_all_def logged_def List.map_filter_def fun_upd_idem)
next
  case (Cons ev evs)
  obtain t e where ev: "ev = (t, e)" by (cases ev)
  obtain lg1 fs1 where s: "log_write L None t e (lg, fs) = (lg1, fs1)" by fastforce
  note x = log_effect [OF Cons.prems(1,2) s]
  have r: "log_all L evs (lg1, fs1) = (lg', fs')" using Cons.prems(3) s by (simp add: log_all_def ev)
  from Cons.IH [OF _ _ r] x show ?case by (auto simp: ev logged_Cons [of _ _ _ evs] fun_eq_iff)
qed

lemma event_line_ok:
  assumes "event_ok L ev" "event_line L d ev = Some (sev, m)"
  shows "length sev = 5" "newline \<notin> set sev" "newline \<notin> set m" "CHR 0x0D \<notin> set m" "linePrefixLen + length m < maxLogLine"
    "sev = SeverityFact \<longleftrightarrow> (\<exists>f. ev = LogFact f)"
proof -
  have "event_line L True ev = Some (sev, m)" using assms(2) by (auto simp: event_line_def split: log_event.splits if_splits)
  then show "newline \<notin> set m" "CHR 0x0D \<notin> set m" "linePrefixLen + length m < maxLogLine"
    using assms(1) by (auto simp: event_ok_def)
  show "length sev = 5" "newline \<notin> set sev" "sev = SeverityFact \<longleftrightarrow> (\<exists>f. ev = LogFact f)"
    using assms(2) by (auto simp: event_line_def newline_def SeverityInfo_def SeverityDebug_def SeverityWarn_def SeverityFact_def SeverityError_def
        split: log_event.splits if_splits)
qed

lemma ParseLine_Format:
  assumes "log_ok L sec" "length sev = 5"
  shows "ParseLine L (butlast (FormatLine L t sev m)) = Some \<lparr>ll_Time = sec t, ll_Severity = sev, ll_Message = m\<rparr>"
proof -
  let ?f = "lo_format L t"
  have f: "length ?f = 19" "lo_parse L ?f = Some (sec t)" using assms(1) by (simp_all add: log_ok_def timestampLayout_def)
  have n: "length timestampLayout = 19" "linePrefixLen = 30" by (simp_all add: timestampLayout_def linePrefixLen_def SeverityInfo_def)
  have l: "butlast (FormatLine L t sev m) = CHR ''['' # ?f @ [CHR '']'', CHR '' ''] @ sev @ '' - '' @ m" by (simp add: FormatLine_def butlast_append)
  have i: "(CHR ''['' # ?f @ [CHR '']'', CHR '' ''] @ sev @ '' - '' @ m) ! 20 = CHR '']''" using f(1) by (simp add: nth_append)
  show ?thesis unfolding ParseLine_def l Let_def n using f assms(2) i by (simp add: numeral_eq_Suc nth_append)
qed

lemma event_text_ok:
  assumes "log_ok L sec" "event_ok L (snd ev)" "event_text L d ev = Some l"
  shows "newline \<notin> set l" "length l < maxLogLine" "l \<noteq> []" "last l \<noteq> CHR 0x0D" "parseFact L l = event_fact sec ev"
proof -
  obtain sev m where e: "event_line L d (snd ev) = Some (sev, m)" "l = butlast (FormatLine L (fst ev) sev m)"
    using assms(3) by (auto simp: event_text_def)
  note ok = event_line_ok [OF assms(2) e(1)]
  have f: "length (lo_format L (fst ev)) = 19" "newline \<notin> set (lo_format L (fst ev))" using assms(1) by (simp_all add: log_ok_def timestampLayout_def)
  have l: "l = CHR ''['' # lo_format L (fst ev) @ [CHR '']'', CHR '' ''] @ sev @ '' - '' @ m" by (simp add: e(2) FormatLine_def butlast_append)
  show "newline \<notin> set l" using ok(2,3) f(2) by (simp add: l) (simp add: newline_def)
  show "length l < maxLogLine" using ok(1,5) f(1) by (simp add: l linePrefixLen_def timestampLayout_def SeverityInfo_def)
  show "l \<noteq> []" by (simp add: l)
  show "last l \<noteq> CHR 0x0D"
  proof (cases "m = []")
    case False then have "last l = last m" by (simp add: l)
    then show ?thesis using ok(4) last_in_set [OF False] by metis
  qed (simp add: l)
  show "parseFact L l = event_fact sec ev"
  proof (cases "\<exists>f. snd ev = LogFact f")
    case False
    then show ?thesis using ok(6) by (auto simp: parseFact_def e(2) ParseLine_Format [OF assms(1) ok(1)] event_fact_def split: log_event.splits)
  next
    case True
    then obtain f where f: "snd ev = LogFact f" by blast
    then obtain m' where "lo_marshal L f = Some m'" "lo_unmarshal L m' = Some (f\<lparr>f_Time := 0\<rparr>)" "f_Kind f \<noteq> []" using assms(2) by (auto simp: event_ok_def)
    moreover from this(1) have "m' = m" "sev = SeverityFact" using e(1) f by (auto simp: event_line_def)
    ultimately show ?thesis using ParseLine_Format [OF assms(1) ok(1), of "fst ev" m] by (simp add: parseFact_def e(2) event_fact_def f)
  qed
qed

lemma log_lines_texts:
  assumes "\<forall>l \<in> set ls. newline \<notin> set l \<and> length l < maxLogLine \<and> l \<noteq> [] \<and> last l \<noteq> CHR 0x0D"
  shows "log_lines (concat (map (\<lambda>l. bytes_of_string l @ [0x0A]) ls)) = (ls, None)"
proof -
  have r: "raw_lines [] (concat (map (\<lambda>l. bytes_of_string l @ [0x0A]) ls)) = map bytes_of_string ls" using assms
  proof (induction ls)
    case (Cons l ls)
    have "0x0A \<notin> set (bytes_of_string l)" using bytes_not_in [of newline l] Cons.prems by (simp add: newline_def)
    then show ?case using Cons by (simp add: raw_lines_app)
  qed simp
  have t: "takeWhile (\<lambda>l. length l < maxLogLine) (map bytes_of_string ls) = map bytes_of_string ls"
    using assms by (simp add: takeWhile_eq_all_conv)
  have c: "string_of_bytes (drop_cr (bytes_of_string l)) = l" if "l \<in> set ls" for l
  proof -
    have "last l \<noteq> CHR 0x0D" "l \<noteq> []" using assms that by auto
    then have "CHR 0x0D \<notin> set [last l]" "bytes_of_string l \<noteq> []" "last (bytes_of_string l) = of_nat (of_char (last l))"
      by (auto simp: bytes_of_string_def last_map)
    then have "last (bytes_of_string l) \<noteq> 0x0D" using bytes_not_in [of "CHR 0x0D" "[last l]"] by (simp add: bytes_of_string_def)
    then show ?thesis by (simp add: drop_cr_def)
  qed
  show ?thesis by (simp only: log_lines_def r t Let_def) (simp add: map_idI c)
qed

lemma facts_of_texts:
  assumes "log_ok L sec" "\<forall>ev \<in> set evs. event_ok L (snd ev)"
  shows "List.map_filter (parseFact L) (List.map_filter (event_text L d) evs) = List.map_filter (event_fact sec) evs"
  using assms(2)
proof (induction evs)
  case (Cons ev evs)
  have "event_text L d ev = None \<Longrightarrow> event_fact sec ev = None"
    using Cons.prems by (auto simp: event_text_def event_line_def event_fact_def event_ok_def split: log_event.splits)
  then show ?case using Cons event_text_ok(5) [OF assms(1), of ev d] by (auto simp: List.map_filter_def)
qed (simp add: List.map_filter_def)

lemma ReadFacts_logged:
  assumes "log_ok L sec" "\<forall>ev \<in> set evs \<union> set evs'. event_ok L (snd ev)"
  shows "ReadFacts L (Inr (logged L d evs @ logged L d' evs')) = (foldl add_fact no_facts (List.map_filter (event_fact sec) (evs @ evs')), None)"
proof -
  let ?ls = "List.map_filter (event_text L d) evs @ List.map_filter (event_text L d') evs'"
  have "\<forall>l \<in> set ?ls. newline \<notin> set l \<and> length l < maxLogLine \<and> l \<noteq> [] \<and> last l \<noteq> CHR 0x0D"
  proof
    fix l assume "l \<in> set ?ls"
    then have "\<exists>ev dd. ev \<in> set evs \<union> set evs' \<and> event_text L dd ev = Some l" by (fastforce simp: List.map_filter_def)
    then obtain ev dd where "ev \<in> set evs \<union> set evs'" "event_text L dd ev = Some l" by blast
    then show "newline \<notin> set l \<and> length l < maxLogLine \<and> l \<noteq> [] \<and> last l \<noteq> CHR 0x0D"
      using event_text_ok [OF assms(1), of ev dd l] assms(2) by blast
  qed
  from log_lines_texts [OF this] have "log_lines (logged L d evs @ logged L d' evs') = (?ls, None)" by (simp add: logged_def)
  moreover have "List.map_filter (parseFact L) ?ls = List.map_filter (event_fact sec) (evs @ evs')"
    using facts_of_texts [OF assms(1), of evs d] facts_of_texts [OF assms(1), of evs' d'] assms(2) by (simp add: List.map_filter_def)
  ultimately show ?thesis by (simp add: ReadFacts_def)
qed

text \<open>C14. The facts of a log are read back: after a run has logged any events through its logger to a log that holds what earlier runs logged, and has closed it without a fault, reading the facts of the log gives those of both runs in their order, a later one of a backup set taking the place of an earlier one, whatever else was logged between them.\<close>

theorem facts_read_back:
  assumes "log_ok L sec" "\<forall>ev \<in> set evs0 \<union> set evs. event_ok L (snd ev)" "lg_open lg" "lg_actual lg \<noteq> []" "lg_original lg \<noteq> []"
    "lg_actual lg \<noteq> lg_original lg" "fs (lg_actual lg) = Some []" "fs (lg_original lg) = Some (logged L d evs0)"
  shows "\<exists>bs. snd (LoggerClose \<lparr>ap_open = None, ap_seek = None, ap_write = None, ap_close = None\<rparr> True (log_all L evs (lg, fs))) (lg_original lg) = Some bs
    \<and> ReadFacts L (Inr bs) = (foldl add_fact no_facts (List.map_filter (event_fact sec) (evs0 @ evs)), None)"
proof -
  obtain lg1 fs1 where r: "log_all L evs (lg, fs) = (lg1, fs1)" by fastforce
  note e = log_all_effect [OF assms(3,7) r]
  have "snd (LoggerClose \<lparr>ap_open = None, ap_seek = None, ap_write = None, ap_close = None\<rparr> True (lg1, fs1)) (lg_original lg)
      = Some (logged L d evs0 @ logged L (lg_debug lg) evs)"
    using e assms(4-6,8) by (simp add: LoggerClose_def AppendFile_def Let_def)
  then show ?thesis using ReadFacts_logged [OF assms(1,2)] r by simp
qed

section \<open>An example\<close>

definition demo_fact :: fact where
  "demo_fact = \<lparr>f_Kind = FactVerify, f_Result = RunOK, f_Set = ''Docs'', f_Warnings = 0, f_Skipped = 0, f_Stale = 0, f_Bytes = 0,
     f_Removed = 0, f_Seconds = 0, f_Error = [], f_Time = 0\<rparr>"

definition demo_log :: log_env where
  "demo_log = \<lparr>lo_format = \<lambda>_. timestampLayout, lo_parse = \<lambda>_. Some 7, lo_marshal = \<lambda>_. Some ''x'', lo_unmarshal = \<lambda>_. Some demo_fact\<rparr>"

definition demo_logger :: logger where
  "demo_logger = \<lparr>lg_debug = False, lg_open = True, lg_original = ''run.log'', lg_actual = ''temp.log'', lg_outputOnly = False, lg_output = []\<rparr>"

lemma demo_log_ok: "log_ok demo_log (\<lambda>_. 7)"
  by (simp add: log_ok_def demo_log_def timestampLayout_def newline_def)

lemma demo_events_ok: "event_ok demo_log (LogFact demo_fact)" "event_ok demo_log (LogInfo ''done'')"
  by (simp_all add: event_ok_def event_line_def demo_log_def demo_fact_def newline_def linePrefixLen_def timestampLayout_def SeverityInfo_def maxLogLine_def
      FactVerify_def)

lemma closed_log_kept_witness:
  "snd (LoggerClose \<lparr>ap_open = None, ap_seek = None, ap_write = Some (1, EOF), ap_close = None\<rparr> True (demo_logger, [''temp.log'' \<mapsto> [1, 2]])) ''temp.log'' = Some [1, 2]"
proof -
  let ?x = "LoggerClose \<lparr>ap_open = None, ap_seek = None, ap_write = Some (1, EOF), ap_close = None\<rparr> True (demo_logger, [''temp.log'' \<mapsto> [1, 2]])"
  have "?x = (fst ?x, snd ?x)" by simp
  from closed_log_kept [OF this] show ?thesis by (simp add: demo_logger_def LoggerClose_def AppendFile_def)
qed

lemma facts_read_back_witness:
  "\<exists>bs. snd (LoggerClose \<lparr>ap_open = None, ap_seek = None, ap_write = None, ap_close = None\<rparr> True
      (log_all demo_log [(1, LogInfo ''done''), (2, LogFact demo_fact)] (demo_logger, [''temp.log'' \<mapsto> [], ''run.log'' \<mapsto> []]))) ''run.log'' = Some bs
    \<and> rf_Verify (fst (ReadFacts demo_log (Inr bs))) ''Docs'' = Some (demo_fact\<lparr>f_Time := 7\<rparr>)"
proof -
  let ?evs = "[(1, LogInfo ''done''), (2, LogFact demo_fact)]" and ?fs = "[''temp.log'' \<mapsto> [], ''run.log'' \<mapsto> []]"
  have ok: "\<forall>ev \<in> set [] \<union> set ?evs. event_ok demo_log (snd ev)" using demo_events_ok by simp
  have lg: "lg_open demo_logger" "lg_actual demo_logger \<noteq> []" "lg_original demo_logger \<noteq> []" "lg_actual demo_logger \<noteq> lg_original demo_logger"
    "?fs (lg_actual demo_logger) = Some []" "?fs (lg_original demo_logger) = Some (logged demo_log False [])" "lg_original demo_logger = ''run.log''"
    by (simp_all add: demo_logger_def logged_def List.map_filter_def)
  have f: "rf_Verify (foldl add_fact no_facts (List.map_filter (event_fact (\<lambda>_. 7)) ([] @ ?evs))) ''Docs'' = Some (demo_fact\<lparr>f_Time := 7\<rparr>)"
    by (simp add: List.map_filter_def event_fact_def add_fact_def no_facts_def demo_fact_def FactBackup_def FactSet_def FactCleanup_def FactVerify_def)
  obtain bs where "snd (LoggerClose \<lparr>ap_open = None, ap_seek = None, ap_write = None, ap_close = None\<rparr> True (log_all demo_log ?evs (demo_logger, ?fs))) ''run.log'' = Some bs"
    "ReadFacts demo_log (Inr bs) = (foldl add_fact no_facts (List.map_filter (event_fact (\<lambda>_. 7)) ([] @ ?evs)), None)"
    using facts_read_back [OF demo_log_ok ok lg(1-6)] unfolding lg(7) by blast
  then show ?thesis using f by (intro exI [of _ bs]) simp
qed

end
