(* ===== verification/Exclude.thy ===== *)
theory Exclude
  imports Config Manifest
begin

text \<open>
  The exclude patterns (\<open>config/exclude.go\<close>). \<open>path.Match\<close> of the standard library is modelled by what it
  promises: a pattern is parsed to tokens, which match a name as a sequence of runes. The matcher never
  hands it a backslash, so there are no escapes. (The library's own search skips the bytes of a star one by
  one and so may split a rune after it; its documentation, followed here, speaks of runes only.)
\<close>

section \<open>Runes\<close>

definition cont_byte :: "nat \<Rightarrow> bool" where
  "cont_byte b \<longleftrightarrow> 0x80 \<le> b \<and> b < 0xC0"

text \<open>The second byte of a rune is limited for some first bytes; what is not UTF-8 is one replacement rune a byte.\<close>

definition second_ok :: "nat \<Rightarrow> nat \<Rightarrow> bool" where
  "second_ok a b \<longleftrightarrow> cont_byte b \<and> (a = 0xE0 \<longrightarrow> 0xA0 \<le> b) \<and> (a = 0xED \<longrightarrow> b < 0xA0) \<and> (a = 0xF0 \<longrightarrow> 0x90 \<le> b) \<and> (a = 0xF4 \<longrightarrow> b < 0x90)"

fun decode_runes :: "nat list \<Rightarrow> nat list" where
  "decode_runes [] = []"
| "decode_runes (a # s) =
     (if a < 0x80 then a # decode_runes s
      else if 0xC2 \<le> a \<and> a < 0xE0 \<and> s \<noteq> [] \<and> second_ok a (hd s) then ((a - 0xC0) * 64 + (hd s - 0x80)) # decode_runes (drop 1 s)
      else if 0xE0 \<le> a \<and> a < 0xF0 \<and> 2 \<le> length s \<and> second_ok a (hd s) \<and> cont_byte (s ! 1)
        then ((a - 0xE0) * 4096 + (hd s - 0x80) * 64 + (s ! 1 - 0x80)) # decode_runes (drop 2 s)
      else if 0xF0 \<le> a \<and> a < 0xF5 \<and> 3 \<le> length s \<and> second_ok a (hd s) \<and> cont_byte (s ! 1) \<and> cont_byte (s ! 2)
        then ((a - 0xF0) * 262144 + (hd s - 0x80) * 4096 + (s ! 1 - 0x80) * 64 + (s ! 2 - 0x80)) # decode_runes (drop 3 s)
      else 0xFFFD # decode_runes s)"

definition runes :: "string \<Rightarrow> nat list" where
  "runes s = decode_runes (map of_char s)"

definition slash :: nat where "slash = 0x2F"

section \<open>Patterns of path.Match\<close>

datatype glob_token = Star | AnyRune | RuneClass bool "(nat \<times> nat) list" | Rune nat

definition class_rune :: "nat list \<Rightarrow> (nat \<times> nat list) option" where
  "class_rune s = (case s of [] \<Rightarrow> None | c # s \<Rightarrow>
     if c = 0x2D \<or> c = 0x5D then None
     else if c = 0x5C then (case s of [] \<Rightarrow> None | d # s \<Rightarrow> if s = [] then None else Some (d, s))
     else if s = [] then None else Some (c, s))"

text \<open>The ranges of a class up to the closing bracket, with the rest of the pattern.\<close>

function class_ranges :: "nat list \<Rightarrow> (nat \<times> nat) list \<Rightarrow> ((nat \<times> nat) list \<times> nat list) option" where
  "class_ranges s acc =
     (if s \<noteq> [] \<and> hd s = 0x5D \<and> acc \<noteq> [] then Some (rev acc, tl s)
      else case class_rune s of None \<Rightarrow> None | Some (lo, s1) \<Rightarrow>
        if hd s1 = 0x2D then (case class_rune (tl s1) of None \<Rightarrow> None | Some (hi, s2) \<Rightarrow> class_ranges s2 ((lo, hi) # acc))
        else class_ranges s1 ((lo, lo) # acc))"
  by pat_completeness auto

lemma class_rune_shorter: "class_rune s = Some (c, s') \<Longrightarrow> length s' < length s"
  by (auto simp: class_rune_def split: list.splits if_splits)

termination class_ranges
  by (relation "measure (length \<circ> fst)") (auto dest!: class_rune_shorter)

lemma class_ranges_shorter: "class_ranges s acc = Some (rs, s') \<Longrightarrow> length s' < length s"
proof (induction s acc rule: class_ranges.induct)
  case (1 s acc)
  show ?case
  proof (cases "s \<noteq> [] \<and> hd s = 0x5D \<and> acc \<noteq> []")
    case True
    then show ?thesis using "1.prems" by (subst (asm) class_ranges.simps) (auto simp: neq_Nil_conv)
  next
    case False
    then obtain lo s1 where c: "class_rune s = Some (lo, s1)" using "1.prems" by (subst (asm) class_ranges.simps) (auto split: option.splits)
    show ?thesis
    proof (cases "hd s1 = 0x2D")
      case True
      then obtain hi s2 where d: "class_rune (tl s1) = Some (hi, s2)" "class_ranges s2 ((lo, hi) # acc) = Some (rs, s')"
        using "1.prems" False c by (subst (asm) class_ranges.simps) (auto split: option.splits if_splits)
      then have "length s' < length s2" using "1.IH"(1) [OF False c refl True d(1) refl] by simp
      then show ?thesis using class_rune_shorter [OF c] class_rune_shorter [OF d(1)] by simp
    next
      case n: False
      then have "class_ranges s1 ((lo, lo) # acc) = Some (rs, s')" using "1.prems" False c by (subst (asm) class_ranges.simps) (auto split: if_splits)
      then show ?thesis using "1.IH"(2) [OF False c refl n] class_rune_shorter [OF c] by simp
    qed
  qed
qed

declare class_ranges.simps [simp del]

function parse_glob :: "nat list \<Rightarrow> glob_token list option" where
  "parse_glob [] = Some []"
| "parse_glob (c # s) =
     (if c = 0x2A then map_option ((#) Star) (parse_glob s)
      else if c = 0x3F then map_option ((#) AnyRune) (parse_glob s)
      else if c = 0x5B then
        (let neg = s \<noteq> [] \<and> hd s = 0x5E in
         case class_ranges (if neg then tl s else s) [] of None \<Rightarrow> None
         | Some (rs, s') \<Rightarrow> map_option ((#) (RuneClass neg rs)) (parse_glob s'))
      else if c = 0x5C then (case s of [] \<Rightarrow> None | d # s' \<Rightarrow> map_option ((#) (Rune d)) (parse_glob s'))
      else map_option ((#) (Rune c)) (parse_glob s))"
  by pat_completeness auto
termination
  by (relation "measure length") (auto dest!: class_ranges_shorter split: if_splits)

text \<open>A star and a question mark stay within one name of a path; a class matches any rune of its ranges.\<close>

function glob_match :: "glob_token list \<Rightarrow> nat list \<Rightarrow> bool" where
  "glob_match [] s \<longleftrightarrow> s = []"
| "glob_match (Star # ts) s \<longleftrightarrow> glob_match ts s \<or> (case s of [] \<Rightarrow> False | c # s \<Rightarrow> c \<noteq> slash \<and> glob_match (Star # ts) s)"
| "glob_match (AnyRune # ts) s \<longleftrightarrow> s \<noteq> [] \<and> hd s \<noteq> slash \<and> glob_match ts (tl s)"
| "glob_match (RuneClass neg rs # ts) s \<longleftrightarrow> s \<noteq> [] \<and> list_ex (\<lambda>(lo, hi). lo \<le> hd s \<and> hd s \<le> hi) rs \<noteq> neg \<and> glob_match ts (tl s)"
| "glob_match (Rune c # ts) s \<longleftrightarrow> s \<noteq> [] \<and> hd s = c \<and> glob_match ts (tl s)"
  by pat_completeness auto
termination
  by (relation "measure (\<lambda>(ts, s). length ts + length s)") auto

definition path_Match :: "string \<Rightarrow> string \<Rightarrow> bool option" where
  "path_Match pattern name = map_option (\<lambda>ts. glob_match ts (runes name)) (parse_glob (runes pattern))"

section \<open>Strings\<close>

text \<open>\<open>strings.TrimSpace\<close>: the length of the white space rune at the front of a string, 0 when there is none.\<close>

definition space_len :: "string \<Rightarrow> nat" where
  "space_len s =
     (if s \<noteq> [] \<and> blank (take 1 s) then 1 else if 2 \<le> length s \<and> blank (take 2 s) then 2
      else if 3 \<le> length s \<and> blank (take 3 s) then 3 else 0)"

lemma space_len_le: "space_len s \<le> length s"
  by (cases s) (auto simp: space_len_def)

function trim_left :: "string \<Rightarrow> string" where
  "trim_left s = (let k = space_len s in if k = 0 then s else trim_left (drop k s))"
  by pat_completeness auto
termination
proof (relation "measure length", goal_cases)
  case (2 s k)
  then show ?case using space_len_le [of s] by (cases s) (auto simp: space_len_def)
qed simp

text \<open>The length of the white space rune at the end.\<close>

definition end_space :: "string \<Rightarrow> nat" where
  "end_space s = (case filter (\<lambda>k. k \<le> length s \<and> space_len (drop (length s - k) s) = k) [1, 2, 3] of [] \<Rightarrow> 0 | k # _ \<Rightarrow> k)"

lemma end_space_pos: "end_space s \<noteq> 0 \<Longrightarrow> s \<noteq> []"
  by (auto simp: end_space_def space_len_def split: list.splits if_splits)

function trim_right :: "string \<Rightarrow> string" where
  "trim_right s = (let k = end_space s in if k = 0 then s else trim_right (take (length s - k) s))"
  by pat_completeness auto
termination
proof (relation "measure length", goal_cases)
  case (2 s k)
  then show ?case using end_space_pos [of s] by (cases s) auto
qed simp

declare trim_left.simps [simp del] trim_right.simps [simp del]

definition TrimSpace :: "string \<Rightarrow> string" where
  "TrimSpace s = trim_right (trim_left s)"

definition trim_slashes_right :: "string \<Rightarrow> string" where
  "trim_slashes_right s = rev (dropWhile (\<lambda>c. c = CHR ''/'') (rev s))"

definition trim_slashes_left :: "string \<Rightarrow> string" where
  "trim_slashes_left s = dropWhile (\<lambda>c. c = CHR ''/'') s"

definition slashed :: "string \<Rightarrow> string" where
  "slashed s = map (\<lambda>c. if c = CHR 0x5C then CHR ''/'' else c) s"

section \<open>The matcher\<close>

record exclude_pattern =
  ep_raw :: string
  ep_glob :: string
  ep_anchored :: bool
  ep_dirOnly :: bool

type_synonym matcher = "exclude_pattern list"

definition exclude_pattern_of :: "(string \<Rightarrow> string) \<Rightarrow> string \<Rightarrow> exclude_pattern result" where
  "exclude_pattern_of to_lower raw =
     (let p = TrimSpace (slashed raw) in
      if p = [] then Inl (Problem ''Invalid exclude pattern %q: pattern is empty.'')
      else let dirOnly = (last p = CHR ''/'');
               p = (if dirOnly then trim_slashes_right p else p);
               leading = (p \<noteq> [] \<and> hd p = CHR ''/'');
               p = (if leading then trim_slashes_left p else p);
               anchored = (leading \<or> CHR ''/'' \<in> set p)
      in if p = [] \<or> p = ''.'' \<or> p = ''..'' \<or> sublist ''//'' p then Inl (Problem ''Invalid exclude pattern %q.'')
         else if list_ex (\<lambda>seg. seg = ''..'' \<or> seg = ''.'') (split_char (CHR ''/'') p)
           then Inl (Problem ''Invalid exclude pattern %q: . and .. are not allowed.'')
         else case path_Match (to_lower p) [] of
           None \<Rightarrow> Inl (Problem ''Invalid exclude pattern %q: %v.'')
         | Some _ \<Rightarrow> Inr \<lparr>ep_raw = raw, ep_glob = to_lower p, ep_anchored = anchored, ep_dirOnly = dirOnly\<rparr>)"

fun NewExcludeMatcher :: "(string \<Rightarrow> string) \<Rightarrow> string list \<Rightarrow> matcher result" where
  "NewExcludeMatcher to_lower [] = Inr []"
| "NewExcludeMatcher to_lower (raw # raws) =
     bindE (exclude_pattern_of to_lower raw) (\<lambda>ep. bindE (NewExcludeMatcher to_lower raws) (\<lambda>m. Inr (ep # m)))"

definition matcher_empty :: "matcher option \<Rightarrow> bool" where
  "matcher_empty m = (case m of None \<Rightarrow> True | Some ps \<Rightarrow> ps = [])"

definition matcher_patterns :: "matcher option \<Rightarrow> string list" where
  "matcher_patterns m = (case m of None \<Rightarrow> [] | Some ps \<Rightarrow> map ep_raw ps)"

definition base_name :: "string \<Rightarrow> string" where
  "base_name s = rev (takeWhile (\<lambda>c. c \<noteq> CHR ''/'') (rev s))"

definition pattern_hits :: "string \<Rightarrow> bool \<Rightarrow> exclude_pattern \<Rightarrow> bool" where
  "pattern_hits lower isDir p =
     (if ep_dirOnly p \<and> \<not> isDir then False
      else path_Match (ep_glob p) (if ep_anchored p then lower else base_name lower) = Some True)"

definition ExcludeMatch :: "(string \<Rightarrow> string) \<Rightarrow> matcher option \<Rightarrow> string \<Rightarrow> bool \<Rightarrow> bool" where
  "ExcludeMatch to_lower m rel isDir =
     (if matcher_empty m then False else list_ex (pattern_hits (to_lower rel) isDir) (the m))"

section \<open>What the patterns mean\<close>

lemma NewExcludeMatcher_Inr [e_iff]:
  "NewExcludeMatcher to_lower raws = Inr m \<longleftrightarrow> list_all2 (\<lambda>raw ep. exclude_pattern_of to_lower raw = Inr ep) raws m"
  by (induction raws arbitrary: m) (auto simp: e_iff list_all2_Cons1)

lemma ex_split_Cons: "(\<exists>a b. c # s = a @ b \<and> P a b) \<longleftrightarrow> P [] (c # s) \<or> (\<exists>a b. s = a @ b \<and> P (c # a) b)"
  (is "?l = ?r")
proof
  assume ?l
  then obtain a b where "c # s = a @ b" "P a b" by blast
  then show ?r by (cases a) auto
next
  assume ?r
  then show ?l by (metis append.left_neutral append_Cons)
qed

lemma glob_match_Star: "glob_match (Star # ts) s \<longleftrightarrow> (\<exists>a b. s = a @ b \<and> slash \<notin> set a \<and> glob_match ts b)"
proof (induction s)
  case (Cons c s)
  then show ?case unfolding ex_split_Cons by auto
qed auto

lemma glob_match_append: "glob_match (ts @ us) s \<longleftrightarrow> (\<exists>s1 s2. s = s1 @ s2 \<and> glob_match ts s1 \<and> glob_match us s2)"
proof (induction ts arbitrary: s)
  case (Cons t ts)
  show ?case
  proof (cases t)
    case Star
    have "glob_match ((t # ts) @ us) s \<longleftrightarrow> (\<exists>a b s1 s2. s = a @ b \<and> slash \<notin> set a \<and> b = s1 @ s2 \<and> glob_match ts s1 \<and> glob_match us s2)"
      unfolding Star append_Cons glob_match_Star Cons by blast
    also have "\<dots> \<longleftrightarrow> (\<exists>s1 s2. s = s1 @ s2 \<and> glob_match (t # ts) s1 \<and> glob_match us s2)"
      unfolding Star glob_match_Star by (metis append.assoc)
    finally show ?thesis .
  next
    case AnyRune
    then show ?thesis using Cons by (cases s) (simp_all only: ex_split_Cons, auto)
  next
    case (RuneClass neg rs)
    then show ?thesis using Cons by (cases s) (simp_all only: ex_split_Cons, auto)
  next
    case (Rune c)
    then show ?thesis using Cons by (cases s) (simp_all only: ex_split_Cons, auto)
  qed
qed simp

lemma first_sep: "x \<notin> set a \<Longrightarrow> x \<notin> set b \<Longrightarrow> a @ x # c = b @ x # d \<longleftrightarrow> a = b \<and> c = d"
proof (induction a arbitrary: b)
  case Nil
  then show ?case by (cases b) auto
next
  case (Cons y a)
  then show ?case by (cases b) auto
qed

text \<open>A token that cannot take a slash: anything but the slash itself and a class.\<close>

fun within_name :: "glob_token \<Rightarrow> bool" where
  "within_name (Rune c) = (c \<noteq> slash)"
| "within_name (RuneClass _ _) = False"
| "within_name _ = True"

lemma glob_match_within_name: "glob_match ts s \<Longrightarrow> list_all within_name ts \<Longrightarrow> slash \<notin> set s"
proof (induction ts s rule: glob_match.induct)
  case (2 ts s)
  then show ?case by (cases s) auto
next
  case (3 ts s)
  then show ?case by (cases s) auto
next
  case (5 c ts s)
  then show ?case by (cases s) auto
qed auto

definition names_at :: "'a \<Rightarrow> 'a list \<Rightarrow> 'a list list" where
  "names_at sep s = foldr (\<lambda>c segs. if c = sep then [] # segs else (c # hd segs) # tl segs) s [[]]"

lemma names_at_sep: "names_at sep (sep # s) = [] # names_at sep s"
  by (simp add: names_at_def)

lemma names_at_ne [simp]: "names_at sep s \<noteq> []"
  by (induction s) (auto simp: names_at_def)

lemma names_at_plain: "sep \<notin> set s \<Longrightarrow> names_at sep s = [s]"
  by (induction s) (auto simp: names_at_def)

lemma names_at_first: "sep \<notin> set s \<Longrightarrow> names_at sep (s @ sep # t) = s # names_at sep t"
  by (induction s) (auto simp: names_at_def)

text \<open>A pattern without classes and a path match name by name.\<close>

lemma glob_match_by_name:
  assumes "list_all (\<lambda>t. within_name t \<or> t = Rune slash) ts"
  shows "glob_match ts s \<longleftrightarrow> list_all2 glob_match (names_at (Rune slash) ts) (names_at slash s)"
  using assms
proof (induction "length ts" arbitrary: ts s rule: less_induct)
  case less
  show ?case
  proof (cases "Rune slash \<in> set ts")
    case False
    then have w: "list_all within_name ts" using less.prems by (auto simp: list_all_iff)
    show ?thesis
    proof (cases "slash \<in> set s")
      case True
      then obtain s1 s2 where "s = s1 @ slash # s2" "slash \<notin> set s1" using split_list_first by metis
      then have "names_at slash s = s1 # names_at slash s2" by (simp add: names_at_first)
      then show ?thesis using glob_match_within_name [OF _ w] True False by (auto simp: names_at_plain list_all2_Cons1)
    qed (use False in \<open>simp add: names_at_plain\<close>)
  next
    case True
    then obtain t1 t2 where t: "ts = t1 @ Rune slash # t2" "Rune slash \<notin> set t1" using split_list_first by metis
    then have w: "list_all within_name t1" using less.prems by (auto simp: list_all_iff)
    have IH: "glob_match t2 s' \<longleftrightarrow> list_all2 glob_match (names_at (Rune slash) t2) (names_at slash s')" for s'
      using less.hyps [of t2 s'] less.prems by (simp add: t)
    have m: "glob_match ts s \<longleftrightarrow> (\<exists>s1 s2. s = s1 @ slash # s2 \<and> slash \<notin> set s1 \<and> glob_match t1 s1 \<and> glob_match t2 s2)"
    proof -
      have "glob_match (Rune slash # t2) v \<longleftrightarrow> (\<exists>s2. v = slash # s2 \<and> glob_match t2 s2)" for v by (cases v) auto
      then show ?thesis using glob_match_within_name [OF _ w] by (auto simp: t(1) glob_match_append)
    qed
    show ?thesis
    proof (cases "slash \<in> set s")
      case True
      then obtain s1 s2 where s: "s = s1 @ slash # s2" "slash \<notin> set s1" using split_list_first by metis
      have "s = a @ slash # b \<and> slash \<notin> set a \<longleftrightarrow> a = s1 \<and> b = s2" for a b
        using s first_sep [of slash a s1 b s2] by auto
      then have "glob_match ts s \<longleftrightarrow> glob_match t1 s1 \<and> glob_match t2 s2" unfolding m by metis
      then show ?thesis using s t by (simp add: names_at_first IH)
    next
      case False
      then have "\<not> glob_match ts s" using m by auto
      moreover have "\<not> list_all2 glob_match (names_at (Rune slash) ts) [s]" using t by (simp add: names_at_first list_all2_Cons2)
      ultimately show ?thesis using False by (simp add: names_at_plain)
    qed
  qed
qed

lemma trim_slashes_right_id: "p \<noteq> [] \<Longrightarrow> last p \<noteq> CHR ''/'' \<Longrightarrow> trim_slashes_right p = p"
  by (cases p rule: rev_cases) (simp_all add: trim_slashes_right_def)

lemma exclude_pattern_of_fields:
  assumes "exclude_pattern_of to_lower raw = Inr ep"
  defines "p \<equiv> TrimSpace (slashed raw)"
  shows "ep_raw ep = raw" "ep_dirOnly ep \<longleftrightarrow> last p = CHR ''/''"
    "ep_glob ep = to_lower (trim_slashes_left (trim_slashes_right p))"
    "ep_anchored ep \<longleftrightarrow> CHR ''/'' \<in> set (trim_slashes_right p)"
proof -
  have ne: "p \<noteq> []" using assms by (auto simp: exclude_pattern_of_def Let_def)
  let ?q = "trim_slashes_right p"
  have q: "(if last p = CHR ''/'' then trim_slashes_right p else p) = ?q" using trim_slashes_right_id [OF ne] by simp
  have l: "(if ?q \<noteq> [] \<and> hd ?q = CHR ''/'' then trim_slashes_left ?q else ?q) = trim_slashes_left ?q"
    by (cases ?q) (auto simp: trim_slashes_left_def)
  have a: "?q \<noteq> [] \<and> hd ?q = CHR ''/'' \<or> CHR ''/'' \<in> set (trim_slashes_left ?q) \<longleftrightarrow> CHR ''/'' \<in> set ?q"
    by (cases ?q) (auto simp: trim_slashes_left_def dest: set_dropWhileD)
  show "ep_raw ep = raw" "ep_dirOnly ep \<longleftrightarrow> last p = CHR ''/''" "ep_glob ep = to_lower (trim_slashes_left ?q)"
    "ep_anchored ep \<longleftrightarrow> CHR ''/'' \<in> set ?q"
    using assms(1) ne unfolding exclude_pattern_of_def p_def [symmetric] Let_def q l a
    by (auto split: if_splits option.splits)
qed



end
