(* ===== verification/BackupRun.thy ===== *)
theory BackupRun
  imports EndToEnd Retention Facts Exclude
begin

text \<open>
  A backup run whose keys are known (\<open>workflow/backup/workflow.go\<close>, from \<open>operation.run\<close> on): one set after
  the other is written, the new sets are verified if the configuration says so, and only then are old
  sets removed. The backup directory is a map from file names to contents, \<open>rn_view\<close> is what the system
  shows of it. Log lines are left out; the facts of the log are kept.
\<close>

section \<open>The run and its surroundings\<close>

record backup_op =
  op_cfg :: config
  op_matcher :: "matcher option"
  op_dir :: string
  op_date :: string
  op_runID :: string
  op_keySet :: keyset
  op_master :: bytes

text \<open>The moments at which the run asks whether it was cancelled.\<close>

datatype moment = SourceFailed nat | Verified nat | BeforeCleanup

record run_env =
  rn_point :: point_env
  rn_set :: "nat \<Rightarrow> set_env"
  rn_view :: "file_dir \<Rightarrow> backup_dir"
  rn_base_name :: "string \<Rightarrow> string"
  rn_cancelled :: "moment \<Rightarrow> bool"
  rn_text :: "err \<Rightarrow> string"
  rn_parts_order :: "(backup_entry \<times> string list) list \<Rightarrow> (backup_entry \<times> string list) list"
  rn_chain_order :: "chain list \<Rightarrow> chain list"
  rn_not_exist :: "err \<Rightarrow> bool"
  rn_remove :: "string \<Rightarrow> remove_result"
  rn_seconds :: int

record run_state =
  ru_dir :: file_dir
  ru_warnings :: nat
  ru_written :: "backup_entry list"
  ru_hold :: "string list"
  ru_facts :: "fact list"
  ru_index :: nat

definition blank_fact :: "string \<Rightarrow> string \<Rightarrow> fact" where
  "blank_fact kind res = \<lparr>f_Kind = kind, f_Result = res, f_Set = [], f_Warnings = 0, f_Skipped = 0, f_Stale = 0, f_Bytes = 0,
     f_Removed = 0, f_Seconds = 0, f_Error = [], f_Time = 0\<rparr>"

definition add_run_fact :: "fact \<Rightarrow> run_state \<Rightarrow> run_state" where
  "add_run_fact f st = st\<lparr>ru_facts := ru_facts st @ [f]\<rparr>"

definition warn :: "run_state \<Rightarrow> run_state" where
  "warn st = st\<lparr>ru_warnings := Suc (ru_warnings st)\<rparr>"

definition backupFailed :: "run_env \<Rightarrow> moment \<Rightarrow> err \<Rightarrow> run_state \<Rightarrow> err \<times> run_state" where
  "backupFailed N m e st =
     (if \<not> rn_cancelled N m
      then (e, add_run_fact ((blank_fact FactBackup RunFailed)\<lparr>f_Error := rn_text N e, f_Seconds := rn_seconds N\<rparr>) st)
      else (Cancelled ''Backup cancelled.'', add_run_fact ((blank_fact FactBackup RunCancelled)\<lparr>f_Seconds := rn_seconds N\<rparr>) st))"

section \<open>The sets of the run\<close>

text \<open>\<open>catalog.OpenSet\<close> with the contents of the parts it opened.\<close>

definition open_dir_set :: "format_env \<Rightarrow> backup_dir \<Rightarrow> backup_entry \<Rightarrow> (open_set \<times> string list) result" where
  "open_dir_set E d e = bindE (CollectParts d e) (\<lambda>parts. bindE (openParts E d e parts) (\<lambda>st. Inr ((st, part_file d parts), parts)))"

definition loadBase :: "format_env \<Rightarrow> backup_dir \<Rightarrow> set_info \<Rightarrow> keyset \<Rightarrow> bytes \<Rightarrow> set_base result" where
  "loadBase E d info keySet master =
     (if map_option ks_ID (header_keys info) \<noteq> Some (ks_ID keySet) then Inl (Internal ''it uses different keys'')
      else bindE (open_dir_set E d (Entry info)) (\<lambda>(s, _).
        bindE (SetSectionKeys E (fst s) master) (\<lambda>keys.
        bindE (ReadManifest E (snd s) (fst s) keys) (\<lambda>(m, sum).
          Inr \<lparr>sb_Header = set_Header (fst s), sb_Manifest = m, sb_ManifestSHA256 = sum\<rparr>))))"

definition full_entry :: "backup_op \<Rightarrow> string \<Rightarrow> backup_entry" where
  "full_entry opn name = \<lparr>DirectoryName = name, ChainID = op_runID opn, Date = op_date opn, DiffNumber = 0\<rparr>"

definition diff_entry :: "backup_op \<Rightarrow> string \<Rightarrow> set_info \<Rightarrow> nat \<Rightarrow> backup_entry" where
  "diff_entry opn name base n = \<lparr>DirectoryName = name, ChainID = ChainID (Entry base), Date = op_date opn, DiffNumber = n\<rparr>"

text \<open>A full backup that cannot be used as base is a warning, and the folder gets a full backup.\<close>

definition choose_base :: "run_env \<Rightarrow> backup_op \<Rightarrow> string \<Rightarrow> folder option \<Rightarrow> run_state \<Rightarrow> backup_entry \<times> set_base option \<times> run_state" where
  "choose_base N opn name plan st =
     (case (case plan of None \<Rightarrow> None | Some f \<Rightarrow> map_option (\<lambda>b. (b, FolderDiff f)) (Base f)) of
        None \<Rightarrow> (full_entry opn name, None, st)
      | Some (b, n) \<Rightarrow> (case loadBase (pe_format (rn_point N)) (rn_view N (ru_dir st)) b (op_keySet opn) (op_master opn) of
          Inl _ \<Rightarrow> (full_entry opn name, None, warn st)
        | Inr base \<Rightarrow> (diff_entry opn name b n, Some base, st)))"

definition split_size_bytes :: "config \<Rightarrow> int" where
  "split_size_bytes cfg = mul64 (mul64 (SplitSizeMB cfg) 1024) 1024"

definition run_params :: "backup_op \<Rightarrow> string \<Rightarrow> backup_entry \<Rightarrow> set_base option \<Rightarrow> set_params" where
  "run_params opn srcDir entry base = \<lparr>sp_SourceDir = srcDir, sp_Patterns = Exclude (op_cfg opn), sp_OutputDir = op_dir opn, sp_Entry = entry,
     sp_Base = base, sp_RunID = op_runID opn, sp_KeySet = op_keySet opn, sp_Master = op_master opn,
     sp_SplitSize = split_size_bytes (op_cfg opn), sp_SyncParts = True\<rparr>"

definition partsSize :: "file_dir \<Rightarrow> string list \<Rightarrow> int" where
  "partsSize fd ps = sum_list (map (\<lambda>p. case fd p of None \<Rightarrow> 0 | Some c \<Rightarrow> int (length c)) ps)"

record set_stats =
  ss_Skipped :: nat
  ss_Stale :: nat
  ss_Bytes :: int

text \<open>The surroundings of one set, with what the configuration says of unreadable and excluded files.\<close>

definition source_env :: "run_env \<Rightarrow> backup_op \<Rightarrow> nat \<Rightarrow> set_env" where
  "source_env N opn i = (rn_set N i)\<lparr>se_build := (se_build (rn_set N i))\<lparr>bo_skip := SkipUnreadableFiles (op_cfg opn),
     bo_match := ExcludeMatch (fe_lower (pe_format (rn_point N))) (op_matcher opn)\<rparr>\<rparr>"

definition backupDirectory :: "run_env \<Rightarrow> backup_op \<Rightarrow> nat \<Rightarrow> string \<Rightarrow> backup_entry \<Rightarrow> set_base option \<Rightarrow> file_dir \<Rightarrow> set_stats result \<times> file_dir" where
  "backupDirectory N opn i srcDir entry base fd =
     (case WriteBackupSet (source_env N opn i) (run_params opn srcDir entry base) fd of
        (Inl e, fd) \<Rightarrow> (Inl e, fd)
      | (Inr r, fd) \<Rightarrow> (Inr \<lparr>ss_Skipped = st_Skipped (sr_Stats r), ss_Stale = st_Stale (sr_Stats r), ss_Bytes = partsSize fd (sr_Parts r)\<rparr>, fd))"

definition set_done :: "backup_entry \<Rightarrow> set_stats \<Rightarrow> run_state \<Rightarrow> run_state" where
  "set_done entry stats st =
     (let unread = ss_Skipped stats + ss_Stale stats > 0;
          st = (if unread then (warn st)\<lparr>ru_hold := ru_hold st @ [DirectoryName entry]\<rparr> else st);
          st = add_run_fact ((blank_fact FactSet (if unread then RunWarnings else RunOK))\<lparr>f_Set := EntryString entry,
             f_Skipped := int (ss_Skipped stats), f_Stale := int (ss_Stale stats), f_Bytes := ss_Bytes stats\<rparr>) st
      in st\<lparr>ru_written := ru_written st @ [entry]\<rparr>)"

definition back_up_source :: "run_env \<Rightarrow> backup_op \<Rightarrow> (string \<rightharpoonup> folder) \<Rightarrow> source_dir \<Rightarrow> run_state \<Rightarrow> err option \<times> run_state" where
  "back_up_source N opn plans src st =
     (let st = (if Warning src \<noteq> [] then warn st else st) in
      if Skip src then (None, st)
      else let name = folder_name (rn_base_name N) src;
               (entry, base, st) = choose_base N opn name (plans name) st;
               i = Suc (ru_index st)
           in case backupDirectory N opn i (Resolved src) entry base (ru_dir st) of
                (Inl e, fd) \<Rightarrow> (case backupFailed N (SourceFailed i) (Wrapped ''Backup of %q failed: %w'' e) (st\<lparr>ru_dir := fd, ru_index := i\<rparr>) of
                    (e, st) \<Rightarrow> (Some e, st))
              | (Inr stats, fd) \<Rightarrow> (None, set_done entry stats (st\<lparr>ru_dir := fd, ru_index := i\<rparr>)))"

fun back_up_all :: "run_env \<Rightarrow> backup_op \<Rightarrow> (string \<rightharpoonup> folder) \<Rightarrow> source_dir list \<Rightarrow> run_state \<Rightarrow> err option \<times> run_state" where
  "back_up_all N opn plans [] st = (None, st)"
| "back_up_all N opn plans (src # srcs) st = andThen (back_up_source N opn plans src st) (back_up_all N opn plans srcs)"

section \<open>Verifying what was written\<close>

definition set_verified :: "run_env \<Rightarrow> backup_op \<Rightarrow> open_set \<Rightarrow> manifest result" where
  "set_verified N opn s = fst (VerifyOwnData (rn_point N) s (op_master opn) \<lparr>dk_nodes = Map.empty, dk_calls = 0\<rparr>)"

definition verify_fact :: "run_env \<Rightarrow> backup_entry \<Rightarrow> err option \<Rightarrow> fact" where
  "verify_fact N entry e = (case e of
     None \<Rightarrow> (blank_fact FactVerify RunOK)\<lparr>f_Set := EntryString entry\<rparr>
   | Some e \<Rightarrow> (blank_fact FactVerify RunFailed)\<lparr>f_Set := EntryString entry, f_Error := rn_text N e\<rparr>)"

text \<open>The set at which cancelling stopped the loop, if any, and the number of failures. A set that cannot be opened is not asked about cancelling.\<close>

fun verify_loop :: "run_env \<Rightarrow> backup_op \<Rightarrow> nat \<Rightarrow> backup_entry list \<Rightarrow> nat \<Rightarrow> run_state \<Rightarrow> nat option \<times> nat \<times> run_state" where
  "verify_loop N opn i [] failures st = (None, failures, st)"
| "verify_loop N opn i (entry # entries) failures st =
     (case open_dir_set (pe_format (rn_point N)) (rn_view N (ru_dir st)) entry of
        Inl e \<Rightarrow> verify_loop N opn (Suc i) entries (Suc failures) (add_run_fact (verify_fact N entry (Some e)) st)
      | Inr (s, _) \<Rightarrow>
          if rn_cancelled N (Verified i) then (Some i, failures, st)
          else (case set_verified N opn s of
            Inl e \<Rightarrow> verify_loop N opn (Suc i) entries (Suc failures) (add_run_fact (verify_fact N entry (Some e)) st)
          | Inr _ \<Rightarrow> verify_loop N opn (Suc i) entries failures (add_run_fact (verify_fact N entry None) st)))"

section \<open>The run\<close>

definition dir_file :: "string \<Rightarrow> string \<Rightarrow> string" where
  "dir_file dir n = path_join dir n"

definition clean_up :: "run_env \<Rightarrow> backup_op \<Rightarrow> source_dir list \<Rightarrow> run_state \<Rightarrow> cleanup" where
  "clean_up N opn sources st = applyRetentionPolicy (pe_format (rn_point N)) (rn_parts_order N) (rn_chain_order N) (rn_not_exist N) (rn_remove N)
     (RetentionKeep (op_cfg opn)) (d_RetentionKeepDifferentials (Differential (op_cfg opn))) sources (\<lambda>n. n \<in> set (ru_hold st))
     (rn_view N (ru_dir st))"

definition cleanup_fact :: "string \<Rightarrow> cleanup_result \<times> nat \<times> int \<Rightarrow> fact" where
  "cleanup_fact msg x = (case x of (r, n, b) \<Rightarrow>
     (blank_fact FactCleanup (case r of ResultOK \<Rightarrow> RunOK | ResultWarnings \<Rightarrow> RunWarnings | ResultFailed \<Rightarrow> RunFailed))
       \<lparr>f_Removed := int n, f_Bytes := b, f_Error := msg\<rparr>)"

definition cleaned :: "run_env \<Rightarrow> backup_op \<Rightarrow> cleanup \<Rightarrow> run_state \<Rightarrow> run_state" where
  "cleaned N opn c st =
     (let st = st\<lparr>ru_dir := (\<lambda>f. if f \<in> dir_file (op_dir opn) ` set (cl_deleted c) then None else ru_dir st f)\<rparr>;
          st = (case cl_fact c of None \<Rightarrow> st | Some x \<Rightarrow> add_run_fact (cleanup_fact (case cl_err c of None \<Rightarrow> [] | Some e \<Rightarrow> rn_text N e) x) st)
      in if cl_err c = None then st else warn st)"

definition backup_done :: "run_env \<Rightarrow> run_state \<Rightarrow> run_state" where
  "backup_done N st = add_run_fact ((blank_fact FactBackup (if ru_warnings st > 0 then RunWarnings else RunOK))
     \<lparr>f_Warnings := int (ru_warnings st), f_Seconds := rn_seconds N\<rparr>) st"

definition run_failed :: "run_env \<Rightarrow> moment \<Rightarrow> run_state \<Rightarrow> err option \<times> run_state" where
  "run_failed N m st = (case backupFailed N m (Cancelled ''context canceled'') st of (e, st) \<Rightarrow> (Some e, st))"

definition run_start :: "file_dir \<Rightarrow> run_state" where
  "run_start fd = \<lparr>ru_dir = fd, ru_warnings = 0, ru_written = [], ru_hold = [], ru_facts = [], ru_index = 0\<rparr>"

text \<open>The second half of \<open>run\<close>: verify, ask once more about cancelling, clean up, report.\<close>

definition finish_run :: "run_env \<Rightarrow> backup_op \<Rightarrow> source_dir list \<Rightarrow> run_state \<Rightarrow> err option \<times> run_state" where
  "finish_run N opn sources st =
     (let verify = VerifyAfterBackup (op_cfg opn) \<and> ru_written st \<noteq> [] in
      case (if verify then verify_loop N opn 0 (ru_written st) 0 st else (None, 0, st)) of
        (Some i, _, st) \<Rightarrow> run_failed N (Verified i) st
      | (None, failures, st) \<Rightarrow>
          let st = (if failures > 0 then st\<lparr>ru_warnings := ru_warnings st + failures\<rparr> else st) in
          if rn_cancelled N BeforeCleanup then run_failed N BeforeCleanup st
          else let st = (if failures > 0 then st else cleaned N opn (clean_up N opn sources st) st)
               in (None, backup_done N st))"

definition run :: "run_env \<Rightarrow> backup_op \<Rightarrow> source_dir list \<Rightarrow> (string \<rightharpoonup> folder) \<Rightarrow> file_dir \<Rightarrow> err option \<times> run_state" where
  "run N opn sources plans fd = andThen (back_up_all N opn plans sources (run_start fd)) (finish_run N opn sources)"

section \<open>Files that stand\<close>

definition is_temp :: "string \<Rightarrow> bool" where
  "is_temp f \<longleftrightarrow> suffix TempSuffix f"

text \<open>A finished file: nothing but the cleanup may touch it.\<close>

definition keeps_files :: "file_dir \<Rightarrow> file_dir \<Rightarrow> bool" where
  "keeps_files fd fd' \<longleftrightarrow> (\<forall>f c. fd f = Some c \<longrightarrow> \<not> is_temp f \<longrightarrow> fd' f = Some c)"

lemma keeps_refl [simp]: "keeps_files fd fd"
  by (simp add: keeps_files_def)

lemma keeps_trans: "keeps_files fd fd' \<Longrightarrow> keeps_files fd' fd'' \<Longrightarrow> keeps_files fd fd''"
  by (auto simp: keeps_files_def)

lemma temp_of_is_temp [simp]: "is_temp (temp_of f)"
  by (simp add: is_temp_def temp_of_def suffix_def)

lemma keeps_with_temps: "keeps_files fd (with_temps p ps fd)"
proof -
  have "with_temps p ps fd f = fd f" if "\<not> is_temp f" for f
  proof -
    have "map_of (zip (map temp_of (final_names p (length ps))) ps) f = None"
      using that by (auto simp: map_of_eq_None_iff dest!: set_zip_leftD)
    then show ?thesis by (simp only: with_temps_def map_add_def option.case)
  qed
  then show ?thesis by (simp add: keeps_files_def)
qed

lemma keeps_remove: "keeps_files fd (remove_files rem (map temp_of fs) fd)"
  by (auto simp: keeps_files_def remove_files_def)

lemma keeps_finalize: "finalize_from ren i (map temp_of fs) fd = (r, fd') \<Longrightarrow> keeps_files fd fd'"
proof (induction fs arbitrary: i fd r)
  case (Cons f fs)
  show ?case
  proof (cases "fd f \<noteq> None \<or> ren i \<noteq> None")
    case True
    then have "fd' = fd" using Cons.prems(1) by (auto simp: Let_def split: option.splits if_splits)
    then show ?thesis by simp
  next
    case False
    then have "keeps_files (fd(f := fd (temp_of f), temp_of f := None)) fd'"
      using Cons.prems(1) Cons.IH by (auto simp: Let_def split: prod.splits sum.splits)
    moreover have "keeps_files fd (fd(f := fd (temp_of f), temp_of f := None))" using False by (auto simp: keeps_files_def)
    ultimately show ?thesis by (rule keeps_trans [rotated])
  qed
qed simp

lemma write_outcomes:
  assumes "WriteBackupSet env p fd = (r, fd')"
  obtains "fd' = fd"
  | ps where "fd' = remove_files (se_remove env) (map temp_of (final_names p (length ps))) (with_temps p ps fd)"
  | ps r' where "finalize_from (se_rename env) 0 (map temp_of (final_names p (length ps))) (with_temps p ps fd) = (r', fd')"
proof (cases "params_check p = None \<and> (\<exists>h. set_header env p = Inr h)")
  case False
  then have "fd' = fd" using assms by (auto simp: WriteBackupSet_def split: option.splits sum.splits)
  then show ?thesis by (rule that(1))
next
  case True
  then obtain h where h: "params_check p = None" "set_header env p = Inr h" by blast
  obtain te tb where t: "set_tar env p = (te, tb)" by fastforce
  define man where "man = (case te of Some e \<Rightarrow> ([], Some e)
    | None \<Rightarrow> (case EncodeManifest (fe_lower (se_format env)) (fe_lines (se_format env)) (tb_mb tb) of Inl e \<Rightarrow> ([], Some e) | Inr bs \<Rightarrow> (bs, None)))"
  obtain res s where w: "WriteSet (se_format env) (split_write (se_split env)) h (sp_Master p) (sp_SplitSize p) (se_tar env (tb_items tb), te) man
     (SetSyncOnClose (sp_SyncParts p) (NewWriter (sp_SplitSize p))) = (res, s)" by fastforce
  obtain ce s' where c: "WriterClose (se_split env) s = (ce, s')" by fastforce
  note run = assms [unfolded WriteBackupSet_def Let_def, simplified h t prod.case option.case sum.case, folded man_def, simplified w c prod.case,
    unfolded WriterPaths_temp, folded with_temps_def]
  let ?fd = "with_temps p (files s') fd" and ?names = "map temp_of (final_names p (length (files s')))"
  obtain x fx where x: "FinalizeParts (se_rename env) ?names ?fd = (x, fx)" by fastforce
  have "fd' = remove_files (se_remove env) ?names ?fd \<or> fd' = ?fd \<or> fd' = fx"
    using run by (auto simp: x split: option.splits sum.splits if_splits)
  moreover have "?fd = remove_files (\<lambda>_. False) ?names ?fd" by (simp add: remove_files_def)
  moreover have "res = Inl e \<Longrightarrow> fd' = remove_files (se_remove env) ?names ?fd" for e using run by (auto split: option.splits)
  ultimately show ?thesis
    using run that(2) [of "files s'"] that(3) [of "files s'"] x unfolding FinalizeParts_def
    by (auto simp: x FinalizeParts_def split: option.splits sum.splits if_splits)
qed

lemma keeps_write: "WriteBackupSet env p fd = (r, fd') \<Longrightarrow> keeps_files fd fd'"
  by (erule write_outcomes) (auto intro: keeps_trans keeps_with_temps keeps_remove dest!: keeps_finalize)

section \<open>Each source\<close>

lemma choose_base_state:
  "choose_base N opn name plan st = (entry, base, st') \<Longrightarrow>
     ru_dir st' = ru_dir st \<and> ru_written st' = ru_written st \<and> ru_hold st' = ru_hold st \<and> ru_facts st' = ru_facts st
     \<and> ru_warnings st \<le> ru_warnings st' \<and> ru_index st' = ru_index st"
  by (auto simp: choose_base_def warn_def split: option.splits sum.splits)

text \<open>The two ways a source goes through the loop.\<close>

lemma back_up_source_cases:
  assumes "back_up_source N opn plans src st = (e, st')"
  obtains (skipped) "Skip src" "e = None" "ru_dir st' = ru_dir st" "ru_written st' = ru_written st" "ru_facts st' = ru_facts st"
      "ru_warnings st' = ru_warnings st + (if Warning src \<noteq> [] then 1 else 0)" "ru_hold st' = ru_hold st"
  | (failed) entry base st1 err fd m where "\<not> Skip src" "e \<noteq> None" "backupDirectory N opn m (Resolved src) entry base (ru_dir st) = (Inl err, fd)"
      "ru_dir st' = fd" "ru_written st' = ru_written st"
  | (written) entry base stats fd m st1 where "\<not> Skip src" "e = None"
      "backupDirectory N opn m (Resolved src) entry base (ru_dir st) = (Inr stats, fd)" "st' = set_done entry stats st1" "ru_dir st1 = fd"
      "ru_written st1 = ru_written st" "ru_facts st1 = ru_facts st" "ru_hold st1 = ru_hold st"
      "ru_warnings st + (if Warning src \<noteq> [] then 1 else 0) \<le> ru_warnings st1"
proof (cases "Skip src")
  case True
  then show ?thesis using assms skipped by (auto simp: back_up_source_def Let_def warn_def split: if_splits)
next
  case False
  define st0 where "st0 = (if Warning src \<noteq> [] then warn st else st)"
  define name where "name = folder_name (rn_base_name N) src"
  obtain entry base st1 where c: "choose_base N opn name (plans name) st0 = (entry, base, st1)" by (metis prod_cases3)
  obtain x fd where b: "backupDirectory N opn (Suc (ru_index st1)) (Resolved src) entry base (ru_dir st1) = (x, fd)" by fastforce
  note st1 = choose_base_state [OF c]
  have st0: "ru_dir st0 = ru_dir st" "ru_written st0 = ru_written st" "ru_hold st0 = ru_hold st" "ru_facts st0 = ru_facts st"
    "ru_warnings st0 = ru_warnings st + (if Warning src \<noteq> [] then 1 else 0)"
    by (simp_all add: st0_def warn_def)
  note run = assms [unfolded back_up_source_def Let_def, folded st0_def name_def, simplified False c b if_False prod.case]
  show ?thesis
  proof (cases x)
    case (Inl err)
    then show ?thesis using run failed [OF False] b st1 st0
      by (auto simp: backupFailed_def add_run_fact_def split: if_splits prod.splits)
  next
    case (Inr stats)
    then show ?thesis using run written [OF False, of _ entry base stats fd "st1\<lparr>ru_dir := fd, ru_index := Suc (ru_index st1)\<rparr>"] b st1 st0 by auto
  qed
qed

lemma set_done_fields [simp]: "ru_dir (set_done entry stats st) = ru_dir st" "ru_written (set_done entry stats st) = ru_written st @ [entry]"
  by (simp_all add: set_done_def Let_def warn_def add_run_fact_def)

lemma keeps_backupDirectory: "backupDirectory N opn i src entry base fd = (x, fd') \<Longrightarrow> keeps_files fd fd'"
  by (auto simp: backupDirectory_def split: prod.splits sum.splits dest: keeps_write)

lemma keeps_source: "back_up_source N opn plans src st = (e, st') \<Longrightarrow> keeps_files (ru_dir st) (ru_dir st')"
  by (erule back_up_source_cases) (auto dest: keeps_backupDirectory)

lemma keeps_all: "back_up_all N opn plans srcs st = (e, st') \<Longrightarrow> keeps_files (ru_dir st) (ru_dir st')"
proof (induction srcs arbitrary: st)
  case (Cons src srcs)
  obtain e1 st1 where s: "back_up_source N opn plans src st = (e1, st1)" by fastforce
  show ?case using Cons keeps_source [OF s] by (cases e1) (auto simp: s intro: keeps_trans)
qed simp

section \<open>What verifying keeps\<close>

lemma verify_loop_state:
  "verify_loop N opn i es k st = (m, n, st') \<Longrightarrow> ru_dir st' = ru_dir st \<and> ru_written st' = ru_written st \<and> ru_hold st' = ru_hold st
     \<and> ru_warnings st' = ru_warnings st \<and> k \<le> n"
proof (induction es arbitrary: i k st)
  case (Cons e es)
  let ?on = "open_dir_set (pe_format (rn_point N)) (rn_view N (ru_dir st)) e"
  have keep: "ru_dir (add_run_fact f st) = ru_dir st" "ru_written (add_run_fact f st) = ru_written st"
    "ru_hold (add_run_fact f st) = ru_hold st" "ru_warnings (add_run_fact f st) = ru_warnings st" for f
    by (simp_all add: add_run_fact_def)
  consider a where "verify_loop N opn (Suc i) es (Suc k) (add_run_fact (verify_fact N e (Some a)) st) = (m, n, st')"
    | "verify_loop N opn (Suc i) es k (add_run_fact (verify_fact N e None) st) = (m, n, st')" | "k = n \<and> st' = st"
    using Cons.prems by (auto split: sum.splits if_splits prod.splits)
  then show ?case using Cons.IH keep by cases fastforce+
qed simp

definition stands :: "run_env \<Rightarrow> backup_op \<Rightarrow> file_dir \<Rightarrow> backup_entry \<Rightarrow> bool" where
  "stands N opn fd entry \<longleftrightarrow> (case open_dir_set (pe_format (rn_point N)) (rn_view N fd) entry of Inl _ \<Rightarrow> False
     | Inr (s, _) \<Rightarrow> (case set_verified N opn s of Inl _ \<Rightarrow> False | Inr _ \<Rightarrow> True))"

text \<open>No failure counted: every set was opened and verified, and its fact says so.\<close>

lemma verify_loop_ok:
  "verify_loop N opn i es k st = (None, k, st') \<Longrightarrow>
     (\<forall>e \<in> set es. stands N opn (ru_dir st) e) \<and> ru_facts st' = ru_facts st @ map (\<lambda>e. verify_fact N e None) es"
proof (induction es arbitrary: i st)
  case (Cons e es)
  show ?case
  proof (cases "stands N opn (ru_dir st) e")
    case True
    then have "verify_loop N opn (Suc i) es k (add_run_fact (verify_fact N e None) st) = (None, k, st')"
      using Cons.prems by (auto simp: stands_def split: sum.splits if_splits prod.splits)
    from Cons.IH [OF this] True show ?thesis by (simp add: add_run_fact_def)
  next
    case False
    then obtain a where "verify_loop N opn (Suc i) es (Suc k) (add_run_fact (verify_fact N e (Some a)) st) = (None, k, st')"
      using Cons.prems by (auto simp: stands_def split: sum.splits if_splits prod.splits)
    from verify_loop_state [OF this] show ?thesis by simp
  qed
qed simp

definition verify_step :: "run_env \<Rightarrow> backup_op \<Rightarrow> run_state \<Rightarrow> nat option \<times> nat \<times> run_state" where
  "verify_step N opn st = (if VerifyAfterBackup (op_cfg opn) \<and> ru_written st \<noteq> [] then verify_loop N opn 0 (ru_written st) 0 st else (None, 0, st))"

lemma verify_step_state:
  "verify_step N opn st = (m, n, st') \<Longrightarrow> ru_dir st' = ru_dir st \<and> ru_written st' = ru_written st \<and> ru_hold st' = ru_hold st
     \<and> ru_warnings st' = ru_warnings st"
  by (auto simp: verify_step_def split: if_splits dest: verify_loop_state)

lemma verify_step_ok:
  "verify_step N opn st = (None, 0, st') \<Longrightarrow> VerifyAfterBackup (op_cfg opn) \<Longrightarrow> \<forall>e \<in> set (ru_written st). stands N opn (ru_dir st) e"
  by (auto simp: verify_step_def split: if_splits dest: verify_loop_ok)

lemma run_failed_state: "run_failed N m st = (e, st') \<Longrightarrow> e \<noteq> None \<and> ru_dir st' = ru_dir st"
  by (auto simp: run_failed_def backupFailed_def add_run_fact_def split: if_splits)

text \<open>How a run ends after its sets were written.\<close>

lemma finish_run_cases:
  assumes "finish_run N opn srcs st = (e, st')"
  obtains (failed) "e \<noteq> None" "ru_dir st' = ru_dir st"
  | (kept) n st1 where "verify_step N opn st = (None, n, st1)" "n > 0" "e = None" "st' = backup_done N (st1\<lparr>ru_warnings := ru_warnings st1 + n\<rparr>)"
      "\<not> rn_cancelled N BeforeCleanup"
  | (cleaned) st1 where "verify_step N opn st = (None, 0, st1)" "e = None" "st' = backup_done N (cleaned N opn (clean_up N opn srcs st1) st1)"
      "\<not> rn_cancelled N BeforeCleanup"
proof -
  obtain m n st1 where v: "verify_step N opn st = (m, n, st1)" by (metis prod_cases3)
  note run = assms [unfolded finish_run_def Let_def, folded verify_step_def, simplified v prod.case]
  show ?thesis
  proof (cases m)
    case (Some i)
    then show ?thesis using run run_failed_state verify_step_state [OF v] failed by fastforce
  next
    case None
    show ?thesis
    proof (cases "rn_cancelled N BeforeCleanup")
      case True
      then have "run_failed N BeforeCleanup (if n > 0 then st1\<lparr>ru_warnings := ru_warnings st1 + n\<rparr> else st1) = (e, st')"
        using run None by simp
      from run_failed_state [OF this] verify_step_state [OF v] show ?thesis using failed by (auto split: if_splits)
    next
      case False
      then show ?thesis using run None v kept [of n st1] cleaned [of st1] by (auto split: if_splits)
    qed
  qed
qed


section \<open>What the result says\<close>

lemmas run_names = FactBackup_def FactVerify_def FactSet_def FactCleanup_def RunOK_def RunWarnings_def RunFailed_def RunCancelled_def

definition set_facts :: "run_state \<Rightarrow> fact list" where
  "set_facts st = filter (\<lambda>f. f_Kind f = FactSet) (ru_facts st)"

text \<open>Every set written has its fact, and a run without warnings skipped nothing.\<close>

definition reported :: "run_state \<Rightarrow> bool" where
  "reported st \<longleftrightarrow> map f_Set (set_facts st) = map EntryString (ru_written st)
     \<and> (ru_warnings st = 0 \<longrightarrow> (\<forall>f \<in> set (set_facts st). f_Result f = RunOK \<and> f_Skipped f = 0 \<and> f_Stale f = 0))"

lemma set_facts_add [simp]:
  "set_facts (add_run_fact f st) = set_facts st @ (if f_Kind f = FactSet then [f] else [])"
  by (simp add: set_facts_def add_run_fact_def)

lemma kinds [simp]: "f_Kind (blank_fact k r) = k" "f_Result (blank_fact k r) = r" "f_Kind (verify_fact N e x) = FactVerify"
  by (auto simp: blank_fact_def verify_fact_def split: option.splits)

lemma reported_done:
  assumes "reported st" "ru_facts st1 = ru_facts st" "ru_written st1 = ru_written st" "ru_warnings st \<le> ru_warnings st1"
  shows "reported (set_done entry stats st1)" "ru_warnings st1 \<le> ru_warnings (set_done entry stats st1)"
proof -
  have f: "set_facts st1 = set_facts st" using assms(2) by (simp add: set_facts_def)
  show "ru_warnings st1 \<le> ru_warnings (set_done entry stats st1)"
    by (simp add: set_done_def Let_def warn_def add_run_fact_def)
  show "reported (set_done entry stats st1)"
  proof (cases "ss_Skipped stats + ss_Stale stats > 0")
    case True
    then show ?thesis using assms(1,3) f
      by (auto simp: set_done_def Let_def reported_def warn_def add_run_fact_def set_facts_def)
  next
    case False
    then show ?thesis using assms f
      by (auto simp: set_done_def Let_def reported_def add_run_fact_def set_facts_def)
  qed
qed

lemma reported_source:
  assumes "back_up_source N opn plans src st = (None, st')" "reported st"
  shows "reported st' \<and> ru_warnings st + (if Warning src \<noteq> [] then 1 else 0) \<le> ru_warnings st'
    \<and> length (ru_written st') = length (ru_written st) + (if Skip src then 0 else 1)"
  using assms(1)
proof (cases rule: back_up_source_cases)
  case skipped
  then show ?thesis using assms(2) by (auto simp: reported_def set_facts_def)
next
  case (written entry base stats fd m st1)
  then have le: "ru_warnings st \<le> ru_warnings st1" by simp
  note d = reported_done [OF assms(2) written(7,6) le, of entry stats]
  show ?thesis unfolding written(4) using d(1) order_trans [OF written(9) d(2)] written(1,6) by simp
qed simp

lemma reported_all:
  assumes "back_up_all N opn plans srcs st = (None, st')" "reported st"
  shows "reported st' \<and> ru_warnings st \<le> ru_warnings st' \<and> (ru_warnings st' = 0 \<longrightarrow> (\<forall>s \<in> set srcs. Warning s = []))
    \<and> length (ru_written st') = length (ru_written st) + length (filter (\<lambda>s. \<not> Skip s) srcs)"
  using assms
proof (induction srcs arbitrary: st)
  case (Cons src srcs)
  obtain e1 st1 where s: "back_up_source N opn plans src st = (e1, st1)" by fastforce
  then have e1: "e1 = None" and r: "back_up_all N opn plans srcs st1 = (None, st')"
    using Cons.prems(1) by (cases e1, auto)+
  from reported_source [OF s [unfolded e1] Cons.prems(2)] Cons.IH [OF r] show ?case by (auto split: if_splits)
qed simp

lemma verify_set_facts: "verify_loop N opn i es k st = (m, n, st') \<Longrightarrow> set_facts st' = set_facts st"
proof (induction es arbitrary: i k st)
  case (Cons e es)
  have v: "set_facts (add_run_fact (verify_fact N e x) st) = set_facts st" for x by (simp add: run_names)
  consider a where "verify_loop N opn (Suc i) es (Suc k) (add_run_fact (verify_fact N e (Some a)) st) = (m, n, st')"
    | "verify_loop N opn (Suc i) es k (add_run_fact (verify_fact N e None) st) = (m, n, st')" | "st' = st"
    using Cons.prems by (auto split: sum.splits if_splits prod.splits)
  then show ?case using Cons.IH v by cases fastforce+
qed simp

lemma backup_done_fields: "last (ru_facts (backup_done N st)) = (blank_fact FactBackup (if ru_warnings st > 0 then RunWarnings else RunOK))
     \<lparr>f_Warnings := int (ru_warnings st), f_Seconds := rn_seconds N\<rparr>"
  "ru_written (backup_done N st) = ru_written st" "set_facts (backup_done N st) = set_facts st" "ru_dir (backup_done N st) = ru_dir st"
  by (simp_all add: backup_done_def) (simp_all add: add_run_fact_def run_names set_facts_def)

lemma cleaned_fields: "ru_written (cleaned N opn c st) = ru_written st" "set_facts (cleaned N opn c st) = set_facts st"
  "ru_warnings st \<le> ru_warnings (cleaned N opn c st)" "ru_dir (cleaned N opn c st) f = ru_dir st f \<or> ru_dir (cleaned N opn c st) f = None"
  by (auto simp: cleaned_def Let_def add_run_fact_def warn_def set_facts_def cleanup_fact_def blank_fact_def run_names split: option.splits prod.splits)

text \<open>C12. A run reported as ok is whole: when the last fact of a run that succeeded has the result ok,
  every source directory was usable and has its set, the facts of the log list exactly these sets, no set
  misses a file or keeps an outdated version of one, and, if the configuration asks for it, every set was
  reopened and verified; the directory then differs from the final one only by what the cleanup removed.\<close>

theorem ok_run_is_whole:
  assumes "run N opn srcs plans fd = (None, st)" "f_Result (last (ru_facts st)) = RunOK"
  shows "length (ru_written st) = length (filter (\<lambda>s. \<not> Skip s) srcs) \<and> (\<forall>s \<in> set srcs. Warning s = [])
    \<and> map f_Set (set_facts st) = map EntryString (ru_written st)
    \<and> (\<forall>f \<in> set (set_facts st). f_Result f = RunOK \<and> f_Skipped f = 0 \<and> f_Stale f = 0)
    \<and> (\<exists>fd'. (VerifyAfterBackup (op_cfg opn) \<longrightarrow> (\<forall>entry \<in> set (ru_written st). stands N opn fd' entry))
        \<and> (\<forall>f. ru_dir st f = fd' f \<or> ru_dir st f = None))"
proof -
  obtain st0 where a: "back_up_all N opn plans srcs (run_start fd) = (None, st0)" "finish_run N opn srcs st0 = (None, st)"
    using assms(1) by (auto simp: run_def andThen_None)
  have "reported (run_start fd)" by (simp add: reported_def run_start_def set_facts_def)
  note r = reported_all [OF a(1) this]
  have facts: "set_facts st1 = set_facts st0" if "verify_step N opn st0 = (m, n, st1)" for m n st1
    using that by (auto simp: verify_step_def split: if_splits dest: verify_set_facts)
  from a(2) show ?thesis
  proof (cases rule: finish_run_cases)
    case (kept n st1)
    then show ?thesis using assms(2) by (simp add: backup_done_fields run_names)
  next
    case (cleaned st1)
    let ?st2 = "BackupRun.cleaned N opn (clean_up N opn srcs st1) st1"
    note v = verify_step_state [OF cleaned(1)]
    have "ru_warnings ?st2 = 0" using assms(2) unfolding cleaned(3) by (auto simp: backup_done_fields run_names split: if_splits)
    then have "ru_warnings st0 = 0" using cleaned_fields(3) [of st1 N opn "clean_up N opn srcs st1"] v by simp
    then have w: "reported st0" "\<forall>s \<in> set srcs. Warning s = []" "length (ru_written st0) = length (filter (\<lambda>s. \<not> Skip s) srcs)"
      "\<forall>f \<in> set (set_facts st0). f_Result f = RunOK \<and> f_Skipped f = 0 \<and> f_Stale f = 0"
      using r by (auto simp: reported_def run_start_def)
    have e: "ru_written st = ru_written st0" "set_facts st = set_facts st0"
      unfolding cleaned(3) using v facts [OF cleaned(1)] by (simp_all add: backup_done_fields cleaned_fields)
    have "\<forall>f. ru_dir st f = ru_dir st1 f \<or> ru_dir st f = None"
      unfolding cleaned(3) backup_done_fields using cleaned_fields(4) by metis
    note e = e this
    show ?thesis using w e v verify_step_ok [OF cleaned(1)] by (auto simp: reported_def)
  qed simp
qed

section \<open>An example\<close>

text \<open>One folder is backed up to a directory that holds the log of a run whose backups are gone; the cleanup removes it.\<close>

definition demo_op :: backup_op where
  "demo_op = \<lparr>op_cfg = demo_plan_config\<lparr>RetentionKeep := 1\<rparr>, op_matcher = None, op_dir = ''D:'', op_date = ''2025-01-02'', op_runID = ''ABC123'',
     op_keySet = demo_keyset\<lparr>ks_Slots := [demo_slot]\<rparr>, op_master = replicate 32 6\<rparr>"

definition demo_run :: run_env where
  "demo_run = \<lparr>rn_point = pair_point\<lparr>pe_format := demo_clock\<rparr>, rn_set = \<lambda>_. demo_set_env, rn_view = \<lambda>_. demo_log_dir, rn_base_name = \<lambda>s. s,
     rn_cancelled = \<lambda>_. False, rn_text = \<lambda>_. [], rn_parts_order = \<lambda>xs. xs, rn_chain_order = \<lambda>xs. xs, rn_not_exist = \<lambda>_. False,
     rn_remove = \<lambda>_. Removed, rn_seconds = 1\<rparr>"

abbreviation old_log :: string where
  "old_log \<equiv> ''D:'' @ CHR 0x5C # ''2025-01-02_ABC123.log''"

abbreviation demo_disk0 :: file_dir where
  "demo_disk0 \<equiv> [old_log \<mapsto> [1]]"

definition demo_run_params :: set_params where
  "demo_run_params = demo_set_params\<lparr>sp_RunID := ''ABC123'', sp_SplitSize := 104857600\<rparr>"

lemma demo_run_params: "run_params demo_op ''C:/Docs'' (full_entry demo_op ''Docs'') None = demo_run_params"
proof -
  have "mul64 (mul64 100 1024) 1024 = 104857600" by (simp add: mul64_def int64_uint64)
  then show ?thesis by (simp add: run_params_def demo_op_def full_entry_def demo_run_params_def demo_set_params_def split_size_bytes_def demo_plan_config_def)
qed

lemma demo_source_env: "source_env demo_run demo_op i = demo_set_env"
proof -
  have m: "ExcludeMatch l None = (\<lambda>_ _. False)" for l by (simp add: ExcludeMatch_def matcher_empty_def fun_eq_iff)
  have "SkipUnreadableFiles (op_cfg demo_op) = False" by (simp add: demo_op_def demo_plan_config_def SkipUnreadableFiles_def OnUnreadableFail_def OnUnreadableSkip_def)
  moreover have "op_matcher demo_op = None" "rn_set demo_run i = demo_set_env" by (simp_all add: demo_op_def demo_run_def)
  ultimately show ?thesis by (simp add: source_env_def m) (simp add: demo_set_env_def demo_set_opts_def demo_build_opts_def)
qed

lemma write_stats:
  assumes "WriteBackupSet env p fd = (Inr r, fd')" "set_tar env p = (te, tb)"
  shows "sr_Stats r = tb_stats tb"
proof -
  obtain h where h: "params_check p = None" "set_header env p = Inr h"
    using assms(1) by (auto simp: WriteBackupSet_def split: option.splits sum.splits)
  define man where "man = (case te of Some e \<Rightarrow> ([], Some e)
    | None \<Rightarrow> (case EncodeManifest (fe_lower (se_format env)) (fe_lines (se_format env)) (tb_mb tb) of Inl e \<Rightarrow> ([], Some e) | Inr bs \<Rightarrow> (bs, None)))"
  obtain res s where w: "WriteSet (se_format env) (split_write (se_split env)) h (sp_Master p) (sp_SplitSize p) (se_tar env (tb_items tb), te) man
     (SetSyncOnClose (sp_SyncParts p) (NewWriter (sp_SplitSize p))) = (res, s)" by fastforce
  obtain ce s' where c: "WriterClose (se_split env) s = (ce, s')" by fastforce
  note run = assms(1) [unfolded WriteBackupSet_def Let_def, simplified h assms(2) prod.case option.case sum.case, folded man_def, simplified w c prod.case]
  show ?thesis using run by (auto split: option.splits sum.splits if_splits prod.splits)
qed

lemma demo_run_tar: "set_tar demo_set_env demo_run_params = set_tar demo_set_env demo_set_params"
  by (simp add: set_tar_def set_builder_def set_type_def demo_run_params_def)

lemma demo_run_header: "params_check demo_run_params = None" "set_header demo_set_env demo_run_params = Inr (demo_header\<lparr>h_RunID := ''ABC123''\<rparr>)"
  "EncodeHeader demo_format (demo_header\<lparr>h_RunID := ''ABC123''\<rparr>) = Inr (magicPrefix @ [FormatVersion, 0] @ be_bytes 4 1 @ [1])"
proof -
  show "params_check demo_run_params = None" "set_header demo_set_env demo_run_params = Inr (demo_header\<lparr>h_RunID := ''ABC123''\<rparr>)"
    by (simp_all add: params_check_def demo_set_params_def demo_run_params_def set_header_def set_type_def NewHeader_def demo_set_env_def demo_header_def)
  have "ValidateHeader C (\<lambda>_. Some 0) (demo_header\<lparr>h_RunID := ''ABC123''\<rparr>) = Inr ()" for C
  proof -
    have "idPattern ''ABC123''" "datePattern ''2025-01-02''" "ValidateBackupEntryName ''Docs'' = Inr ()" by code_simp+
    then show ?thesis by (simp add: ValidateHeader_def demo_header_def setNonceLen_def demo_keyset_valid)
  qed
  then show "EncodeHeader demo_format (demo_header\<lparr>h_RunID := ''ABC123''\<rparr>) = Inr (magicPrefix @ [FormatVersion, 0] @ be_bytes 4 1 @ [1])"
    by (simp add: EncodeHeader_def demo_format_def maxHeaderJSON_def)
qed

lemma demo_run_written:
  "\<exists>r fd'. WriteBackupSet demo_set_env demo_run_params demo_disk0 = (Inr r, fd') \<and> st_Skipped (sr_Stats r) = 0 \<and> st_Stale (sr_Stats r) = 0"
proof -
  obtain tb where tb: "set_tar demo_set_env demo_run_params = (None, tb)" "tb_mb tb = demo_builder"
      "st_Skipped (tb_stats tb) = 0" "st_Stale (tb_stats tb) = 0"
    using demo_set_tar by (auto simp: demo_run_tar)
  have enc: "EncodeManifest (fe_lower (se_format demo_set_env)) (fe_lines (se_format demo_set_env)) (tb_mb tb) = Inr demo_manifest_bytes"
    using demo_valid by (simp add: tb(2) demo_write_simps EncodeManifest_def demo_format_def demo_manifest_bytes_def Let_def)
  have p: "crypto_ok (fe_C (se_format demo_set_env))" "0 < sp_SplitSize demo_run_params" "length (sp_Master demo_run_params) = KeyLen"
    using demo_format_ok(1) by (simp_all add: demo_write_simps demo_run_params_def KeyLen_def)
  have fresh: "demo_disk0 (final_name demo_run_params i) = None" for i
    using final_last [of demo_run_params i] by auto
  have sys: "se_split demo_set_env = no_faults" "se_rename demo_set_env = (\<lambda>_. None)" by (simp_all add: demo_write_simps)
  have h: "EncodeHeader (se_format demo_set_env) (demo_header\<lparr>h_RunID := ''ABC123''\<rparr>) = Inr (magicPrefix @ [FormatVersion, 0] @ be_bytes 4 1 @ [1])"
    using demo_run_header(3) by (simp add: demo_write_simps)
  from set_writes [OF demo_run_header(1,2) h tb(1) enc p, where fd = demo_disk0, OF fresh sys]
  obtain r fd' where "WriteBackupSet demo_set_env demo_run_params demo_disk0 = (Inr r, fd')" by blast
  moreover from write_stats [OF this tb(1)] have "st_Skipped (sr_Stats r) = 0" "st_Stale (sr_Stats r) = 0"
    using tb(3,4) by simp_all
  ultimately show ?thesis by blast
qed

lemma demo_run_result:
  "\<exists>st. run demo_run demo_op [demo_source] Map.empty demo_disk0 = (None, st) \<and> f_Result (last (ru_facts st)) = RunOK
     \<and> ru_dir st old_log = None \<and> ru_written st = [full_entry demo_op ''Docs'']"
proof -
  obtain r fd' where w: "WriteBackupSet demo_set_env demo_run_params demo_disk0 = (Inr r, fd')" "st_Skipped (sr_Stats r) = 0" "st_Stale (sr_Stats r) = 0"
    using demo_run_written by blast
  define stats where "stats = \<lparr>ss_Skipped = 0, ss_Stale = 0, ss_Bytes = partsSize fd' (sr_Parts r)\<rparr>"
  define st1 where "st1 = set_done (full_entry demo_op ''Docs'') stats ((run_start demo_disk0)\<lparr>ru_dir := fd', ru_index := 1\<rparr>)"
  have b: "backupDirectory demo_run demo_op 1 ''C:/Docs'' (full_entry demo_op ''Docs'') None demo_disk0 = (Inr stats, fd')"
    using w by (simp add: backupDirectory_def demo_run_params demo_source_env stats_def)
  have src: "Warning demo_source = []" "\<not> Skip demo_source" "folder_name n demo_source = ''Docs''" "Resolved demo_source = ''C:/Docs''" for n
    by (simp_all add: demo_source_def folder_name_def)
  have st0: "ru_dir (run_start fd) = fd" "ru_index (run_start fd) = 0" for fd by (simp_all add: run_start_def)
  have "back_up_source demo_run demo_op Map.empty demo_source (run_start demo_disk0) = (None, st1)"
    using b by (simp add: back_up_source_def src choose_base_def st0 st1_def)
  then have all: "back_up_all demo_run demo_op Map.empty [demo_source] (run_start demo_disk0) = (None, st1)" by simp
  have s1: "ru_warnings st1 = 0" "ru_hold st1 = []" "ru_dir st1 = fd'" "ru_written st1 = [full_entry demo_op ''Docs'']"
    by (simp_all add: st1_def set_done_def stats_def run_start_def add_run_fact_def)
  have c: "clean_up demo_run demo_op [demo_source] st1 =
      applyRetentionPolicy demo_clock (\<lambda>xs. xs) (\<lambda>xs. xs) (\<lambda>_. False) (\<lambda>_. Removed) 1 0 [demo_source] (\<lambda>_. False) demo_log_dir"
    by (simp add: clean_up_def demo_run_def demo_op_def s1 demo_plan_config_def)
  have v: "VerifyAfterBackup (op_cfg demo_op) = False" "rn_cancelled demo_run BeforeCleanup = False" and d: "dir_file (op_dir demo_op) ''2025-01-02_ABC123.log'' = old_log"
    by (simp_all add: demo_op_def demo_plan_config_def demo_run_def dir_file_def path_join_def)
  let ?st2 = "cleaned demo_run demo_op (clean_up demo_run demo_op [demo_source] st1) st1"
  have r: "run demo_run demo_op [demo_source] Map.empty demo_disk0 = (None, backup_done demo_run ?st2)"
    unfolding run_def all by (simp add: finish_run_def v)
  have "ru_warnings ?st2 = 0" "ru_dir ?st2 old_log = None"
    using d by (simp_all add: cleaned_def c demo_cleanup s1 add_run_fact_def)
  then show ?thesis unfolding r by (simp add: backup_done_fields cleaned_fields s1)
qed


lemma ok_run_is_whole_witness:
  "\<exists>st. run demo_run demo_op [demo_source] Map.empty demo_disk0 = (None, st) \<and> length (ru_written st) = 1 \<and> (\<forall>f \<in> set (set_facts st). f_Skipped f = 0)"
proof -
  obtain st where st: "run demo_run demo_op [demo_source] Map.empty demo_disk0 = (None, st)" "f_Result (last (ru_facts st)) = RunOK"
    using demo_run_result by blast
  from ok_run_is_whole [OF st] st(1) show ?thesis by (auto simp: demo_source_def)
qed

end
