(* ===== verification/Sources.thy ===== *)
theory Sources
  imports Plan Exclude SetWriter
begin

text \<open>
  The configured source directories (\<open>workflow/plan/sources.go\<close>, \<open>fsx/path.go\<close>): resolving, checking,
  duplicates and the names the backups get. The path functions of the system (\<open>filepath\<close>) and what it
  answers about a directory are the fields of a record.
\<close>

section \<open>Paths\<close>

record path_env =
  pa_abs :: "string \<Rightarrow> bool"
  pa_join :: "string \<Rightarrow> string \<Rightarrow> string"
  pa_clean :: "string \<Rightarrow> string"
  pa_volume :: "string \<Rightarrow> string"
  pa_base :: "string \<Rightarrow> string"
  pa_lower :: "string \<Rightarrow> string"
  pa_stat :: "string \<Rightarrow> bool result"
  pa_readdir :: "string \<Rightarrow> err option"

definition ResolveDir :: "path_env \<Rightarrow> string \<Rightarrow> string \<Rightarrow> string" where
  "ResolveDir P path base = (if pa_abs P path then path else pa_join P base path)"

definition backslashed :: "string \<Rightarrow> string" where
  "backslashed s = map (\<lambda>c. if c = CHR ''/'' then CHR 0x5C else c) s"

definition NormalizePathKey :: "path_env \<Rightarrow> string \<Rightarrow> string" where
  "NormalizePathKey P path = pa_lower P (backslashed (pa_clean P path))"

definition ValidateSourceDirectory :: "path_env \<Rightarrow> string \<Rightarrow> err option" where
  "ValidateSourceDirectory P resolved = (case pa_stat P resolved of
       Inl e \<Rightarrow> Some (Wrapped ''Not found or inaccessible: %w.'' e)
     | Inr isDir \<Rightarrow> if \<not> isDir then Some (Problem ''Path is not a directory.'')
         else map_option (Wrapped ''Directory not readable: %w.'') (pa_readdir P resolved))"

section \<open>Aliases\<close>

definition encode_rune :: "nat \<Rightarrow> nat list" where
  "encode_rune r =
     (if r < 0x80 then [r]
      else if r < 0x800 then [0xC0 + r div 64, 0x80 + r mod 64]
      else if r < 0x10000 then [0xE0 + r div 4096, 0x80 + r div 64 mod 64, 0x80 + r mod 64]
      else [0xF0 + r div 262144, 0x80 + r div 4096 mod 64, 0x80 + r div 64 mod 64, 0x80 + r mod 64])"

definition hex_digit :: "nat \<Rightarrow> char" where
  "hex_digit d = ''0123456789ABCDEF'' ! d"

definition plain_rune :: "nat \<Rightarrow> bool" where
  "plain_rune r \<longleftrightarrow> 0x61 \<le> r \<and> r \<le> 0x7A \<or> 0x41 \<le> r \<and> r \<le> 0x5A \<or> 0x30 \<le> r \<and> r \<le> 0x39"

definition alias_rune :: "nat \<Rightarrow> string" where
  "alias_rune r = (if plain_rune r then [char_of r]
     else concat (map (\<lambda>b. [CHR ''~'', hex_digit (b div 16), hex_digit (b mod 16), CHR ''~'']) (encode_rune r)))"

definition sanitizeAliasPart :: "string \<Rightarrow> string" where
  "sanitizeAliasPart part = (let trimmed = TrimSpace part in if trimmed = [] then [] else concat (map alias_rune (runes trimmed)))"

definition is_sep :: "char \<Rightarrow> bool" where
  "is_sep c \<longleftrightarrow> c = CHR 0x5C \<or> c = CHR ''/''"

text \<open>\<open>strings.FieldsFunc\<close>: the non-empty runs between separators.\<close>

definition path_fields :: "string \<Rightarrow> string list" where
  "path_fields s = filter (\<lambda>f. f \<noteq> []) (split_char (CHR 0x5C) (backslashed s))"

definition pathHintParts :: "path_env \<Rightarrow> string \<Rightarrow> string list" where
  "pathHintParts P path =
     (let cleaned = pa_clean P path;
          volumeName = pa_volume P cleaned;
          volume = trim_suffix volumeName '':'';
          withoutVolume = (if take (length volumeName) cleaned = volumeName then drop (length volumeName) cleaned else cleaned);
          segments = butlast (path_fields (dropWhile is_sep withoutVolume));
          parts = filter (\<lambda>p. p \<noteq> []) (map sanitizeAliasPart (volume # segments))
      in if parts = [] then [''source''] else parts)"

fun join_with :: "string \<Rightarrow> string list \<Rightarrow> string" where
  "join_with sep [] = []"
| "join_with sep [p] = p"
| "join_with sep (p # ps) = p @ sep @ join_with sep ps"

definition aliasFromParts :: "string list \<Rightarrow> string" where
  "aliasFromParts parts = (let alias = join_with ''_'' parts in if alias = [] then ''source'' else alias)"

definition sourceAliasFromFullPath :: "path_env \<Rightarrow> string \<Rightarrow> string" where
  "sourceAliasFromFullPath P path = aliasFromParts (pathHintParts P path)"

section \<open>Resolving\<close>

definition usable :: "source_dir \<Rightarrow> bool" where
  "usable s \<longleftrightarrow> SrcErr s = None \<and> \<not> Skip s"

definition duplicate_warning :: "string \<Rightarrow> string" where
  "duplicate_warning first = ''identical duplicate of '' @ first @ ''; this entry will be skipped''"

fun markIdenticalSourceDuplicates :: "(string \<rightharpoonup> string) \<Rightarrow> source_dir list \<Rightarrow> source_dir list" where
  "markIdenticalSourceDuplicates seen [] = []"
| "markIdenticalSourceDuplicates seen (s # ss) =
     (if SrcErr s \<noteq> None then s # markIdenticalSourceDuplicates seen ss
      else case seen (normalizedPath s) of
        Some first \<Rightarrow> s\<lparr>Skip := True, Warning := duplicate_warning first\<rparr> # markIdenticalSourceDuplicates seen ss
      | None \<Rightarrow> s # markIdenticalSourceDuplicates (seen(normalizedPath s \<mapsto> Resolved s)) ss)"

text \<open>The groups of \<open>groupSourcesByBasename\<close>; the order of a Go map does not matter, as no index is in two of them.\<close>

definition groupSourcesByBasename :: "path_env \<Rightarrow> source_dir list \<Rightarrow> (string \<times> nat list) list" where
  "groupSourcesByBasename P ss =
     map (\<lambda>b. (b, filter (\<lambda>i. usable (ss ! i) \<and> pa_base P (Resolved (ss ! i)) = b) [0..<length ss]))
       (remdups (map (\<lambda>s. pa_base P (Resolved s)) (filter usable ss)))"

definition alias_name :: "path_env \<Rightarrow> string \<Rightarrow> source_dir \<Rightarrow> string" where
  "alias_name P b s = b @ ''__from__'' @ sourceAliasFromFullPath P (Resolved s)"

definition collision :: err where
  "collision = Internal ''backup name alias collision: %s and %s both resolve to %q; adjust one source path to avoid ambiguity''"

fun assign_aliases :: "path_env \<Rightarrow> string \<Rightarrow> nat list \<Rightarrow> (string \<rightharpoonup> nat) \<Rightarrow> source_dir list \<Rightarrow> source_dir list" where
  "assign_aliases P b [] owners ss = ss"
| "assign_aliases P b (i # ms) owners ss =
     (let name = alias_name P b (ss ! i); ss = ss[i := (ss ! i)\<lparr>BackupName := name\<rparr>] in
      case owners name of
        Some k \<Rightarrow> let ss = ss[k := (ss ! k)\<lparr>SrcErr := Some collision\<rparr>]
                  in assign_aliases P b ms owners (ss[i := (ss ! i)\<lparr>SrcErr := Some collision\<rparr>])
      | None \<Rightarrow> assign_aliases P b ms (owners(name \<mapsto> i)) ss)"

definition assign_group :: "path_env \<Rightarrow> source_dir list \<Rightarrow> string \<times> nat list \<Rightarrow> source_dir list" where
  "assign_group P ss g = (case g of (b, ms) \<Rightarrow>
     (case ms of [i] \<Rightarrow> ss[i := (ss ! i)\<lparr>BackupName := b\<rparr>] | _ \<Rightarrow> assign_aliases P b ms Map.empty ss))"

definition assignNamesByGroup :: "path_env \<Rightarrow> source_dir list \<Rightarrow> (string \<times> nat list) list \<Rightarrow> source_dir list" where
  "assignNamesByGroup P ss groups = foldl (assign_group P) ss groups"

definition fillMissingBackupNames :: "path_env \<Rightarrow> source_dir list \<Rightarrow> source_dir list" where
  "fillMissingBackupNames P ss =
     (let ss = map (\<lambda>s. if usable s \<and> BackupName s = [] then s\<lparr>BackupName := pa_base P (Resolved s)\<rparr> else s) ss;
          nameByPath = map_of (rev (map (\<lambda>s. (normalizedPath s, BackupName s)) (filter usable ss)))
      in map (\<lambda>s. if BackupName s \<noteq> [] then s
           else if Skip s then (case nameByPath (normalizedPath s) of
               Some name \<Rightarrow> s\<lparr>BackupName := name\<rparr> | None \<Rightarrow> s\<lparr>BackupName := pa_base P (Resolved s)\<rparr>)
           else s\<lparr>BackupName := pa_base P (Resolved s)\<rparr>) ss)"

definition assignSourceBackupNames :: "path_env \<Rightarrow> source_dir list \<Rightarrow> source_dir list" where
  "assignSourceBackupNames P ss = fillMissingBackupNames P (assignNamesByGroup P ss (groupSourcesByBasename P ss))"

definition resolve_source :: "path_env \<Rightarrow> string \<Rightarrow> string \<Rightarrow> source_dir" where
  "resolve_source P exeDir src = (let resolved = ResolveDir P src exeDir in
     \<lparr>Resolved = resolved, normalizedPath = NormalizePathKey P resolved, BackupName = [], Warning = [], Skip = False,
      SrcErr = ValidateSourceDirectory P resolved\<rparr>)"

definition ResolveSources :: "path_env \<Rightarrow> string list \<Rightarrow> string \<Rightarrow> source_dir list" where
  "ResolveSources P dirs exeDir = assignSourceBackupNames P (markIdenticalSourceDuplicates Map.empty (map (resolve_source P exeDir) dirs))"

section \<open>Names of sources\<close>

text \<open>The steps of the resolution never touch the path of a source.\<close>

definition same_paths :: "source_dir list \<Rightarrow> source_dir list \<Rightarrow> bool" where
  "same_paths ss ss' \<longleftrightarrow> length ss' = length ss \<and> (\<forall>i < length ss. Resolved (ss' ! i) = Resolved (ss ! i) \<and> Skip (ss' ! i) = Skip (ss ! i))"

lemma same_paths_refl [simp]: "same_paths ss ss"
  by (simp add: same_paths_def)

lemma same_paths_trans: "same_paths ss ss' \<Longrightarrow> same_paths ss' ss'' \<Longrightarrow> same_paths ss ss''"
  by (simp add: same_paths_def)

lemma same_paths_length: "same_paths ss ss' \<Longrightarrow> length ss' = length ss"
  by (simp add: same_paths_def)

lemma list_update_nth: "xs[i := y] ! j = (if i = j \<and> i < length xs then y else xs ! j)"
  by (cases "i < length xs") (auto simp: nth_list_update list_update_beyond)

lemma same_paths_update:
  "same_paths ss (ss[i := (ss ! i)\<lparr>BackupName := n\<rparr>])" "same_paths ss (ss[i := (ss ! i)\<lparr>SrcErr := e\<rparr>])"
  by (auto simp: same_paths_def list_update_nth)

lemma alias_name_same: "same_paths ss ss' \<Longrightarrow> i < length ss \<Longrightarrow> alias_name P b (ss' ! i) = alias_name P b (ss ! i)"
  by (simp add: same_paths_def alias_name_def)

text \<open>What one alias group becomes: every member has its alias, and members with the same alias an error.\<close>

definition errs_grow :: "source_dir list \<Rightarrow> source_dir list \<Rightarrow> bool" where
  "errs_grow ss ss' \<longleftrightarrow> (\<forall>k < length ss. SrcErr (ss ! k) \<noteq> None \<longrightarrow> SrcErr (ss' ! k) \<noteq> None)"

definition untouched :: "nat set \<Rightarrow> source_dir list \<Rightarrow> source_dir list \<Rightarrow> bool" where
  "untouched I ss ss' \<longleftrightarrow> (\<forall>k < length ss. k \<notin> I \<longrightarrow> BackupName (ss' ! k) = BackupName (ss ! k))"

lemma assign_aliases_step:
  fixes ss P b i owners
  defines "name \<equiv> alias_name P b (ss ! i)"
  defines "ss1 \<equiv> ss[i := (ss ! i)\<lparr>BackupName := name\<rparr>]"
  defines "ss2 \<equiv> (case owners name of None \<Rightarrow> ss1 | Some k \<Rightarrow>
      (let ss2 = ss1[k := (ss1 ! k)\<lparr>SrcErr := Some collision\<rparr>] in ss2[i := (ss2 ! i)\<lparr>SrcErr := Some collision\<rparr>]))"
  shows "assign_aliases P b (i # ms) owners ss = assign_aliases P b ms (case owners name of None \<Rightarrow> owners(name \<mapsto> i) | Some _ \<Rightarrow> owners) ss2"
    "same_paths ss ss2" "errs_grow ss ss2" "i < length ss \<Longrightarrow> BackupName (ss2 ! i) = name" "untouched {i} ss ss2"
    "owners name = Some k \<Longrightarrow> i < length ss \<Longrightarrow> k < length ss \<Longrightarrow> SrcErr (ss2 ! i) \<noteq> None \<and> SrcErr (ss2 ! k) \<noteq> None"
proof -
  show "assign_aliases P b (i # ms) owners ss = assign_aliases P b ms (case owners name of None \<Rightarrow> owners(name \<mapsto> i) | Some _ \<Rightarrow> owners) ss2"
    by (simp add: name_def ss1_def ss2_def Let_def split: option.splits)
  show "same_paths ss ss2"
    by (auto simp: ss1_def ss2_def Let_def same_paths_def list_update_nth split: option.splits)
  show "errs_grow ss ss2" "untouched {i} ss ss2"
    by (auto simp: errs_grow_def untouched_def ss1_def ss2_def Let_def list_update_nth split: option.splits)
  show "i < length ss \<Longrightarrow> BackupName (ss2 ! i) = name"
    by (auto simp: ss1_def ss2_def Let_def list_update_nth split: option.splits)
  show "owners name = Some k \<Longrightarrow> i < length ss \<Longrightarrow> k < length ss \<Longrightarrow> SrcErr (ss2 ! i) \<noteq> None \<and> SrcErr (ss2 ! k) \<noteq> None"
    by (auto simp: ss1_def ss2_def Let_def list_update_nth)
qed

lemma errs_grow_trans: "errs_grow ss ss' \<Longrightarrow> errs_grow ss' ss'' \<Longrightarrow> length ss' = length ss \<Longrightarrow> errs_grow ss ss''"
  by (simp add: errs_grow_def)

text \<open>\<open>owners\<close> are members handled before; whoever shares a name with an owner or with another member gets an error.\<close>

definition group_done :: "path_env \<Rightarrow> string \<Rightarrow> (string \<rightharpoonup> nat) \<Rightarrow> nat set \<Rightarrow> source_dir list \<Rightarrow> source_dir list \<Rightarrow> bool" where
  "group_done P b owners I ss ss' \<longleftrightarrow> same_paths ss ss' \<and> errs_grow ss ss' \<and> untouched I ss ss'
     \<and> (\<forall>i \<in> I. BackupName (ss' ! i) = alias_name P b (ss ! i))
     \<and> (\<forall>i \<in> I. \<forall>k. owners (alias_name P b (ss ! i)) = Some k \<longrightarrow> SrcErr (ss' ! i) \<noteq> None \<and> SrcErr (ss' ! k) \<noteq> None)
     \<and> (\<forall>i \<in> I. \<forall>j \<in> I. i \<noteq> j \<longrightarrow> alias_name P b (ss ! i) = alias_name P b (ss ! j) \<longrightarrow> SrcErr (ss' ! i) \<noteq> None)"

lemma assign_aliases_done:
  assumes "distinct ms" "set ms \<subseteq> {..<length ss}" "\<forall>k \<in> ran owners. k < length ss \<and> k \<notin> set ms"
  shows "group_done P b owners (set ms) ss (assign_aliases P b ms owners ss)"
  using assms
proof (induction ms arbitrary: owners ss)
  case Nil
  then show ?case by (simp add: group_done_def errs_grow_def untouched_def)
next
  case (Cons i ms)
  let ?n = "alias_name P b (ss ! i)"
  let ?o = "case owners ?n of None \<Rightarrow> owners(?n \<mapsto> i) | Some _ \<Rightarrow> owners"
  obtain ss2 where s: "assign_aliases P b (i # ms) owners ss = assign_aliases P b ms ?o ss2" "same_paths ss ss2" "errs_grow ss ss2"
    "BackupName (ss2 ! i) = ?n" "untouched {i} ss ss2" "\<And>k. owners ?n = Some k \<Longrightarrow> SrcErr (ss2 ! i) \<noteq> None \<and> SrcErr (ss2 ! k) \<noteq> None"
  proof -
    note st = assign_aliases_step [where P = P and b = b and i = i and owners = owners and ss = ss]
    have "i < length ss" "\<And>k. owners ?n = Some k \<Longrightarrow> k < length ss" using Cons.prems by (auto simp: ran_def)
    then show thesis by (intro that [OF st(1) st(2,3) st(4) st(5) st(6)])
  qed
  note len = same_paths_length [OF s(2)]
  have o: "\<forall>k \<in> ran ?o. k < length ss2 \<and> k \<notin> set ms" using Cons.prems len by (auto simp: ran_def split: option.splits if_splits)
  have IH: "group_done P b ?o (set ms) ss2 (assign_aliases P b ms ?o ss2)"
    using Cons.IH [OF _ _ o] Cons.prems len by simp
  have a: "alias_name P b (ss2 ! k) = alias_name P b (ss ! k)" if "k < length ss" for k
    using alias_name_same [OF s(2) that] .
  let ?r = "assign_aliases P b ms ?o ss2"
  have lt: "i < length ss" "\<And>j. j \<in> set ms \<Longrightarrow> j < length ss" "i \<notin> set ms" using Cons.prems by auto
  have e: "SrcErr (?r ! k) \<noteq> None" if "SrcErr (ss2 ! k) \<noteq> None" "k < length ss" for k
    using IH that len by (auto simp: group_done_def errs_grow_def)
  show ?case unfolding s(1) group_done_def
  proof (intro conjI ballI allI impI)
    show "same_paths ss ?r" "errs_grow ss ?r"
      using IH s(2,3) len same_paths_trans errs_grow_trans unfolding group_done_def by metis+
    show "untouched (set (i # ms)) ss ?r" using IH s(5) len by (auto simp: group_done_def untouched_def)
    fix j assume j: "j \<in> set (i # ms)"
    show "BackupName (?r ! j) = alias_name P b (ss ! j)"
      using IH j s(4) lt len a by (auto simp: group_done_def untouched_def)
    show "SrcErr (?r ! j) \<noteq> None" "SrcErr (?r ! k) \<noteq> None" if "owners (alias_name P b (ss ! j)) = Some k" for k
    proof -
      have k: "k < length ss" using that Cons.prems(3) by (auto simp: ran_def)
      have "SrcErr (?r ! j) \<noteq> None \<and> SrcErr (?r ! k) \<noteq> None"
      proof (cases "j = i")
        case True
        then show ?thesis using s(6) that e lt(1) k by simp
      next
        case False
        then have "j \<in> set ms" using j by simp
        moreover have "?o (alias_name P b (ss2 ! j)) = Some k" using that a lt(2) \<open>j \<in> set ms\<close> by (auto split: option.splits)
        ultimately show ?thesis using IH by (auto simp: group_done_def)
      qed
      then show "SrcErr (?r ! j) \<noteq> None" "SrcErr (?r ! k) \<noteq> None" by simp_all
    qed
    fix m assume m: "m \<in> set (i # ms)" "j \<noteq> m" "alias_name P b (ss ! j) = alias_name P b (ss ! m)"
    show "SrcErr (?r ! j) \<noteq> None"
    proof (cases "j = i \<or> m = i")
      case True
      then obtain l where l: "l \<in> set ms" "alias_name P b (ss ! l) = ?n" "j = i \<or> j = l" using j m by auto
      show ?thesis
      proof (cases "owners ?n")
        case None
        then have "?o (alias_name P b (ss2 ! l)) = Some i" using l a lt(2) by simp
        then show ?thesis using IH l by (auto simp: group_done_def)
      next
        case (Some k)
        then have "?o (alias_name P b (ss2 ! l)) = Some k" using l a lt(2) by simp
        then have "SrcErr (?r ! l) \<noteq> None" using IH l(1) by (auto simp: group_done_def)
        then show ?thesis using l(3) e [OF conjunct1 [OF s(6) [OF Some]] lt(1)] by auto
      qed
    next
      case False
      then show ?thesis using IH j m a lt(2) by (auto simp: group_done_def)
    qed
  qed
qed

text \<open>The same of all groups, one after the other.\<close>

definition named :: "path_env \<Rightarrow> string \<times> nat list \<Rightarrow> source_dir list \<Rightarrow> source_dir list \<Rightarrow> bool" where
  "named P g ss ss' \<longleftrightarrow> (\<forall>i \<in> set (snd g). BackupName (ss' ! i) = (if length (snd g) = 1 then fst g else alias_name P (fst g) (ss ! i))
     \<and> (\<forall>j \<in> set (snd g). i \<noteq> j \<longrightarrow> alias_name P (fst g) (ss ! i) = alias_name P (fst g) (ss ! j) \<longrightarrow> SrcErr (ss' ! i) \<noteq> None))"

lemma assign_group_named:
  fixes P
  assumes "distinct (snd g)" "set (snd g) \<subseteq> {..<length ss}"
  defines "ss' \<equiv> assign_group P ss g"
  shows "same_paths ss ss'" "errs_grow ss ss'" "untouched (set (snd g)) ss ss'" "named P g ss ss'"
proof -
  obtain b ms where g: "g = (b, ms)" by fastforce
  have "same_paths ss ss' \<and> errs_grow ss ss' \<and> untouched (set (snd g)) ss ss' \<and> named P g ss ss'"
  proof (cases "\<exists>i. ms = [i]")
    case True
    then obtain i where "ms = [i]" by blast
    then show ?thesis using assms(2) same_paths_update(1)
      by (auto simp: ss'_def g assign_group_def errs_grow_def untouched_def named_def list_update_nth)
  next
    case False
    then have r: "ss' = assign_aliases P b ms Map.empty ss" by (auto simp: ss'_def assign_group_def g simp del: assign_aliases.simps split: list.splits)
    have "length ms \<noteq> 1" using False by (auto simp: length_Suc_conv)
    then show ?thesis using assign_aliases_done [of ms ss Map.empty P b] assms(1,2)
      by (auto simp: r g group_done_def named_def)
  qed
  then show "same_paths ss ss'" "errs_grow ss ss'" "untouched (set (snd g)) ss ss'" "named P g ss ss'" by simp_all
qed

lemma named_same: "same_paths ss0 ss \<Longrightarrow> set (snd g) \<subseteq> {..<length ss0} \<Longrightarrow> named P g ss ss' = named P g ss0 ss'"
proof -
  assume "same_paths ss0 ss" "set (snd g) \<subseteq> {..<length ss0}"
  then have "\<forall>i \<in> set (snd g). alias_name P (fst g) (ss ! i) = alias_name P (fst g) (ss0 ! i)" using alias_name_same by blast
  then show ?thesis by (simp add: named_def)
qed

lemma all_named:
  fixes P
  assumes "\<forall>g \<in> set gs. distinct (snd g) \<and> set (snd g) \<subseteq> {..<length ss}"
    "sorted_wrt (\<lambda>g h. set (snd g) \<inter> set (snd h) = {}) gs"
  defines "ss' \<equiv> assignNamesByGroup P ss gs"
  shows "same_paths ss ss' \<and> errs_grow ss ss' \<and> untouched (\<Union>(set ` snd ` set gs)) ss ss' \<and> (\<forall>g \<in> set gs. named P g ss ss')"
  using assms(1,2) unfolding ss'_def
proof (induction gs arbitrary: ss)
  case Nil
  then show ?case by (simp add: assignNamesByGroup_def errs_grow_def untouched_def)
next
  case (Cons g gs)
  define ss1 where "ss1 = assign_group P ss g"
  have g: "distinct (snd g)" "set (snd g) \<subseteq> {..<length ss}" using Cons.prems by auto
  note s1 = assign_group_named [OF g, of P, folded ss1_def]
  note len = same_paths_length [OF s1(1)]
  let ?r = "assignNamesByGroup P ss1 gs"
  have r: "assignNamesByGroup P ss (g # gs) = ?r" by (simp add: assignNamesByGroup_def ss1_def)
  have IH: "same_paths ss1 ?r" "errs_grow ss1 ?r" "untouched (\<Union>(set ` snd ` set gs)) ss1 ?r" "\<forall>h \<in> set gs. named P h ss1 ?r"
    using Cons.IH [of ss1] Cons.prems len by auto
  have "named P g ss ?r"
  proof -
    have "BackupName (?r ! i) = BackupName (ss1 ! i) \<and> (SrcErr (ss1 ! i) \<noteq> None \<longrightarrow> SrcErr (?r ! i) \<noteq> None)" if "i \<in> set (snd g)" for i
    proof -
      have "i < length ss1" "i \<notin> \<Union>(set ` snd ` set gs)" using that g(2) len Cons.prems(2) by (auto simp: disjoint_iff)
      then show ?thesis using IH(2,3) by (auto simp: untouched_def errs_grow_def)
    qed
    then show ?thesis using s1(4) by (auto simp: named_def)
  qed
  moreover have "\<forall>h \<in> set gs. named P h ss ?r" using IH(4) named_same [OF s1(1)] Cons.prems(1) by auto
  ultimately show ?case unfolding r using IH s1 len same_paths_trans errs_grow_trans
    by (auto simp: untouched_def)
qed

lemma groups_ok:
  fixes P ss
  defines "gs \<equiv> groupSourcesByBasename P ss"
  shows "\<forall>g \<in> set gs. distinct (snd g) \<and> set (snd g) \<subseteq> {..<length ss}"
    "sorted_wrt (\<lambda>g h. set (snd g) \<inter> set (snd h) = {}) gs"
    "i < length ss \<Longrightarrow> usable (ss ! i) \<Longrightarrow> \<exists>ms. (pa_base P (Resolved (ss ! i)), ms) \<in> set gs \<and> i \<in> set ms"
proof -
  show "\<forall>g \<in> set gs. distinct (snd g) \<and> set (snd g) \<subseteq> {..<length ss}" by (auto simp: gs_def groupSourcesByBasename_def)
  have "distinct (remdups (map (\<lambda>s. pa_base P (Resolved s)) (filter usable ss)))" by simp
  then show "sorted_wrt (\<lambda>g h. set (snd g) \<inter> set (snd h) = {}) gs"
    unfolding gs_def groupSourcesByBasename_def sorted_wrt_map distinct_conv_nth sorted_wrt_iff_nth_less by auto
  show "i < length ss \<Longrightarrow> usable (ss ! i) \<Longrightarrow> \<exists>ms. (pa_base P (Resolved (ss ! i)), ms) \<in> set gs \<and> i \<in> set ms"
    by (auto simp: gs_def groupSourcesByBasename_def image_iff intro!: exI [of _ "ss ! i"])
qed

text \<open>Filling in the missing names changes no name that is there, and no error.\<close>

lemma fill_names:
  "length (fillMissingBackupNames P ss) = length ss"
  "i < length ss \<Longrightarrow> SrcErr (fillMissingBackupNames P ss ! i) = SrcErr (ss ! i) \<and> Skip (fillMissingBackupNames P ss ! i) = Skip (ss ! i)
     \<and> Resolved (fillMissingBackupNames P ss ! i) = Resolved (ss ! i)
     \<and> (usable (ss ! i) \<longrightarrow> BackupName (fillMissingBackupNames P ss ! i) = (if BackupName (ss ! i) = [] then pa_base P (Resolved (ss ! i)) else BackupName (ss ! i)))"
  by (auto simp: fillMissingBackupNames_def Let_def usable_def split: option.splits)

lemma from_twice:
  assumes "b1 @ ''__from__'' @ x = b2 @ ''__from__'' @ y" "length b1 < length b2"
  shows "sublist ''__from'' b2"
proof -
  obtain z where z: "b2 = b1 @ z" "''__from__'' @ x = z @ ''__from__'' @ y"
    using assms by (auto simp: append_eq_append_conv2)
  then have ne: "z \<noteq> []" using assms(2) by auto
  have "\<not> length z < 6"
  proof
    assume l: "length z < 6"
    have "(z @ ''__from__'' @ y) ! (length z + 2) = CHR ''f''" by (simp add: nth_append)
    moreover have "(''__from__'' @ x) ! (length z + 2) = ''__from__'' ! (length z + 2)" using l by (subst nth_append) simp
    ultimately have f: "''__from__'' ! (length z + 2) = CHR ''f''" using z(2) by metis
    have "0 < length z" using ne by simp
    then have "length z = 1 \<or> length z = 2 \<or> length z = 3 \<or> length z = 4 \<or> length z = 5" using l by linarith
    then show False using f by auto
  qed
  then have "take 6 z = take 6 (''__from__'' @ x)" unfolding z(2) by simp
  then have "prefix ''__from'' z" using take_is_prefix [of 6 z] by simp
  then obtain w where "z = ''__from'' @ w" by (auto simp: prefix_def)
  then show ?thesis unfolding z(1) sublist_def by blast
qed

text \<open>The name and the group of each usable source in the end.\<close>

lemma resolved_name:
  fixes P ss0 ss
  defines "gs \<equiv> groupSourcesByBasename P ss0" and "ss \<equiv> assignSourceBackupNames P ss0"
  assumes "i < length ss0" "usable (ss ! i)"
  shows "\<exists>ms. (pa_base P (Resolved (ss ! i)), ms) \<in> set gs \<and> i \<in> set ms
    \<and> BackupName (ss ! i) = (if length ms = 1 then pa_base P (Resolved (ss ! i)) else alias_name P (pa_base P (Resolved (ss ! i))) (ss ! i))
    \<and> (\<forall>j \<in> set ms. i \<noteq> j \<longrightarrow> alias_name P (pa_base P (Resolved (ss ! i))) (ss ! i) \<noteq> alias_name P (pa_base P (Resolved (ss ! i))) (ss ! j))"
proof -
  let ?m = "assignNamesByGroup P ss0 gs"
  note ok = groups_ok [where P = P and ss = ss0, folded gs_def]
  note a = all_named [OF ok(1,2), of P]
  have len: "length ?m = length ss0" using a same_paths_length by blast
  have f: "ss = fillMissingBackupNames P ?m" by (simp add: ss_def gs_def assignSourceBackupNames_def)
  have m: "SrcErr (ss ! k) = SrcErr (?m ! k) \<and> Skip (ss ! k) = Skip (ss0 ! k) \<and> Resolved (ss ! k) = Resolved (ss0 ! k)" if "k < length ss0" for k
    using fill_names(2) [of k ?m P] a that len by (auto simp: f same_paths_def)
  have u: "usable (?m ! i)" using m [OF assms(3)] a assms(3,4) by (auto simp: usable_def same_paths_def)
  then have "usable (ss0 ! i)" using a assms(3) by (auto simp: usable_def same_paths_def errs_grow_def)
  then obtain ms where ms: "(pa_base P (Resolved (ss0 ! i)), ms) \<in> set gs" "i \<in> set ms" using ok(3) [OF assms(3)] by blast
  let ?b = "pa_base P (Resolved (ss0 ! i))"
  have n: "named P (?b, ms) ss0 ?m" using a ms(1) by blast
  have e: "alias_name P ?b (ss ! k) = alias_name P ?b (ss0 ! k)" if "k < length ss0" for k using m [OF that] by (simp add: alias_name_def)
  have bn: "BackupName (?m ! i) = (if length ms = 1 then ?b else alias_name P ?b (ss0 ! i))" using n ms(2) by (auto simp: named_def)
  have "BackupName (ss ! i) = (if length ms = 1 then ?b else alias_name P ?b (ss0 ! i))"
    using fill_names(2) [of i ?m P] u assms(3) len bn m [OF assms(3)] by (auto simp: f alias_name_def split: if_splits)
  moreover have "alias_name P ?b (ss0 ! i) \<noteq> alias_name P ?b (ss0 ! j)" if "j \<in> set ms" "i \<noteq> j" for j
  proof
    assume "alias_name P ?b (ss0 ! i) = alias_name P ?b (ss0 ! j)"
    moreover have "SrcErr (?m ! i) = None" using u by (simp add: usable_def)
    ultimately show False using n that ms(2) unfolding named_def by fastforce
  qed
  moreover have "j < length ss0" if "j \<in> set ms" for j using ok(1) ms(1) that by fastforce
  ultimately show ?thesis using ms m [OF assms(3)] e [OF assms(3)] e by (intro exI [of _ ms]) auto
qed

text \<open>C32. Two source directories that are backed up never share a backup name: when the resolution finds
  no error and no duplicate, sources with the same base name have different names, and so do all others
  unless one of them is itself called like an alias.\<close>

theorem sources_distinct_names:
  fixes P dirs exeDir
  defines "ss \<equiv> ResolveSources P dirs exeDir"
  assumes "i < length ss" "j < length ss" "i \<noteq> j" "usable (ss ! i)" "usable (ss ! j)"
    and "pa_base P (Resolved (ss ! i)) = pa_base P (Resolved (ss ! j))
      \<or> \<not> sublist ''__from'' (pa_base P (Resolved (ss ! i))) \<and> \<not> sublist ''__from'' (pa_base P (Resolved (ss ! j)))"
  shows "BackupName (ss ! i) \<noteq> BackupName (ss ! j)"
proof
  define ss0 where "ss0 = markIdenticalSourceDuplicates Map.empty (map (resolve_source P exeDir) dirs)"
  have ss: "ss = assignSourceBackupNames P ss0" by (simp add: ss_def ss0_def ResolveSources_def)
  have len: "length ss = length ss0"
    using all_named [OF groups_ok(1,2) [where P = P and ss = ss0], of P] by (auto simp: ss assignSourceBackupNames_def fill_names(1) dest: same_paths_length)
  note ni = resolved_name [where P = P and ?ss0.0 = ss0 and i = i, folded ss, OF assms(2) [unfolded len] assms(5)]
  note nj = resolved_name [where P = P and ?ss0.0 = ss0 and i = j, folded ss, OF assms(3) [unfolded len] assms(6)]
  let ?bi = "pa_base P (Resolved (ss ! i))" and ?bj = "pa_base P (Resolved (ss ! j))"
  assume eq: "BackupName (ss ! i) = BackupName (ss ! j)"
  show False
  proof (cases "?bi = ?bj")
    case True
    obtain mi mj where m: "(?bi, mi) \<in> set (groupSourcesByBasename P ss0)" "i \<in> set mi" "(?bj, mj) \<in> set (groupSourcesByBasename P ss0)" "j \<in> set mj"
      and b: "BackupName (ss ! i) = (if length mi = 1 then ?bi else alias_name P ?bi (ss ! i))" "BackupName (ss ! j) = (if length mj = 1 then ?bj else alias_name P ?bj (ss ! j))"
      and d: "\<forall>k \<in> set mi. i \<noteq> k \<longrightarrow> alias_name P ?bi (ss ! i) \<noteq> alias_name P ?bi (ss ! k)"
      using ni nj by blast
    have "mi = mj" using m(1,3) True by (auto simp: groupSourcesByBasename_def)
    then have "length mi \<noteq> 1" using m assms(4) by (auto simp: length_Suc_conv)
    then show False using b eq d m(4) assms(4) True \<open>mi = mj\<close> by auto
  next
    case False
    then have s: "\<not> sublist ''__from'' ?bi" "\<not> sublist ''__from'' ?bj" using assms(7) by auto
    have al: "sublist ''__from'' (alias_name P b t)" for b t
    proof -
      have "alias_name P b t = b @ ''__from'' @ (''__'' @ sourceAliasFromFullPath P (Resolved t))" by (simp add: alias_name_def)
      then show ?thesis unfolding sublist_def by blast
    qed
    have "BackupName (ss ! i) = ?bi \<or> BackupName (ss ! i) = alias_name P ?bi (ss ! i)"
      using ni by (elim exE conjE) (simp split: if_splits)
    moreover have "BackupName (ss ! j) = ?bj \<or> BackupName (ss ! j) = alias_name P ?bj (ss ! j)"
      using nj by (elim exE conjE) (simp split: if_splits)
    ultimately have "alias_name P ?bi (ss ! i) = alias_name P ?bj (ss ! j)" using eq False s al by metis
    then have a: "?bi @ ''__from__'' @ x = ?bj @ ''__from__'' @ y" if "x = sourceAliasFromFullPath P (Resolved (ss ! i))" "y = sourceAliasFromFullPath P (Resolved (ss ! j))" for x y
      using that by (simp add: alias_name_def)
    note a = a [OF refl refl]
    consider "length ?bi < length ?bj" | "length ?bj < length ?bi" | "length ?bi = length ?bj" by linarith
    then show False
    proof cases
      case 1 then show False using from_twice [OF a] s by blast
    next
      case 2 then show False using from_twice [OF a [symmetric]] s by blast
    next
      case 3 then show False using a False by simp
    qed
  qed
qed

section \<open>Examples\<close>

definition demo_paths :: path_env where
  "demo_paths = \<lparr>pa_abs = \<lambda>_. True, pa_join = \<lambda>a b. a @ b, pa_clean = \<lambda>p. p, pa_volume = take 2,
     pa_base = \<lambda>p. rev (takeWhile (\<lambda>c. c \<noteq> CHR 0x5C) (rev p)),
     pa_lower = map (\<lambda>c. if 65 \<le> (of_char c :: nat) \<and> (of_char c :: nat) \<le> 90 then char_of (of_char c + 32 :: nat) else c),
     pa_stat = \<lambda>_. Inr True, pa_readdir = \<lambda>_. None\<rparr>"

abbreviation demo_path :: "string \<Rightarrow> string \<Rightarrow> string" where
  "demo_path dir name \<equiv> ''C:'' @ CHR 0x5C # dir @ CHR 0x5C # name"

definition demo_sources :: "source_dir list" where
  "demo_sources = ResolveSources demo_paths [demo_path ''a'' ''Docs'', demo_path ''b'' ''Docs'', demo_path ''A'' ''docs'', demo_path ''c'' ''Pics''] []"

lemma demo_sources:
  "map usable demo_sources = [True, True, False, True]"
  "map BackupName demo_sources = [''Docs__from__C_a'', ''Docs__from__C_b'', ''Docs__from__C_a'', ''Pics'']"
  "map (\<lambda>s. pa_base demo_paths (Resolved s)) demo_sources = [''Docs'', ''Docs'', ''docs'', ''Pics'']"
  by code_simp+

lemma sources_distinct_names_witness: "BackupName (demo_sources ! 0) \<noteq> BackupName (demo_sources ! 1)"
proof -
  have l: "length demo_sources = 4" using arg_cong [OF demo_sources(1), of length] by simp
  have n: "usable (demo_sources ! k) = map usable demo_sources ! k" "pa_base demo_paths (Resolved (demo_sources ! k)) = map (\<lambda>s. pa_base demo_paths (Resolved s)) demo_sources ! k"
    if "k < 4" for k using that l by simp_all
  have "usable (demo_sources ! 0)" "usable (demo_sources ! 1)"
    "pa_base demo_paths (Resolved (demo_sources ! 0)) = pa_base demo_paths (Resolved (demo_sources ! 1))"
    using n [of 0] n [of 1] by (simp_all add: demo_sources)
  note h = _ _ _ this(1,2) disjI1 [OF this(3)]
  show ?thesis
    by (rule sources_distinct_names [where P = demo_paths and exeDir = "[]", folded demo_sources_def, OF h [unfolded demo_sources_def], folded demo_sources_def])
       (simp_all add: l)
qed

text \<open>
  What the names do not rule out: base names that differ in the case of letters only stay as they are,
  although the file system takes the part files of the two for the same; and a directory that is itself
  called like an alias gets the name of another.
\<close>

lemma names_differ_in_case_only:
  "map (\<lambda>s. (usable s, BackupName s)) (ResolveSources demo_paths [demo_path ''a'' ''Docs'', demo_path ''b'' ''docs''] [])
     = [(True, ''Docs''), (True, ''docs'')]"
  by code_simp

lemma name_of_an_alias:
  "map (\<lambda>s. (usable s, BackupName s)) (ResolveSources demo_paths [demo_path ''a'' ''D'', demo_path ''b'' ''D'', demo_path ''c'' ''D__from__C_a''] [])
     = [(True, ''D__from__C_a''), (True, ''D__from__C_b''), (True, ''D__from__C_a'')]"
  by code_simp

end
