(* ===== verification/Lock.thy ===== *)
theory Lock
  imports Prelude
begin

text \<open>
  The lock of a backup directory (\<open>fsx/lock.go\<close>, \<open>workflow/job/lock.go\<close>): any number of processes take
  and release it in steps, one system call each, in any order. A process is a number. The lock file may be
  removed and created again, so the files behind its name are numbered too; a lock belongs to the file,
  not to the name.

  Removing a file that a process has open fails on Windows, as long as the open call does not allow it
  (\<open>FILE_SHARE_DELETE\<close>); Go's \<open>os.OpenFile\<close> does not. The argument \<open>share\<close> says whether it does.
\<close>

section \<open>Processes and the lock file\<close>

datatype lock_kind = Exclusive | Shared

text \<open>
  Where a process is between the calls of \<open>AcquireBackupLock\<close> or \<open>AcquireReadLock\<close> and \<open>Release\<close>.
  \<open>Unguarded\<close> holds the lock that holds nothing (\<open>ErrLockUnavailable\<close>).
\<close>

datatype lock_phase =
    Outside
  | Opened lock_kind nat
  | Holding lock_kind nat
  | Refused nat
  | Unlocked lock_kind nat
  | Removing
  | Unguarded

record lock_state =
  lk_file :: "nat option"
  lk_next :: nat
  lk_phase :: "nat \<Rightarrow> lock_phase"

fun open_file :: "lock_phase \<Rightarrow> nat option" where
  "open_file (Opened k g) = Some g"
| "open_file (Holding k g) = Some g"
| "open_file (Refused g) = Some g"
| "open_file (Unlocked k g) = Some g"
| "open_file _ = None"

text \<open>\<open>LockFileEx\<close> grants a lock of the first byte that no other lock of the file forbids.\<close>

fun forbids :: "lock_kind \<Rightarrow> nat \<Rightarrow> lock_phase \<Rightarrow> bool" where
  "forbids Exclusive g (Holding k g') = (g' = g)"
| "forbids Shared g (Holding Exclusive g') = (g' = g)"
| "forbids _ _ _ = False"

definition move :: "nat \<Rightarrow> lock_phase \<Rightarrow> lock_state \<Rightarrow> lock_state" where
  "move p ph s = s\<lparr>lk_phase := (lk_phase s)(p := ph)\<rparr>"

inductive lock_step :: "bool \<Rightarrow> lock_state \<Rightarrow> lock_state \<Rightarrow> bool" for share where
  open_new: "lk_phase s p = Outside \<Longrightarrow> lk_file s = None \<Longrightarrow>
     lock_step share s (move p (Opened k (lk_next s)) (s\<lparr>lk_file := Some (lk_next s), lk_next := Suc (lk_next s)\<rparr>))"
| open_old: "lk_phase s p = Outside \<Longrightarrow> lk_file s = Some g \<Longrightarrow> lock_step share s (move p (Opened k g) s)"
| open_fails_backup: "lk_phase s p = Outside \<Longrightarrow> lock_step share s s"
| open_fails_read: "lk_phase s p = Outside \<Longrightarrow> lock_step share s (move p Unguarded s)"
| lock_granted: "lk_phase s p = Opened k g \<Longrightarrow> \<forall>q. \<not> forbids k g (lk_phase s q) \<Longrightarrow> lock_step share s (move p (Holding k g) s)"
| lock_refused: "lk_phase s p = Opened k g \<Longrightarrow> lock_step share s (move p (Refused g) s)"
| close_refused: "lk_phase s p = Refused g \<Longrightarrow> lock_step share s (move p Outside s)"
| unlock: "lk_phase s p = Holding k g \<Longrightarrow> lock_step share s (move p (Unlocked k g) s)"
| close_backup: "lk_phase s p = Unlocked Exclusive g \<Longrightarrow> lock_step share s (move p Removing s)"
| close_read: "lk_phase s p = Unlocked Shared g \<Longrightarrow> lock_step share s (move p Outside s)"
| remove: "lk_phase s p = Removing \<Longrightarrow> lk_file s = Some g \<Longrightarrow> share \<or> (\<forall>q. open_file (lk_phase s q) \<noteq> Some g) \<Longrightarrow>
     lock_step share s (move p Outside (s\<lparr>lk_file := None\<rparr>))"
| remove_fails: "lk_phase s p = Removing \<Longrightarrow> lock_step share s (move p Outside s)"
| release_nothing: "lk_phase s p = Unguarded \<Longrightarrow> lock_step share s (move p Outside s)"
| dies: "lock_step share s (move p Outside s)"

inductive lock_run :: "bool \<Rightarrow> lock_state \<Rightarrow> lock_state \<Rightarrow> bool" for share where
  run_refl: "lock_run share s s"
| run_step: "lock_run share s s' \<Longrightarrow> lock_step share s' s'' \<Longrightarrow> lock_run share s s''"

text \<open>At first no process is at work; a lock file may have been left behind.\<close>

definition lock_start :: "lock_state \<Rightarrow> bool" where
  "lock_start s \<longleftrightarrow> (\<forall>p. lk_phase s p = Outside) \<and> (\<forall>g. lk_file s = Some g \<longrightarrow> g < lk_next s)"

section \<open>Reading\<close>

text \<open>What taking the read lock returned, and what \<open>LockForReading\<close> makes of it: the lock that holds nothing is a warning.\<close>

datatype read_lock = ReadLocked | ReadUnlocked | ReadRefused err

definition AcquireReadLock_result :: "lock_phase \<Rightarrow> read_lock option" where
  "AcquireReadLock_result ph = (case ph of
       Holding Shared g \<Rightarrow> Some ReadLocked
     | Unguarded \<Rightarrow> Some ReadUnlocked
     | Refused g \<Rightarrow> Some (ReadRefused (Problem ''A backup is running in %q.''))
     | _ \<Rightarrow> None)"

definition LockForReading :: "read_lock \<Rightarrow> bool result" where
  "LockForReading r = (case r of ReadLocked \<Rightarrow> Inr False | ReadUnlocked \<Rightarrow> Inr True | ReadRefused e \<Rightarrow> Inl e)"

section \<open>Mutual exclusion\<close>

lemma move_simps [simp]: "lk_file (move p ph s) = lk_file s" "lk_next (move p ph s) = lk_next s"
  "lk_phase (move p ph s) q = (if q = p then ph else lk_phase s q)"
  by (simp_all add: move_def)

text \<open>All open handles are of the file that has the name, and a backup that holds the lock holds it alone.\<close>

definition lock_inv :: "lock_state \<Rightarrow> bool" where
  "lock_inv s \<longleftrightarrow> (\<forall>p g. open_file (lk_phase s p) = Some g \<longrightarrow> lk_file s = Some g)
     \<and> (\<forall>p q g k g'. p \<noteq> q \<longrightarrow> lk_phase s p = Holding Exclusive g \<longrightarrow> lk_phase s q \<noteq> Holding k g')"

lemma open_file_Holding: "lock_inv s \<Longrightarrow> lk_phase s p = Holding k g \<Longrightarrow> lk_file s = Some g"
  unfolding lock_inv_def by (metis open_file.simps(2))

lemma lock_inv_start: "lock_start s \<Longrightarrow> lock_inv s"
  by (simp add: lock_start_def lock_inv_def)

text \<open>A step that opens and locks nothing keeps the invariant.\<close>

lemma lock_inv_move:
  assumes "lock_inv s" "open_file ph = None \<or> open_file ph = open_file (lk_phase s p)" "\<And>k g. ph = Holding k g \<Longrightarrow> lk_phase s p = ph"
  shows "lock_inv (move p ph s)"
  unfolding lock_inv_def
proof (intro conjI allI impI)
  fix q g assume "open_file (lk_phase (move p ph s) q) = Some g"
  then have "open_file (lk_phase s q) = Some g" using assms(2) by (auto split: if_splits)
  then show "lk_file (move p ph s) = Some g" using assms(1) by (simp add: lock_inv_def)
next
  fix q r g k g' assume qr: "q \<noteq> r" and q: "lk_phase (move p ph s) q = Holding Exclusive g"
  have old: "lk_phase s q' = Holding k' g''" if "lk_phase (move p ph s) q' = Holding k' g''" for q' k' g''
    using that assms(3) by (auto split: if_splits)
  show "lk_phase (move p ph s) r \<noteq> Holding k g'"
    using old [OF q] old [of r k g'] qr assms(1) unfolding lock_inv_def by blast
qed

lemma lock_inv_step:
  assumes "lock_step False s s'" "lock_inv s"
  shows "lock_inv s'"
  using assms(1)
proof (cases rule: lock_step.cases)
  case (open_new p k)
  then have "open_file (lk_phase s q) = None" for q using assms(2) by (metis lock_inv_def not_None_eq option.distinct(1))
  moreover from this have "lk_phase s q \<noteq> Holding k' g" for q k' g by (metis open_file.simps(2) option.distinct(1))
  ultimately show ?thesis using open_new by (auto simp: lock_inv_def)
next
  case (open_old p g k)
  then show ?thesis using assms(2) by (auto simp: lock_inv_def)
next
  case (lock_granted p k g)
  then have f: "lk_file s = Some g" using assms(2) unfolding lock_inv_def by (metis open_file.simps(1))
  have "lk_phase s q \<noteq> Holding Exclusive g'" for q g'
    using lock_granted(3) open_file_Holding [OF assms(2)] f by (cases k) (metis forbids.simps(1,2) option.inject)+
  moreover have "k = Exclusive \<Longrightarrow> lk_phase s q \<noteq> Holding k' g'" for q k' g'
    using lock_granted(3) open_file_Holding [OF assms(2)] f by (metis forbids.simps(1) option.inject)
  ultimately show ?thesis using assms(2) lock_granted f by (auto simp: lock_inv_def)
next
  case (remove p g)
  then have "open_file (lk_phase s q) = None" for q using assms(2) by (metis lock_inv_def not_None_eq)
  moreover from this have "lk_phase s q \<noteq> Holding k' g" for q k' g by (metis open_file.simps(2) option.distinct(1))
  ultimately show ?thesis using remove by (auto simp: lock_inv_def)
qed (use assms(2) in \<open>auto intro!: lock_inv_move\<close>)

lemma lock_inv_run: "lock_run False s s' \<Longrightarrow> lock_inv s \<Longrightarrow> lock_inv s'"
  by (induction rule: lock_run.induct) (auto intro: lock_inv_step)

text \<open>C33. A backup never runs beside another backup, a restore or a verification of its directory: in whatever
  order any number of processes open, lock, unlock, close and remove the lock file, give up or die, a
  process that holds the lock for a backup is the only one that holds it at all.\<close>

theorem backup_lock_excludes:
  assumes "lock_start s" "lock_run False s s'" "lk_phase s' p = Holding Exclusive g" "lk_phase s' q = Holding k g'"
  shows "p = q"
  using lock_inv_run [OF assms(2) lock_inv_start [OF assms(1)]] assms(3,4) unfolding lock_inv_def by metis


section \<open>Examples\<close>

definition free_dir :: lock_state where
  "free_dir = \<lparr>lk_file = None, lk_next = 0, lk_phase = \<lambda>_. Outside\<rparr>"

text \<open>A backup (process 0) takes the lock of a directory in which nothing is going on.\<close>

definition one_backup :: lock_state where
  "one_backup = move 0 (Holding Exclusive 0) (move 0 (Opened Exclusive 0) (free_dir\<lparr>lk_file := Some 0, lk_next := 1\<rparr>))"

lemma one_backup: "lock_run share free_dir one_backup" "lk_phase one_backup 0 = Holding Exclusive 0" "lock_start free_dir"
proof -
  have "lock_step share free_dir (move 0 (Opened Exclusive (lk_next free_dir)) (free_dir\<lparr>lk_file := Some (lk_next free_dir), lk_next := Suc (lk_next free_dir)\<rparr>))"
    by (rule open_new) (simp_all add: free_dir_def)
  then have a: "lock_step share free_dir (move 0 (Opened Exclusive 0) (free_dir\<lparr>lk_file := Some 0, lk_next := 1\<rparr>))" by (simp add: free_dir_def)
  have "lock_step share (move 0 (Opened Exclusive 0) (free_dir\<lparr>lk_file := Some 0, lk_next := 1\<rparr>)) one_backup"
    unfolding one_backup_def by (rule lock_granted) (simp_all add: free_dir_def)
  from run_step [OF run_step [OF run_refl a] this] show "lock_run share free_dir one_backup" .
  show "lk_phase one_backup 0 = Holding Exclusive 0" "lock_start free_dir" by (simp_all add: one_backup_def lock_start_def free_dir_def)
qed

lemma backup_lock_excludes_witness: "\<nexists>k g. lk_phase one_backup 1 = Holding k g"
  using backup_lock_excludes [OF one_backup(3) one_backup(1) one_backup(2), of 1] by fastforce


text \<open>
  Were the open lock file removable, removing it after unlocking would break the exclusion: process 1 locks
  the file that process 0 is about to remove, and process 2 then locks a new file of that name.
\<close>

lemma removable_lock_file_breaks_exclusion:
  "\<exists>s. lock_run True free_dir s \<and> lk_phase s 1 = Holding Exclusive 0 \<and> lk_phase s 2 = Holding Exclusive 1"
proof -
  define s1 where "s1 = move 1 (Opened Exclusive 0) (move 0 (Unlocked Exclusive 0) one_backup)"
  define s2 where "s2 = move 0 Removing (move 1 (Holding Exclusive 0) s1)"
  define s3 where "s3 = move 0 Outside (s2\<lparr>lk_file := None\<rparr>)"
  define s4 where "s4 = move 2 (Opened Exclusive (lk_next s3)) (s3\<lparr>lk_file := Some (lk_next s3), lk_next := Suc (lk_next s3)\<rparr>)"
  have ph: "lk_phase one_backup = (\<lambda>_. Outside)(0 := Holding Exclusive 0)" "lk_file one_backup = Some 0" "lk_next one_backup = 1"
    by (auto simp: one_backup_def free_dir_def move_def)
  have 1: "lock_step True one_backup (move 0 (Unlocked Exclusive 0) one_backup)" by (rule unlock) (rule one_backup(2))
  have 2: "lock_step True (move 0 (Unlocked Exclusive 0) one_backup) s1" unfolding s1_def by (rule open_old) (simp_all add: ph)
  have 3: "lock_step True s1 (move 1 (Holding Exclusive 0) s1)" by (rule lock_granted) (simp_all add: s1_def ph)
  have 4: "lock_step True (move 1 (Holding Exclusive 0) s1) s2" unfolding s2_def by (rule close_backup [where g = 0]) (simp add: s1_def)
  have 5: "lock_step True s2 s3" unfolding s3_def by (rule remove [where g = 0]) (simp_all add: s2_def s1_def ph)
  have 6: "lock_step True s3 s4" unfolding s4_def by (rule open_new) (simp_all add: s3_def s2_def s1_def ph)
  have 7: "lock_step True s4 (move 2 (Holding Exclusive 1) s4)" by (rule lock_granted) (auto simp: s4_def s3_def s2_def s1_def ph)
  note run_step [OF run_step [OF run_step [OF run_step [OF run_step [OF run_step [OF run_step [OF one_backup(1) 1] 2] 3] 4] 5] 6] 7]
  then show ?thesis by (intro exI [of _ "move 2 (Holding Exclusive 1) s4"]) (simp add: s4_def s3_def s2_def)
qed

end
