(* ===== verification/Preflight.thy ===== *)
theory Preflight
  imports Sources Unlocking Parts
begin

text \<open>
  What a backup checks before it starts and the plan the user chooses (\<open>workflow/backup/preflight.go\<close>,
  \<open>choose.go\<close>, the issues of \<open>workflow/interact\<close>). The texts shown to the user are left out; an issue keeps
  the error it reports. Free space, the measured sizes and the number of YubiKeys are what the system answers.
\<close>

section \<open>Issues\<close>

datatype status = StatusNone | StatusOK | StatusInfo | StatusWarn | StatusError

record issue =
  is_Status :: status
  is_Code :: string
  is_Err :: "err option"

definition hasErrors :: "issue list \<Rightarrow> bool" where
  "hasErrors issues = list_ex (\<lambda>i. is_Status i = StatusError) issues"

definition CodeSourceMissing :: string where "CodeSourceMissing = ''SOURCE_MISSING''"
definition CodeSourceInvalid :: string where "CodeSourceInvalid = ''SOURCE_INVALID''"
definition CodeSpaceInsufficient :: string where "CodeSpaceInsufficient = ''SPACE_INSUFFICIENT''"
definition CodeSpaceEstimateOnly :: string where "CodeSpaceEstimateOnly = ''SPACE_ESTIMATE_ONLY''"
definition CodePartLimit :: string where "CodePartLimit = ''PART_LIMIT''"
definition CodeYubiKeysConnected :: string where "CodeYubiKeysConnected = ''YUBIKEYS_CONNECTED''"

text \<open>\<open>job.SourceProblemCode\<close> asks whether the error says that the directory does not exist.\<close>

definition SourceProblemCode :: "(err \<Rightarrow> bool) \<Rightarrow> err \<Rightarrow> string" where
  "SourceProblemCode not_exist e = (if not_exist e then CodeSourceMissing else CodeSourceInvalid)"

definition ValidatePreflightItems :: "'a list \<Rightarrow> ('a \<Rightarrow> bool) \<Rightarrow> string \<Rightarrow> err option" where
  "ValidatePreflightItems items hasError template =
     (if length (filter hasError items) > 0 then Some (Problem template) else None)"

section \<open>Space\<close>

definition IsSpaceInsufficient :: "int \<Rightarrow> nat \<Rightarrow> bool" where
  "IsSpaceInsufficient estimated free \<longleftrightarrow> estimated > 0 \<and> uint64 estimated > free"

record space_estimate =
  es_full :: int
  es_likely :: int
  es_anyDiff :: bool
  es_sizes :: "int list"
  es_folders :: "string \<rightharpoonup> int \<times> int"
  es_warnings :: "string list"

text \<open>The sizes of the sources: all files and the files changed since the base, by backup name.\<close>

record source_sizes =
  sz_names :: "string list"
  sz_measures :: "string \<rightharpoonup> int \<times> int"
  sz_diffs :: "string \<Rightarrow> bool"
  sz_warnings :: "string list"

type_synonym measure_fun = "string \<Rightarrow> int option \<Rightarrow> (int \<times> int) result"

definition measure_source :: "format_env \<Rightarrow> (string \<Rightarrow> string) \<Rightarrow> measure_fun \<Rightarrow> (string \<rightharpoonup> folder) \<Rightarrow> source_sizes \<Rightarrow> source_dir \<Rightarrow> source_sizes" where
  "measure_source E bname mes plans sizes src =
     (if SrcErr src \<noteq> None \<or> Skip src then sizes
      else let name = folder_name bname src;
               base = Option.bind (plans name) Base;
               sizes = (if base \<noteq> None then sizes\<lparr>sz_diffs := (sz_diffs sizes)(name := True)\<rparr> else sizes)
           in case mes (Resolved src) (map_option (Created E) base) of
                Inl _ \<Rightarrow> sizes\<lparr>sz_warnings := sz_warnings sizes @ [Resolved src]\<rparr>
              | Inr m \<Rightarrow> sizes\<lparr>sz_names := sz_names sizes @ [name], sz_measures := (sz_measures sizes)(name \<mapsto> m)\<rparr>)"

definition measureSources :: "format_env \<Rightarrow> (string \<Rightarrow> string) \<Rightarrow> measure_fun \<Rightarrow> source_dir list \<Rightarrow> (string \<rightharpoonup> folder) \<Rightarrow> source_sizes" where
  "measureSources E bname mes sources plans =
     foldl (measure_source E bname mes plans) \<lparr>sz_names = [], sz_measures = Map.empty, sz_diffs = \<lambda>_. False, sz_warnings = []\<rparr> sources"

definition plan_is_diff :: "(string \<rightharpoonup> folder) \<Rightarrow> string \<Rightarrow> bool" where
  "plan_is_diff plans name = (case plans name of None \<Rightarrow> False | Some f \<Rightarrow> FolderIsDiff f)"

definition estimate_folder :: "source_sizes \<Rightarrow> (string \<rightharpoonup> folder) \<Rightarrow> space_estimate \<Rightarrow> string \<Rightarrow> space_estimate" where
  "estimate_folder s plans est name =
     (let (total, changed) = (case sz_measures s name of None \<Rightarrow> (0, 0) | Some m \<Rightarrow> m);
          diff = (plan_is_diff plans name \<and> sz_diffs s name);
          likely = (if diff then changed else total)
      in est\<lparr>es_anyDiff := es_anyDiff est \<or> diff, es_full := add64 (es_full est) total, es_likely := add64 (es_likely est) likely,
             es_sizes := es_sizes est @ [total], es_folders := (es_folders est)(name \<mapsto> (total, likely))\<rparr>)"

definition estimate :: "source_sizes \<Rightarrow> (string \<rightharpoonup> folder) \<Rightarrow> space_estimate" where
  "estimate s plans = foldl (estimate_folder s plans)
     \<lparr>es_full = 0, es_likely = 0, es_anyDiff = False, es_sizes = [], es_folders = Map.empty, es_warnings = sz_warnings s\<rparr> (sz_names s)"

definition InsufficientBackupSpace :: err where
  "InsufficientBackupSpace = Problem ''Insufficient free space for backup: needed %s, available %s.''"

text \<open>Whether there is a warning, and the error; unknown free space is neither.\<close>

definition validateTargetSpaceForBackup :: "nat result \<Rightarrow> space_estimate \<Rightarrow> bool \<times> err option" where
  "validateTargetSpaceForBackup free est = (case free of
       Inl _ \<Rightarrow> (False, None)
     | Inr f \<Rightarrow>
         if IsSpaceInsufficient (es_likely est) f then (False, Some (Wrapped ''Backup preflight failed: %w'' InsufficientBackupSpace))
         else if es_anyDiff est \<and> IsSpaceInsufficient (es_full est) f then (True, None)
         else (False, None))"

section \<open>Parts\<close>

definition partCountSafetyMarginPercent :: int where "partCountSafetyMarginPercent = 5"

definition partCountWarnThreshold :: int where "partCountWarnThreshold = int MaxPartSequence * 9 div 10"

definition estimatePartCount :: "int \<Rightarrow> int \<Rightarrow> int" where
  "estimatePartCount sizeBytes splitSizeBytes =
     (if splitSizeBytes \<le> 0 then 0 else trunc_div (add64 (add64 sizeBytes splitSizeBytes) (- 1)) splitSizeBytes)"

definition estimatePartCountWithMargin :: "int \<Rightarrow> int \<Rightarrow> int" where
  "estimatePartCountWithMargin sizeBytes splitSizeBytes =
     estimatePartCount (add64 sizeBytes (trunc_div (mul64 sizeBytes partCountSafetyMarginPercent) 100)) splitSizeBytes"

definition partCountAdvisory :: "int \<Rightarrow> bool" where
  "partCountAdvisory maxPartCount = (if maxPartCount > int MaxPartSequence \<or> maxPartCount < partCountWarnThreshold then False else True)"

fun part_count_loop :: "(string \<Rightarrow> int result) \<Rightarrow> int \<Rightarrow> source_dir list \<Rightarrow> err option" where
  "part_count_loop dirSize splitSize [] = None"
| "part_count_loop dirSize splitSize (src # srcs) =
     (if SrcErr src \<noteq> None \<or> Skip src then part_count_loop dirSize splitSize srcs
      else case dirSize (Resolved src) of
        Inl _ \<Rightarrow> part_count_loop dirSize splitSize srcs
      | Inr sz \<Rightarrow>
          if estimatePartCountWithMargin sz splitSize > int MaxPartSequence
            then Some (Problem ''Backup preflight failed: %q is approximately %s, exceeding the %d-part limit of the backup naming scheme.'')
          else part_count_loop dirSize splitSize srcs)"

definition validateBackupPartCount :: "(string \<Rightarrow> int result) \<Rightarrow> config \<Rightarrow> source_dir list \<Rightarrow> err option" where
  "validateBackupPartCount dirSize cfg sources =
     (let splitSize = mul64 (mul64 (SplitSizeMB cfg) 1024) 1024
      in if splitSize \<le> 0 then None else part_count_loop dirSize splitSize sources)"

definition runnableSourceCount :: "source_dir list \<Rightarrow> nat" where
  "runnableSourceCount sources = length (filter (\<lambda>s. \<not> (SrcErr s \<noteq> None \<or> Skip s)) sources)"

section \<open>The checks that block a backup\<close>

definition validateSourceDirectories :: "source_dir list \<Rightarrow> err option" where
  "validateSourceDirectories sources = ValidatePreflightItems sources (\<lambda>s. SrcErr s \<noteq> None)
     ''Backup preflight failed: %d source directory(s) are invalid or inaccessible.''"

definition sourceProblemCode :: "(err \<Rightarrow> bool) \<Rightarrow> source_dir list \<Rightarrow> string" where
  "sourceProblemCode not_exist sources =
     (if list_ex (\<lambda>s. case SrcErr s of None \<Rightarrow> False | Some e \<Rightarrow> SourceProblemCode not_exist e = CodeSourceMissing) sources
      then CodeSourceMissing else CodeSourceInvalid)"

definition SeveralError :: err where
  "SeveralError = Problem ''%d YubiKeys are connected.''"

definition severalYubiKeys :: "nat result \<Rightarrow> config \<Rightarrow> plan_keys \<Rightarrow> err option" where
  "severalYubiKeys connected cfg keys =
     (let mode = (case Existing keys of None \<Rightarrow> AuthenticationMode cfg | Some ks \<Rightarrow> ks_AuthMode ks) in
      if \<not> AuthModeUsesYubiKey mode then None
      else case connected of Inl _ \<Rightarrow> None | Inr n \<Rightarrow> if n > 1 then Some SeveralError else None)"

definition backupPreflightIssues :: "(err \<Rightarrow> bool) \<Rightarrow> nat result \<Rightarrow> source_dir list \<Rightarrow> space_estimate \<Rightarrow> err option \<Rightarrow> err option \<Rightarrow> issue list \<times> err option" where
  "backupPreflightIssues not_exist free sources est partErr yubiKeysErr =
     (let (targetWarn, targetErr) = validateTargetSpaceForBackup free est;
          checks = [(validateSourceDirectories sources, sourceProblemCode not_exist sources), (targetErr, CodeSpaceInsufficient),
            (partErr, CodePartLimit), (yubiKeysErr, CodeYubiKeysConnected)];
          failed = List.map_filter (\<lambda>(e, code). map_option (\<lambda>e. (e, code)) e) checks
      in (map (\<lambda>(e, code). \<lparr>is_Status = StatusError, is_Code = code, is_Err = Some e\<rparr>) failed
            @ (if targetWarn then [\<lparr>is_Status = StatusWarn, is_Code = CodeSpaceEstimateOnly, is_Err = None\<rparr>] else []),
          case failed of [] \<Rightarrow> None | (e, _) # _ \<Rightarrow> Some e))"

section \<open>Choosing the plan\<close>

datatype plan_mode = planAutomatic | planFull | planNewKeys

datatype backup_start = BackupCancel | BackupAsPlanned | BackupFull | BackupNewKeys | BackupAutomatic

record start_options =
  so_Blocked :: bool
  so_OfferFull :: bool
  so_OfferNewKeys :: bool
  so_OfferAutomatic :: bool

text \<open>What the checks and the plan depend on; \<open>pf_ask k\<close> is the answer to the \<open>k\<close>-th question whether to start.\<close>

record preflight_env =
  pf_format :: format_env
  pf_base_name :: "string \<Rightarrow> string"
  pf_measure :: measure_fun
  pf_dirSize :: "string \<Rightarrow> int result"
  pf_free :: "nat result"
  pf_yubiKeys :: "nat result"
  pf_not_exist :: "err \<Rightarrow> bool"
  pf_now :: int
  pf_ask :: "nat \<Rightarrow> start_options \<Rightarrow> backup_start result"

type_synonym chosen_plan = "plan_keys \<times> (string \<rightharpoonup> folder) \<times> bool \<times> err option"

definition mode_plan :: "preflight_env \<Rightarrow> config \<Rightarrow> source_dir list \<Rightarrow> set_info list \<Rightarrow> string \<Rightarrow> plan_mode \<Rightarrow> plan_keys \<times> (string \<rightharpoonup> folder)" where
  "mode_plan E cfg sources infos newKeysReason mode =
     (let current = KeysFor cfg infos; folders = Folders (pf_base_name E) (pf_format E) cfg infos sources in
      case mode of
        planAutomatic \<Rightarrow> (current, folders current False (pf_now E))
      | planFull \<Rightarrow> (current, folders current True (pf_now E))
      | planNewKeys \<Rightarrow> (let keys = \<lparr>Existing = None, NewKeysReason = newKeysReason\<rparr> in (keys, folders keys True (pf_now E))))"

text \<open>The plan of a mode with the error that blocks it; the sizes are measured once, for the automatic plan.\<close>

definition planned_sizes :: "preflight_env \<Rightarrow> config \<Rightarrow> source_dir list \<Rightarrow> set_info list \<Rightarrow> source_sizes" where
  "planned_sizes E cfg sources infos =
     measureSources (pf_format E) (pf_base_name E) (pf_measure E) sources (snd (mode_plan E cfg sources infos [] planAutomatic))"

definition checked_plan :: "preflight_env \<Rightarrow> config \<Rightarrow> source_dir list \<Rightarrow> set_info list \<Rightarrow> string \<Rightarrow> plan_mode \<Rightarrow> plan_keys \<times> (string \<rightharpoonup> folder) \<times> err option" where
  "checked_plan E cfg sources infos newKeysReason mode =
     (let sizes = planned_sizes E cfg sources infos;
          partErr = validateBackupPartCount (pf_dirSize E) cfg sources;
          (keys, folders) = mode_plan E cfg sources infos newKeysReason mode
      in (keys, folders, snd (backupPreflightIssues (pf_not_exist E) (pf_free E) sources (estimate sizes folders) partErr
            (severalYubiKeys (pf_yubiKeys E) cfg keys))))"

definition start_options :: "config \<Rightarrow> source_dir list \<Rightarrow> set_info list \<Rightarrow> (string \<Rightarrow> string) \<Rightarrow> plan_mode \<Rightarrow> (string \<rightharpoonup> folder) \<Rightarrow> err option \<Rightarrow> start_options" where
  "start_options cfg sources infos bname mode folders blockErr =
     \<lparr>so_Blocked = (blockErr \<noteq> None),
      so_OfferFull = (mode = planAutomatic \<and> AnyDifferential folders (map (folder_name bname) sources)),
      so_OfferNewKeys = (mode \<noteq> planNewKeys \<and> Existing (KeysFor cfg infos) \<noteq> None),
      so_OfferAutomatic = (mode \<noteq> planAutomatic)\<rparr>"

partial_function (option) choose_loop ::
  "preflight_env \<Rightarrow> config \<Rightarrow> source_dir list \<Rightarrow> set_info list \<Rightarrow> string \<Rightarrow> nat \<Rightarrow> plan_mode \<Rightarrow> chosen_plan option" where
  "choose_loop E cfg sources infos newKeysReason k mode =
     (case checked_plan E cfg sources infos newKeysReason mode of (keys, folders, blockErr) \<Rightarrow>
        if blockErr \<noteq> None \<and> mode = planAutomatic then Some (keys, folders, False, blockErr)
        else case pf_ask E k (start_options cfg sources infos (pf_base_name E) mode folders blockErr) of
          Inl e \<Rightarrow> Some (keys, folders, False, Some e)
        | Inr choice \<Rightarrow>
            if choice = BackupAsPlanned then Some (keys, folders, blockErr = None, blockErr)
            else if choice = BackupFull then choose_loop E cfg sources infos newKeysReason (Suc k) planFull
            else if choice = BackupNewKeys then choose_loop E cfg sources infos newKeysReason (Suc k) planNewKeys
            else if choice = BackupAutomatic then choose_loop E cfg sources infos newKeysReason (Suc k) planAutomatic
            else Some (keys, folders, False, None))"

definition choosePlan :: "preflight_env \<Rightarrow> config \<Rightarrow> source_dir list \<Rightarrow> set_info list \<Rightarrow> nat \<Rightarrow> string \<Rightarrow> chosen_plan option" where
  "choosePlan E cfg sources infos k newKeysReason =
     (if newKeysReason \<noteq> [] then choose_loop E cfg sources infos newKeysReason k planNewKeys
      else choose_loop E cfg sources infos ''New keys requested'' k planAutomatic)"

section \<open>The part limit\<close>

lemma add64_exact: "- (2 ^ 63) \<le> x + y \<Longrightarrow> x + y < 2 ^ 63 \<Longrightarrow> add64 x y = x + y"
  by (simp add: add64_def int64_uint64)

lemma mul64_exact: "- (2 ^ 63) \<le> x * y \<Longrightarrow> x * y < 2 ^ 63 \<Longrightarrow> mul64 x y = x * y"
  by (simp add: mul64_def int64_uint64)

lemma trunc_div_pos: "0 \<le> a \<Longrightarrow> 0 < b \<Longrightarrow> trunc_div a b = a div b"
  by (cases "a = 0") (simp_all add: trunc_div_def)

text \<open>Without overflow the estimate is the number of parts that the size with its margin fills.\<close>

lemma estimate_exact:
  assumes "0 \<le> sz" "sz < 2 ^ 60" "0 < split" "split < 2 ^ 60"
  shows "estimatePartCountWithMargin sz split = part_count split (sz + sz * 5 div 100)"
proof -
  have m: "mul64 sz 5 = sz * 5" using assms by (intro mul64_exact) simp_all
  have d: "sz * 5 div 100 \<le> sz" using assms(1) by simp
  have a: "add64 sz (sz * 5 div 100) = sz + sz * 5 div 100" using assms d by (intro add64_exact) simp_all
  let ?w = "sz + sz * 5 div 100"
  have w: "0 \<le> ?w" "?w < 2 ^ 61" using assms d by simp_all
  have "add64 ?w split = ?w + split" "add64 (?w + split) (- 1) = ?w + split - 1" using w assms by (subst add64_exact; simp)+
  moreover have "trunc_div (sz * 5) 100 = sz * 5 div 100" using assms(1) by (intro trunc_div_pos) simp_all
  moreover have "trunc_div (?w + split - 1) split = (?w + split - 1) div split" using w assms(3) by (intro trunc_div_pos) simp_all
  ultimately have "estimatePartCountWithMargin sz split = (?w + split - 1) div split"
    using assms(3) unfolding estimatePartCountWithMargin_def partCountSafetyMarginPercent_def estimatePartCount_def m by (simp only: a not_le if_False) simp
  then show ?thesis using assms(3) by (simp only: part_count_def if_True)
qed

lemma part_count_mono: "0 < split \<Longrightarrow> a \<le> b \<Longrightarrow> part_count split a \<le> part_count split b"
  by (simp add: part_count_def zdiv_mono1)

lemma part_count_loop_None:
  "part_count_loop dirSize split srcs = None \<longleftrightarrow>
     (\<forall>s \<in> set srcs. SrcErr s = None \<longrightarrow> \<not> Skip s \<longrightarrow> (\<forall>sz. dirSize (Resolved s) = Inr sz \<longrightarrow> estimatePartCountWithMargin sz split \<le> int MaxPartSequence))"
  by (induction srcs) (auto split: sum.splits)

text \<open>A directory of 1000 bytes, no sets yet; the user first looks at the plan with full backups.\<close>

definition demo_preflight :: preflight_env where
  "demo_preflight = \<lparr>pf_format = demo_format, pf_base_name = \<lambda>_. ''Docs'', pf_measure = \<lambda>_ _. Inr (1000, 0), pf_dirSize = \<lambda>_. Inr 1000,
     pf_free = Inr 5000, pf_yubiKeys = Inr 2, pf_not_exist = \<lambda>_. True, pf_now = 5,
     pf_ask = \<lambda>k _. Inr (if k = 0 then BackupFull else BackupAsPlanned)\<rparr>"

lemma demo_part_limit: "validateBackupPartCount (pf_dirSize demo_preflight) demo_plan_config [demo_source] = None"
proof -
  have "mul64 (mul64 100 1024) 1024 = 104857600" "mul64 1000 5 = 5000" by (simp_all add: mul64_def int64_uint64)
  then show ?thesis
    by (simp add: validateBackupPartCount_def demo_preflight_def demo_plan_config_def demo_source_def estimatePartCountWithMargin_def
        partCountSafetyMarginPercent_def estimatePartCount_def trunc_div_def add64_def int64_uint64 MaxPartSequence_def)
qed



section \<open>Plans that start\<close>

lemma checks_passed:
  "snd (backupPreflightIssues ne free sources est partErr ykErr) = None \<longleftrightarrow>
     (\<forall>s \<in> set sources. SrcErr s = None) \<and> snd (validateTargetSpaceForBackup free est) = None \<and> partErr = None \<and> ykErr = None"
  by (auto simp: backupPreflightIssues_def Let_def List.map_filter_def validateSourceDirectories_def ValidatePreflightItems_def filter_empty_conv
      split: prod.splits list.splits if_splits)

text \<open>An error is shown exactly when the plan is blocked.\<close>

lemma errors_iff_blocked:
  "hasErrors (fst (backupPreflightIssues ne free sources est partErr ykErr)) \<longleftrightarrow> snd (backupPreflightIssues ne free sources est partErr ykErr) \<noteq> None"
  by (auto simp: backupPreflightIssues_def Let_def hasErrors_def list_ex_iff split: prod.splits list.splits)

lemma checked_plan_mode: "checked_plan E cfg sources infos r mode = (keys, folders, err) \<Longrightarrow> mode_plan E cfg sources infos r mode = (keys, folders)"
  by (auto simp: checked_plan_def Let_def split: prod.splits)

text \<open>A plan that starts is the checked plan of some mode, without an error.\<close>

lemma choose_loop_plan:
  "choose_loop E cfg sources infos r k mode = Some y \<Longrightarrow>
     \<exists>mode'. checked_plan E cfg sources infos r mode' = (fst y, fst (snd y), if fst (snd (snd y)) then None else snd (snd (checked_plan E cfg sources infos r mode')))"
proof (induction rule: choose_loop.raw_induct [rotated, consumes 1, case_names loop])
  case (loop f E cfg sources infos r k mode y)
  obtain keys folders err where p: "checked_plan E cfg sources infos r mode = (keys, folders, err)" by (metis prod_cases3)
  consider "fst y = keys" "fst (snd y) = folders" "fst (snd (snd y)) \<longrightarrow> err = None"
    | mode' where "f E cfg sources infos r (Suc k) mode' = Some y"
    using loop(2) by (auto simp: p split: if_splits sum.splits)
  then show ?case
  proof cases
    case 1
    then show ?thesis using p by (intro exI [of _ mode]) (auto simp: prod_eq_iff)
  next
    case 2
    from loop(1) [OF this] show ?thesis .
  qed
qed

lemma chosen_plan_checked:
  assumes "choosePlan E cfg sources infos k reason = Some (keys, folders, True, e)"
  shows "(\<forall>s \<in> set sources. SrcErr s = None) \<and> validateBackupPartCount (pf_dirSize E) cfg sources = None
    \<and> severalYubiKeys (pf_yubiKeys E) cfg keys = None
    \<and> (\<forall>free. pf_free E = Inr free \<longrightarrow> \<not> IsSpaceInsufficient (es_likely (estimate (planned_sizes E cfg sources infos) folders)) free)
    \<and> (\<exists>mode r. mode_plan E cfg sources infos r mode = (keys, folders))
    \<and> (\<forall>n f. folders n = Some f \<longrightarrow> Base f \<noteq> None \<longrightarrow> Existing keys \<noteq> None)"
proof -
  obtain r k' mode' where "choose_loop E cfg sources infos r k' mode' = Some (keys, folders, True, e)"
    using assms by (auto simp: choosePlan_def split: if_splits)
  then obtain mode where c: "checked_plan E cfg sources infos r mode = (keys, folders, None)" using choose_loop_plan by fastforce
  note m = checked_plan_mode [OF c]
  have x: "snd (backupPreflightIssues (pf_not_exist E) (pf_free E) sources (estimate (planned_sizes E cfg sources infos) folders)
      (validateBackupPartCount (pf_dirSize E) cfg sources) (severalYubiKeys (pf_yubiKeys E) cfg keys)) = None"
    using c m by (auto simp: checked_plan_def Let_def)
  note ok = x [unfolded checks_passed]
  have "\<exists>forceFull now ks. folders = Folders (pf_base_name E) (pf_format E) cfg infos sources ks forceFull now \<and> (\<not> forceFull \<longrightarrow> keys = ks)"
    using m by (cases mode) (auto simp: mode_plan_def Let_def)
  then obtain forceFull now ks where f: "folders = Folders (pf_base_name E) (pf_format E) cfg infos sources ks forceFull now" "\<not> forceFull \<longrightarrow> keys = ks" by blast
  have "Existing keys \<noteq> None" if "folders n = Some fo" "Base fo \<noteq> None" for n fo
  proof -
    have "fo = planFolder (pf_format E) cfg infos n ks forceFull now" using Folders_Some that(1) f(1) by metis
    then show ?thesis using that(2) f(2) by (auto simp: planFolder_def full_folder_def Let_def split: if_splits option.splits)
  qed
  moreover have "\<not> IsSpaceInsufficient (es_likely (estimate (planned_sizes E cfg sources infos) folders)) free" if "pf_free E = Inr free" for free
    using ok that by (auto simp: validateTargetSpaceForBackup_def split: if_splits)
  ultimately show ?thesis using ok m by blast
qed

text \<open>C35. The plan a backup starts with has passed every check: all source directories are usable or duplicates,
  the estimated space is free as far as the free space is known, the part limit holds and no second YubiKey is
  connected where the keys need one. It is one of the three plans the user was shown: with new keys every
  directory gets a full backup, and a differential is planned only with the current keys.\<close>

theorem started_plan_checked:
  assumes "choosePlan E cfg sources infos k reason = Some (keys, folders, True, e)"
  shows "(\<forall>s \<in> set sources. SrcErr s = None) \<and> validateBackupPartCount (pf_dirSize E) cfg sources = None
    \<and> severalYubiKeys (pf_yubiKeys E) cfg keys = None
    \<and> (\<forall>free. pf_free E = Inr free \<longrightarrow> \<not> IsSpaceInsufficient (es_likely (estimate (planned_sizes E cfg sources infos) folders)) free)
    \<and> (\<exists>mode r. mode_plan E cfg sources infos r mode = (keys, folders))
    \<and> (\<forall>n f. folders n = Some f \<longrightarrow> Base f \<noteq> None \<longrightarrow> Existing keys \<noteq> None)"
  by (rule chosen_plan_checked [OF assms])

definition demo_new_keys :: plan_keys where
  "demo_new_keys = \<lparr>Existing = None, NewKeysReason = ''No existing keys found in the backup directory''\<rparr>"

lemma demo_mode_plan:
  "mode_plan demo_preflight demo_plan_config [demo_source] [] r planAutomatic = (demo_new_keys, [''Docs'' \<mapsto> full_folder ''new keys''])"
  "mode_plan demo_preflight demo_plan_config [demo_source] [] r planFull = (demo_new_keys, [''Docs'' \<mapsto> full_folder ''full backup requested''])"
  by (simp_all add: mode_plan_def KeysFor_def CurrentKeySet_def Folders_def folder_name_def planFolder_def demo_new_keys_def demo_source_def)

lemma demo_sizes: "planned_sizes demo_preflight demo_plan_config [demo_source] [] =
    \<lparr>sz_names = [''Docs''], sz_measures = [''Docs'' \<mapsto> (1000, 0)], sz_diffs = \<lambda>_. False, sz_warnings = []\<rparr>"
  unfolding planned_sizes_def demo_mode_plan snd_conv
  by (simp add: measureSources_def measure_source_def folder_name_def full_folder_def demo_source_def demo_preflight_def Let_def fun_eq_iff)

lemma demo_checked:
  assumes "mode_plan demo_preflight demo_plan_config [demo_source] [] r mode = (demo_new_keys, [''Docs'' \<mapsto> full_folder t])"
  shows "checked_plan demo_preflight demo_plan_config [demo_source] [] r mode = (demo_new_keys, [''Docs'' \<mapsto> full_folder t], None)"
proof -
  have "severalYubiKeys (Inr 2) demo_plan_config demo_new_keys = None"
    by (simp add: severalYubiKeys_def demo_new_keys_def demo_plan_config_def AuthModeUsesYubiKey_def auth_mode_def)
  moreover have "snd (validateTargetSpaceForBackup (Inr 5000) (estimate (planned_sizes demo_preflight demo_plan_config [demo_source] []) [''Docs'' \<mapsto> full_folder t])) = None"
    by (simp add: validateTargetSpaceForBackup_def demo_sizes estimate_def estimate_folder_def plan_is_diff_def full_folder_def FolderIsDiff_def
        add64_exact IsSpaceInsufficient_def uint64_def)
  ultimately show ?thesis
    using assms demo_part_limit by (simp add: checked_plan_def checks_passed demo_preflight_def demo_source_def)
qed

lemma demo_choice:
  "choosePlan demo_preflight demo_plan_config [demo_source] [] 0 [] =
     Some (demo_new_keys, [''Docs'' \<mapsto> full_folder ''full backup requested''], True, None)"
proof -
  have a: "pf_ask demo_preflight 0 opts = Inr BackupFull" "pf_ask demo_preflight (Suc 0) opts = Inr BackupAsPlanned" for opts
    by (simp_all add: demo_preflight_def)
  have "choose_loop demo_preflight demo_plan_config [demo_source] [] r (Suc 0) planFull =
      Some (demo_new_keys, [''Docs'' \<mapsto> full_folder ''full backup requested''], True, None)" for r
    by (subst choose_loop.simps) (simp add: demo_checked [OF demo_mode_plan(2)] a)
  then show ?thesis
    unfolding choosePlan_def by (subst choose_loop.simps) (simp add: demo_checked [OF demo_mode_plan(1)] a)
qed

theorem started_plan_checked_witness: "severalYubiKeys (pf_yubiKeys demo_preflight) demo_plan_config demo_new_keys = None"
  using started_plan_checked [OF demo_choice] by blast

text \<open>C37. Choosing the plan ends as soon as the user starts the backup, cancels, or cannot be asked: whatever plans are
  looked at before, in whatever order, there is an outcome.\<close>

theorem choosePlan_ends:
  assumes "\<forall>opts. case pf_ask E n opts of Inl _ \<Rightarrow> True | Inr choice \<Rightarrow> choice = BackupAsPlanned \<or> choice = BackupCancel" "k \<le> n"
  shows "\<exists>y. choosePlan E cfg sources infos k reason = Some y"
proof -
  have "\<exists>y. choose_loop E cfg sources infos r k mode = Some y" if "k \<le> n" for r k mode
    using that
  proof (induction "n - k" arbitrary: k mode)
    case 0
    obtain keys folders err where p: "checked_plan E cfg sources infos r mode = (keys, folders, err)" by (metis prod_cases3)
    have "k = n" using 0 by simp
    with assms(1) show ?case
      by (subst choose_loop.simps) (auto simp: p split: sum.split dest: spec [of _ "start_options cfg sources infos (pf_base_name E) mode folders err"])
  next
    case (Suc d)
    then have IH: "\<exists>y. choose_loop E cfg sources infos r (Suc k) m = Some y" for m by simp
    obtain keys folders err where p: "checked_plan E cfg sources infos r mode = (keys, folders, err)" by (metis prod_cases3)
    show ?case
      by (subst choose_loop.simps) (use IH in \<open>auto simp: p split: sum.split\<close>)
  qed
  then show ?thesis using assms(2) by (simp add: choosePlan_def)
qed

theorem choosePlan_ends_witness: "\<exists>y. choosePlan demo_preflight demo_plan_config [demo_source] [] 0 [] = Some y"
  by (rule choosePlan_ends [where n = 1]) (simp_all add: demo_preflight_def)

end
