(* ===== verification/Jobs.thy ===== *)
theory Jobs
  imports BackupRun Lock Preflight
begin

text \<open>
  Restoring and verifying chosen sets (\<open>workflow/job/selection.go\<close> and \<open>restorepoints.go\<close>,
  \<open>workflow/restore\<close>, \<open>workflow/verify\<close>): the choice is checked against the inventory, the plan is confirmed,
  the keys are unlocked, and the restore points are read one after the other. Log lines, the report and the
  progress are left out; the facts of the log are kept.
\<close>

section \<open>The chosen sets\<close>

text \<open>The map of \<open>SelectSets\<close> keeps the last set of an entry.\<close>

definition info_of :: "set_info list \<Rightarrow> backup_entry \<Rightarrow> set_info option" where
  "info_of infos entry = find (\<lambda>i. Entry i = entry) (rev infos)"

fun select_loop :: "set_info list \<Rightarrow> backup_entry list \<Rightarrow> set_info list result" where
  "select_loop infos [] = Inr []"
| "select_loop infos (entry # entries) =
     (case info_of infos entry of
        None \<Rightarrow> Inl (Problem ''Backup %s is no longer in the backup directory.'')
      | Some info \<Rightarrow>
          if \<not> Complete info then Inl (Problem ''Backup %s cannot be used: %v'')
          else bindE (select_loop infos entries) (\<lambda>rest. Inr (info # rest)))"

definition SelectSets :: "set_info list \<Rightarrow> backup_entry list \<Rightarrow> set_info list result" where
  "SelectSets infos requested = (if requested = [] then Inl (Problem ''No backup chosen.'') else select_loop infos requested)"

record selection_item =
  it_Entry :: backup_entry
  it_PartCount :: nat
  it_TotalSizeBytes :: int
  it_Base :: "set_info option"
  it_Err :: "err option"

definition selection_item_of :: "set_info list \<Rightarrow> set_info \<Rightarrow> selection_item" where
  "selection_item_of inventory info =
     (let item = \<lparr>it_Entry = Entry info, it_PartCount = length (Parts info), it_TotalSizeBytes = SizeBytes info, it_Base = None, it_Err = Err info\<rparr>
      in if it_Err item = None \<and> IsDiff (Entry info)
         then (case BaseOf inventory (Entry info) of
             Inl e \<Rightarrow> item\<lparr>it_Err := Some e\<rparr>
           | Inr b \<Rightarrow> item\<lparr>it_Base := Some b, it_TotalSizeBytes := add64 (it_TotalSizeBytes item) (SizeBytes b)\<rparr>)
         else item)"

definition SelectionPreflight :: "set_info list \<Rightarrow> set_info list \<Rightarrow> selection_item list" where
  "SelectionPreflight selected inventory = map (selection_item_of inventory) selected"

definition SelectionBytes :: "selection_item list \<Rightarrow> int" where
  "SelectionBytes items = foldl (\<lambda>total item. if it_Err item = None then add64 total (it_TotalSizeBytes item) else total) 0 items"

section \<open>One restore point after the other\<close>

fun each_from :: "nat \<Rightarrow> set_info list \<Rightarrow> (nat \<Rightarrow> set_info \<Rightarrow> backup_entry option \<Rightarrow> 's \<Rightarrow> err option \<times> 's) \<Rightarrow> set_info list \<Rightarrow> 's \<Rightarrow> err option \<times> 's" where
  "each_from n inventory fn [] st = (None, st)"
| "each_from n inventory fn (info # infos) st =
     (case (if IsDiff (Entry info) then bindE (BaseOf inventory (Entry info)) (\<lambda>b. Inr (Some (Entry b))) else Inr None) of
        Inl e \<Rightarrow> (Some e, st)
      | Inr base \<Rightarrow> andThen (fn n info base st) (each_from (Suc n) inventory fn infos))"

definition EachRestorePoint :: "set_info list \<Rightarrow> set_info list \<Rightarrow> (nat \<Rightarrow> set_info \<Rightarrow> backup_entry option \<Rightarrow> 's \<Rightarrow> err option \<times> 's) \<Rightarrow> 's \<Rightarrow> err option \<times> 's" where
  "EachRestorePoint selected inventory fn st = each_from 1 inventory fn selected st"

text \<open>The two sets are opened one after the other, each as the directory is then.\<close>

definition OpenRestorePoint ::
  "format_env \<Rightarrow> backup_dir \<Rightarrow> backup_dir \<Rightarrow> backup_entry \<Rightarrow> backup_entry option \<Rightarrow> (open_set \<times> open_set option \<times> nat) result" where
  "OpenRestorePoint E d dBase entry base =
     bindE (open_dir_set E d entry) (\<lambda>(s, parts).
     case base of None \<Rightarrow> Inr (s, None, length parts)
     | Some b \<Rightarrow> (case open_dir_set E dBase b of
         Inl e \<Rightarrow> Inl (Wrapped ''Full backup %s: %w'' e)
       | Inr (bs, bparts) \<Rightarrow> Inr (s, Some bs, length parts + length bparts)))"

section \<open>The jobs and their surroundings\<close>

text \<open>The moments at which a job asks whether it was cancelled.\<close>

datatype job_moment = BeforeFolder nat | PointFailed nat | JobFailed

record job_env =
  jb_point :: point_env
  jb_lock :: read_lock
  jb_inventory :: "set_info list result"
  jb_dir :: "nat \<Rightarrow> bool \<Rightarrow> backup_dir"
  jb_log_opens :: bool
  jb_elems :: "string \<Rightarrow> string list"
  jb_free :: "string list \<Rightarrow> nat result"
  jb_confirm :: "bool result"
  jb_uis :: "nat \<Rightarrow> unlock_ui"
  jb_cancelled :: "job_moment \<Rightarrow> bool"
  jb_text :: "err \<Rightarrow> string"

record job_state =
  js_disk :: disk
  js_facts :: "fact list"

datatype job_outcome = Finished nat | Declined | Failed err

definition add_job_fact :: "fact \<Rightarrow> job_state \<Rightarrow> job_state" where
  "add_job_fact f st = st\<lparr>js_facts := js_facts st @ [f]\<rparr>"

text \<open>The unlocked master key of a set; Go's map gives the empty key for an ID it does not have.\<close>

definition master_of :: "(string \<times> bytes) list \<Rightarrow> set_info \<Rightarrow> bytes" where
  "master_of masters info = (case Option.bind (header_keys info) (\<lambda>ks. map_of masters (ks_ID ks)) of None \<Rightarrow> [] | Some m \<Rightarrow> m)"

definition selected_keysets :: "set_info list \<Rightarrow> keyset list" where
  "selected_keysets selected = List.map_filter header_keys selected"

section \<open>Folders\<close>

text \<open>\<open>os.MkdirAll\<close> on the reversed elements of a path: an existing folder is left alone, missing ones are made from the top.\<close>

fun mkdir_all :: "disk_env \<Rightarrow> string list \<Rightarrow> disk \<Rightarrow> err option \<times> disk" where
  "mkdir_all env [] d = (Some not_found, d)"
| "mkdir_all env (x # xs) d =
     (let p = rev (x # xs) in
      case os_call env d of (e, d) \<Rightarrow>
        if e = None \<and> dk_nodes d (node_key env p) \<noteq> None
          then (if is_dir env d p then (None, d) else (Some (IOError ''not a directory''), d))
        else andThen (if xs = [] then (None, d) else mkdir_all env xs d) (\<lambda>d.
          case os_create env p None d of
            (None, d) \<Rightarrow> (None, d)
          | (Some e, d) \<Rightarrow> (case os_call env d of (l, d) \<Rightarrow> if l = None \<and> is_dir env d p then (None, d) else (Some e, d))))"

definition MkdirAll :: "disk_env \<Rightarrow> string list \<Rightarrow> disk \<Rightarrow> err option \<times> disk" where
  "MkdirAll env p d = mkdir_all env (rev p) d"

text \<open>The folder a set is restored into: \<open>filepath.Join\<close> cleans the path.\<close>

definition output_dir :: "string list \<Rightarrow> backup_entry \<Rightarrow> string list" where
  "output_dir dest entry = clean_elems [] (dest @ [DirectoryName entry])"

section \<open>Restoring\<close>

record restore_item =
  ri_Selection :: selection_item
  ri_OutputDir :: "string list"
  ri_OutputDirErr :: "err option"

text \<open>\<open>os.Stat\<close> of the output folder: whether it answers without an error.\<close>

definition os_exists :: "disk_env \<Rightarrow> string list \<Rightarrow> disk \<Rightarrow> bool \<times> disk" where
  "os_exists env p d = (case os_call env d of (e, d) \<Rightarrow> (e = None \<and> dk_nodes d (node_key env p) \<noteq> None, d))"

fun restore_items :: "disk_env \<Rightarrow> string list \<Rightarrow> selection_item list \<Rightarrow> disk \<Rightarrow> restore_item list \<times> disk" where
  "restore_items env dest [] d = ([], d)"
| "restore_items env dest (sel # sels) d =
     (let out = output_dir dest (it_Entry sel);
          (e, d) = (case ValidateBackupEntryName (DirectoryName (it_Entry sel)) of
              Inl e \<Rightarrow> (Some e, d)
            | Inr _ \<Rightarrow> (case os_exists env out d of (ex, d) \<Rightarrow> (if ex then Some (Problem ''Restore directory already exists.'') else None, d)));
          (items, d) = restore_items env dest sels d
      in (\<lparr>ri_Selection = sel, ri_OutputDir = out, ri_OutputDirErr = e\<rparr> # items, d))"

definition buildRestorePreflight :: "disk_env \<Rightarrow> set_info list \<Rightarrow> set_info list \<Rightarrow> string list \<Rightarrow> disk \<Rightarrow> restore_item list \<times> disk" where
  "buildRestorePreflight env selected inventory dest d = restore_items env dest (SelectionPreflight selected inventory) d"

definition validateRestorePreflight :: "restore_item list \<Rightarrow> err option" where
  "validateRestorePreflight items = ValidatePreflightItems items (\<lambda>i. it_Err (ri_Selection i) \<noteq> None \<or> ri_OutputDirErr i \<noteq> None)
     ''Restore preflight failed: %d selected item(s) are invalid.''"

definition estimateRestoreBytes :: "restore_item list \<Rightarrow> int" where
  "estimateRestoreBytes items = SelectionBytes (map ri_Selection items)"

text \<open>The free space is asked of the nearest folder above that exists; \<open>stat p\<close> is \<open>None\<close> for an error, else whether \<open>p\<close> is a folder.\<close>

fun free_probe :: "(string list \<Rightarrow> bool option) \<Rightarrow> string list \<Rightarrow> string list option" where
  "free_probe stat [] = (if stat [] = Some True then Some [] else None)"
| "free_probe stat (x # xs) = (if stat (rev (x # xs)) = Some True then Some (rev (x # xs)) else free_probe stat xs)"

definition queryRestoreTargetFreeBytes :: "(string list \<Rightarrow> bool option) \<Rightarrow> (string list \<Rightarrow> nat result) \<Rightarrow> string list \<Rightarrow> nat result" where
  "queryRestoreTargetFreeBytes stat free p = (case free_probe stat (rev p) of None \<Rightarrow> free p | Some q \<Rightarrow> free q)"

definition InsufficientRestoreSpace :: err where
  "InsufficientRestoreSpace = Problem ''Insufficient free space for restore: needed %s, available %s.''"

definition validateRestoreTargetSpace :: "nat result \<Rightarrow> restore_item list \<Rightarrow> err option" where
  "validateRestoreTargetSpace free items =
     (if estimateRestoreBytes items \<le> 0 then None
      else case free of Inl _ \<Rightarrow> None
      | Inr f \<Rightarrow> if \<not> IsSpaceInsufficient (estimateRestoreBytes items) f then None
          else Some (Wrapped ''Restore preflight failed: %w'' InsufficientRestoreSpace))"

text \<open>One restore point: its own new folder, never an existing one. The result is the number of unread files.\<close>

definition restore_point_fact :: "backup_entry \<Rightarrow> manifest \<Rightarrow> fact" where
  "restore_point_fact entry m = (blank_fact FactRestore RunWarnings)
     \<lparr>f_Set := EntryString entry, f_Skipped := int (ReportSkippedFiles m), f_Stale := int (ReportStaleFiles m)\<rparr>"

definition restoreEntry ::
  "job_env \<Rightarrow> string list \<Rightarrow> nat \<Rightarrow> backup_entry \<Rightarrow> backup_entry option \<Rightarrow> bytes \<Rightarrow> job_state \<Rightarrow> nat result \<times> job_state" where
  "restoreEntry J dest n entry base master st =
     (case ValidateBackupEntryName (DirectoryName entry) of Inl e \<Rightarrow> (Inl e, st) | Inr _ \<Rightarrow>
      case OpenRestorePoint (pe_format (jb_point J)) (jb_dir J n False) (jb_dir J n True) entry base of Inl e \<Rightarrow> (Inl e, st) | Inr (s, b, parts) \<Rightarrow>
      if jb_cancelled J (BeforeFolder n) then (Inl (Cancelled ''context canceled''), st)
      else case MkdirAll (pe_disk (jb_point J)) dest (js_disk st) of
        (Some e, d) \<Rightarrow> (Inl (Wrapped ''Failed to create restore directory: %w.'' e), st\<lparr>js_disk := d\<rparr>)
      | (None, d) \<Rightarrow>
      case os_create (pe_disk (jb_point J)) (output_dir dest entry) None d of
        (Some e, d) \<Rightarrow> (Inl (if e = already_exists then Problem ''Restore directory already exists: %s.''
            else Wrapped ''Failed to create restore directory: %w.'' e), st\<lparr>js_disk := d\<rparr>)
      | (None, d) \<Rightarrow>
      case RestorePoint (jb_point J) s b master (output_dir dest entry) d of
        (Inl e, r) \<Rightarrow> (Inl e, st\<lparr>js_disk := r_disk r\<rparr>)
      | (Inr m, r) \<Rightarrow>
          let unread = ReportSkippedFiles m + ReportStaleFiles m; st = st\<lparr>js_disk := r_disk r\<rparr>
          in (Inr unread, if unread > 0 then add_job_fact (restore_point_fact entry m) st else st))"

definition restore_step ::
  "job_env \<Rightarrow> string list \<Rightarrow> (string \<times> bytes) list \<Rightarrow> nat \<Rightarrow> set_info \<Rightarrow> backup_entry option \<Rightarrow> nat \<times> job_state \<Rightarrow> err option \<times> nat \<times> job_state" where
  "restore_step J dest masters n info base x = (case x of (skipped, st) \<Rightarrow>
     case restoreEntry J dest n (Entry info) base (master_of masters info) st of
       (Inl e, st) \<Rightarrow> (Some (Wrapped ''Failed to restore directory %q: %w'' e), skipped, st)
     | (Inr missing, st) \<Rightarrow> (None, skipped + missing, st))"

definition restoreAll ::
  "job_env \<Rightarrow> string list \<Rightarrow> (string \<times> bytes) list \<Rightarrow> set_info list \<Rightarrow> set_info list \<Rightarrow> job_state \<Rightarrow> nat result \<times> job_state" where
  "restoreAll J dest masters selected inventory st =
     (case EachRestorePoint selected inventory (restore_step J dest masters) (0, st) of
        (Some e, _, st) \<Rightarrow> (Inl e, st)
      | (None, skipped, st) \<Rightarrow> (Inr skipped, st))"

text \<open>\<open>operation.run\<close>: a failure after cancelling is reported as cancelled.\<close>

definition job_error :: "job_env \<Rightarrow> string \<Rightarrow> err \<Rightarrow> err" where
  "job_error J action e = (if jb_cancelled J JobFailed then Cancelled (action @ '' cancelled.'') else e)"

definition restore_operation ::
  "job_env \<Rightarrow> string list \<Rightarrow> (string \<times> bytes) list \<Rightarrow> set_info list \<Rightarrow> set_info list \<Rightarrow> nat \<Rightarrow> job_state \<Rightarrow> job_outcome \<times> job_state" where
  "restore_operation J dest masters selected inventory warnings st =
     (case restoreAll J dest masters selected inventory st of
        (Inl e, st) \<Rightarrow> (Failed (job_error J ''Restore'' e), st)
      | (Inr unread, st) \<Rightarrow> (Finished (if unread > 0 then Suc warnings else warnings), st))"

text \<open>The warnings before the start: a log that cannot be opened, a lock that holds nothing.\<close>

definition early_warnings :: "job_env \<Rightarrow> bool \<Rightarrow> nat" where
  "early_warnings J lockIssue = (if jb_log_opens J then 0 else 1) + (if lockIssue then 1 else 0)"

definition start_job :: "disk \<Rightarrow> job_state" where
  "start_job d = \<lparr>js_disk = d, js_facts = []\<rparr>"

text \<open>What both jobs begin with: the lock, the inventory, the chosen sets. The result has the issue of the lock.\<close>

definition choose_sets :: "job_env \<Rightarrow> backup_entry list \<Rightarrow> (bool \<times> set_info list \<times> set_info list) result" where
  "choose_sets J requested =
     bindE (LockForReading (jb_lock J)) (\<lambda>lockIssue.
     case jb_inventory J of Inl e \<Rightarrow> Inl (Wrapped ''Failed to scan backup directory %q: %w.'' e) | Inr infos \<Rightarrow>
     bindE (SelectSets infos requested) (\<lambda>selected. Inr (lockIssue, infos, selected)))"

text \<open>What both jobs ask before they start: to start, and for the keys.\<close>

definition confirm_and_unlock :: "job_env \<Rightarrow> set_info list \<Rightarrow> (string \<times> bytes) list option result" where
  "confirm_and_unlock J selected =
     bindE (jb_confirm J) (\<lambda>confirmed.
     if \<not> confirmed then Inr None
     else bindE (UnlockKeySets (fe_C (pe_format (jb_point J))) (jb_uis J) (selected_keysets selected) []) (\<lambda>masters. Inr (Some masters)))"

definition os_stat :: "disk_env \<Rightarrow> disk \<Rightarrow> string list \<Rightarrow> bool option" where
  "os_stat env d p = map_option (\<lambda>n. dn_data n = None) (dk_nodes d (node_key env p))"

definition RestoreRun :: "job_env \<Rightarrow> backup_entry list \<Rightarrow> string \<Rightarrow> disk \<Rightarrow> job_outcome \<times> job_state" where
  "RestoreRun J requested destination d =
     (if TrimSpace destination = [] then (Failed (Problem ''No restore destination chosen.''), start_job d)
      else case choose_sets J requested of Inl e \<Rightarrow> (Failed e, start_job d) | Inr (lockIssue, infos, selected) \<Rightarrow>
      let dest = jb_elems J destination;
          (items, d) = buildRestorePreflight (pe_disk (jb_point J)) selected infos dest d;
          free = queryRestoreTargetFreeBytes (os_stat (pe_disk (jb_point J)) d) (jb_free J) dest
      in case validateRestorePreflight items of Some e \<Rightarrow> (Failed e, start_job d) | None \<Rightarrow>
      case validateRestoreTargetSpace free items of Some e \<Rightarrow> (Failed e, start_job d) | None \<Rightarrow>
      case confirm_and_unlock J selected of
        Inl e \<Rightarrow> (Failed e, start_job d)
      | Inr None \<Rightarrow> (Declined, start_job d)
      | Inr (Some masters) \<Rightarrow> restore_operation J dest masters selected infos (early_warnings J lockIssue) (start_job d))"

section \<open>Verifying\<close>

definition verifyEntry :: "job_env \<Rightarrow> nat \<Rightarrow> backup_entry \<Rightarrow> backup_entry option \<Rightarrow> bytes \<Rightarrow> job_state \<Rightarrow> nat result \<times> job_state" where
  "verifyEntry J n entry base master st =
     (case OpenRestorePoint (pe_format (jb_point J)) (jb_dir J n False) (jb_dir J n True) entry base of Inl e \<Rightarrow> (Inl e, st) | Inr (s, b, parts) \<Rightarrow>
      case VerifyPoint (jb_point J) s b master (js_disk st) of
        (Inl e, r) \<Rightarrow> (Inl e, st\<lparr>js_disk := r_disk r\<rparr>)
      | (Inr m, r) \<Rightarrow> (Inr (ReportSkippedFiles m), st\<lparr>js_disk := r_disk r\<rparr>))"

definition job_verify_fact :: "job_env \<Rightarrow> backup_entry \<Rightarrow> err option \<Rightarrow> fact" where
  "job_verify_fact J entry e = (case e of
     None \<Rightarrow> (blank_fact FactVerify RunOK)\<lparr>f_Set := EntryString entry\<rparr>
   | Some e \<Rightarrow> (blank_fact FactVerify RunFailed)\<lparr>f_Set := EntryString entry, f_Error := jb_text J e\<rparr>)"

definition verify_step ::
  "job_env \<Rightarrow> (string \<times> bytes) list \<Rightarrow> nat \<Rightarrow> set_info \<Rightarrow> backup_entry option \<Rightarrow> nat \<times> job_state \<Rightarrow> err option \<times> nat \<times> job_state" where
  "verify_step J masters n info base x = (case x of (skipped, st) \<Rightarrow>
     case verifyEntry J n (Entry info) base (master_of masters info) st of
       (Inl e, st) \<Rightarrow> (Some (Wrapped ''Failed to verify directory %q: %w'' e), skipped,
          if jb_cancelled J (PointFailed n) then st else add_job_fact (job_verify_fact J (Entry info) (Some e)) st)
     | (Inr missing, st) \<Rightarrow> (None, skipped + missing, add_job_fact (job_verify_fact J (Entry info) None) st))"

definition verifyAll ::
  "job_env \<Rightarrow> (string \<times> bytes) list \<Rightarrow> set_info list \<Rightarrow> set_info list \<Rightarrow> job_state \<Rightarrow> nat result \<times> job_state" where
  "verifyAll J masters selected inventory st =
     (case EachRestorePoint selected inventory (verify_step J masters) (0, st) of
        (Some e, _, st) \<Rightarrow> (Inl e, st)
      | (None, skipped, st) \<Rightarrow> (Inr skipped, st))"

definition verify_operation ::
  "job_env \<Rightarrow> (string \<times> bytes) list \<Rightarrow> set_info list \<Rightarrow> set_info list \<Rightarrow> nat \<Rightarrow> job_state \<Rightarrow> job_outcome \<times> job_state" where
  "verify_operation J masters selected inventory warnings st =
     (case verifyAll J masters selected inventory st of
        (Inl e, st) \<Rightarrow> (Failed (job_error J ''Verification'' e), st)
      | (Inr skipped, st) \<Rightarrow> (Finished (if skipped > 0 then Suc warnings else warnings), st))"

definition validateVerifyPreflight :: "selection_item list \<Rightarrow> err option" where
  "validateVerifyPreflight items = ValidatePreflightItems items (\<lambda>i. it_Err i \<noteq> None)
     ''Verification preflight failed: %d selected item(s) are incomplete or invalid.''"

definition VerifyRun :: "job_env \<Rightarrow> backup_entry list \<Rightarrow> disk \<Rightarrow> job_outcome \<times> job_state" where
  "VerifyRun J requested d =
     (case choose_sets J requested of Inl e \<Rightarrow> (Failed e, start_job d) | Inr (lockIssue, infos, selected) \<Rightarrow>
      case validateVerifyPreflight (SelectionPreflight selected infos) of Some e \<Rightarrow> (Failed e, start_job d) | None \<Rightarrow>
      case confirm_and_unlock J selected of
        Inl e \<Rightarrow> (Failed e, start_job d)
      | Inr None \<Rightarrow> (Declined, start_job d)
      | Inr (Some masters) \<Rightarrow> verify_operation J masters selected infos (early_warnings J lockIssue) (start_job d))"

section \<open>What restoring touches\<close>

text \<open>A folder in which something is created gets a new last-write time; nothing else of it changes.\<close>

definition kept :: "dnode \<Rightarrow> dnode \<Rightarrow> bool" where
  "kept n n' \<longleftrightarrow> n' = n \<or> dn_data n = None \<and> n' = n\<lparr>dn_written := None\<rparr>"

lemma kept_refl [simp]: "kept n n"
  by (simp add: kept_def)

lemma kept_trans: "kept n n' \<Longrightarrow> kept n' n'' \<Longrightarrow> kept n n''"
  by (auto simp: kept_def)

lemma kept_folder: "kept n n' \<Longrightarrow> dn_data n' = None \<longleftrightarrow> dn_data n = None"
  by (auto simp: kept_def)

definition kept_or_made :: "dnode option \<Rightarrow> dnode option \<Rightarrow> bool" where
  "kept_or_made x y \<longleftrightarrow> (case x of None \<Rightarrow> y = None \<or> (\<exists>n. y = Some n \<and> dn_data n = None) | Some n \<Rightarrow> \<exists>n'. y = Some n' \<and> kept n n')"

lemma kept_or_made_refl [simp]: "kept_or_made x x"
  by (simp add: kept_or_made_def split: option.splits)

lemma kept_or_made_trans: "kept_or_made x y \<Longrightarrow> kept_or_made y z \<Longrightarrow> kept_or_made x z"
  by (auto simp: kept_or_made_def kept_folder intro: kept_trans split: option.splits)

text \<open>Making the folders of a path: only nodes on the path change, and those are kept or made.\<close>

definition path_made :: "string list \<Rightarrow> disk \<Rightarrow> disk \<Rightarrow> bool" where
  "path_made p d d' \<longleftrightarrow> (\<forall>k. dk_nodes d' k = dk_nodes d k \<or> k = take (length k) p \<and> kept_or_made (dk_nodes d k) (dk_nodes d' k))"

lemma path_made_refl: "dk_nodes d' = dk_nodes d \<Longrightarrow> path_made p d d'"
  by (simp add: path_made_def)

lemma path_made_trans: "path_made p d d' \<Longrightarrow> path_made p d' d'' \<Longrightarrow> path_made p d d''"
  unfolding path_made_def
proof (intro allI)
  fix k
  assume a: "\<forall>k. dk_nodes d' k = dk_nodes d k \<or> k = take (length k) p \<and> kept_or_made (dk_nodes d k) (dk_nodes d' k)"
    and b: "\<forall>k. dk_nodes d'' k = dk_nodes d' k \<or> k = take (length k) p \<and> kept_or_made (dk_nodes d' k) (dk_nodes d'' k)"
  from spec [OF a, of k] spec [OF b, of k] kept_or_made_trans
  show "dk_nodes d'' k = dk_nodes d k \<or> k = take (length k) p \<and> kept_or_made (dk_nodes d k) (dk_nodes d'' k)" by auto
qed

lemma path_made_longer:
  assumes "path_made p d d'" shows "path_made (p @ q) d d'"
proof -
  have "k = take (length k) (p @ q)" if "k = take (length k) p" for k
  proof -
    have "length k \<le> length p" using that by (metis length_take min.cobounded1 min.commute)
    then show ?thesis using that by simp
  qed
  then show ?thesis using assms unfolding path_made_def by meson
qed

lemma call_nodes: "dk_nodes (snd (os_call env d)) = dk_nodes d"
  by (simp add: os_call_def)

lemma create_made: "path_made (node_key env p) d (snd (os_create env p None d))"
  by (auto simp: os_create_def os_call_def andThen_def path_made_def add_node_def kept_or_made_def kept_def new_node_def
      node_key_def butlast_conv_take take_map is_dir_def split: option.splits)

lemma mkdir_all_made: "path_made (node_key env (rev xs)) d (snd (mkdir_all env xs d))"
proof (induction xs arbitrary: d)
  case Nil then show ?case by (simp add: path_made_refl)
next
  case (Cons x xs)
  let ?p = "rev (x # xs)"
  let ?top = "\<lambda>d. if xs = [] then (None, d) else mkdir_all env xs d"
  let ?mk = "\<lambda>d. case os_create env ?p None d of (None, d) \<Rightarrow> (None, d)
     | (Some e, d) \<Rightarrow> (case os_call env d of (l, d) \<Rightarrow> if l = None \<and> is_dir env d ?p then (None, d) else (Some e, d))"
  have call: "path_made (node_key env ?p) d (snd (os_call env d))" for d by (rule path_made_refl, rule call_nodes)
  have top: "path_made (node_key env ?p) d (snd (?top d))" for d
    using path_made_longer [OF Cons.IH [of d], of "[de_fold env x]"] by (auto simp: node_key_def path_made_refl)
  have mk: "path_made (node_key env ?p) d (snd (?mk d))" for d
    using create_made [of env ?p d] call [of "snd (os_create env ?p None d)"]
    by (auto simp: split: prod.splits option.splits intro: path_made_trans)
  obtain e d1 where c: "os_call env d = (e, d1)" by fastforce
  have "path_made (node_key env ?p) d1 (snd (andThen (?top d1) ?mk))"
    using top [of d1] mk by (cases "?top d1") (auto simp: andThen_def split: option.splits intro: path_made_trans)
  moreover have "path_made (node_key env ?p) d d1" using call [of d] c by simp
  ultimately show ?case
    by (auto simp: c Let_def simp del: rev.simps intro: path_made_trans)
qed

lemma MkdirAll_made: "path_made (node_key env p) d (snd (MkdirAll env p d))"
  using mkdir_all_made [of env "rev p" d] by (simp add: MkdirAll_def)

lemma name_safe: "ValidateBackupEntryName name = Inr () \<Longrightarrow> name \<noteq> [] \<and> name \<noteq> ''.'' \<and> name \<noteq> ''..''"
  by (auto simp: ValidateBackupEntryName_def split: if_splits)

lemma output_dir_eq:
  assumes "clean_elems [] dest = dest" "ValidateBackupEntryName (DirectoryName entry) = Inr ()"
  shows "output_dir dest entry = dest @ [DirectoryName entry]" "clean_elems [] (output_dir dest entry) = output_dir dest entry"
proof -
  have "clean_elems [] (dest @ [DirectoryName entry]) = dest @ [DirectoryName entry]"
    using name_safe [OF assms(2)] assms(1) by (simp add: clean_elems_append)
  then show "output_dir dest entry = dest @ [DirectoryName entry]" "clean_elems [] (output_dir dest entry) = output_dir dest entry"
    by (simp_all add: output_dir_def)
qed

text \<open>
  The effect of restoring one set with key \<open>out\<close>: what is not on the path to the folder is as before, except
  in the folder itself when it was not there before; nodes on the path are kept or made.
\<close>

definition point_effect :: "string list \<Rightarrow> string list \<Rightarrow> disk \<Rightarrow> disk \<Rightarrow> bool" where
  "point_effect dest out d d' \<longleftrightarrow> (\<forall>k. dk_nodes d' k = dk_nodes d k
     \<or> k = take (length k) dest \<and> kept_or_made (dk_nodes d k) (dk_nodes d' k)
     \<or> dk_nodes d out = None \<and> (\<exists>q. k = out @ q))"

lemma path_made_effect: "path_made dest d d' \<Longrightarrow> point_effect dest out d d'"
  by (auto simp: path_made_def point_effect_def)

lemma created:
  assumes "os_create env p data d = (None, d')"
  shows "dk_nodes d (node_key env p) = None" "dk_nodes d' (node_key env p) = Some (new_node data)" "is_dir env d (butlast p)"
    "k \<noteq> node_key env p \<Longrightarrow> dk_nodes d' k = (if k = node_key env (butlast p) then map_option (\<lambda>n. n\<lparr>dn_written := None\<rparr>) (dk_nodes d k) else dk_nodes d k)"
  using assms by (auto simp: os_create_def os_call_def andThen_def add_node_def is_dir_def split: option.splits if_splits)

lemma create_fails: "os_create env p data d = (e, d') \<Longrightarrow> e \<noteq> None \<Longrightarrow> dk_nodes d' = dk_nodes d"
  by (auto simp: os_create_def os_call_def andThen_def split: option.splits if_splits)

lemma restore_outside:
  assumes "clean_elems [] out = out" "\<nexists>q. k = node_key (pe_disk P) out @ q"
  shows "dk_nodes (r_disk (snd (RestorePoint P s base master out d))) k = dk_nodes d k"
proof -
  let ?env = "point_restorer P False False out \<lparr>m_Header = undefined, m_Entries = [], m_Footer = undefined\<rparr>"
  have "same_outside ?env d (r_disk (snd (read_point P s base master out False d)))"
    by (rule same_read_point) (use assms(1) in \<open>simp add: dest_clean_def point_restorer_def\<close>)
  moreover have "\<not> below ?env k" "k \<noteq> dest_key ?env" using assms(2) by (auto simp: below_def dest_key_def point_restorer_def)
  ultimately show ?thesis by (simp add: same_outside_def RestorePoint_def)
qed

text \<open>A folder with no parents to worry about: the path of \<open>out\<close> is \<open>dest\<close> and one name.\<close>

lemma restore_effect:
  assumes c: "os_create env out None d = (None, d1)" and env: "env = pe_disk P" and o: "out = dest @ [name]" "clean_elems [] out = out"
  shows "point_effect (node_key env dest) (node_key env out) d (r_disk (snd (RestorePoint P s base master out d1)))"
  unfolding point_effect_def
proof (intro allI)
  fix k
  let ?d2 = "r_disk (snd (RestorePoint P s base master out d1))"
  note cr = created [OF c]
  show "dk_nodes ?d2 k = dk_nodes d k \<or> k = take (length k) (node_key env dest) \<and> kept_or_made (dk_nodes d k) (dk_nodes ?d2 k)
     \<or> dk_nodes d (node_key env out) = None \<and> (\<exists>q. k = node_key env out @ q)"
  proof (cases "\<exists>q. k = node_key env out @ q")
    case True then show ?thesis using cr(1) by blast
  next
    case False
    then have n: "dk_nodes ?d2 k = dk_nodes d1 k" "k \<noteq> node_key env out" using restore_outside [OF o(2)] env by (blast, force)
    show ?thesis
    proof (cases "k = node_key env (butlast out)")
      case True
      then have "k = take (length k) (node_key env dest)" using o(1) by (simp add: node_key_def)
      moreover have "kept_or_made (dk_nodes d k) (dk_nodes d1 k)"
        using cr(3) cr(4) [OF n(2)] True by (auto simp: is_dir_def kept_or_made_def kept_def)
      ultimately show ?thesis using n(1) by simp
    next
      case False then show ?thesis using cr(4) [OF n(2)] n(1) by simp
    qed
  qed
qed

lemma effect_after_path:
  assumes "path_made dest d d1" "point_effect dest out d1 d2" "length dest < length out"
  shows "point_effect dest out d d2"
  unfolding point_effect_def
proof (intro allI)
  fix k
  have "out \<noteq> take (length out) dest" using assms(3) by (metis length_take min.cobounded1 not_le)
  then have o: "dk_nodes d1 out = dk_nodes d out" using assms(1) unfolding path_made_def by metis
  from assms(1) have p: "dk_nodes d1 k = dk_nodes d k \<or> k = take (length k) dest \<and> kept_or_made (dk_nodes d k) (dk_nodes d1 k)" by (simp add: path_made_def)
  from assms(2) have e: "dk_nodes d2 k = dk_nodes d1 k \<or> k = take (length k) dest \<and> kept_or_made (dk_nodes d1 k) (dk_nodes d2 k)
     \<or> dk_nodes d1 out = None \<and> (\<exists>q. k = out @ q)" by (simp add: point_effect_def)
  show "dk_nodes d2 k = dk_nodes d k \<or> k = take (length k) dest \<and> kept_or_made (dk_nodes d k) (dk_nodes d2 k)
     \<or> dk_nodes d out = None \<and> (\<exists>q. k = out @ q)"
    using p e unfolding o by (auto intro: kept_or_made_trans)
qed

text \<open>Whatever happens to one set, its effect is that of a restore into its own new folder.\<close>

lemma restoreEntry_effect:
  assumes "clean_elems [] dest = dest" and env: "env = pe_disk (jb_point J)"
  shows "point_effect (node_key env dest) (node_key env (dest @ [DirectoryName entry])) (js_disk st)
    (js_disk (snd (restoreEntry J dest n entry base master st)))"
proof (cases "\<exists>s b parts d d1. ValidateBackupEntryName (DirectoryName entry) = Inr ()
    \<and> OpenRestorePoint (pe_format (jb_point J)) (jb_dir J n False) (jb_dir J n True) entry base = Inr (s, b, parts)
    \<and> MkdirAll env dest (js_disk st) = (None, d) \<and> \<not> jb_cancelled J (BeforeFolder n)
    \<and> os_create env (output_dir dest entry) None d = (None, d1)")
  case False
  obtain e0 d0 where m: "MkdirAll env dest (js_disk st) = (e0, d0)" by fastforce
  obtain e1 d1 where c: "os_create env (output_dir dest entry) None d0 = (e1, d1)" by fastforce
  let ?d = "js_disk (snd (restoreEntry J dest n entry base master st))"
  have "?d = js_disk st \<or> ?d = d0 \<or> e1 \<noteq> None \<and> ?d = d1"
    using False m c by (auto simp: restoreEntry_def env split: sum.splits prod.splits option.splits)
  then have "dk_nodes ?d = dk_nodes (js_disk st) \<or> dk_nodes ?d = dk_nodes d0" using create_fails [OF c] by auto
  moreover have "path_made (node_key env dest) (js_disk st) d0" using MkdirAll_made [of env dest "js_disk st"] m by simp
  ultimately have "path_made (node_key env dest) (js_disk st) ?d" by (auto simp: path_made_def)
  then show ?thesis by (rule path_made_effect)
next
  case True
  then obtain s b parts d d1 where v: "ValidateBackupEntryName (DirectoryName entry) = Inr ()"
    and o: "OpenRestorePoint (pe_format (jb_point J)) (jb_dir J n False) (jb_dir J n True) entry base = Inr (s, b, parts)"
    and m: "MkdirAll env dest (js_disk st) = (None, d)" and nc: "\<not> jb_cancelled J (BeforeFolder n)"
    and c: "os_create env (output_dir dest entry) None d = (None, d1)" by blast
  note out = output_dir_eq [OF assms(1) v]
  obtain x r where rp: "RestorePoint (jb_point J) s b master (output_dir dest entry) d1 = (x, r)" by fastforce
  have "js_disk (snd (restoreEntry J dest n entry base master st)) = r_disk r"
    using v o m nc c rp by (auto simp: restoreEntry_def env Let_def add_job_fact_def split: sum.splits)
  moreover have "point_effect (node_key env dest) (node_key env (dest @ [DirectoryName entry])) d (r_disk r)"
    using restore_effect [OF c env out, of s b master] rp out(1) by simp
  moreover have "path_made (node_key env dest) (js_disk st) d" using MkdirAll_made [of env dest "js_disk st"] m by simp
  ultimately show ?thesis using effect_after_path by (metis length_append_singleton length_map lessI node_key_def)
qed

section \<open>What was there stays\<close>

lemma each_keeps:
  assumes "\<And>n info base st. P st \<Longrightarrow> P (snd (fn n info base st))" "P st"
  shows "P (snd (each_from n inventory fn infos st))"
  using assms(2)
proof (induction infos arbitrary: n st)
  case Nil then show ?case by simp
next
  case (Cons info infos)
  define b where "b = (if IsDiff (Entry info) then bindE (BaseOf inventory (Entry info)) (\<lambda>b. Inr (Some (Entry b))) else Inr None)"
  show ?case
  proof (cases b)
    case (Inl e) then show ?thesis using Cons.prems by (simp add: b_def [symmetric])
  next
    case (Inr base)
    obtain e st' where f: "fn n info base st = (e, st')" by fastforce
    have r: "P st'" using assms(1) [OF Cons.prems, of n info base] f by simp
    then show ?thesis using Cons.IH [OF r, of "Suc n"] f Inr by (auto simp: b_def [symmetric] andThen_def split: option.splits)
  qed
qed

text \<open>Every node has its folder.\<close>

definition has_folders :: "disk \<Rightarrow> bool" where
  "has_folders d \<longleftrightarrow> (\<forall>k x. k \<noteq> [] \<longrightarrow> dk_nodes d (k @ [x]) \<noteq> None \<longrightarrow> dk_nodes d k \<noteq> None)"

lemma has_folders_above: "has_folders d \<Longrightarrow> k \<noteq> [] \<Longrightarrow> dk_nodes d (k @ q) \<noteq> None \<Longrightarrow> dk_nodes d k \<noteq> None"
proof (induction q rule: rev_induct)
  case (snoc x q)
  then show ?case unfolding has_folders_def by (metis append_assoc append_is_Nil_conv)
qed simp

definition all_kept :: "disk \<Rightarrow> disk \<Rightarrow> bool" where
  "all_kept d0 d \<longleftrightarrow> (\<forall>k n. dk_nodes d0 k = Some n \<longrightarrow> (\<exists>n'. dk_nodes d k = Some n' \<and> kept n n'))"

lemma all_kept_refl: "dk_nodes d = dk_nodes d0 \<Longrightarrow> all_kept d0 d"
  by (auto simp: all_kept_def)

lemma effect_keeps:
  assumes "has_folders d0" "all_kept d0 d" "point_effect dest out d d'" "out \<noteq> []"
  shows "all_kept d0 d'"
  unfolding all_kept_def
proof (intro allI impI)
  fix k n
  assume n: "dk_nodes d0 k = Some n"
  then obtain n1 where n1: "dk_nodes d k = Some n1" "kept n n1" using assms(2) by (auto simp: all_kept_def)
  have "\<not> (dk_nodes d out = None \<and> (\<exists>q. k = out @ q))"
  proof
    assume a: "dk_nodes d out = None \<and> (\<exists>q. k = out @ q)"
    then have "dk_nodes d0 out \<noteq> None" using has_folders_above [OF assms(1,4)] n by auto
    then show False using a assms(2) unfolding all_kept_def by fastforce
  qed
  then have "dk_nodes d' k = dk_nodes d k \<or> kept_or_made (dk_nodes d k) (dk_nodes d' k)" using assms(3) unfolding point_effect_def by blast
  then show "\<exists>n'. dk_nodes d' k = Some n' \<and> kept n n'"
    using n1 by (auto simp: kept_or_made_def intro: kept_trans)
qed

lemma exists_nodes: "dk_nodes (snd (os_exists env p d)) = dk_nodes d"
  by (simp add: os_exists_def os_call_def)

lemma restore_items_nodes: "dk_nodes (snd (restore_items env dest sels d)) = dk_nodes d"
proof (induction sels arbitrary: d)
  case (Cons sel sels)
  obtain ex d1 where e: "os_exists env (output_dir dest (it_Entry sel)) d = (ex, d1)" by fastforce
  then have "dk_nodes d1 = dk_nodes d" using exists_nodes [of env "output_dir dest (it_Entry sel)" d] by simp
  then show ?case using Cons.IH [of d1] Cons.IH [of d] e by (auto simp: Let_def split: sum.splits prod.splits)
qed simp

lemma preflight_nodes: "buildRestorePreflight env selected inventory dest d = (items, d') \<Longrightarrow> dk_nodes d' = dk_nodes d"
  using restore_items_nodes [of env dest "SelectionPreflight selected inventory" d] by (simp add: buildRestorePreflight_def)

lemma restore_step_effect:
  assumes "clean_elems [] dest = dest"
  shows "point_effect (node_key (pe_disk (jb_point J)) dest) (node_key (pe_disk (jb_point J)) (dest @ [DirectoryName (Entry info)]))
    (js_disk (snd x)) (js_disk (snd (snd (restore_step J dest masters n info base x))))"
  using restoreEntry_effect [OF assms refl, of J "Entry info" "snd x" n base "master_of masters info"]
  by (auto simp: restore_step_def split: prod.splits sum.splits)

lemma restoreAll_keeps:
  assumes "clean_elems [] dest = dest" "has_folders d0" "all_kept d0 (js_disk st)"
  shows "all_kept d0 (js_disk (snd (restoreAll J dest masters selected inventory st)))"
proof -
  have "all_kept d0 (js_disk (snd (snd (each_from 1 inventory (restore_step J dest masters) selected (0, st)))))"
    by (rule each_keeps [where P = "\<lambda>x. all_kept d0 (js_disk (snd x))"])
       (use assms(3) effect_keeps [OF assms(2) _ restore_step_effect [OF assms(1)]] in \<open>auto simp: node_key_def\<close>)
  then show ?thesis by (auto simp: restoreAll_def EachRestorePoint_def split: prod.splits option.splits)
qed

end
