(* ===== verification/JobResults.thy ===== *)
theory JobResults
  imports Jobs
begin

text \<open>
  What the jobs of the theory \<open>Jobs\<close> come to (\<open>workflow/restore/run.go\<close>, \<open>workflow/verify/workflow.go\<close>): a
  restore overwrites nothing and a finished one is whole; a verification tells the truth about every chosen set.
\<close>

section \<open>Restoring overwrites nothing\<close>

text \<open>C6. A restore overwrites nothing: whatever is restored, however many sets, and however it ends, with success,
  an error at any moment or cancelled, every file that was there before is still there with its content, times and
  attributes, and so is every folder; only a folder in which something was created has a new last-write time.\<close>

theorem restore_overwrites_nothing:
  assumes "clean_elems [] (jb_elems J destination) = jb_elems J destination" "has_folders d" "dk_nodes d k = Some n"
  shows "\<exists>n'. dk_nodes (js_disk (snd (RestoreRun J requested destination d))) k = Some n' \<and> kept n n'"
proof -
  have start: "all_kept d d'" if "buildRestorePreflight env selected inventory dest d = (items, d')" for env selected inventory dest items d'
    using all_kept_refl [OF preflight_nodes [OF that]] .
  have ops: "all_kept d (js_disk (snd (restore_operation J (jb_elems J destination) masters selected infos w (start_job d'))))"
    if "buildRestorePreflight env selected inventory dest d = (items, d')" for env selected inventory dest items d' masters infos w
    using restoreAll_keeps [OF assms(1,2), of "start_job d'" J masters selected infos] start [OF that]
    by (auto simp: restore_operation_def start_job_def split: prod.splits sum.splits)
  have "all_kept d (js_disk (snd (RestoreRun J requested destination d)))"
    using start ops all_kept_refl [of d d] by (auto simp: RestoreRun_def start_job_def Let_def split: sum.splits prod.splits option.splits)
  then show ?thesis using assms(3) by (simp add: all_kept_def)
qed

section \<open>What a finished restore has restored\<close>

lemma run_keeps_dest:
  assumes run: "restore_run env ss d0 = (None, r)" and mode: "\<not> rv_verify env" "\<not> rv_own env"
    and env: "dest_clean env" "fresh_dest env d0" "distinct (map Path (m_Entries (rv_target env)))"
      "\<forall>(decide, s) \<in> set ss. picks_from env decide"
  shows "dk_nodes (r_disk r) (dest_key env) \<noteq> None"
proof -
  obtain r1 r2 where c: "CreateDirectories env (NewRestorer d0) = (None, r1)" and x: "extract_all env ss r1 = (None, r2)"
    and f: "Finish env r2 = (None, r)" using run by (auto simp: restore_run_def andThen_None)
  let ?ds = "dir_entries env"
  have inv: "restore_inv env d0 (members ss) ?ds r2"
    using extract_all_inv [OF mode(1) env(1,3) x env(4)] CreateDirectories_inv [OF c mode(1) env(1,2)] by blast
  let ?sorted = "sort_by (\<lambda>a b. depth a > depth b) ?ds"
  have fd: "finish_dirs env ?sorted r2 = (None, r)"
    using f mode(1) by (auto simp: Finish_def dir_entries_def split: if_splits)
  have "distinct (map (entry_key env) ?sorted)" using restore_inv_distinct [OF inv] by simp
  moreover have "dest_key env \<notin> entry_key env ` set ?sorted" using below_entry(2) by (metis imageE)
  ultimately have "dk_nodes (r_disk r) (dest_key env) = dk_nodes (r_disk r2) (dest_key env)"
    using finish_dirs_None [OF fd env(1)] restore_inv_dirs [OF inv] by auto
  then show ?thesis using inv by (auto simp: restore_inv_def Let_def)
qed

lemma read_paths:
  assumes "ReadManifest E content s keys = Inr (m, msum)"
  shows "distinct (map Path (m_Entries m))"
proof -
  obtain src where "DecodeManifest (fe_lower E) (fe_lines E) src = Inr m"
    using assms by (auto simp: ReadManifest_def Let_def e_iff split: sum.splits prod.splits if_splits)
  then have "ValidateManifest (fe_lower E) m = Inr ()"
    by (auto simp: DecodeManifest_def Let_def e_iff split: prod.splits if_splits)
  then have "distinct (map (\<lambda>e. fe_lower E (Path e)) (m_Entries m))" using ValidateManifest_entries by (auto simp: entries_ok_def)
  then show ?thesis by (auto simp: distinct_map inj_on_def)
qed

lemma open_point_paths:
  assumes "open_point P s base master = Inr (m, keys, bks)" shows "distinct (map Path (m_Entries m))"
proof -
  obtain msum where "ReadManifest (pe_format P) (snd s) (fst s) keys = Inr (m, msum)"
    using assms by (auto simp: open_point_def Let_def e_iff split: if_splits option.splits sum.splits)
  then show ?thesis by (rule read_paths)
qed

lemma section_None:
  assumes "decrypt_section P k env s keys decide r = (None, r')"
  shows "\<exists>ts. ExtractSection env decide (fst ts) (snd ts) r = (None, r')"
  using assms by (auto simp: decrypt_section_def Let_def pipe_error_def split: sum.splits prod.splits option.splits if_splits)

text \<open>A restore point that was read to its end is a finished run of the restorer.\<close>

lemma read_point_run:
  assumes "read_point P s base master dest v d = (Inr m, r)"
  shows "\<exists>ss. restore_run (point_restorer P v False dest m) ss d = (None, r)
    \<and> (\<forall>(decide, s) \<in> set ss. picks_from (point_restorer P v False dest m) decide) \<and> distinct (map Path (m_Entries m))"
proof -
  let ?env = "point_restorer P v False dest m"
  obtain m' keys bks where o: "open_point P s base master = Inr (m', keys, bks)" using assms by (auto simp: read_point_def split: sum.splits)
  have m': "m' = m" using assms by (auto simp: read_point_def o Let_def split: prod.splits option.splits)
  have run: "andThen (CreateDirectories ?env (NewRestorer d)) (\<lambda>r.
      andThen (case bks of None \<Rightarrow> (None, r) | Some (b, bk) \<Rightarrow> decrypt_section P 0 ?env b bk (DecideFromBase m) r) (\<lambda>r.
      andThen (decrypt_section P 1 ?env s keys (DecideOwn m) r) (Finish ?env))) = (None, r)"
    using assms by (auto simp: read_point_def o m' Let_def split: prod.splits option.splits)
  obtain r1 r2 r3 where c: "CreateDirectories ?env (NewRestorer d) = (None, r1)"
    and b: "(case bks of None \<Rightarrow> (None, r1) | Some (b, bk) \<Rightarrow> decrypt_section P 0 ?env b bk (DecideFromBase m) r1) = (None, r2)"
    and own: "decrypt_section P 1 ?env s keys (DecideOwn m) r2 = (None, r3)" and f: "Finish ?env r3 = (None, r)"
    using run by (auto simp: andThen_None)
  obtain ts where ts: "ExtractSection ?env (DecideOwn m) (fst ts) (snd ts) r2 = (None, r3)" using section_None [OF own] by blast
  have pick: "picks_from ?env (DecideOwn m)" "picks_from ?env (DecideFromBase m)"
    using picks [of ?env] by (simp_all add: point_restorer_def)
  note paths = open_point_paths [OF o, unfolded m']
  show ?thesis
  proof (cases bks)
    case None
    then show ?thesis using c b ts f pick paths
      by (intro exI [of _ "[(DecideOwn m, ts)]"]) (cases ts, auto simp: restore_run_def andThen_None)
  next
    case (Some x)
    obtain bs bk where x: "x = (bs, bk)" by (cases x)
    obtain ts0 where t0: "ExtractSection ?env (DecideFromBase m) (fst ts0) (snd ts0) r1 = (None, r2)"
      using section_None b Some x by fastforce
    then show ?thesis using c ts f pick paths
      by (intro exI [of _ "[(DecideFromBase m, ts0), (DecideOwn m, ts)]"]) (cases ts, cases ts0, auto simp: restore_run_def andThen_None)
  qed
qed

text \<open>
  The folder of a set on the disk \<open>d\<close> is what reading its restore point with the keys left there, and that is
  exactly the target of its manifest; \<open>unread\<close> counts the files the backup could not read.
\<close>

definition needs_base :: "set_info list \<Rightarrow> set_info \<Rightarrow> backup_entry option \<Rightarrow> bool" where
  "needs_base inventory info base \<longleftrightarrow>
     (if IsDiff (Entry info) then \<exists>b. BaseOf inventory (Entry info) = Inr b \<and> base = Some (Entry b) else base = None)"

definition restored_point :: "job_env \<Rightarrow> string list \<Rightarrow> (string \<times> bytes) list \<Rightarrow> set_info list \<Rightarrow> nat \<Rightarrow> set_info \<Rightarrow> nat \<Rightarrow> disk \<Rightarrow> bool" where
  "restored_point J dest masters inventory n info unread d \<longleftrightarrow>
     (\<exists>base s b parts m d1 r T. needs_base inventory info base
        \<and> OpenRestorePoint (pe_format (jb_point J)) (jb_dir J n False) (jb_dir J n True) (Entry info) base = Inr (s, b, parts)
        \<and> RestorePoint (jb_point J) s b (master_of masters info) (output_dir dest (Entry info)) d1 = (Inr m, r)
        \<and> restored (point_restorer (jb_point J) False False (output_dir dest (Entry info)) m) d1 T (r_disk r)
        \<and> unread = ReportSkippedFiles m + ReportStaleFiles m
        \<and> (\<forall>q. dk_nodes d (node_key (pe_disk (jb_point J)) (output_dir dest (Entry info)) @ q)
              = dk_nodes (r_disk r) (node_key (pe_disk (jb_point J)) (output_dir dest (Entry info)) @ q)))"

text \<open>Below a missing entry of the destination there is nothing.\<close>

definition empty_gaps :: "string list \<Rightarrow> disk \<Rightarrow> bool" where
  "empty_gaps dest d \<longleftrightarrow> (\<forall>x q. dk_nodes d (dest @ [x]) = None \<longrightarrow> dk_nodes d (dest @ x # q) = None)"

lemma has_folders_gaps: "has_folders d \<Longrightarrow> empty_gaps dest d"
  using has_folders_above [of d "dest @ [x]" for x] unfolding empty_gaps_def by fastforce

definition stands :: "job_env \<Rightarrow> string list \<Rightarrow> (string \<times> bytes) list \<Rightarrow> set_info list \<Rightarrow> nat \<Rightarrow> set_info \<Rightarrow> nat \<Rightarrow> disk \<Rightarrow> bool" where
  "stands J dest masters inventory n info u d \<longleftrightarrow> restored_point J dest masters inventory n info u d
     \<and> ValidateBackupEntryName (DirectoryName (Entry info)) = Inr ()
     \<and> dk_nodes d (node_key (pe_disk (jb_point J)) (output_dir dest (Entry info))) \<noteq> None"

lemma longer_key: "length dest < length k \<Longrightarrow> k \<noteq> take (length k) dest"
  by (metis length_take min.cobounded1 not_le)

lemma effect_apart:
  assumes "point_effect dest out d d'" "dk_nodes d o1 \<noteq> None" "length o1 = length out" "length dest < length o1"
  shows "dk_nodes d' (o1 @ q) = dk_nodes d (o1 @ q)"
proof -
  have "length dest < length (o1 @ q)" using assms(4) by simp
  note longer_key [OF this]
  moreover have "\<not> (dk_nodes d out = None \<and> (\<exists>q'. o1 @ q = out @ q'))" using assms(2,3) by (metis append_eq_append_conv)
  ultimately show ?thesis using assms(1) unfolding point_effect_def by blast
qed

lemma stands_stays:
  assumes c: "clean_elems [] dest = dest" and s: "stands J dest masters inventory n info u d"
    and e: "point_effect (node_key (pe_disk (jb_point J)) dest) (node_key (pe_disk (jb_point J)) (dest @ [x])) d d'"
  shows "stands J dest masters inventory n info u d'"
proof -
  let ?key = "node_key (pe_disk (jb_point J))"
  have o: "output_dir dest (Entry info) = dest @ [DirectoryName (Entry info)]" using output_dir_eq [OF c] s by (simp add: stands_def)
  have "dk_nodes d' (?key (output_dir dest (Entry info)) @ q) = dk_nodes d (?key (output_dir dest (Entry info)) @ q)" for q
    by (rule effect_apart [OF e]) (use s o in \<open>auto simp: stands_def node_key_def\<close>)
  from this this [of "[]"] s show ?thesis by (simp add: stands_def restored_point_def)
qed

lemma restoreEntry_done:
  assumes run: "restoreEntry J dest n (Entry info) base (master_of masters info) st = (Inr k, st')"
    and c: "clean_elems [] dest = dest" and g: "empty_gaps (node_key (pe_disk (jb_point J)) dest) (js_disk st)" and b: "needs_base inventory info base"
  shows "stands J dest masters inventory n info k (js_disk st') \<and> empty_gaps (node_key (pe_disk (jb_point J)) dest) (js_disk st')"
proof -
  define P where "P = jb_point J"
  define env where "env = pe_disk P"
  define out where "out = output_dir dest (Entry info)"
  obtain s bs parts d d1 m r where v: "ValidateBackupEntryName (DirectoryName (Entry info)) = Inr ()"
    and o: "OpenRestorePoint (pe_format P) (jb_dir J n False) (jb_dir J n True) (Entry info) base = Inr (s, bs, parts)"
    and m: "MkdirAll env dest (js_disk st) = (None, d)" and cr: "os_create env out None d = (None, d1)"
    and rp: "RestorePoint P s bs (master_of masters info) out d1 = (Inr m, r)" and st': "js_disk st' = r_disk r"
    and k: "k = ReportSkippedFiles m + ReportStaleFiles m"
    using run by (auto simp: restoreEntry_def P_def env_def out_def Let_def add_job_fact_def split: sum.splits prod.splits option.splits if_splits)
  note out = output_dir_eq [OF c v, folded out_def]
  note created = created [OF cr]
  let ?r = "point_restorer P False False out m" and ?dest = "node_key env dest" and ?x = "de_fold env (DirectoryName (Entry info))"
  have ko: "node_key env out = ?dest @ [?x]" using out(1) by (simp add: node_key_def)
  have path: "dk_nodes d (?dest @ y # q) = dk_nodes (js_disk st) (?dest @ y # q)" for y q
  proof -
    have "length ?dest < length (?dest @ y # q)" by simp
    from longer_key [OF this] MkdirAll_made [of env dest "js_disk st"] show ?thesis unfolding m path_made_def snd_conv by blast
  qed
  have at: "dk_nodes d1 (?dest @ y # q) = (if y # q = [?x] then Some (new_node None) else dk_nodes (js_disk st) (?dest @ y # q))" for y q
    using created(2) created(4) [of "?dest @ y # q"] path [of y q] out(1) by (auto simp: ko node_key_def)
  have gap: "dk_nodes (js_disk st) (?dest @ ?x # q) = None" for q
    using g created(1) path [of ?x "[]"] unfolding empty_gaps_def ko P_def [symmetric] env_def [symmetric] by simp
  have rd: "rv_disk ?r = env" "rv_dest ?r = out" by (simp_all add: point_restorer_def env_def)
  have dk: "dest_key ?r = node_key env out" using rd by (simp add: dest_key_def)
  have fresh: "fresh_dest ?r d1"
    using at [of ?x] gap created(2) unfolding fresh_dest_def below_def dk ko by (auto simp: new_node_def)
  have clean: "dest_clean ?r" using out(2) rd by (simp add: dest_clean_def)
  obtain ss where ss: "restore_run ?r ss d1 = (None, r)" "\<forall>(decide, s) \<in> set ss. picks_from ?r decide" "distinct (map Path (m_Entries m))"
    using read_point_run [OF rp [unfolded RestorePoint_def]] by blast
  have paths: "distinct (map Path (m_Entries (rv_target ?r)))" using ss(3) by simp
  have modes: "\<not> rv_verify ?r" "\<not> rv_own ?r" by simp_all
  have node: "dk_nodes (r_disk r) (node_key env out) \<noteq> None" using run_keeps_dest [OF ss(1) modes clean fresh paths ss(2)] dk by simp
  have whole: "restored ?r d1 (members ss) (r_disk r)" by (rule run_restored [OF ss(1) modes clean fresh paths ss(2)])
  have point: "restored_point J dest masters inventory n info k (js_disk st')"
    unfolding restored_point_def st'
    by (rule exI [of _ base], rule exI [of _ s], rule exI [of _ bs], rule exI [of _ parts], rule exI [of _ m], rule exI [of _ d1], rule exI [of _ r],
        rule exI [of _ "members ss"]) (use b o rp whole k in \<open>simp add: P_def out_def\<close>)
  have "dk_nodes (r_disk r) (?dest @ y # q) = dk_nodes (js_disk st) (?dest @ y # q)" if "y \<noteq> ?x" for y q
    using restore_outside [OF out(2), of "?dest @ y # q" P s bs "master_of masters info" d1] at [of y q] that rp ko by (auto simp: env_def)
  then have "empty_gaps ?dest (r_disk r)" using g node unfolding empty_gaps_def ko P_def [symmetric] env_def [symmetric] by metis
  then show ?thesis using point v node by (simp add: stands_def st' P_def env_def out_def)
qed

lemma each_restored:
  assumes c: "clean_elems [] dest = dest"
  shows "each_from n inventory (restore_step J dest masters) infos (k, st) = (None, k', st') \<Longrightarrow>
    empty_gaps (node_key (pe_disk (jb_point J)) dest) (js_disk st) \<Longrightarrow>
    (\<exists>us. length us = length infos \<and> k' = k + sum_list us \<and> (\<forall>i < length infos. stands J dest masters inventory (n + i) (infos ! i) (us ! i) (js_disk st')))
    \<and> (\<forall>n0 info0 u0. stands J dest masters inventory n0 info0 u0 (js_disk st) \<longrightarrow> stands J dest masters inventory n0 info0 u0 (js_disk st'))"
proof (induction infos arbitrary: n k st)
  case Nil then show ?case by simp
next
  case (Cons info infos)
  obtain base where b: "(if IsDiff (Entry info) then bindE (BaseOf inventory (Entry info)) (\<lambda>b. Inr (Some (Entry b))) else Inr None) = Inr base"
    using Cons.prems(1) by (auto split: sum.splits simp del: bindE_def)
  then have nb: "needs_base inventory info base" by (auto simp: needs_base_def e_iff split: if_splits)
  obtain k1 st1 where step: "restore_step J dest masters n info base (k, st) = (None, k1, st1)"
    and rest: "each_from (Suc n) inventory (restore_step J dest masters) infos (k1, st1) = (None, k', st')"
    using Cons.prems(1) b by (auto simp: andThen_None)
  obtain j where e: "restoreEntry J dest n (Entry info) base (master_of masters info) st = (Inr j, st1)" and k1: "k1 = k + j"
    using step by (auto simp: restore_step_def split: sum.splits prod.splits)
  note first = restoreEntry_done [OF e c Cons.prems(2) nb]
  note IH = Cons.IH [OF rest conjunct2 [OF first]]
  then obtain us where us: "length us = length infos" "k' = k1 + sum_list us"
    "\<forall>i < length infos. stands J dest masters inventory (Suc n + i) (infos ! i) (us ! i) (js_disk st')" by blast
  have "stands J dest masters inventory n0 info0 u0 (js_disk st1)" if "stands J dest masters inventory n0 info0 u0 (js_disk st)" for n0 info0 u0
    using stands_stays [OF c that restoreEntry_effect [OF c refl, of J "Entry info" st n base "master_of masters info"]] e by simp
  moreover have "\<exists>us. length us = length (info # infos) \<and> k' = k + sum_list us
      \<and> (\<forall>i < length (info # infos). stands J dest masters inventory (n + i) ((info # infos) ! i) (us ! i) (js_disk st'))"
    using us k1 first IH by (intro exI [of _ "j # us"]) (auto simp: nth_Cons' less_Suc_eq_0_disj)
  ultimately show ?case using IH by blast
qed

lemma select_loop_Inr:
  "select_loop infos requested = Inr selected \<Longrightarrow> map Entry selected = requested \<and> set selected \<subseteq> set infos \<and> (\<forall>s \<in> set selected. Complete s)"
proof (induction requested arbitrary: selected)
  case (Cons entry entries)
  obtain info rest where "info_of infos entry = Some info" "Complete info" "select_loop infos entries = Inr rest" "selected = info # rest"
    using Cons.prems by (auto simp: e_iff split: option.splits if_splits)
  moreover from this(1) have "Entry info = entry" "info \<in> set infos" by (auto simp: info_of_def find_Some_iff) (metis length_rev nth_mem set_rev)
  ultimately show ?case using Cons.IH by auto
qed simp

lemma chosen:
  assumes "choose_sets J requested = Inr (lockIssue, infos, selected)"
  shows "jb_inventory J = Inr infos" "map Entry selected = requested" "set selected \<subseteq> set infos" "\<forall>s \<in> set selected. Complete s" "requested \<noteq> []"
    "jb_lock J = (if lockIssue then ReadUnlocked else ReadLocked)"
proof -
  have s: "SelectSets infos requested = Inr selected" and i: "jb_inventory J = Inr infos" and l: "LockForReading (jb_lock J) = Inr lockIssue"
    using assms by (auto simp: choose_sets_def e_iff split: sum.splits)
  from s have "select_loop infos requested = Inr selected" "requested \<noteq> []" by (auto simp: SelectSets_def split: if_splits)
  with select_loop_Inr i l show "jb_inventory J = Inr infos" "map Entry selected = requested" "set selected \<subseteq> set infos" "\<forall>s \<in> set selected. Complete s" "requested \<noteq> []"
    "jb_lock J = (if lockIssue then ReadUnlocked else ReadLocked)" by (auto simp: LockForReading_def split: read_lock.splits)
qed

text \<open>C5. A restore that reports success has restored every chosen set completely: each stands in its own new folder
  with exactly the files and folders of its manifest, a differential read together with the full backup of its chain, and
  no later set of the run has changed it; without warnings, no file is missing or older because the backup could not read it.\<close>

theorem finished_restore_whole:
  assumes "RestoreRun J requested destination d = (Finished w, st)"
    and "clean_elems [] (jb_elems J destination) = jb_elems J destination" "has_folders d"
  shows "\<exists>infos selected masters us. jb_inventory J = Inr infos \<and> map Entry selected = requested \<and> length us = length selected
    \<and> (\<forall>i < length selected. selected ! i \<in> set infos \<and> Complete (selected ! i)
        \<and> restored_point J (jb_elems J destination) masters infos (Suc i) (selected ! i) (us ! i) (js_disk st))
    \<and> (w = 0 \<longrightarrow> set us \<subseteq> {0} \<and> jb_lock J = ReadLocked)"
proof -
  let ?dest = "jb_elems J destination"
  obtain lockIssue infos selected where c: "choose_sets J requested = Inr (lockIssue, infos, selected)"
    using assms(1) by (auto simp: RestoreRun_def split: if_splits sum.splits)
  obtain items d' where p: "buildRestorePreflight (pe_disk (jb_point J)) selected infos ?dest d = (items, d')" by fastforce
  obtain masters where op: "restore_operation J ?dest masters selected infos (early_warnings J lockIssue) (start_job d') = (Finished w, st)"
    using assms(1) by (auto simp: RestoreRun_def c p Let_def split: if_splits sum.splits option.splits)
  obtain unread where all: "each_from 1 infos (restore_step J ?dest masters) selected (0, start_job d') = (None, unread, st)"
    and w: "w = (if unread > 0 then Suc (early_warnings J lockIssue) else early_warnings J lockIssue)"
    using op by (auto simp: restore_operation_def restoreAll_def EachRestorePoint_def split: sum.splits prod.splits option.splits)
  have "has_folders d'" using assms(3) preflight_nodes [OF p] by (simp add: has_folders_def)
  then have "empty_gaps (node_key (pe_disk (jb_point J)) ?dest) (js_disk (start_job d'))" by (simp add: start_job_def has_folders_gaps)
  from each_restored [OF assms(2) all this] obtain us where us: "length us = length selected" "unread = sum_list us"
    "\<forall>i < length selected. stands J ?dest masters infos (1 + i) (selected ! i) (us ! i) (js_disk st)" by auto
  have "set us \<subseteq> {0} \<and> jb_lock J = ReadLocked" if "w = 0"
    using that w us(2) chosen(6) [OF c] by (auto simp: early_warnings_def split: if_splits)
  then show ?thesis using us(1,3) chosen [OF c] by (intro exI [of _ infos] exI [of _ selected] exI [of _ masters] exI [of _ us]) (auto simp: stands_def)
qed

section \<open>What a verification says\<close>

text \<open>One chosen set, verified with its full backup: what was read and how many files the backup could not read.\<close>

definition verified_point :: "job_env \<Rightarrow> (string \<times> bytes) list \<Rightarrow> set_info list \<Rightarrow> nat \<Rightarrow> set_info \<Rightarrow> disk \<Rightarrow> bool" where
  "verified_point J masters inventory n info d \<longleftrightarrow>
     (\<exists>base s b parts m r. needs_base inventory info base
        \<and> OpenRestorePoint (pe_format (jb_point J)) (jb_dir J n False) (jb_dir J n True) (Entry info) base = Inr (s, b, parts)
        \<and> VerifyPoint (jb_point J) s b (master_of masters info) d = (Inr m, r))"

definition good_facts :: "job_env \<Rightarrow> set_info list \<Rightarrow> fact list" where
  "good_facts J infos = map (\<lambda>info. job_verify_fact J (Entry info) None) infos"

lemma verifyEntry_cases:
  assumes "verifyEntry J n (Entry info) base (master_of masters info) st = (x, st')" "needs_base inventory info base"
  shows "st' = st" "x = Inr k \<Longrightarrow> verified_point J masters inventory n info (js_disk st)"
  using assms verify_disk by (auto simp: verifyEntry_def verified_point_def split: sum.splits prod.splits) (metis fst_conv snd_conv job_state.surjective job_state.update_convs(1))+

text \<open>The state after some sets: those before the failing one are verified and have a good fact each.\<close>

lemma each_verified:
  "each_from n inventory (verify_step J masters) infos (k, st) = (e, k', st') \<Longrightarrow>
    js_disk st' = js_disk st \<and> (\<exists>i \<le> length infos. (\<forall>j < i. verified_point J masters inventory (n + j) (infos ! j) (js_disk st))
      \<and> (if e = None then i = length infos \<and> js_facts st' = js_facts st @ good_facts J infos
         else i < length infos \<and> (js_facts st' = js_facts st @ good_facts J (take i infos)
           \<or> (\<exists>err. js_facts st' = js_facts st @ good_facts J (take i infos) @ [job_verify_fact J (Entry (infos ! i)) (Some err)]))))"
proof (induction infos arbitrary: n k st)
  case Nil then show ?case by (simp add: good_facts_def)
next
  case (Cons info infos)
  define b where "b = (if IsDiff (Entry info) then bindE (BaseOf inventory (Entry info)) (\<lambda>b. Inr (Some (Entry b))) else Inr None)"
  show ?case
  proof (cases b)
    case (Inl err) then show ?thesis using Cons.prems by (auto simp: b_def [symmetric] good_facts_def)
  next
    case (Inr base)
    then have nb: "needs_base inventory info base" by (auto simp: b_def needs_base_def e_iff split: if_splits)
    obtain x st1 where v: "verifyEntry J n (Entry info) base (master_of masters info) st = (x, st1)" by fastforce
    note vc = verifyEntry_cases [OF v nb]
    show ?thesis
    proof (cases x)
      case (Inl err)
      then have "e \<noteq> None \<and> js_disk st' = js_disk st \<and> (js_facts st' = js_facts st \<or> js_facts st' = js_facts st @ [job_verify_fact J (Entry info) (Some err)])"
        using Cons.prems Inr v vc(1) by (auto simp: b_def [symmetric] verify_step_def andThen_def add_job_fact_def split: if_splits)
      then show ?thesis by (intro conjI exI [of _ 0]) (auto simp: good_facts_def)
    next
      case (Inr j)
      let ?st = "add_job_fact (job_verify_fact J (Entry info) None) st"
      have rest: "each_from (Suc n) inventory (verify_step J masters) infos (k + j, ?st) = (e, k', st')"
      proof -
        have "verify_step J masters n info base (k, st) = (None, k + j, ?st)" using v vc(1) Inr by (simp add: verify_step_def)
        then show ?thesis using Cons.prems \<open>b = Inr base\<close> by (simp add: b_def [symmetric] andThen_None)
      qed
      obtain i where d: "js_disk st' = js_disk ?st" and i: "i \<le> length infos"
        "\<forall>j < i. verified_point J masters inventory (Suc n + j) (infos ! j) (js_disk ?st)"
        "if e = None then i = length infos \<and> js_facts st' = js_facts ?st @ good_facts J infos
         else i < length infos \<and> (js_facts st' = js_facts ?st @ good_facts J (take i infos)
           \<or> (\<exists>err. js_facts st' = js_facts ?st @ good_facts J (take i infos) @ [job_verify_fact J (Entry (infos ! i)) (Some err)]))"
        using Cons.IH [OF rest] by blast
      have s: "js_disk ?st = js_disk st" "js_facts ?st = js_facts st @ [job_verify_fact J (Entry info) None]" by (simp_all add: add_job_fact_def)
      have "\<forall>j < Suc i. verified_point J masters inventory (n + j) ((info # infos) ! j) (js_disk st)"
        using i(2) vc(2) [OF Inr] s(1) by (auto simp: nth_Cons' less_Suc_eq_0_disj)
      then show ?thesis using d i(1,3) s by (intro conjI exI [of _ "Suc i"]) (auto simp: good_facts_def split: if_splits)
    qed
  qed
qed

text \<open>C8. A verification tells the truth: it changes nothing on the disk; the facts it leaves in the log say of the chosen sets,
  in their order and up to the first failure, that they are good, and each of those was read to its end and
  checked, a differential together with its full backup; a failure is the last fact. It reports success only when every
  chosen set was verified.\<close>

theorem verification_tells_truth:
  assumes "VerifyRun J requested d = (res, st)"
  shows "js_disk st = d \<and> (js_facts st = [] \<and> (\<nexists>w. res = Finished w)
     \<or> (\<exists>infos selected masters i. jb_inventory J = Inr infos \<and> map Entry selected = requested \<and> i \<le> length selected
         \<and> (\<forall>j < i. verified_point J masters infos (Suc j) (selected ! j) d)
         \<and> (js_facts st = good_facts J (take i selected)
            \<or> i < length selected \<and> (\<exists>err. js_facts st = good_facts J (take i selected) @ [job_verify_fact J (requested ! i) (Some err)]))
         \<and> ((\<exists>w. res = Finished w) \<longleftrightarrow> i = length selected)))"
proof (cases "\<exists>lockIssue infos selected masters. choose_sets J requested = Inr (lockIssue, infos, selected)
    \<and> validateVerifyPreflight (SelectionPreflight selected infos) = None \<and> confirm_and_unlock J selected = Inr (Some masters)")
  case False
  then have "(\<nexists>w. res = Finished w) \<and> st = start_job d"
    using assms by (auto simp: VerifyRun_def split: sum.splits prod.splits option.splits)
  then show ?thesis by (simp add: start_job_def)
next
  case True
  then obtain lockIssue infos selected masters where c: "choose_sets J requested = Inr (lockIssue, infos, selected)"
    and p: "validateVerifyPreflight (SelectionPreflight selected infos) = None" and u: "confirm_and_unlock J selected = Inr (Some masters)" by blast
  have op: "verify_operation J masters selected infos (early_warnings J lockIssue) (start_job d) = (res, st)"
    using assms by (simp add: VerifyRun_def c p u)
  obtain e k where each: "each_from 1 infos (verify_step J masters) selected (0, start_job d) = (e, k, st)"
    and res: "(\<exists>w. res = Finished w) \<longleftrightarrow> e = None"
    using op by (auto simp: verify_operation_def verifyAll_def EachRestorePoint_def split: sum.splits prod.splits option.splits)
  have s: "js_disk (start_job d) = d" "js_facts (start_job d) = []" by (simp_all add: start_job_def)
  note ch = chosen(1,2) [OF c]
  obtain i where i: "js_disk st = d" "i \<le> length selected" "\<forall>j < i. verified_point J masters infos (1 + j) (selected ! j) d"
    "if e = None then i = length selected \<and> js_facts st = good_facts J selected
     else i < length selected \<and> (js_facts st = good_facts J (take i selected)
       \<or> (\<exists>err. js_facts st = good_facts J (take i selected) @ [job_verify_fact J (Entry (selected ! i)) (Some err)]))"
    using each_verified [OF each] unfolding s append_Nil by blast
  have "i < length selected \<Longrightarrow> Entry (selected ! i) = requested ! i" using ch(2) by auto
  then have "(js_facts st = good_facts J (take i selected)
      \<or> i < length selected \<and> (\<exists>err. js_facts st = good_facts J (take i selected) @ [job_verify_fact J (requested ! i) (Some err)]))
    \<and> ((\<exists>w. res = Finished w) \<longleftrightarrow> i = length selected)"
    using i(2,4) res by (auto split: if_splits)
  moreover have "\<forall>j < i. verified_point J masters infos (Suc j) (selected ! j) d" using i(3) by simp
  ultimately show ?thesis using i(1,2) ch by blast
qed

section \<open>An example\<close>

definition demo_job_disk :: disk where
  "demo_job_disk = \<lparr>dk_nodes = [[''C''] \<mapsto> new_node None, [''C'', ''out''] \<mapsto> new_node None, [''C'', ''notes''] \<mapsto> new_node (Some [9])], dk_calls = 0\<rparr>"

text \<open>A backup directory with one full backup of two parts \<open>ps\<close>; the free space is unknown, and the user types the password.\<close>

definition demo_job :: "bytes list \<Rightarrow> job_env" where
  "demo_job ps = \<lparr>jb_point = pair_point, jb_lock = ReadLocked, jb_inventory = Inventory pair_format rev (demo_backup_dir ps),
     jb_dir = \<lambda>_ _. demo_backup_dir ps, jb_log_opens = True, jb_elems = \<lambda>_. [''C'', ''out''], jb_free = \<lambda>_. Inl EOF,
     jb_confirm = Inr True, jb_uis = \<lambda>_. (demo_ui [])\<lparr>AskPassword := \<lambda>_ _. Inr [4, 5]\<rparr>, jb_cancelled = \<lambda>_. False, jb_text = \<lambda>_. []\<rparr>"

lemma demo_job_disk_ok: "has_folders demo_job_disk" "clean_elems [] (jb_elems (demo_job ps) destination) = jb_elems (demo_job ps) destination"
  by (auto simp: has_folders_def demo_job_disk_def demo_job_def append_eq_Cons_conv)

lemma demo_job_chosen:
  assumes "length ps = 2" "OpenSet pair_format (parts_content ps) (part_sizes ps) = Inr st" "set_Header st = demo_header"
  shows "\<exists>s. choose_sets (demo_job ps) [demo_entry] = Inr (False, [s], [s]) \<and> Complete s \<and> Entry s = demo_entry \<and> Header s = Some demo_header"
proof -
  obtain s where "Inventory pair_format rev (demo_backup_dir ps) = Inr [s]" "Complete s" "Entry s = demo_entry" "Header s = Some demo_header"
    using demo_inventory [OF assms shuffle_id(2)] by blast
  then show ?thesis by (simp add: choose_sets_def demo_job_def LockForReading_def SelectSets_def info_of_def)
qed

lemma demo_job_unlocks:
  assumes "Header s = Some demo_header"
  shows "confirm_and_unlock (demo_job ps) [s] = Inr (Some [(ks_ID demo_keyset, replicate 32 6)])"
    "master_of [(ks_ID demo_keyset, replicate 32 6)] s = replicate 32 6"
proof -
  let ?ks = "demo_keyset\<lparr>ks_Slots := [demo_slot]\<rparr>" and ?ui = "(demo_ui [])\<lparr>AskPassword := \<lambda>_ _. Inr [4, 5]\<rparr>"
  have "\<not> HasSlotType ?ks SlotRecovery" by (simp add: HasSlotType_def SlotIndexes_def demo_slot_def slot_type_def)
  then have "UnlockKeySet demo_crypto ?ui ?ks True = UnlockKeySet demo_crypto ?ui ?ks False" by (simp add: UnlockKeySet_def)
  then have u: "UnlockKeySet demo_crypto ?ui ?ks True = Inr (replicate 32 6)" using UnlockKeySet_password_witness by simp
  have k: "header_keys s = Some ?ks" using assms by (simp add: header_keys_def demo_header_def)
  have "selected_keysets [s] = [?ks]" by (simp add: selected_keysets_def List.map_filter_def k)
  then show "confirm_and_unlock (demo_job ps) [s] = Inr (Some [(ks_ID demo_keyset, replicate 32 6)])"
    using u by (simp add: confirm_and_unlock_def demo_job_def pair_simps)
  show "master_of [(ks_ID demo_keyset, replicate 32 6)] s = replicate 32 6" by (simp add: master_of_def k)
qed

lemma demo_job_opens:
  assumes "length ps = 2" "OpenSet pair_format (parts_content ps) (part_sizes ps) = Inr st" "set_Header st = demo_header"
  shows "OpenRestorePoint pair_format (demo_backup_dir ps) d demo_entry None = Inr ((st, parts_content ps), None, 2)"
proof -
  note o = demo_open_parts [OF assms]
  have "CollectParts (demo_backup_dir ps) demo_entry = Inr (map (part_base_name demo_entry) [1, 2])"
    by (simp add: CollectParts_def demo_dir_parts)
  then have "open_dir_set pair_format (demo_backup_dir ps) demo_entry = Inr ((st, parts_content ps), map (part_base_name demo_entry) [1, 2])"
    using o by (simp add: open_dir_set_def)
  then show ?thesis by (simp add: OpenRestorePoint_def)
qed

lemma pair_good_dest:
  assumes "dk_nodes d = (dk_nodes demo_job_disk)([''C'', ''out''] \<mapsto> n, [''C'', ''out'', ''Docs''] \<mapsto> new_node None)"
  shows "good_dest pair_point [''C'', ''out'', ''Docs''] m d"
proof -
  let ?env = "point_restorer pair_point False False [''C'', ''out'', ''Docs''] m"
  have e: "rv_disk ?env = demo_disk_env" "rv_dest ?env = [''C'', ''out'', ''Docs'']" by (simp_all add: point_restorer_def pair_point_def)
  have k: "entry_key ?env e = [''C'', ''out'', ''Docs''] @ split_char (CHR ''/'') (Path e)" for e
    by (simp add: entry_key_def e node_key_def demo_disk_env_def)
  have "fresh_dest ?env d"
    using assms by (auto simp: fresh_dest_def dest_key_def below_def e node_key_def demo_disk_env_def new_node_def demo_job_disk_def)
  moreover have "calm ?env" "dest_clean ?env" by (simp_all add: calm_def e demo_disk_env_def dest_clean_def)
  moreover have "folds_like id ?env" by (auto simp: folds_like_def k) (metis join_path_split)
  ultimately show ?thesis by (simp add: good_dest_def pair_simps)
qed

lemma demo_mkdir:
  assumes "dk_nodes d = dk_nodes demo_job_disk"
  shows "\<exists>d1 n. MkdirAll demo_disk_env [''C'', ''out''] d = (None, d\<lparr>dk_calls := Suc (dk_calls d)\<rparr>)
    \<and> os_create demo_disk_env [''C'', ''out'', ''Docs''] None (d\<lparr>dk_calls := Suc (dk_calls d)\<rparr>) = (None, d1)
    \<and> dk_nodes d1 = (dk_nodes demo_job_disk)([''C'', ''out''] \<mapsto> n, [''C'', ''out'', ''Docs''] \<mapsto> new_node None)"
  by (rule exI [of _ "add_node demo_disk_env [''C'', ''out'', ''Docs''] None (d\<lparr>dk_calls := Suc (Suc (dk_calls d))\<rparr>)"], rule exI [of _ "new_node None"])
     (use assms in \<open>simp add: MkdirAll_def os_call_def demo_disk_env_def is_dir_def node_key_def demo_job_disk_def os_create_def andThen_def add_node_def new_node_def\<close>)

lemma demo_job_written:
  assumes d: "dk_nodes d = (dk_nodes demo_job_disk)([''C'', ''out''] \<mapsto> n, [''C'', ''out'', ''Docs''] \<mapsto> new_node None)"
  shows
  "\<exists>ps st. length ps = 2 \<and> OpenSet pair_format (parts_content ps) (part_sizes ps) = Inr st \<and> set_Header st = demo_header
    \<and> (\<exists>r'. RestorePoint pair_point (st, parts_content ps) None (replicate 32 6) [''C'', ''out'', ''Docs''] d = (Inr (builder_manifest (tb_mb pair_full)), r'))"
proof -
  obtain r fd' where w: "written_ok pair_env0 demo_set_params Map.empty r fd'" "length (sr_Parts r) = 2" using pair_written_both(1) by blast
  have p: "sp_Base demo_set_params = None" "pe_format pair_point = se_format pair_env0" by (simp_all add: demo_set_params_def pair_simps)
  obtain s r' where s: "stored_set pair_format fd' (sr_Parts r) s" "set_Header (fst s) = demo_header"
    "RestorePoint pair_point s None (replicate 32 6) [''C'', ''out'', ''Docs''] d = (Inr (builder_manifest (tb_mb pair_full)), r')"
    using full_point [OF w(1) p pair_reads(1) pair_good_dest [OF d]] unfolding pair_headers
    by (auto simp: pair_simps demo_write_simps set_manifest_def pair_tars)
  obtain ps where ps: "map fd' (sr_Parts r) = map Some ps" "OpenSet pair_format (parts_content ps) (part_sizes ps) = Inr (fst s)" "snd s = parts_content ps"
    using s(1) by (auto simp: stored_set_def)
  have "length ps = 2" using arg_cong [OF ps(1), of length] w(2) by simp
  then show ?thesis using ps s by (metis prod.collapse)
qed

lemma demo_job_finishes:
  "\<exists>ps w st. length ps = 2 \<and> RestoreRun (demo_job ps) [demo_entry] ''C:/out'' demo_job_disk = (Finished w, st)"
proof -
  define d' where "d' = demo_job_disk\<lparr>dk_calls := 1\<rparr>"
  have dn: "dk_nodes d' = dk_nodes demo_job_disk" by (simp add: d'_def)
  obtain d1 n where mk: "MkdirAll demo_disk_env [''C'', ''out''] d' = (None, d'\<lparr>dk_calls := Suc (dk_calls d')\<rparr>)"
    "os_create demo_disk_env [''C'', ''out'', ''Docs''] None (d'\<lparr>dk_calls := Suc (dk_calls d')\<rparr>) = (None, d1)"
    "dk_nodes d1 = (dk_nodes demo_job_disk)([''C'', ''out''] \<mapsto> n, [''C'', ''out'', ''Docs''] \<mapsto> new_node None)"
    using demo_mkdir [OF dn] by blast
  obtain ps st r' where ps: "length ps = 2" "OpenSet pair_format (parts_content ps) (part_sizes ps) = Inr st" "set_Header st = demo_header"
    and rp: "RestorePoint pair_point (st, parts_content ps) None (replicate 32 6) [''C'', ''out'', ''Docs''] d1 = (Inr (builder_manifest (tb_mb pair_full)), r')"
    using demo_job_written [OF mk(3)] by blast
  obtain s where s: "choose_sets (demo_job ps) [demo_entry] = Inr (False, [s], [s])" "Complete s" "Entry s = demo_entry" "Header s = Some demo_header"
    using demo_job_chosen [OF ps] by blast
  have v: "ValidateBackupEntryName ''Docs'' = Inr ()" by code_simp
  have o: "output_dir [''C'', ''out''] demo_entry = [''C'', ''out'', ''Docs'']" by (simp add: output_dir_def demo_entry_def)
  have e: "DirectoryName demo_entry = ''Docs''" "\<not> IsDiff demo_entry" by (simp_all add: demo_entry_def IsDiff_def)
  let ?sel = "\<lparr>it_Entry = demo_entry, it_PartCount = length (Parts s), it_TotalSizeBytes = SizeBytes s, it_Base = None, it_Err = None\<rparr>"
  have "SelectionPreflight [s] [s] = [?sel]" using s(2,3) e(2) by (simp add: SelectionPreflight_def selection_item_of_def Complete_def)
  then have pre: "buildRestorePreflight demo_disk_env [s] [s] [''C'', ''out''] demo_job_disk
      = ([\<lparr>ri_Selection = ?sel, ri_OutputDir = [''C'', ''out'', ''Docs''], ri_OutputDirErr = None\<rparr>], d')"
    by (simp add: buildRestorePreflight_def o e(1) v os_exists_def os_call_def demo_disk_env_def node_key_def demo_job_disk_def d'_def)
  let ?items = "[\<lparr>ri_Selection = ?sel, ri_OutputDir = [''C'', ''out'', ''Docs''], ri_OutputDirErr = None\<rparr>]"
  have j: "jb_point (demo_job ps) = pair_point" "pe_disk pair_point = demo_disk_env" "jb_elems (demo_job ps) = (\<lambda>_. [''C'', ''out''])"
    "jb_dir (demo_job ps) = (\<lambda>_ _. demo_backup_dir ps)" "jb_cancelled (demo_job ps) = (\<lambda>_. False)"
    by (simp_all add: demo_job_def pair_point_def)
  have "restoreEntry (demo_job ps) [''C'', ''out''] 1 demo_entry None (replicate 32 6) (start_job d') =
      (Inr 0, (start_job d')\<lparr>js_disk := r_disk r'\<rparr>)"
  proof -
    have "SkippedFiles (builder_manifest (tb_mb pair_full)) = []" "StaleFiles (builder_manifest (tb_mb pair_full)) = []" by code_simp+
    then show ?thesis
      by (simp add: restoreEntry_def e(1) v j pair_simps demo_job_opens [OF ps] start_job_def mk(1,2) o rp ReportSkippedFiles_def ReportStaleFiles_def)
  qed
  then have "restoreAll (demo_job ps) [''C'', ''out''] [(ks_ID demo_keyset, replicate 32 6)] [s] [s] (start_job d') =
      (Inr 0, (start_job d')\<lparr>js_disk := r_disk r'\<rparr>)"
    using s(3) e(2) demo_job_unlocks(2) [OF s(4)] by (simp add: restoreAll_def EachRestorePoint_def restore_step_def andThen_def)
  then have op: "restore_operation (demo_job ps) [''C'', ''out''] [(ks_ID demo_keyset, replicate 32 6)] [s] [s] w (start_job d') =
      (Finished w, (start_job d')\<lparr>js_disk := r_disk r'\<rparr>)" for w
    by (simp add: restore_operation_def)
  have t: "TrimSpace ''C:/out'' \<noteq> []" by code_simp
  have ok: "validateRestorePreflight ?items = None" "validateRestoreTargetSpace (queryRestoreTargetFreeBytes stat (jb_free (demo_job ps)) p) ?items = None" for stat p
    by (simp_all add: validateRestorePreflight_def ValidatePreflightItems_def validateRestoreTargetSpace_def queryRestoreTargetFreeBytes_def demo_job_def split: option.splits)
  have "RestoreRun (demo_job ps) [demo_entry] ''C:/out'' demo_job_disk =
      (Finished (early_warnings (demo_job ps) False), (start_job d')\<lparr>js_disk := r_disk r'\<rparr>)"
    using t s(1) pre ok demo_job_unlocks(1) [OF s(4)] op by (simp add: RestoreRun_def j)
  then show ?thesis using ps(1) by blast
qed

lemma restore_overwrites_nothing_witness:
  "\<exists>ps w st n. RestoreRun (demo_job ps) [demo_entry] ''C:/out'' demo_job_disk = (Finished w, st)
    \<and> dk_nodes (js_disk st) [''C'', ''notes''] = Some n \<and> dn_data n = Some [9]"
proof -
  obtain ps w st where r: "RestoreRun (demo_job ps) [demo_entry] ''C:/out'' demo_job_disk = (Finished w, st)" using demo_job_finishes by blast
  have "dk_nodes demo_job_disk [''C'', ''notes''] = Some (new_node (Some [9]))" by (simp add: demo_job_disk_def)
  from restore_overwrites_nothing [where J = "demo_job ps" and destination = "''C:/out''" and requested = "[demo_entry]", OF demo_job_disk_ok(2,1) this] r
  obtain n where "dk_nodes (js_disk st) [''C'', ''notes''] = Some n" "dn_data n = Some [9]" by (auto simp: kept_def new_node_def)
  with r show ?thesis by blast
qed

lemma finished_restore_whole_witness:
  "\<exists>ps infos s masters (st :: job_state) u. jb_inventory (demo_job ps) = Inr infos \<and> Entry s = demo_entry
    \<and> restored_point (demo_job ps) [''C'', ''out''] masters infos 1 s u (js_disk st)"
proof -
  obtain ps w st where r: "RestoreRun (demo_job ps) [demo_entry] ''C:/out'' demo_job_disk = (Finished w, st)" using demo_job_finishes by blast
  from finished_restore_whole [OF r demo_job_disk_ok(2,1)] obtain infos selected masters us where
    x: "jb_inventory (demo_job ps) = Inr infos" "map Entry selected = [demo_entry]"
      "\<forall>i < length selected. selected ! i \<in> set infos \<and> Complete (selected ! i) \<and> restored_point (demo_job ps) (jb_elems (demo_job ps) ''C:/out'') masters infos (Suc i) (selected ! i) (us ! i) (js_disk st)"
    by (elim exE conjE) (rule that)
  from x(2) obtain s where s: "selected = [s]" "Entry s = demo_entry" by auto
  moreover have "jb_elems (demo_job ps) ''C:/out'' = [''C'', ''out'']" by (simp add: demo_job_def)
  ultimately have "restored_point (demo_job ps) [''C'', ''out''] masters infos 1 s (us ! 0) (js_disk st)" using x(3) by simp
  then show ?thesis using x(1) s(2) by blast
qed

lemma verification_tells_truth_witness:
  "\<forall>ps. js_disk (snd (VerifyRun (demo_job ps) [demo_entry] demo_job_disk)) = demo_job_disk"
  using verification_tells_truth by (metis prod.collapse)

end
