(* ===== verification/BackupStart.thy ===== *)
theory BackupStart
  imports BackupRun Preflight
begin

text \<open>
  A backup from its start to its end (\<open>Run\<close> of \<open>workflow/backup/workflow.go\<close>): lock, inventory, a fresh run
  ID, the leftovers of interrupted backups, the plan the user chooses, the keys, and then the run of the theory
  \<open>BackupRun\<close>. Log lines are left out.
\<close>

section \<open>The run ID\<close>

definition used_ids :: "set_info list \<Rightarrow> string list" where
  "used_ids infos = concat (map (\<lambda>i. ChainID (Entry i) # (case Header i of None \<Rightarrow> [] | Some h \<Rightarrow> [h_RunID h])) infos)"

fun new_run_id :: "(nat \<Rightarrow> nat \<Rightarrow> nat result) \<Rightarrow> string list \<Rightarrow> nat \<Rightarrow> nat \<Rightarrow> string result" where
  "new_run_id rnd used attempt 0 = Inl (Internal ''Failed to generate a unique backup ID.'')"
| "new_run_id rnd used attempt (Suc left) =
     bindE (NewBackupID (rnd attempt)) (\<lambda>i. if i \<notin> set used then Inr i else new_run_id rnd used (Suc attempt) left)"

definition newRunID :: "(nat \<Rightarrow> nat \<Rightarrow> nat result) \<Rightarrow> set_info list \<Rightarrow> string result" where
  "newRunID rnd infos = new_run_id rnd (used_ids infos) 0 100"

section \<open>Leftovers\<close>

definition removeLeftoverTempParts :: "backup_dir \<Rightarrow> (string \<Rightarrow> bool) \<Rightarrow> string \<Rightarrow> file_dir \<Rightarrow> file_dir" where
  "removeLeftoverTempParts view removable dir fd =
     (case ListTempParts view of Inl _ \<Rightarrow> fd
      | Inr names \<Rightarrow> (\<lambda>f. if f \<in> dir_file dir ` set (filter removable names) then None else fd f))"

section \<open>Plan and keys\<close>

text \<open>What the start depends on; \<open>bs_preflight j\<close> answers the \<open>j\<close>-th choice of a plan, \<open>bs_ui\<close>, \<open>bs_enroll\<close> and
  \<open>bs_refused\<close> the \<open>j\<close>-th attempt at the keys.\<close>

record start_env =
  bs_paths :: path_env
  bs_mkdir :: "err option"
  bs_lock :: "err option"
  bs_random :: "nat \<Rightarrow> nat \<Rightarrow> nat result"
  bs_date :: string
  bs_logger :: "err option"
  bs_removable :: "string \<Rightarrow> bool"
  bs_preflight :: "nat \<Rightarrow> preflight_env"
  bs_ui :: "nat \<Rightarrow> unlock_ui"
  bs_enroll :: "nat \<Rightarrow> enroll_env"
  bs_refused :: "nat \<Rightarrow> bool \<Rightarrow> refusal_answer result"

datatype started = NotStarted | StartFailed err | Started keyset bytes "string \<rightharpoonup> folder"

definition yubiKeyRefusedReason :: string where
  "yubiKeyRefusedReason = ''Your YubiKey didn'' @ CHR 0x27 # ''t unlock the current keys''"

partial_function (option) key_loop ::
  "crypto \<Rightarrow> (string \<Rightarrow> int option) \<Rightarrow> start_env \<Rightarrow> config \<Rightarrow> source_dir list \<Rightarrow> set_info list \<Rightarrow> nat \<Rightarrow> chosen_plan \<Rightarrow> started option" where
  "key_loop C parse_time S cfg sources infos j plan =
     (case plan of (keys, folders, start, err) \<Rightarrow>
      if err \<noteq> None then Some (StartFailed (the err))
      else if \<not> start then Some NotStarted
      else case obtainKeys C parse_time (bs_ui S j) (bs_enroll S j) cfg (Existing keys) of
        Inr (ks, master) \<Rightarrow> Some (Started ks master folders)
      | Inl e \<Rightarrow>
          let answer = askAfterYubiKeyRefusal (bs_refused S j) (Existing keys) e in
          if answer = RefusalRetry then key_loop C parse_time S cfg sources infos (Suc j) plan
          else if answer = RefusalNewKeys
            then Option.bind (choosePlan (bs_preflight S (Suc j)) cfg sources infos 0 yubiKeyRefusedReason)
              (key_loop C parse_time S cfg sources infos (Suc j))
          else Some (StartFailed e))"

definition plan_and_keys ::
  "crypto \<Rightarrow> (string \<Rightarrow> int option) \<Rightarrow> start_env \<Rightarrow> config \<Rightarrow> source_dir list \<Rightarrow> set_info list \<Rightarrow> started option" where
  "plan_and_keys C parse_time S cfg sources infos =
     Option.bind (choosePlan (bs_preflight S 0) cfg sources infos 0 []) (key_loop C parse_time S cfg sources infos 0)"

section \<open>The backup\<close>

datatype backup_outcome = BackupRefused err | BackupNotStarted | BackupRan "err option" run_state

definition start_op :: "start_env \<Rightarrow> config \<Rightarrow> matcher option \<Rightarrow> string \<Rightarrow> string \<Rightarrow> keyset \<Rightarrow> bytes \<Rightarrow> backup_op" where
  "start_op S cfg matcher dir runID ks master = \<lparr>op_cfg = cfg, op_matcher = matcher, op_dir = dir, op_date = bs_date S, op_runID = runID,
     op_keySet = ks, op_master = master\<rparr>"

definition BackupRunAll ::
  "start_env \<Rightarrow> run_env \<Rightarrow> config \<Rightarrow> matcher option \<Rightarrow> string \<Rightarrow> file_dir \<Rightarrow> (backup_outcome \<times> file_dir) option" where
  "BackupRunAll S N cfg matcher exeDir fd =
     (let E = pe_format (rn_point N); dir = ResolveDir (bs_paths S) (BackupDirectory cfg) exeDir in
      case bs_mkdir S of Some e \<Rightarrow> Some (BackupRefused (Wrapped ''Failed to create backup directory: %w.'' e), fd) | None \<Rightarrow>
      case bs_lock S of Some e \<Rightarrow> Some (BackupRefused e, fd) | None \<Rightarrow>
      let sources = ResolveSources (bs_paths S) (SourceDirectories cfg) exeDir in
      case Inventory E (rn_parts_order N) (rn_view N fd) of
        Inl e \<Rightarrow> Some (BackupRefused (Wrapped ''Failed to scan backup directory: %w.'' e), fd)
      | Inr infos \<Rightarrow>
      case newRunID (bs_random S) infos of Inl e \<Rightarrow> Some (BackupRefused e, fd) | Inr runID \<Rightarrow>
      case bs_logger S of Some e \<Rightarrow> Some (BackupRefused e, fd) | None \<Rightarrow>
      let fd = removeLeftoverTempParts (rn_view N fd) (bs_removable S) dir fd in
      case plan_and_keys (fe_C E) (fe_time E) S cfg sources infos of
        None \<Rightarrow> None
      | Some NotStarted \<Rightarrow> Some (BackupNotStarted, fd)
      | Some (StartFailed e) \<Rightarrow> Some (BackupRefused e, fd)
      | Some (Started ks master folders) \<Rightarrow>
          (case run N (start_op S cfg matcher dir runID ks master) sources folders fd of (e, st) \<Rightarrow> Some (BackupRan e st, ru_dir st)))"

section \<open>Facts\<close>

lemma new_run_id_Inr:
  "new_run_id rnd used a left = Inr i \<Longrightarrow> i \<notin> set used \<and> (\<exists>b \<ge> a. b < a + left \<and> NewBackupID (rnd b) = Inr i
     \<and> (\<forall>c. a \<le> c \<and> c < b \<longrightarrow> (\<exists>u. NewBackupID (rnd c) = Inr u \<and> u \<in> set used)))"
proof (induction left arbitrary: a)
  case (Suc left)
  obtain u where u: "NewBackupID (rnd a) = Inr u" "(if u \<notin> set used then Inr u else new_run_id rnd used (Suc a) left) = Inr i"
    using Suc.prems by (auto simp: e_iff)
  show ?case
  proof (cases "u \<in> set used")
    case False then show ?thesis using u by (intro conjI exI [of _ a]) auto
  next
    case True
    with u(2) Suc.IH [of "Suc a"] obtain b where b: "i \<notin> set used" "Suc a \<le> b" "b < Suc a + left" "NewBackupID (rnd b) = Inr i"
      "\<forall>c. Suc a \<le> c \<and> c < b \<longrightarrow> (\<exists>u. NewBackupID (rnd c) = Inr u \<and> u \<in> set used)" by auto
    have "\<exists>u. NewBackupID (rnd c) = Inr u \<and> u \<in> set used" if "a \<le> c \<and> c < b" for c
      using that b(5) u(1) True by (cases "c = a") auto
    then show ?thesis using b(1-4) by (intro conjI exI [of _ b]) auto
  qed
qed simp

lemma leftovers_gone:
  "removeLeftoverTempParts view ok dir fd f = fd f
    \<or> removeLeftoverTempParts view ok dir fd f = None \<and> (\<exists>n. f = dir_file dir n \<and> ParseTempPartFileName n \<noteq> None \<and> ok n)"
proof (cases "ListTempParts view")
  case (Inr names)
  then have "\<forall>n \<in> set names. ParseTempPartFileName n \<noteq> None" by (auto simp: ListTempParts_def e_iff)
  then show ?thesis unfolding removeLeftoverTempParts_def Inr by auto
qed (simp add: removeLeftoverTempParts_def)

text \<open>The key sets of the plans: the keys a differential is planned with are those of its base.\<close>

lemma plan_base_keys:
  assumes "choosePlan E cfg sources infos k reason = Some (keys, folders, True, e)" "folders n = Some f" "Base f = Some b"
  shows "\<exists>ks. Existing keys = Some ks \<and> map_option ks_ID (header_keys b) = Some (ks_ID ks)"
proof -
  obtain mode r where m: "mode_plan E cfg sources infos r mode = (keys, folders)" using chosen_plan_checked [OF assms(1)] by blast
  obtain forceFull now ks where f: "folders = Folders (pf_base_name E) (pf_format E) cfg infos sources ks forceFull now" "\<not> forceFull \<longrightarrow> keys = ks"
    using m by (cases mode) (auto simp: mode_plan_def Let_def)
  then have "f = planFolder (pf_format E) cfg infos n ks forceFull now" using Folders_Some assms(2) by metis
  then show ?thesis using assms(3) f(2) by (auto simp: planFolder_def full_folder_def Let_def split: if_splits option.splits)
qed

text \<open>A start comes from a plan that was chosen to start and keys that were obtained for it.\<close>

definition plan_chosen :: "start_env \<Rightarrow> config \<Rightarrow> source_dir list \<Rightarrow> set_info list \<Rightarrow> chosen_plan \<Rightarrow> bool" where
  "plan_chosen S cfg sources infos p \<longleftrightarrow> (\<exists>j reason. choosePlan (bs_preflight S j) cfg sources infos 0 reason = Some p)"

lemma key_loop_started:
  "key_loop C parse_time S cfg sources infos j plan = Some x \<Longrightarrow>
    plan_chosen S cfg sources infos plan \<longrightarrow> (\<forall>ks master folders. x = Started ks master folders \<longrightarrow>
      (\<exists>i keys. plan_chosen S cfg sources infos (keys, folders, True, None)
         \<and> obtainKeys C parse_time (bs_ui S i) (bs_enroll S i) cfg (Existing keys) = Inr (ks, master)))"
proof (induction rule: key_loop.raw_induct [rotated, consumes 1, case_names loop])
  case (loop f C parse_time S cfg sources infos j plan x)
  obtain keys folders start err where p: "plan = (keys, folders, start, err)" by (metis prod_cases4)
  show ?case
  proof (intro impI allI)
    fix ks master fs
    assume c: "plan_chosen S cfg sources infos plan" and x: "x = Started ks master fs"
    have ns: "err = None" "start" using loop(2) x by (auto simp: p split: if_splits)
    note run = loop(2) [unfolded p prod.case, simplified ns, simplified]
    show "\<exists>i keys. plan_chosen S cfg sources infos (keys, fs, True, None)
         \<and> obtainKeys C parse_time (bs_ui S i) (bs_enroll S i) cfg (Existing keys) = Inr (ks, master)"
    proof (cases "obtainKeys C parse_time (bs_ui S j) (bs_enroll S j) cfg (Existing keys)")
      case (Inr y)
      then show ?thesis using run x c p ns by (auto split: prod.splits)
    next
      case (Inl e)
      then consider "f C parse_time S cfg sources infos (Suc j) (keys, folders, True, None) = Some x"
        | p' where "choosePlan (bs_preflight S (Suc j)) cfg sources infos 0 yubiKeyRefusedReason = Some p'"
            "f C parse_time S cfg sources infos (Suc j) p' = Some x"
        using run x by (auto simp: Let_def bind_eq_Some_conv split: if_splits)
      then show ?thesis
      proof cases
        case 1
        show ?thesis using loop(1) [OF 1] c x by (auto simp: p ns)
      next
        case 2
        then have "plan_chosen S cfg sources infos p'" by (auto simp: plan_chosen_def)
        then show ?thesis using loop(1) [OF 2(2)] x by auto
      qed
    qed
  qed
qed

lemma plan_and_keys_started:
  assumes "plan_and_keys C parse_time S cfg sources infos = Some (Started ks master folders)"
  shows "\<exists>i j keys reason. choosePlan (bs_preflight S j) cfg sources infos 0 reason = Some (keys, folders, True, None)
    \<and> obtainKeys C parse_time (bs_ui S i) (bs_enroll S i) cfg (Existing keys) = Inr (ks, master)"
proof -
  obtain p where p: "choosePlan (bs_preflight S 0) cfg sources infos 0 [] = Some p" "key_loop C parse_time S cfg sources infos 0 p = Some (Started ks master folders)"
    using assms by (auto simp: plan_and_keys_def bind_eq_Some_conv)
  then have "plan_chosen S cfg sources infos p" by (auto simp: plan_chosen_def)
  with key_loop_started [OF p(2)] show ?thesis unfolding plan_chosen_def by blast
qed

text \<open>C7. A backup run starts soundly: when \<open>Run\<close> gets to writing sets, all source directories are usable or
  duplicates and within the part limit; its run ID is no chain ID or run ID of any set in the directory, so no set of
  the run can have the name of an older one's chain; the keys are those of the plan, unlocked if they exist and new
  otherwise, and a differential is planned only with the very keys of its full backup. What it writes is the run over
  exactly this plan, and the files before are those of the directory without leftovers of interrupted backups.\<close>

theorem backup_starts_soundly:
  assumes "BackupRunAll S N cfg matcher exeDir fd = Some (BackupRan e st, fd')"
  shows "\<exists>infos runID ks master folders fd0. Inventory (pe_format (rn_point N)) (rn_parts_order N) (rn_view N fd) = Inr infos
    \<and> (let sources = ResolveSources (bs_paths S) (SourceDirectories cfg) exeDir; dir = ResolveDir (bs_paths S) (BackupDirectory cfg) exeDir in
        (\<forall>s \<in> set sources. SrcErr s = None) \<and> (\<exists>j. validateBackupPartCount (pf_dirSize (bs_preflight S j)) cfg sources = None)
      \<and> run N (start_op S cfg matcher dir runID ks master) sources folders fd0 = (e, st) \<and> fd' = ru_dir st
      \<and> (\<forall>f. fd0 f = fd f \<or> fd0 f = None \<and> (\<exists>n. f = dir_file dir n \<and> ParseTempPartFileName n \<noteq> None)))
    \<and> (\<forall>i \<in> set infos. ChainID (Entry i) \<noteq> runID \<and> map_option h_RunID (Header i) \<noteq> Some runID)
    \<and> (\<exists>n (keys :: plan_keys). obtainKeys (fe_C (pe_format (rn_point N))) (fe_time (pe_format (rn_point N))) (bs_ui S n) (bs_enroll S n) cfg (Existing keys) = Inr (ks, master)
        \<and> (\<forall>d f b. folders d = Some f \<longrightarrow> Base f = Some b \<longrightarrow> Existing keys = Some ks \<and> map_option ks_ID (header_keys b) = Some (ks_ID ks)))"
proof -
  let ?E = "pe_format (rn_point N)" and ?sources = "ResolveSources (bs_paths S) (SourceDirectories cfg) exeDir"
    and ?dir = "ResolveDir (bs_paths S) (BackupDirectory cfg) exeDir"
  obtain infos where i: "Inventory ?E (rn_parts_order N) (rn_view N fd) = Inr infos"
    using assms by (auto simp: BackupRunAll_def Let_def split: option.splits sum.splits)
  obtain runID where r: "newRunID (bs_random S) infos = Inr runID"
    using assms by (auto simp: BackupRunAll_def Let_def i split: option.splits sum.splits)
  define fd0 where "fd0 = removeLeftoverTempParts (rn_view N fd) (bs_removable S) ?dir fd"
  obtain ks master folders where k: "plan_and_keys (fe_C ?E) (fe_time ?E) S cfg ?sources infos = Some (Started ks master folders)"
    and run: "run N (start_op S cfg matcher ?dir runID ks master) ?sources folders fd0 = (e, st)" "fd' = ru_dir st"
    using assms by (auto simp: BackupRunAll_def Let_def i r fd0_def split: option.splits started.splits prod.splits)
  obtain n j keys reason where c: "choosePlan (bs_preflight S j) cfg ?sources infos 0 reason = Some (keys, folders, True, None)"
    and o: "obtainKeys (fe_C ?E) (fe_time ?E) (bs_ui S n) (bs_enroll S n) cfg (Existing keys) = Inr (ks, master)"
    using plan_and_keys_started [OF k] by blast
  have "Existing keys = Some ks \<and> map_option ks_ID (header_keys b) = Some (ks_ID ks)" if "folders d = Some f" "Base f = Some b" for d f b
    using plan_base_keys [OF c that] o by (auto simp: obtainKeys_def e_iff)
  with o have K: "\<exists>n (keys :: plan_keys). obtainKeys (fe_C ?E) (fe_time ?E) (bs_ui S n) (bs_enroll S n) cfg (Existing keys) = Inr (ks, master)
      \<and> (\<forall>d f b. folders d = Some f \<longrightarrow> Base f = Some b \<longrightarrow> Existing keys = Some ks \<and> map_option ks_ID (header_keys b) = Some (ks_ID ks))" by blast
  have "runID \<notin> set (used_ids infos)" using new_run_id_Inr r unfolding newRunID_def by blast
  then have U: "\<forall>i \<in> set infos. ChainID (Entry i) \<noteq> runID \<and> map_option h_RunID (Header i) \<noteq> Some runID"
    by (auto simp: used_ids_def split: option.splits)
  have F: "\<forall>f. fd0 f = fd f \<or> fd0 f = None \<and> (\<exists>n. f = dir_file ?dir n \<and> ParseTempPartFileName n \<noteq> None)"
    unfolding fd0_def using leftovers_gone by blast
  have V: "\<forall>s \<in> set ?sources. SrcErr s = None" "\<exists>j. validateBackupPartCount (pf_dirSize (bs_preflight S j)) cfg ?sources = None"
    using chosen_plan_checked [OF c] by blast+
  show ?thesis unfolding Let_def
    by (rule exI [of _ infos], rule exI [of _ runID], rule exI [of _ ks], rule exI [of _ master], rule exI [of _ folders], rule exI [of _ fd0],
        intro conjI) (fact i V run F U K)+
qed



section \<open>An example\<close>

text \<open>The first backup of a folder: no sets yet, unknown sizes, a new password; the user starts the plan as shown or cancels.\<close>

definition demo_start :: "backup_start \<Rightarrow> start_env" where
  "demo_start answer = \<lparr>bs_paths = demo_paths, bs_mkdir = None, bs_lock = None, bs_random = \<lambda>_ _. Inr 0, bs_date = ''2025-01-02'', bs_logger = None,
     bs_removable = \<lambda>_. True, bs_preflight = \<lambda>_. demo_preflight\<lparr>pf_measure := \<lambda>_ _. Inl EOF, pf_dirSize := \<lambda>_. Inl EOF, pf_free := Inl EOF,
       pf_yubiKeys := Inl EOF, pf_ask := \<lambda>_ _. Inr answer\<rparr>,
     bs_ui = \<lambda>_. demo_ui [], bs_enroll = \<lambda>_. demo_env, bs_refused = \<lambda>_ _. Inr RefusalCancel\<rparr>"

definition demo_first_run :: run_env where
  "demo_first_run = demo_run\<lparr>rn_view := \<lambda>_. demo_log_dir\<lparr>dir_list := Inr [(''[Docs]_2025-01-01_AAAAAB_FULL-001.enc.tmp'', False)]\<rparr>\<rparr>"

lemma demo_start_inventory: "Inventory (pe_format (rn_point demo_first_run)) (rn_parts_order demo_first_run) (rn_view demo_first_run fd) = Inr []"
proof -
  have "ParsePartFileName ''[Docs]_2025-01-01_AAAAAB_FULL-001.enc.tmp'' = None" by code_simp
  then show ?thesis by (simp add: Inventory_def listParts_def parsed_parts_def demo_first_run_def demo_run_def List.map_filter_def sortNewestFirst_def)
qed

lemma demo_start_sources:
  "\<exists>s. ResolveSources demo_paths (SourceDirectories demo_config) [] = [s] \<and> SrcErr s = None \<and> \<not> Skip s"
proof -
  have "map (\<lambda>s. (SrcErr s, Skip s)) (ResolveSources demo_paths [''C:/A''] []) = [(None, False)]" by code_simp
  then show ?thesis by (auto simp: demo_config_def map_eq_Cons_conv)
qed

lemma demo_start_plan:
  assumes "SrcErr s = None" "answer = BackupAsPlanned \<or> answer = BackupCancel"
  shows "\<exists>folders. choosePlan (bs_preflight (demo_start answer) j) demo_config [s] [] 0 [] =
    Some (KeysFor demo_config [], folders, answer = BackupAsPlanned, None)"
proof -
  let ?E = "bs_preflight (demo_start answer) j"
  define folders where "folders = Folders (pf_base_name ?E) (pf_format ?E) demo_config [] [s] (KeysFor demo_config []) False (pf_now ?E)"
  have m: "mode_plan ?E demo_config [s] [] r planAutomatic = (KeysFor demo_config [], folders)" for r
    by (simp add: mode_plan_def folders_def Let_def)
  have part: "validateBackupPartCount (pf_dirSize ?E) demo_config [s] = None"
    by (auto simp: validateBackupPartCount_def part_count_loop_None demo_start_def Let_def)
  have "checked_plan ?E demo_config [s] [] r planAutomatic = (KeysFor demo_config [], folders, None)" for r
    using assms(1) part m by (simp add: checked_plan_def checks_passed validateTargetSpaceForBackup_def severalYubiKeys_def demo_start_def Let_def)
  then show ?thesis
    using assms(2) unfolding choosePlan_def by (subst choose_loop.simps) (auto simp: demo_start_def)
qed

lemma demo_new_run_id: "\<exists>runID. newRunID (bs_random (demo_start answer)) [] = Inr runID"
proof -
  obtain i where i: "NewBackupID (\<lambda>_. Inr 0) = Inr i" by (simp add: NewBackupID_def idLength_def eval_nat_numeral)
  have "newRunID (\<lambda>_ _. Inr 0) [] = new_run_id (\<lambda>_ _. Inr 0) [] 0 (Suc 99)" by (simp add: newRunID_def used_ids_def)
  also have "\<dots> = Inr i" unfolding new_run_id.simps by (simp add: i)
  finally show ?thesis by (simp add: demo_start_def)
qed

lemma demo_start_simps: "bs_paths (demo_start a) = demo_paths" "bs_mkdir (demo_start a) = None" "bs_lock (demo_start a) = None"
  "bs_logger (demo_start a) = None" "bs_enroll (demo_start a) = (\<lambda>_. demo_env)" "fe_C (pe_format (rn_point demo_first_run)) = demo_crypto"
  by (simp_all add: demo_start_def demo_first_run_def demo_run_def demo_clock_def demo_format_def)

lemma demo_start_runs: "\<exists>e st. BackupRunAll (demo_start BackupAsPlanned) demo_first_run demo_config None [] fd = Some (BackupRan e st, ru_dir st)"
proof -
  obtain s where s: "ResolveSources demo_paths (SourceDirectories demo_config) [] = [s]" "SrcErr s = None" using demo_start_sources by blast
  obtain folders where p: "choosePlan (bs_preflight (demo_start BackupAsPlanned) 0) demo_config [s] [] 0 [] = Some (KeysFor demo_config [], folders, True, None)"
    using demo_start_plan [OF s(2), of BackupAsPlanned 0] by auto
  have ex: "Existing (KeysFor demo_config []) = None" by (simp add: KeysFor_def CurrentKeySet_def)
  have "enroll_env_ok (fe_time (pe_format (rn_point demo_first_run))) demo_env demo_config"
    by (simp add: enroll_env_ok_def demo_env_def demo_config_def auth_mode_def keySetIDLen_def KeyLen_def SaltLen_def NonceLen_def
        demo_first_run_def demo_run_def demo_clock_def)
  then obtain ks master where k: "enrollKeySet demo_crypto (fe_time (pe_format (rn_point demo_first_run))) demo_env demo_config = Inr (ks, master)"
    using enrollKeySet_ok [OF demo_crypto_ok demo_config_loads] by blast
  have "plan_and_keys demo_crypto (fe_time (pe_format (rn_point demo_first_run))) (demo_start BackupAsPlanned) demo_config [s] [] = Some (Started ks master folders)"
    unfolding plan_and_keys_def p using ex k by (simp, subst key_loop.simps) (simp add: obtainKeys_def demo_start_simps)
  then show ?thesis
    using s(1) demo_new_run_id [of BackupAsPlanned] by (auto simp: BackupRunAll_def Let_def demo_start_inventory demo_start_simps split: prod.splits)
qed

lemma backup_starts_soundly_witness:
  "\<exists>e st n (keys :: plan_keys) ks master. BackupRunAll (demo_start BackupAsPlanned) demo_first_run demo_config None [] Map.empty = Some (BackupRan e st, ru_dir st)
    \<and> obtainKeys demo_crypto (fe_time (pe_format (rn_point demo_first_run))) (bs_ui (demo_start BackupAsPlanned) n) demo_env demo_config (Existing keys) = Inr (ks, master)"
proof -
  obtain e st where r: "BackupRunAll (demo_start BackupAsPlanned) demo_first_run demo_config None [] Map.empty = Some (BackupRan e st, ru_dir st)"
    using demo_start_runs by blast
  from backup_starts_soundly [OF r] r show ?thesis unfolding demo_start_simps by blast
qed

text \<open>The user cancels: the leftover of an interrupted backup goes, all else stays.\<close>

lemma demo_start_cancelled:
  "\<exists>fd'. BackupRunAll (demo_start BackupCancel) demo_first_run demo_config None [] fd = Some (BackupNotStarted, fd')"
proof -
  obtain s where s: "ResolveSources demo_paths (SourceDirectories demo_config) [] = [s]" "SrcErr s = None" using demo_start_sources by blast
  obtain folders where p: "choosePlan (bs_preflight (demo_start BackupCancel) 0) demo_config [s] [] 0 [] = Some (KeysFor demo_config [], folders, False, None)"
    using demo_start_plan [OF s(2), of BackupCancel 0] by auto
  have "plan_and_keys demo_crypto (fe_time (pe_format (rn_point demo_first_run))) (demo_start BackupCancel) demo_config [s] [] = Some NotStarted"
    unfolding plan_and_keys_def p by (simp, subst key_loop.simps) simp
  then show ?thesis
    using s(1) demo_new_run_id [of BackupCancel] by (auto simp: BackupRunAll_def Let_def demo_start_inventory demo_start_simps)
qed


end
