(* ===== verification/Health.thy ===== *)
theory Health
  imports Retention Preflight Facts
begin

text \<open>
  The startup health check (\<open>workflow/health/health.go\<close>), the problems it makes of the findings
  (\<open>problems.go\<close>) and the snapshot of the state of the backups that the window shows (\<open>snapshot.go\<close>, and
  \<open>unresponsive\<close> of \<open>checker.go\<close>). A detail text is its format string with the error it is formatted with.
  The probes of the file system and of the YubiKey are an environment.
\<close>

section \<open>Findings\<close>

datatype severity = HealthOK | HealthWarn | HealthError

definition healthScopeConfig :: string where "healthScopeConfig = ''Config''"
definition healthScopeArgon2 :: string where "healthScopeArgon2 = ''Argon2 settings''"
definition healthScopeSourceDirectory :: string where "healthScopeSourceDirectory = ''Source directory(s)''"
definition healthScopeBackupDirectory :: string where "healthScopeBackupDirectory = ''Backup directory''"
definition healthScopeYubiKey :: string where "healthScopeYubiKey = ''YubiKey''"
definition healthScopeYubiKeys :: string where "healthScopeYubiKeys = ''YubiKeys''"
definition healthScopeBackupInventory :: string where "healthScopeBackupInventory = ''Backup inventory''"
definition healthScopeBackupSet :: string where "healthScopeBackupSet = ''Backup set''"
definition healthScopeKeys :: string where "healthScopeKeys = ''Keys''"

definition CodeConfigInvalid :: string where "CodeConfigInvalid = ''CONFIG_INVALID''"
definition CodeBackupDirUnreachable :: string where "CodeBackupDirUnreachable = ''BACKUP_DIR_UNREACHABLE''"
definition CodeBackupDirNotWritable :: string where "CodeBackupDirNotWritable = ''BACKUP_DIR_NOT_WRITABLE''"
definition CodeSourceDuplicate :: string where "CodeSourceDuplicate = ''SOURCE_DUPLICATE''"
definition CodeFolderNotBackedUp :: string where "CodeFolderNotBackedUp = ''FOLDER_NOT_BACKED_UP''"
definition CodeBackupDirNew :: string where "CodeBackupDirNew = ''BACKUP_DIR_NEW''"
definition CodeNoBackups :: string where "CodeNoBackups = ''NO_BACKUPS''"
definition CodeArgon2Capped :: string where "CodeArgon2Capped = ''ARGON2_CAPPED''"
definition CodeYubiKeyNotConnected :: string where "CodeYubiKeyNotConnected = ''YUBIKEY_NOT_CONNECTED''"
definition CodeNewKeysNeeded :: string where "CodeNewKeysNeeded = ''NEW_KEYS_NEEDED''"
definition CodeOverdue :: string where "CodeOverdue = ''OVERDUE''"
definition CodeSpaceLow :: string where "CodeSpaceLow = ''SPACE_LOW''"
definition CodeLegacyBackups :: string where "CodeLegacyBackups = ''LEGACY_1X''"
definition CodeLeftoverTempFiles :: string where "CodeLeftoverTempFiles = ''LEFTOVER_TMP''"
definition CodeVerifyFailed :: string where "CodeVerifyFailed = ''VERIFY_FAILED''"
definition CodeSkippedFiles :: string where "CodeSkippedFiles = ''SKIPPED_FILES''"
definition CodeIncompleteNewest :: string where "CodeIncompleteNewest = ''INCOMPLETE_NEWEST''"
definition CodeBaseMissing :: string where "CodeBaseMissing = ''BASE_MISSING''"
definition CodeSetIncomplete :: string where "CodeSetIncomplete = ''SET_INCOMPLETE''"

lemmas scope_defs = healthScopeConfig_def healthScopeArgon2_def healthScopeSourceDirectory_def healthScopeBackupDirectory_def
  healthScopeYubiKey_def healthScopeYubiKeys_def healthScopeBackupInventory_def healthScopeBackupSet_def healthScopeKeys_def

lemmas code_defs = CodeConfigInvalid_def CodeBackupDirUnreachable_def CodeBackupDirNotWritable_def CodeSourceDuplicate_def
  CodeFolderNotBackedUp_def CodeBackupDirNew_def CodeNoBackups_def CodeArgon2Capped_def CodeYubiKeyNotConnected_def CodeNewKeysNeeded_def
  CodeOverdue_def CodeSpaceLow_def CodeLegacyBackups_def CodeLeftoverTempFiles_def CodeVerifyFailed_def CodeSkippedFiles_def
  CodeIncompleteNewest_def CodeBaseMissing_def CodeSetIncomplete_def CodeYubiKeysConnected_def CodeSourceMissing_def CodeSourceInvalid_def

type_synonym detail = "(string \<times> err option) list"

record health_item =
  hi_Severity :: severity
  hi_Code :: string
  hi_Scope :: string
  hi_Detail :: detail

definition ok_item :: "string \<Rightarrow> string \<Rightarrow> health_item" where
  "ok_item scope detail = \<lparr>hi_Severity = HealthOK, hi_Code = [], hi_Scope = scope, hi_Detail = [(detail, None)]\<rparr>"

record health_result =
  hr_errorScopes :: "string \<Rightarrow> bool"
  hr_items :: "health_item list"

definition BlocksBackup :: "health_result \<Rightarrow> bool" where
  "BlocksBackup r \<longleftrightarrow> hr_errorScopes r healthScopeConfig \<or> hr_errorScopes r healthScopeSourceDirectory
     \<or> hr_errorScopes r healthScopeBackupDirectory \<or> hr_errorScopes r healthScopeYubiKey \<or> hr_errorScopes r healthScopeYubiKeys"

definition BlocksRestoreOrVerify :: "health_result \<Rightarrow> bool" where
  "BlocksRestoreOrVerify r \<longleftrightarrow> hr_errorScopes r healthScopeConfig \<or> hr_errorScopes r healthScopeBackupDirectory
     \<or> hr_errorScopes r healthScopeYubiKey"

definition buildResult :: "health_item list \<Rightarrow> health_result" where
  "buildResult items = \<lparr>hr_errorScopes = foldl (\<lambda>scopes item. if hi_Severity item = HealthError then scopes(hi_Scope item := True) else scopes)
       (\<lambda>_. False) items, hr_items = items\<rparr>"

section \<open>The checks\<close>

record health_env =
  he_not_exist :: "err \<Rightarrow> bool"
  he_createTemp :: "err option"
  he_removeTemp :: "err option"
  he_connected :: "err option"
  he_yubikeys :: "nat result"
  he_space :: "string \<Rightarrow> (nat \<times> nat) result"

definition source_item :: "(err \<Rightarrow> bool) \<Rightarrow> source_dir \<Rightarrow> health_item" where
  "source_item not_exist src = (case SrcErr src of
       Some e \<Rightarrow> \<lparr>hi_Severity = HealthError, hi_Code = SourceProblemCode not_exist e, hi_Scope = healthScopeSourceDirectory,
                  hi_Detail = [(Resolved src @ '' -> %v'', Some e)]\<rparr>
     | None \<Rightarrow> if Warning src \<noteq> [] then \<lparr>hi_Severity = HealthWarn, hi_Code = CodeSourceDuplicate, hi_Scope = healthScopeSourceDirectory,
                  hi_Detail = [(Resolved src @ '' -> '' @ Warning src, None)]\<rparr>
               else ok_item healthScopeSourceDirectory (Resolved src))"

definition sourceItems :: "(err \<Rightarrow> bool) \<Rightarrow> source_dir list \<Rightarrow> health_item list" where
  "sourceItems not_exist sources = map (source_item not_exist) sources"

definition checkArgon2Health :: "config \<Rightarrow> health_item list" where
  "checkArgon2Health cfg = map (\<lambda>notice. \<lparr>hi_Severity = HealthWarn, hi_Code = CodeArgon2Capped, hi_Scope = healthScopeArgon2,
       hi_Detail = [(notice @ '' Remedy: Lower the value in config.yaml to silence this warning.'', None)]\<rparr>) (Argon2Notices cfg)"

definition checkConfigFileHealth :: "path_env \<Rightarrow> string \<Rightarrow> health_item list" where
  "checkConfigFileHealth P configPath = (case pa_stat P configPath of
       Inl e \<Rightarrow> [\<lparr>hi_Severity = HealthError, hi_Code = CodeConfigInvalid, hi_Scope = healthScopeConfig,
         hi_Detail = [(''%s -> %v. Remedy: Ensure config.yaml exists and is readable.'', Some e)]\<rparr>]
     | Inr _ \<Rightarrow> [ok_item healthScopeConfig configPath])"

definition volumeRoot :: "path_env \<Rightarrow> string \<Rightarrow> string" where
  "volumeRoot P path = (let volume = pa_volume P (pa_clean P path) in if volume = [] then [] else volume @ [CHR 0x5C])"

definition backup_dir_item :: "severity \<Rightarrow> string \<Rightarrow> string \<Rightarrow> err option \<Rightarrow> health_item" where
  "backup_dir_item sev code text e = \<lparr>hi_Severity = sev, hi_Code = code, hi_Scope = healthScopeBackupDirectory, hi_Detail = [(text, e)]\<rparr>"

definition probeWriteAccess :: "health_env \<Rightarrow> string \<Rightarrow> health_item list" where
  "probeWriteAccess H dir = (case he_createTemp H of
       Some e \<Rightarrow> [backup_dir_item HealthError CodeBackupDirNotWritable ''%s is not writable: %v. Remedy: %s'' (Some e)]
     | None \<Rightarrow> ok_item healthScopeBackupDirectory (slashed dir) # (case he_removeTemp H of None \<Rightarrow> []
         | Some e \<Rightarrow> [backup_dir_item HealthWarn CodeBackupDirNotWritable ''Temporary write probe cleanup failed: %v. Remedy: %s'' (Some e)]))"

definition checkBackupDirectoryHealth :: "path_env \<Rightarrow> health_env \<Rightarrow> string \<Rightarrow> health_item list" where
  "checkBackupDirectoryHealth P H backupDir = (case pa_stat P backupDir of
       Inl e \<Rightarrow>
         if he_not_exist H e then
           (if volumeRoot P backupDir \<noteq> [] \<and> \<not> is_ok (pa_stat P (volumeRoot P backupDir))
            then [backup_dir_item HealthError CodeBackupDirUnreachable
                    ''%s -> the drive or share %s is not available. Remedy: Connect the drive or check the network connection.'' None]
            else [backup_dir_item HealthWarn CodeBackupDirNew ''%s does not exist yet and will be created during backup'' None])
         else [backup_dir_item HealthError CodeBackupDirUnreachable
                 ''%s -> %v. Remedy: Check backup_directory in config.yaml and ensure read access.'' (Some e)]
     | Inr isDir \<Rightarrow>
         if \<not> isDir then [backup_dir_item HealthError CodeBackupDirNotWritable
                 ''%s is not a directory. Remedy: Provide a directory path, not a file path.'' None]
         else probeWriteAccess H backupDir)"

definition checkYubiKeyHealth :: "health_env \<Rightarrow> config \<Rightarrow> health_item list \<times> bool option" where
  "checkYubiKeyHealth H cfg =
     (if \<not> UseYubiKey cfg then ([ok_item healthScopeYubiKey ''Disabled''], None)
      else if he_connected H \<noteq> None then
        ([\<lparr>hi_Severity = HealthWarn, hi_Code = CodeYubiKeyNotConnected, hi_Scope = healthScopeYubiKey,
           hi_Detail = [(''YubiKey not connected. Remedy: Connect the YubiKey before running backup, restore, or verify.'', None)]\<rparr>], Some False)
      else (ok_item healthScopeYubiKey ''YubiKey connected'' # (case he_yubikeys H of Inl _ \<Rightarrow> [] | Inr n \<Rightarrow>
          if n > 1 then [\<lparr>hi_Severity = HealthError, hi_Code = CodeYubiKeysConnected, hi_Scope = healthScopeYubiKeys,
             hi_Detail = [([], Some SeveralError)]\<rparr>] else []), Some True))"

section \<open>The inventory\<close>

record inventory =
  iv_infos :: "set_info list"
  iv_err :: "err option"
  iv_legacy :: "string list"
  iv_temps :: "string list"

definition or_empty :: "'a list result \<Rightarrow> 'a list" where
  "or_empty r = (case r of Inl _ \<Rightarrow> [] | Inr xs \<Rightarrow> xs)"

definition scanInventory ::
  "format_env \<Rightarrow> ((backup_entry \<times> string list) list \<Rightarrow> (backup_entry \<times> string list) list) \<Rightarrow> backup_dir \<Rightarrow> inventory" where
  "scanInventory E sh d = (case Inventory E sh d of
       Inl e \<Rightarrow> \<lparr>iv_infos = [], iv_err = Some e, iv_legacy = [], iv_temps = []\<rparr>
     | Inr infos \<Rightarrow> \<lparr>iv_infos = infos, iv_err = None, iv_legacy = or_empty (ListLegacyFiles d), iv_temps = or_empty (ListTempParts d)\<rparr>)"

definition inventory_item :: "severity \<Rightarrow> string \<Rightarrow> string \<Rightarrow> err option \<Rightarrow> health_item" where
  "inventory_item sev code text e = \<lparr>hi_Severity = sev, hi_Code = code, hi_Scope = healthScopeBackupInventory, hi_Detail = [(text, e)]\<rparr>"

definition legacyAndTempItems :: "inventory \<Rightarrow> health_item list" where
  "legacyAndTempItems iv =
     (if length (iv_legacy iv) > 0 then [inventory_item HealthWarn CodeLegacyBackups ''RestoreSafe 1.x backups found (%d file(s)).'' None] else [])
   @ (if length (iv_temps iv) > 0 then [inventory_item HealthWarn CodeLeftoverTempFiles
        ''%d leftover file(s) of an interrupted backup found (*.enc.tmp). They are removed at the start of the next backup.'' None] else [])"

definition completeFullChains :: "set_info list \<Rightarrow> string \<Rightarrow> bool" where
  "completeFullChains infos = foldl (\<lambda>fulls i. if Complete i \<and> \<not> IsDiff (Entry i) then fulls(ChainKey (Entry i) := True) else fulls)
     (\<lambda>_. False) infos"

definition baseMissingDetail :: "set_info \<Rightarrow> detail" where
  "baseMissingDetail info = [(EntryString (Entry info) @ '' cannot be restored: the full backup of chain '' @ ChainID (Entry info)
     @ '' is missing or incomplete.'', None)]"

definition set_item :: "string \<Rightarrow> detail \<Rightarrow> health_item" where
  "set_item code detail = \<lparr>hi_Severity = HealthError, hi_Code = code, hi_Scope = healthScopeBackupSet, hi_Detail = detail\<rparr>"

definition set_issue :: "(string \<Rightarrow> bool) \<Rightarrow> set_info \<Rightarrow> health_item option" where
  "set_issue completeFulls info = (case Err info of
       Some e \<Rightarrow> Some (set_item CodeSetIncomplete [(EntryString (Entry info) @ '' -> %v'', Some e)])
     | None \<Rightarrow> if IsDiff (Entry info) \<and> \<not> completeFulls (ChainKey (Entry info))
               then Some (set_item CodeBaseMissing (baseMissingDetail info)) else None)"

definition buildBackupInventoryIssueItems :: "set_info list \<Rightarrow> health_item list" where
  "buildBackupInventoryIssueItems infos =
     (let items = List.map_filter (set_issue (completeFullChains infos)) infos
      in items @ (if length items = 0 then [ok_item healthScopeBackupInventory ''All detected backup sets are structurally complete''] else []))"

definition AuthModeLabel :: "auth_mode \<Rightarrow> string" where
  "AuthModeLabel a = (if a = AuthModeYubiKey then ''YubiKey only (no password)''
     else if a = AuthModePasswordYubiKey then ''password + YubiKey'' else ''password only'')"

text \<open>The day in the summary of the keys is left out.\<close>

definition keys_summary :: "keyset \<Rightarrow> string" where
  "keys_summary ks = ''created, '' @ AuthModeLabel (ks_AuthMode ks) @ (if HasSlotType ks SlotRecovery then '', recovery code'' else [])"

definition checkKeyHealth :: "config \<Rightarrow> set_info list \<Rightarrow> health_item list" where
  "checkKeyHealth cfg infos = (case CurrentKeySet infos of
       None \<Rightarrow> [ok_item healthScopeKeys ''No keys yet; the next backup creates new keys'']
     | Some ks \<Rightarrow>
         let detail = ''Current keys '' @ keys_summary ks; reason = KeySetMismatch cfg ks in
         if reason \<noteq> [] then [\<lparr>hi_Severity = HealthWarn, hi_Code = CodeNewKeysNeeded, hi_Scope = healthScopeKeys,
              hi_Detail = [(detail @ ''. '' @ reason @ '': the next backup creates new keys and full backups.'', None)]\<rparr>]
         else [ok_item healthScopeKeys detail])"

definition inventoryItems :: "health_env \<Rightarrow> config \<Rightarrow> inventory \<Rightarrow> health_item list" where
  "inventoryItems H cfg iv = (case iv_err iv of
       Some e \<Rightarrow> if he_not_exist H e
           then [inventory_item HealthWarn CodeBackupDirNew ''Backup directory does not exist yet, no backups to inspect'' None]
           else [inventory_item HealthError CodeBackupDirUnreachable
                   ''Failed to scan backups: %v. Remedy: Check read permissions in backup directory.'' (Some e)]
     | None \<Rightarrow> legacyAndTempItems iv
       @ (if length (iv_infos iv) = 0 then
            [inventory_item HealthWarn CodeNoBackups
               ''No backup sets found. Remedy: Check backup directory or create a new backup run.'' None]
          else ok_item healthScopeBackupInventory ''Found %d backup set(s)'' # buildBackupInventoryIssueItems (iv_infos iv))
       @ checkKeyHealth cfg (iv_infos iv))"

section \<open>The whole check\<close>

record inspection =
  ip_items :: "health_item list"
  ip_configPath :: string
  ip_backupDir :: string
  ip_sources :: "source_dir list"
  ip_inventory :: inventory
  ip_yubiKeyConnected :: "bool option"

definition inspect ::
  "format_env \<Rightarrow> path_env \<Rightarrow> health_env \<Rightarrow> ((backup_entry \<times> string list) list \<Rightarrow> (backup_entry \<times> string list) list)
     \<Rightarrow> (string \<Rightarrow> backup_dir) \<Rightarrow> config \<Rightarrow> string \<Rightarrow> string \<Rightarrow> inspection" where
  "inspect E P H sh disk cfg exeDir configPath =
     (let config' = slashed (pa_clean P configPath);
          backupDir = ResolveDir P (BackupDirectory cfg) exeDir;
          sources = ResolveSources P (SourceDirectories cfg) exeDir;
          (yubiKeyItems, connected) = checkYubiKeyHealth H cfg;
          iv = scanInventory E sh (disk backupDir)
      in \<lparr>ip_items = checkConfigFileHealth P config' @ checkArgon2Health cfg @ sourceItems (he_not_exist H) sources
            @ checkBackupDirectoryHealth P H backupDir @ yubiKeyItems @ inventoryItems H cfg iv,
          ip_configPath = config', ip_backupDir = backupDir, ip_sources = sources, ip_inventory = iv,
          ip_yubiKeyConnected = connected\<rparr>)"

end
