(* ===== verification/Snapshot.thy ===== *)
theory Snapshot
  imports Health
begin

text \<open>
  The snapshot of the state of the backups that the window shows (\<open>workflow/health/snapshot.go\<close>) and the
  problems in it (\<open>problems.go\<close>), with what a caller gets when the check does not end in time (\<open>checker.go\<close>).
  Times are numbers, Go's zero time is 0; a path in the backup directory is given by its base name.
\<close>

section \<open>Problems\<close>

record problem =
  pr_Code :: string
  pr_Status :: status
  pr_Folder :: string
  pr_Path :: string
  pr_ChainID :: string
  pr_Set :: backup_entry
  pr_Fault :: fault
  pr_Parts :: "nat list"
  pr_Count :: int
  pr_Bytes :: int
  pr_Detail :: detail

definition no_entry :: backup_entry where
  "no_entry = \<lparr>DirectoryName = [], ChainID = [], Date = [], DiffNumber = 0\<rparr>"

definition problem_of :: "string \<Rightarrow> status \<Rightarrow> problem" where
  "problem_of code status = \<lparr>pr_Code = code, pr_Status = status, pr_Folder = [], pr_Path = [], pr_ChainID = [], pr_Set = no_entry,
     pr_Fault = FaultNone, pr_Parts = [], pr_Count = 0, pr_Bytes = 0, pr_Detail = []\<rparr>"

record folder_status =
  fs_Source :: source_dir
  fs_Newest :: "set_info option"
  fs_Next :: "folder option"

definition fromItems :: "health_item list \<Rightarrow> status \<Rightarrow> string list \<Rightarrow> problem list" where
  "fromItems items status codes = concat (map (\<lambda>item. map (\<lambda>code. (problem_of code status)\<lparr>pr_Detail := hi_Detail item\<rparr>)
     (filter (\<lambda>code. hi_Code item = code \<and> hi_Severity item \<noteq> HealthOK) codes)) items)"

definition itemDetail :: "health_item list \<Rightarrow> string \<Rightarrow> detail" where
  "itemDetail items code = (case find (\<lambda>item. hi_Code item = code) items of None \<Rightarrow> [] | Some item \<Rightarrow> hi_Detail item)"

definition brokenFull :: "set_info list \<Rightarrow> string \<Rightarrow> set_info option" where
  "brokenFull infos key = find (\<lambda>i. \<not> IsDiff (Entry i) \<and> ChainKey (Entry i) = key \<and> Err i \<noteq> None) infos"

definition base_problem :: "set_info list \<Rightarrow> set_info \<Rightarrow> problem" where
  "base_problem infos info =
     (let p = (problem_of CodeBaseMissing StatusError)\<lparr>pr_Folder := DirectoryName (Entry info), pr_ChainID := ChainID (Entry info),
            pr_Count := 1, pr_Detail := baseMissingDetail info\<rparr>
      in case brokenFull infos (ChainKey (Entry info)) of None \<Rightarrow> p
         | Some base \<Rightarrow> p\<lparr>pr_Set := Entry base, pr_Fault := FaultOf (Err base), pr_Parts := MissingPartsOf (Err base),
             pr_Detail := pr_Detail p @ [(newline # EntryString (Entry base) @ '' -> %v'', Err base)]\<rparr>)"

text \<open>\<open>index\<close> is the place of the problem of a chain in \<open>out\<close>.\<close>

fun base_loop :: "set_info list \<Rightarrow> set_info list \<Rightarrow> (string \<rightharpoonup> nat) \<Rightarrow> problem list \<Rightarrow> problem list" where
  "base_loop infos [] index out = out"
| "base_loop infos (info # rest) index out =
     (let key = ChainKey (Entry info) in
      if \<not> Complete info \<or> \<not> IsDiff (Entry info) \<or> completeFullChains infos key then base_loop infos rest index out
      else case index key of
        Some i \<Rightarrow> base_loop infos rest index (out[i := (out ! i)\<lparr>pr_Count := pr_Count (out ! i) + 1\<rparr>])
      | None \<Rightarrow> base_loop infos rest (index(key \<mapsto> length out)) (out @ [base_problem infos info]))"

definition baseMissing :: "set_info list \<Rightarrow> problem list" where
  "baseMissing infos = base_loop infos infos Map.empty []"

definition invalidSets :: "set_info list \<Rightarrow> problem list \<Rightarrow> problem list" where
  "invalidSets infos baseProblems =
     (let named = map (\<lambda>p. EntryString (pr_Set p)) (filter (\<lambda>p. pr_Set p \<noteq> no_entry) baseProblems) in
      List.map_filter (\<lambda>info. case Err info of None \<Rightarrow> None | Some e \<Rightarrow>
        if IsIncomplete e \<or> EntryString (Entry info) \<in> set named then None
        else Some ((problem_of CodeSetIncomplete StatusError)\<lparr>pr_Folder := DirectoryName (Entry info), pr_Set := Entry info,
          pr_Fault := FaultOf (Err info), pr_Parts := MissingPartsOf (Err info),
          pr_Detail := [(EntryString (Entry info) @ '' -> %v'', Err info)]\<rparr>)) infos)"

definition verifyFailed :: "set_info list \<Rightarrow> (string \<rightharpoonup> fact) \<Rightarrow> problem list" where
  "verifyFailed infos verified = List.map_filter (\<lambda>info. case verified (EntryString (Entry info)) of None \<Rightarrow> None | Some f \<Rightarrow>
     if f_Result f = RunFailed then Some ((problem_of CodeVerifyFailed StatusError)\<lparr>pr_Folder := DirectoryName (Entry info),
       pr_Set := Entry info, pr_Detail := [(f_Error f, None)]\<rparr>) else None) infos"

definition newest_complete :: "format_env \<Rightarrow> set_info list \<Rightarrow> int" where
  "newest_complete E infos = foldl (\<lambda>newest i. if Complete i \<and> Created E i > newest then Created E i else newest) 0 infos"

definition overdue :: "format_env \<Rightarrow> config \<Rightarrow> int \<Rightarrow> set_info list \<Rightarrow> problem option" where
  "overdue E cfg now infos =
     (let limit = ReminderLimit cfg; newest = newest_complete E infos; days = age_days now newest in
      if limit \<le> 0 then None
      else if newest = 0 then None
      else if days < limit then None
      else Some ((problem_of CodeOverdue StatusWarn)\<lparr>pr_Count := days\<rparr>))"

definition newestModTime :: "backup_dir \<Rightarrow> string list \<Rightarrow> int" where
  "newestModTime d parts = foldl (\<lambda>newest p. case dir_mtime d p of Inl _ \<Rightarrow> newest | Inr t \<Rightarrow> if t > newest then t else newest) 0 parts"

definition incomplete_of :: "format_env \<Rightarrow> backup_dir \<Rightarrow> set_info list \<Rightarrow> folder_status \<Rightarrow> problem list" where
  "incomplete_of E d infos f =
     (let since = (case fs_Newest f of None \<Rightarrow> 0 | Some i \<Rightarrow> Created E i) in
      List.map_filter (\<lambda>info. case Err info of None \<Rightarrow> None | Some e \<Rightarrow>
        if DirectoryName (Entry info) \<noteq> BackupName (fs_Source f) \<or> \<not> IsIncomplete e then None
        else if newestModTime d (Parts info) > since then
          Some ((problem_of CodeIncompleteNewest StatusWarn)\<lparr>pr_Folder := BackupName (fs_Source f), pr_Set := Entry info,
            pr_Detail := [(EntryString (Entry info) @ '' -> %v'', Err info)]\<rparr>)
        else None) infos)"

definition incompleteNewest :: "format_env \<Rightarrow> backup_dir \<Rightarrow> folder_status list \<Rightarrow> set_info list \<Rightarrow> problem list" where
  "incompleteNewest E d folders infos = concat (map (incomplete_of E d infos) folders)"

section \<open>The snapshot\<close>

datatype overall = StateEmpty | StateProtected | StateWarning | StateError

record storage_space =
  st_Known :: bool
  st_TotalBytes :: int
  st_FreeBytes :: int
  st_BackupBytes :: int
  st_FullEstimate :: int

record keys_state =
  kt_Exists :: bool
  kt_Created :: int
  kt_Methods :: string
  kt_RecoveryCode :: bool
  kt_YubiKey :: bool
  kt_YubiKeyInBackups :: bool
  kt_YubiKeyConnected :: "bool option"
  kt_NewKeysReason :: string

record run_log =
  rl_RunID :: string
  rl_Date :: string
  rl_Path :: string
  rl_Modified :: int

record snapshot =
  sn_State :: overall
  sn_Problems :: "problem list"
  sn_Notes :: "problem list"
  sn_Folders :: "folder_status list"
  sn_BackupDir :: string
  sn_Runs :: "run_summary list"
  sn_Sets :: "set_info list"
  sn_Facts :: "string \<rightharpoonup> run_facts"
  sn_SetFacts :: "string \<rightharpoonup> fact"
  sn_Verified :: "string \<rightharpoonup> fact"
  sn_Logs :: "run_log list"
  sn_Storage :: storage_space
  sn_Keys :: keys_state
  sn_Retention :: "set_info list"
  sn_Check :: health_result
  sn_Checked :: int

definition hasStatus :: "problem list \<Rightarrow> status \<Rightarrow> bool" where
  "hasStatus ps st = list_ex (\<lambda>p. pr_Status p = st) ps"

definition blindingError :: "problem list \<Rightarrow> bool" where
  "blindingError ps = list_ex (\<lambda>p. pr_Code p \<in> {CodeBackupDirUnreachable, CodeBackupDirNotWritable, CodeConfigInvalid}
     \<and> pr_Status p = StatusError) ps"

definition stateOf :: "problem list \<Rightarrow> bool \<Rightarrow> overall" where
  "stateOf ps anyBackup =
     (if \<not> anyBackup \<and> \<not> blindingError ps then StateEmpty
      else if hasStatus ps StatusError then StateError
      else if hasStatus ps StatusWarn then StateWarning
      else StateProtected)"

text \<open>The maps of a log replace those read before; of two verifications of a set the newer one stays.\<close>

definition merge_verified :: "(string \<rightharpoonup> fact) \<Rightarrow> (string \<rightharpoonup> fact) \<Rightarrow> string \<rightharpoonup> fact" where
  "merge_verified known new = (\<lambda>set. case new set of None \<Rightarrow> known set | Some f \<Rightarrow>
     (case known set of None \<Rightarrow> Some f | Some k \<Rightarrow> if f_Time f > f_Time k then Some f else Some k))"

definition read_log :: "log_env \<Rightarrow> backup_dir \<Rightarrow> snapshot \<Rightarrow> string \<times> bool \<Rightarrow> snapshot" where
  "read_log L d s e = (case e of (name, isDir) \<Rightarrow> (case ParseLogFileName name of None \<Rightarrow> s | Some (date, runID) \<Rightarrow>
     if isDir then s
     else
       let l = \<lparr>rl_RunID = runID, rl_Date = date, rl_Path = name, rl_Modified = (case dir_mtime d name of Inl _ \<Rightarrow> 0 | Inr t \<Rightarrow> t)\<rparr>;
           s = s\<lparr>sn_Logs := sn_Logs s @ [l]\<rparr>
       in case ReadFacts L (dir_data d name) of
            (_, Some _) \<Rightarrow> s
          | (facts, None) \<Rightarrow> s\<lparr>sn_Facts := (sn_Facts s)(runID \<mapsto> facts), sn_SetFacts := sn_SetFacts s ++ rf_Sets facts,
              sn_Verified := merge_verified (sn_Verified s) (rf_Verify facts)\<rparr>))"

text \<open>\<open>sh\<close> is the order in which the sort sees logs of one time.\<close>

definition readFacts :: "log_env \<Rightarrow> (run_log list \<Rightarrow> run_log list) \<Rightarrow> backup_dir \<Rightarrow> snapshot \<Rightarrow> snapshot" where
  "readFacts L sh d s =
     (let s = s\<lparr>sn_Facts := Map.empty, sn_SetFacts := Map.empty, sn_Verified := Map.empty, sn_Logs := []\<rparr> in
      case dir_list d of Inl _ \<Rightarrow> s
      | Inr entries \<Rightarrow> let s = foldl (read_log L d) s entries
          in s\<lparr>sn_Logs := sort_by (\<lambda>a b. rl_Modified a > rl_Modified b) (sh (sn_Logs s))\<rparr>)"

definition LogOf :: "snapshot \<Rightarrow> string \<Rightarrow> run_log option" where
  "LogOf s runID = find (\<lambda>l. rl_RunID l = runID) (sn_Logs s)"

definition folder_status_of :: "set_info list \<Rightarrow> (string \<rightharpoonup> folder) \<Rightarrow> source_dir \<Rightarrow> folder_status" where
  "folder_status_of infos nxt src = \<lparr>fs_Source = src,
     fs_Newest = find (\<lambda>i. DirectoryName (Entry i) = BackupName src \<and> Complete i) infos,
     fs_Next = (if SrcErr src = None \<and> \<not> Skip src then nxt (BackupName src) else None)\<rparr>"

definition folderStatuses :: "source_dir list \<Rightarrow> set_info list \<Rightarrow> (string \<rightharpoonup> folder) \<Rightarrow> folder_status list" where
  "folderStatuses sources infos nxt = map (folder_status_of infos nxt) sources"

definition full_size :: "set_info list \<Rightarrow> int \<Rightarrow> folder_status \<Rightarrow> int" where
  "full_size infos n f =
     (if Skip (fs_Source f) then n
      else case find (\<lambda>i. DirectoryName (Entry i) = BackupName (fs_Source f) \<and> Complete i \<and> \<not> IsDiff (Entry i)) infos of
        None \<Rightarrow> n | Some i \<Rightarrow> add64 n (SizeBytes i))"

definition storage :: "path_env \<Rightarrow> health_env \<Rightarrow> string \<Rightarrow> set_info list \<Rightarrow> folder_status list \<Rightarrow> storage_space" where
  "storage P H backupDir infos folders =
     (let st = \<lparr>st_Known = False, st_TotalBytes = 0, st_FreeBytes = 0, st_BackupBytes = foldl (\<lambda>n i. add64 n (SizeBytes i)) 0 infos,
            st_FullEstimate = foldl (full_size infos) 0 folders\<rparr>;
          loc = (if is_ok (pa_stat P backupDir) then backupDir else volumeRoot P backupDir)
      in case he_space H loc of Inl _ \<Rightarrow> st
         | Inr (free, capacity) \<Rightarrow> st\<lparr>st_Known := True, st_FreeBytes := int64 free, st_TotalBytes := int64 capacity\<rparr>)"

definition keysSummary :: "format_env \<Rightarrow> config \<Rightarrow> set_info list \<Rightarrow> plan_keys \<Rightarrow> bool option \<Rightarrow> keys_state" where
  "keysSummary E cfg infos keys connected =
     (let k = \<lparr>kt_Exists = False, kt_Created = 0, kt_Methods = [], kt_RecoveryCode = False, kt_YubiKey = False,
            kt_YubiKeyInBackups = list_ex (\<lambda>i. case header_keys i of None \<Rightarrow> False | Some ks \<Rightarrow> AuthModeUsesYubiKey (ks_AuthMode ks)) infos,
            kt_YubiKeyConnected = connected, kt_NewKeysReason = []\<rparr>
      in case CurrentKeySet infos of None \<Rightarrow> k
         | Some ks \<Rightarrow> k\<lparr>kt_Exists := True, kt_Created := KeySetCreated (fe_time E) ks, kt_Methods := AuthModeLabel (ks_AuthMode ks),
             kt_RecoveryCode := HasSlotType ks SlotRecovery, kt_YubiKey := AuthModeUsesYubiKey (ks_AuthMode ks),
             kt_NewKeysReason := (if Existing keys = None then NewKeysReason keys else [])\<rparr>)"

text \<open>What is already in the snapshot decides its problems; they come before the warnings, the most urgent first.\<close>

definition problem_errors :: "(err \<Rightarrow> bool) \<Rightarrow> inspection \<Rightarrow> snapshot \<Rightarrow> problem list" where
  "problem_errors not_exist ins s =
     (let bases = baseMissing (sn_Sets s) in
      fromItems (ip_items ins) StatusError [CodeConfigInvalid]
    @ fromItems (ip_items ins) StatusError [CodeYubiKeysConnected]
    @ map (\<lambda>item. (problem_of (hi_Code item) StatusError)\<lparr>pr_Path := ip_backupDir ins, pr_Detail := hi_Detail item\<rparr>)
        (filter (\<lambda>item. hi_Severity item = HealthError \<and> (hi_Code item = CodeBackupDirUnreachable \<or> hi_Code item = CodeBackupDirNotWritable))
           (ip_items ins))
    @ List.map_filter (\<lambda>f. case SrcErr (fs_Source f) of None \<Rightarrow> None | Some e \<Rightarrow>
        Some ((problem_of (SourceProblemCode not_exist e) StatusError)\<lparr>pr_Folder := BackupName (fs_Source f), pr_Path := Resolved (fs_Source f),
          pr_Detail := [(Resolved (fs_Source f) @ '' -> %v'', Some e)]\<rparr>)) (sn_Folders s)
    @ bases @ invalidSets (sn_Sets s) bases @ verifyFailed (sn_Sets s) (sn_Verified s))"

definition unread_files :: "snapshot \<Rightarrow> set_info \<Rightarrow> int" where
  "unread_files s i = (case sn_SetFacts s (EntryString (Entry i)) of None \<Rightarrow> 0 | Some f \<Rightarrow> Unread f)"

definition skipped_problem :: "snapshot \<Rightarrow> folder_status \<Rightarrow> problem option" where
  "skipped_problem s f = (case fs_Newest f of None \<Rightarrow> None | Some i \<Rightarrow>
     if Skip (fs_Source f) then None
     else if unread_files s i > 0 then
       Some ((problem_of CodeSkippedFiles StatusWarn)\<lparr>pr_Folder := BackupName (fs_Source f), pr_Set := Entry i, pr_Count := unread_files s i\<rparr>)
     else None)"

definition problem_warnings :: "format_env \<Rightarrow> config \<Rightarrow> int \<Rightarrow> backup_dir \<Rightarrow> inspection \<Rightarrow> snapshot \<Rightarrow> problem list" where
  "problem_warnings E cfg now d ins s =
     (case overdue E cfg now (sn_Sets s) of None \<Rightarrow> [] | Some p \<Rightarrow> [p])
   @ (if sn_Runs s \<noteq> [] then map (\<lambda>f. (problem_of CodeFolderNotBackedUp StatusWarn)\<lparr>pr_Folder := BackupName (fs_Source f), pr_Path := Resolved (fs_Source f)\<rparr>)
        (filter (\<lambda>f. SrcErr (fs_Source f) = None \<and> \<not> Skip (fs_Source f) \<and> fs_Newest f = None) (sn_Folders s)) else [])
   @ List.map_filter (skipped_problem s) (sn_Folders s)
   @ incompleteNewest E d (sn_Folders s) (sn_Sets s)
   @ (if st_Known (sn_Storage s) \<and> st_FullEstimate (sn_Storage s) > st_FreeBytes (sn_Storage s)
      then [(problem_of CodeSpaceLow StatusWarn)\<lparr>pr_Path := ip_backupDir ins, pr_Bytes := st_FullEstimate (sn_Storage s)\<rparr>] else [])
   @ fromItems (ip_items ins) StatusWarn [CodeArgon2Capped]
   @ map (\<lambda>item. (problem_of (hi_Code item) StatusWarn)\<lparr>pr_Path := ip_backupDir ins, pr_Detail := hi_Detail item\<rparr>)
       (filter (\<lambda>item. hi_Severity item = HealthWarn \<and> hi_Code item = CodeBackupDirNotWritable) (ip_items ins))"

definition problem_notes :: "inspection \<Rightarrow> problem list" where
  "problem_notes ins =
     (let left = (\<lambda>code n. if n > 0 then [(problem_of code StatusInfo)\<lparr>pr_Path := ip_backupDir ins, pr_Count := int n,
            pr_Detail := itemDetail (ip_items ins) code\<rparr>] else [])
      in fromItems (ip_items ins) StatusInfo [CodeSourceDuplicate, CodeYubiKeyNotConnected, CodeNewKeysNeeded]
       @ left CodeLegacyBackups (length (iv_legacy (ip_inventory ins))) @ left CodeLeftoverTempFiles (length (iv_temps (ip_inventory ins))))"

definition problems :: "format_env \<Rightarrow> (err \<Rightarrow> bool) \<Rightarrow> config \<Rightarrow> int \<Rightarrow> backup_dir \<Rightarrow> inspection \<Rightarrow> snapshot \<Rightarrow> problem list \<times> problem list" where
  "problems E not_exist cfg now d ins s = (problem_errors not_exist ins s @ problem_warnings E cfg now d ins s, problem_notes ins)"

record snapshot_env =
  se_format :: format_env
  se_paths :: path_env
  se_health :: health_env
  se_log :: log_env
  se_disk :: "string \<Rightarrow> backup_dir"
  se_sets :: "(backup_entry \<times> string list) list \<Rightarrow> (backup_entry \<times> string list) list"
  se_runs :: "run_summary list \<Rightarrow> run_summary list"
  se_chains :: "chain list \<Rightarrow> chain list"
  se_logs :: "run_log list \<Rightarrow> run_log list"
  se_header :: "int \<Rightarrow> header"

definition inspect_env :: "snapshot_env \<Rightarrow> config \<Rightarrow> string \<Rightarrow> string \<Rightarrow> inspection" where
  "inspect_env N cfg exeDir configPath = inspect (se_format N) (se_paths N) (se_health N) (se_sets N) (se_disk N) cfg exeDir configPath"

definition no_storage :: storage_space where
  "no_storage = \<lparr>st_Known = False, st_TotalBytes = 0, st_FreeBytes = 0, st_BackupBytes = 0, st_FullEstimate = 0\<rparr>"

definition no_keys_state :: keys_state where
  "no_keys_state = \<lparr>kt_Exists = False, kt_Created = 0, kt_Methods = [], kt_RecoveryCode = False, kt_YubiKey = False,
     kt_YubiKeyInBackups = False, kt_YubiKeyConnected = None, kt_NewKeysReason = []\<rparr>"

definition new_snapshot :: "string \<Rightarrow> health_item list \<Rightarrow> int \<Rightarrow> snapshot" where
  "new_snapshot backupDir items now = \<lparr>sn_State = StateEmpty, sn_Problems = [], sn_Notes = [], sn_Folders = [], sn_BackupDir = backupDir,
     sn_Runs = [], sn_Sets = [], sn_Facts = Map.empty, sn_SetFacts = Map.empty, sn_Verified = Map.empty, sn_Logs = [],
     sn_Storage = no_storage, sn_Keys = no_keys_state, sn_Retention = [], sn_Check = buildResult items, sn_Checked = now\<rparr>"

definition TakeSnapshot :: "snapshot_env \<Rightarrow> config \<Rightarrow> string \<Rightarrow> string \<Rightarrow> int \<Rightarrow> snapshot" where
  "TakeSnapshot N cfg exeDir configPath now =
     (let E = se_format N; ins = inspect_env N cfg exeDir configPath; d = se_disk N (ip_backupDir ins); sets = iv_infos (ip_inventory ins);
          s = (new_snapshot (ip_backupDir ins) (ip_items ins) now)\<lparr>sn_Sets := sets, sn_Runs := BackupRunSummaries E (se_runs N) sets\<rparr>;
          s = readFacts (se_log N) (se_logs N) d s;
          keys = KeysFor cfg sets;
          nxt = Folders (pa_base (se_paths N)) E cfg sets (ip_sources ins) keys False now;
          folders = folderStatuses (ip_sources ins) sets nxt;
          s = s\<lparr>sn_Folders := folders,
             sn_Storage := storage (se_paths N) (se_health N) (ip_backupDir ins) sets folders,
             sn_Keys := keysSummary E cfg sets keys (ip_yubiKeyConnected ins),
             sn_Retention := RetentionPreview E (se_chains N) d (se_header N now) cfg sets (ip_sources ins) nxt\<rparr>;
          (probs, notes) = problems E (he_not_exist (se_health N)) cfg now d ins s
      in s\<lparr>sn_Problems := probs, sn_Notes := notes, sn_State := stateOf probs (sn_Runs s \<noteq> [])\<rparr>)"

text \<open>What a caller gets when the check does not end in time.\<close>

definition unresponsive :: "path_env \<Rightarrow> config \<Rightarrow> string \<Rightarrow> int \<Rightarrow> snapshot" where
  "unresponsive P cfg exeDir now =
     (let backupDir = ResolveDir P (BackupDirectory cfg) exeDir;
          item = backup_dir_item HealthError CodeBackupDirUnreachable
            (backupDir @ '' does not respond. Remedy: Check the drive or the network connection, then check again.'') None
      in (new_snapshot backupDir [item] now)\<lparr>sn_State := StateError,
           sn_Problems := [(problem_of (hi_Code item) StatusError)\<lparr>pr_Path := backupDir, pr_Detail := hi_Detail item\<rparr>]\<rparr>)"


section \<open>What the check finds\<close>

lemma map_filter_iff: "y \<in> set (List.map_filter f xs) \<longleftrightarrow> (\<exists>x \<in> set xs. f x = Some y)"
  by (induction xs) (auto simp: List.map_filter_def)

lemma buildResult_scope:
  "hr_errorScopes (buildResult items) scope \<longleftrightarrow> (\<exists>item \<in> set items. hi_Severity item = HealthError \<and> hi_Scope item = scope)"
proof -
  let ?g = "\<lambda>scopes item. if hi_Severity item = HealthError then scopes(hi_Scope item := True) else scopes"
  have "foldl ?g m items scope \<longleftrightarrow> m scope \<or> (\<exists>item \<in> set items. hi_Severity item = HealthError \<and> hi_Scope item = scope)" for m
    by (induction items arbitrary: m) (auto split: if_splits)
  then show ?thesis by (simp add: buildResult_def)
qed

lemma completeFullChains_iff:
  "completeFullChains infos key \<longleftrightarrow> (\<exists>i \<in> set infos. Complete i \<and> \<not> IsDiff (Entry i) \<and> ChainKey (Entry i) = key)"
proof -
  let ?g = "\<lambda>fulls i. if Complete i \<and> \<not> IsDiff (Entry i) then fulls(ChainKey (Entry i) := True) else fulls"
  have "foldl ?g m infos key \<longleftrightarrow> m key \<or> (\<exists>i \<in> set infos. Complete i \<and> \<not> IsDiff (Entry i) \<and> ChainKey (Entry i) = key)" for m
    by (induction infos arbitrary: m) (auto split: if_splits)
  then show ?thesis by (simp add: completeFullChains_def)
qed

text \<open>Which findings are errors, by the scope they block.\<close>

definition error_kind :: "source_dir list \<Rightarrow> health_item \<Rightarrow> bool" where
  "error_kind sources item \<longleftrightarrow>
     (hi_Scope item = healthScopeConfig \<and> hi_Code item = CodeConfigInvalid)
   \<or> (hi_Scope item = healthScopeSourceDirectory \<and> (\<exists>src \<in> set sources. SrcErr src \<noteq> None))
   \<or> (hi_Scope item = healthScopeBackupDirectory \<and> hi_Code item \<in> {CodeBackupDirUnreachable, CodeBackupDirNotWritable})
   \<or> (hi_Scope item = healthScopeYubiKeys \<and> hi_Code item = CodeYubiKeysConnected)
   \<or> hi_Scope item \<in> {healthScopeBackupInventory, healthScopeBackupSet}"

lemma check_errors:
  "\<forall>item \<in> set (checkConfigFileHealth P p). hi_Severity item = HealthError \<longrightarrow> error_kind ss item"
  "\<forall>item \<in> set (checkArgon2Health cfg). hi_Severity item \<noteq> HealthError"
  "\<forall>item \<in> set (sourceItems ne ss). hi_Severity item = HealthError \<longrightarrow> error_kind ss item"
  "\<forall>item \<in> set (checkBackupDirectoryHealth P H b). hi_Severity item = HealthError \<longrightarrow> error_kind ss item"
  "\<forall>item \<in> set (fst (checkYubiKeyHealth H cfg)). hi_Severity item = HealthError \<longrightarrow> error_kind ss item"
  by (auto simp: checkConfigFileHealth_def checkArgon2Health_def sourceItems_def source_item_def checkBackupDirectoryHealth_def
      probeWriteAccess_def checkYubiKeyHealth_def backup_dir_item_def ok_item_def error_kind_def split: sum.splits option.splits)

lemma inventory_checks:
  "\<forall>item \<in> set (legacyAndTempItems iv). hi_Severity item \<noteq> HealthError"
  "\<forall>item \<in> set (checkKeyHealth cfg infos). hi_Severity item \<noteq> HealthError"
  "\<forall>item \<in> set (buildBackupInventoryIssueItems infos). hi_Severity item = HealthError \<longrightarrow> hi_Scope item = healthScopeBackupSet"
proof -
  show "\<forall>item \<in> set (legacyAndTempItems iv). hi_Severity item \<noteq> HealthError"
    by (auto simp: legacyAndTempItems_def inventory_item_def)
  show "\<forall>item \<in> set (checkKeyHealth cfg infos). hi_Severity item \<noteq> HealthError"
    by (simp add: checkKeyHealth_def ok_item_def Let_def split: option.split)
  have "hi_Scope item = healthScopeBackupSet" if "set_issue c info = Some item" for c info item
    using that by (auto simp: set_issue_def set_item_def split: option.splits if_splits)
  then show "\<forall>item \<in> set (buildBackupInventoryIssueItems infos). hi_Severity item = HealthError \<longrightarrow> hi_Scope item = healthScopeBackupSet"
    by (auto simp: buildBackupInventoryIssueItems_def map_filter_iff ok_item_def Let_def)
qed

lemma inventory_errors:
  "\<forall>item \<in> set (inventoryItems H cfg iv). hi_Severity item = HealthError \<longrightarrow> error_kind ss item"
  using inventory_checks(1) [of iv] inventory_checks(2) [of cfg "iv_infos iv"] inventory_checks(3) [of "iv_infos iv"]
  by (cases "iv_err iv") (auto simp: inventoryItems_def inventory_item_def ok_item_def error_kind_def)

lemma inspect_items:
  "ip_items (inspect_env N cfg exeDir configPath) =
     (let ins = inspect_env N cfg exeDir configPath in
      checkConfigFileHealth (se_paths N) (ip_configPath ins) @ checkArgon2Health cfg @ sourceItems (he_not_exist (se_health N)) (ip_sources ins)
        @ checkBackupDirectoryHealth (se_paths N) (se_health N) (ip_backupDir ins) @ fst (checkYubiKeyHealth (se_health N) cfg)
        @ inventoryItems (se_health N) cfg (ip_inventory ins))"
  by (simp add: inspect_env_def inspect_def Let_def split: prod.split)

lemma inspect_errors:
  assumes "item \<in> set (ip_items (inspect_env N cfg exeDir configPath))" "hi_Severity item = HealthError"
  shows "error_kind (ip_sources (inspect_env N cfg exeDir configPath)) item"
  using assms unfolding inspect_items Let_def set_append 
  by (elim UnE) (simp_all add: check_errors [rule_format] inventory_errors [rule_format])

section \<open>The fields of a snapshot\<close>

lemma read_log_frame [simp]:
  "sn_Sets (read_log L d s e) = sn_Sets s" "sn_Runs (read_log L d s e) = sn_Runs s" "sn_BackupDir (read_log L d s e) = sn_BackupDir s"
  "sn_Check (read_log L d s e) = sn_Check s" "sn_Checked (read_log L d s e) = sn_Checked s"
  by (simp_all add: read_log_def Let_def split: prod.splits option.splits)

lemma read_logs_frame:
  "sn_Sets (foldl (read_log L d) s es) = sn_Sets s \<and> sn_Runs (foldl (read_log L d) s es) = sn_Runs s
     \<and> sn_Check (foldl (read_log L d) s es) = sn_Check s"
  by (induction es arbitrary: s) simp_all

lemma readFacts_frame [simp]:
  "sn_Sets (readFacts L sh d s) = sn_Sets s" "sn_Runs (readFacts L sh d s) = sn_Runs s" "sn_Check (readFacts L sh d s) = sn_Check s"
  using read_logs_frame by (simp_all add: readFacts_def Let_def split: sum.splits)

lemma problems_frame:
  "problem_errors ne ins (s\<lparr>sn_Problems := a, sn_Notes := b, sn_State := c\<rparr>) = problem_errors ne ins s"
  "problem_warnings E cfg now d ins (s\<lparr>sn_Problems := a, sn_Notes := b, sn_State := c\<rparr>) = problem_warnings E cfg now d ins s"
proof -
  have "unread_files (s\<lparr>sn_Problems := a, sn_Notes := b, sn_State := c\<rparr>) = unread_files s"
    by (simp add: fun_eq_iff unread_files_def)
  then have "skipped_problem (s\<lparr>sn_Problems := a, sn_Notes := b, sn_State := c\<rparr>) = skipped_problem s"
    by (simp only: fun_eq_iff skipped_problem_def) simp
  then show "problem_warnings E cfg now d ins (s\<lparr>sn_Problems := a, sn_Notes := b, sn_State := c\<rparr>) = problem_warnings E cfg now d ins s"
    by (simp add: problem_warnings_def)
  show "problem_errors ne ins (s\<lparr>sn_Problems := a, sn_Notes := b, sn_State := c\<rparr>) = problem_errors ne ins s"
    by (simp add: problem_errors_def)
qed

lemma snapshot_fields:
  fixes N cfg exeDir configPath now
  defines "ins \<equiv> inspect_env N cfg exeDir configPath" and "s \<equiv> TakeSnapshot N cfg exeDir configPath now"
  shows "sn_Sets s = iv_infos (ip_inventory ins)" "sn_Check s = buildResult (ip_items ins)"
    "sn_Runs s = BackupRunSummaries (se_format N) (se_runs N) (sn_Sets s)"
    "\<exists>nxt. sn_Folders s = folderStatuses (ip_sources ins) (sn_Sets s) nxt"
    "sn_Problems s = problem_errors (he_not_exist (se_health N)) ins s @ problem_warnings (se_format N) cfg now (se_disk N (ip_backupDir ins)) ins s"
    "sn_State s = stateOf (sn_Problems s) (sn_Runs s \<noteq> [])"
proof -
  show "sn_Sets s = iv_infos (ip_inventory ins)" "sn_Check s = buildResult (ip_items ins)"
    "sn_Runs s = BackupRunSummaries (se_format N) (se_runs N) (sn_Sets s)"
    "\<exists>nxt. sn_Folders s = folderStatuses (ip_sources ins) (sn_Sets s) nxt"
    "sn_State s = stateOf (sn_Problems s) (sn_Runs s \<noteq> [])"
    by (auto simp: s_def ins_def TakeSnapshot_def Let_def problems_def new_snapshot_def)
  show "sn_Problems s = problem_errors (he_not_exist (se_health N)) ins s @ problem_warnings (se_format N) cfg now (se_disk N (ip_backupDir ins)) ins s"
    by (simp add: s_def ins_def TakeSnapshot_def Let_def problems_def problems_frame)
qed


text \<open>An error of the check that blocks an operation is a problem of the snapshot.\<close>

lemma error_problem:
  fixes N cfg exeDir configPath now
  defines "ins \<equiv> inspect_env N cfg exeDir configPath" and "s \<equiv> TakeSnapshot N cfg exeDir configPath now"
  assumes "hr_errorScopes (sn_Check s) scope" "scope \<notin> {healthScopeBackupInventory, healthScopeBackupSet}"
  shows "hasStatus (sn_Problems s) StatusError"
    and "scope \<in> {healthScopeConfig, healthScopeBackupDirectory} \<Longrightarrow> blindingError (sn_Problems s)"
    and "scope \<noteq> healthScopeYubiKey"
proof -
  note f = snapshot_fields [of N cfg exeDir configPath now, folded ins_def s_def]
  obtain item where i: "item \<in> set (ip_items ins)" "hi_Severity item = HealthError" "hi_Scope item = scope"
    using assms(3) f(2) by (auto simp: buildResult_scope)
  have k: "error_kind (ip_sources ins) item" using inspect_errors i(1,2) unfolding ins_def by blast
  then show "scope \<noteq> healthScopeYubiKey" using i(3) by (auto simp: error_kind_def scope_defs)
  have fi: "\<exists>p \<in> set (fromItems (ip_items ins) StatusError [c]). pr_Status p = StatusError \<and> pr_Code p = hi_Code item" if "hi_Code item = c" for c
    using i(1,2) that by (force simp: fromItems_def problem_of_def)
  let ?dir = "map (\<lambda>item. (problem_of (hi_Code item) StatusError)\<lparr>pr_Path := ip_backupDir ins, pr_Detail := hi_Detail item\<rparr>)
        (filter (\<lambda>item. hi_Severity item = HealthError \<and> (hi_Code item = CodeBackupDirUnreachable \<or> hi_Code item = CodeBackupDirNotWritable))
           (ip_items ins))"
  have d: "\<exists>p \<in> set ?dir. pr_Status p = StatusError \<and> pr_Code p = hi_Code item" if "hi_Code item \<in> {CodeBackupDirUnreachable, CodeBackupDirNotWritable}"
    using i(1,2) that by (force simp: problem_of_def)
  have src: "\<exists>p \<in> set (sn_Problems s). pr_Status p = StatusError" if src: "src \<in> set (ip_sources ins)" "SrcErr src = Some e" for src e
  proof -
    obtain nxt where "sn_Folders s = folderStatuses (ip_sources ins) (sn_Sets s) nxt" using f(4) by blast
    then have "folder_status_of (sn_Sets s) nxt src \<in> set (sn_Folders s)" using src(1) by (simp add: folderStatuses_def)
    then have "\<exists>p \<in> set (List.map_filter (\<lambda>f. case SrcErr (fs_Source f) of None \<Rightarrow> None | Some e \<Rightarrow>
        Some ((problem_of (SourceProblemCode (he_not_exist (se_health N)) e) StatusError)\<lparr>pr_Folder := BackupName (fs_Source f),
          pr_Path := Resolved (fs_Source f), pr_Detail := [(Resolved (fs_Source f) @ '' -> %v'', Some e)]\<rparr>)) (sn_Folders s)).
        pr_Status p = StatusError"
      using src(2) by (force simp: map_filter_iff folder_status_of_def problem_of_def)
    then show ?thesis unfolding f(5) problem_errors_def Let_def by auto
  qed
  have sub: "set (fromItems (ip_items ins) StatusError [CodeConfigInvalid]) \<subseteq> set (sn_Problems s)"
    "set (fromItems (ip_items ins) StatusError [CodeYubiKeysConnected]) \<subseteq> set (sn_Problems s)" "set ?dir \<subseteq> set (sn_Problems s)"
    unfolding f(5) problem_errors_def Let_def by auto
  have "\<exists>p \<in> set (sn_Problems s). pr_Status p = StatusError \<and> (scope \<in> {healthScopeConfig, healthScopeBackupDirectory} \<longrightarrow> pr_Code p = hi_Code item)"
  proof -
    consider (config) "hi_Code item = CodeConfigInvalid" | (source) "scope = healthScopeSourceDirectory" "\<exists>src \<in> set (ip_sources ins). SrcErr src \<noteq> None"
      | (dir) "hi_Code item \<in> {CodeBackupDirUnreachable, CodeBackupDirNotWritable}" | (yubikeys) "hi_Code item = CodeYubiKeysConnected"
      using k i(3) assms(4) unfolding error_kind_def by blast
    then show ?thesis
    proof cases
      case config
      then show ?thesis using fi [OF config] sub(1) by blast
    next
      case source
      then have "\<exists>p \<in> set (sn_Problems s). pr_Status p = StatusError" using src by blast
      then show ?thesis using source(1) by (simp add: scope_defs)
    next
      case dir
      from d [OF dir] obtain p where "p \<in> set ?dir" "pr_Status p = StatusError \<and> pr_Code p = hi_Code item" by (rule bexE)
      moreover from this(1) sub(3) have "p \<in> set (sn_Problems s)" by (rule rev_subsetD)
      ultimately show ?thesis by blast
    next
      case yubikeys
      then show ?thesis using fi [OF yubikeys] sub(2) by blast
    qed
  qed
  then obtain p where p: "p \<in> set (sn_Problems s)" "pr_Status p = StatusError"
    "scope \<in> {healthScopeConfig, healthScopeBackupDirectory} \<Longrightarrow> pr_Code p = hi_Code item" by blast
  show "hasStatus (sn_Problems s) StatusError" using p(1,2) by (auto simp: hasStatus_def list_ex_iff)
  assume sc: "scope \<in> {healthScopeConfig, healthScopeBackupDirectory}"
  then have "hi_Code item \<in> {CodeBackupDirUnreachable, CodeBackupDirNotWritable, CodeConfigInvalid}"
    using k i(3) by (auto simp: error_kind_def scope_defs)
  then show "blindingError (sn_Problems s)" using p sc by (fastforce simp: blindingError_def list_ex_iff)
qed

lemma blocks_error:
  fixes N cfg exeDir configPath now
  defines "s \<equiv> TakeSnapshot N cfg exeDir configPath now"
  assumes "BlocksBackup (sn_Check s)"
  shows "hasStatus (sn_Problems s) StatusError"
proof -
  have "healthScopeConfig \<notin> {healthScopeBackupInventory, healthScopeBackupSet}" "healthScopeSourceDirectory \<notin> {healthScopeBackupInventory, healthScopeBackupSet}"
    "healthScopeBackupDirectory \<notin> {healthScopeBackupInventory, healthScopeBackupSet}" "healthScopeYubiKey \<notin> {healthScopeBackupInventory, healthScopeBackupSet}"
    "healthScopeYubiKeys \<notin> {healthScopeBackupInventory, healthScopeBackupSet}" by (simp_all add: scope_defs)
  with assms(2) show ?thesis
    unfolding BlocksBackup_def s_def using error_problem(1) [of N cfg exeDir configPath now] by blast
qed

text \<open>C39. What the health check blocks, the snapshot shows: when a backup is blocked there is an error among the problems and
  the state is not Protected or Warning, and when restoring and verifying are blocked the state is Error, also without a backup.\<close>

theorem blocked_is_shown:
  fixes N cfg exeDir configPath now
  defines "s \<equiv> TakeSnapshot N cfg exeDir configPath now"
  shows "(BlocksBackup (sn_Check s) \<longrightarrow> hasStatus (sn_Problems s) StatusError \<and> sn_State s \<in> {StateEmpty, StateError})
    \<and> (BlocksRestoreOrVerify (sn_Check s) \<longrightarrow> BlocksBackup (sn_Check s) \<and> sn_State s = StateError)"
proof -
  note e = error_problem [of N cfg exeDir configPath now, folded s_def]
  have st: "sn_State s = stateOf (sn_Problems s) (sn_Runs s \<noteq> [])" unfolding s_def by (rule snapshot_fields(6))
  have b: "hasStatus (sn_Problems s) StatusError" if "BlocksBackup (sn_Check s)"
    using that unfolding s_def by (rule blocks_error)
  have r: "blindingError (sn_Problems s) \<and> BlocksBackup (sn_Check s)" if "BlocksRestoreOrVerify (sn_Check s)"
    using that e(2) [of healthScopeConfig] e(2) [of healthScopeBackupDirectory] e(3) [of healthScopeYubiKey]
    by (auto simp: BlocksRestoreOrVerify_def BlocksBackup_def scope_defs)
  show ?thesis using b r st by (auto simp: stateOf_def)
qed

section \<open>Differentials without their full backup\<close>

definition orphan :: "set_info list \<Rightarrow> set_info \<Rightarrow> bool" where
  "orphan infos i \<longleftrightarrow> Complete i \<and> IsDiff (Entry i) \<and> \<not> (\<exists>j \<in> set infos. Complete j \<and> \<not> IsDiff (Entry j) \<and> ChainKey (Entry j) = ChainKey (Entry i))"

definition problem_key :: "problem \<Rightarrow> string" where
  "problem_key p = pr_Folder p @ ''|'' @ pr_ChainID p"

definition base_problem_ok :: "set_info list \<Rightarrow> problem \<Rightarrow> bool" where
  "base_problem_ok infos p \<longleftrightarrow> pr_Code p = CodeBaseMissing \<and> pr_Status p = StatusError
     \<and> pr_Set p = (case brokenFull infos (problem_key p) of None \<Rightarrow> no_entry | Some b \<Rightarrow> Entry b)"

lemma base_problem_fields:
  "problem_key (base_problem infos i) = ChainKey (Entry i)" "pr_Count (base_problem infos i) = 1" "base_problem_ok infos (base_problem infos i)"
  by (simp_all add: base_problem_ok_def base_problem_def problem_key_def problem_of_def ChainKey_def Let_def split: option.splits)

lemma problem_key_count [simp]: "problem_key (p\<lparr>pr_Count := n\<rparr>) = problem_key p"
  by (simp add: problem_key_def)

text \<open>\<open>index\<close> finds exactly the problems in \<open>out\<close>, by chain.\<close>

definition indexed :: "(string \<rightharpoonup> nat) \<Rightarrow> problem list \<Rightarrow> bool" where
  "indexed index out \<longleftrightarrow> (\<forall>k i. index k = Some i \<longleftrightarrow> i < length out \<and> problem_key (out ! i) = k)"

lemma indexed_distinct: "indexed index out \<Longrightarrow> distinct (map problem_key out)"
  unfolding indexed_def distinct_conv_nth by (metis length_map nth_map option.inject)

lemma indexed_new: "indexed index out \<Longrightarrow> index (problem_key p) = None \<Longrightarrow> indexed (index(problem_key p \<mapsto> length out)) (out @ [p])"
  unfolding indexed_def by (auto simp: nth_append less_Suc_eq) (metis option.distinct(1))

lemma indexed_update: "indexed index out \<Longrightarrow> problem_key p = problem_key (out ! i) \<Longrightarrow> indexed index (out[i := p])"
  unfolding indexed_def by (simp add: nth_list_update) (metis nth_list_update_eq nth_list_update_neq)

lemma indexed_find: "indexed index out \<Longrightarrow> (\<exists>i. index k = Some i) \<longleftrightarrow> k \<in> problem_key ` set out"
  unfolding indexed_def by (force simp: image_iff in_set_conv_nth)

definition orphans_in :: "set_info list \<Rightarrow> set_info list \<Rightarrow> string \<Rightarrow> nat" where
  "orphans_in infos rest k = length (filter (\<lambda>i. orphan infos i \<and> ChainKey (Entry i) = k) rest)"

definition count_at :: "problem list \<Rightarrow> string \<Rightarrow> int" where
  "count_at out k = (\<Sum>p \<leftarrow> filter (\<lambda>p. problem_key p = k) out. pr_Count p)"

lemma count_at_update:
  assumes "i < length out"
  shows "count_at (out[i := (out ! i)\<lparr>pr_Count := pr_Count (out ! i) + 1\<rparr>]) k = count_at out k + (if problem_key (out ! i) = k then 1 else 0)"
  using assms
proof (induction out arbitrary: i)
  case Nil
  then show ?case by simp
next
  case (Cons p out)
  then show ?case by (cases i) (auto simp: count_at_def)
qed

lemma filter_key_one: "p \<in> set ps \<Longrightarrow> distinct (map f ps) \<Longrightarrow> filter (\<lambda>q. f q = f p) ps = [p]"
proof (induction ps)
  case (Cons q ps)
  then show ?case by (cases "f q = f p") (force simp: filter_empty_conv image_iff)+
qed simp

lemma count_at_single: "filter (\<lambda>q. problem_key q = k) ps = [p] \<Longrightarrow> count_at ps k = pr_Count p"
  by (simp add: count_at_def)

definition base_spec :: "set_info list \<Rightarrow> set_info list \<Rightarrow> problem list \<Rightarrow> problem list \<Rightarrow> bool" where
  "base_spec infos rest out res \<longleftrightarrow> distinct (map problem_key res) \<and> (\<forall>p \<in> set res. base_problem_ok infos p)
     \<and> problem_key ` set res = problem_key ` set out \<union> {k. orphans_in infos rest k > 0}
     \<and> (\<forall>k. count_at res k = count_at out k + int (orphans_in infos rest k))"

lemma base_loop_spec:
  "indexed index out \<Longrightarrow> \<forall>p \<in> set out. base_problem_ok infos p \<Longrightarrow> base_spec infos rest out (base_loop infos rest index out)"
proof (induction infos rest index out rule: base_loop.induct)
  case (1 infos index out)
  then show ?case by (simp add: base_spec_def orphans_in_def indexed_distinct)
next
  case (2 infos i rest index out)
  let ?key = "ChainKey (Entry i)"
  have o: "(\<not> Complete i \<or> \<not> IsDiff (Entry i) \<or> completeFullChains infos ?key) = (\<not> orphan infos i)"
    by (auto simp: orphan_def completeFullChains_iff)
  have n: "orphans_in infos (i # rest) k = (if orphan infos i \<and> ?key = k then 1 else 0) + orphans_in infos rest k" for k
    by (simp add: orphans_in_def)
  show ?case
  proof (cases "orphan infos i")
    case False
    then show ?thesis using 2 o n by (simp add: base_spec_def)
  next
    case orphan: True
    show ?thesis
    proof (cases "index ?key")
      case None
      let ?p = "base_problem infos i"
      have "base_spec infos rest (out @ [?p]) (base_loop infos rest (index(?key \<mapsto> length out)) (out @ [?p]))"
        using 2(2) [OF refl] orphan o None 2(4,5) indexed_new [OF 2(4), of ?p] base_problem_fields by (simp del: fun_upd_apply)
      moreover have "count_at (out @ [?p]) k = count_at out k + (if ?key = k then 1 else 0)" for k
        by (simp add: count_at_def base_problem_fields)
      ultimately show ?thesis using orphan o n None by (auto simp: base_spec_def base_problem_fields)
    next
      case (Some m)
      let ?p = "(out ! m)\<lparr>pr_Count := pr_Count (out ! m) + 1\<rparr>"
      have m: "m < length out" "problem_key (out ! m) = ?key" using 2(4) Some by (auto simp: indexed_def)
      then have ok: "\<forall>p \<in> set (out[m := ?p]). base_problem_ok infos p"
        using 2(5) set_update_subset_insert [of out m ?p] by (auto simp: base_problem_ok_def)
      have here: "?key \<in> problem_key ` set out" using m by (metis image_eqI nth_mem)
      have keys: "map problem_key (out[m := ?p]) = map problem_key out" by (simp add: map_update) (metis list_update_id map_update problem_key_count)
      have "base_spec infos rest (out[m := ?p]) (base_loop infos rest index (out[m := ?p]))"
        using 2(3) [OF refl] orphan o Some ok indexed_update [OF 2(4), of ?p m] by simp
      then show ?thesis
        using orphan o n Some here count_at_update [OF m(1)] m keys [THEN arg_cong, of set] by (auto simp: base_spec_def)
    qed
  qed
qed

lemma base_missing_spec: "base_spec infos infos [] (baseMissing infos)"
  unfolding baseMissing_def by (rule base_loop_spec) (simp_all add: indexed_def)

lemma base_missing_ok: "\<forall>p \<in> set (baseMissing infos). base_problem_ok infos p"
  using base_missing_spec by (simp add: base_spec_def)

lemma base_missing_keys: "(\<exists>p \<in> set (baseMissing infos). problem_key p = k) \<longleftrightarrow> (\<exists>i \<in> set infos. orphan infos i \<and> ChainKey (Entry i) = k)"
proof -
  have "k \<in> problem_key ` set (baseMissing infos) \<longleftrightarrow> orphans_in infos infos k > 0" using base_missing_spec [of infos] by (auto simp: base_spec_def)
  then show ?thesis by (simp add: orphans_in_def image_iff filter_empty_conv) metis
qed

lemma base_missing_Nil: "baseMissing infos = [] \<Longrightarrow> i \<in> set infos \<Longrightarrow> \<not> orphan infos i"
  using base_missing_keys [of infos "ChainKey (Entry i)"] by auto

text \<open>C40. Every chain that has differentials but no full backup to restore them with is reported once, with the number of
  its differentials and with its full backup where there is a broken one, and no other chain is reported.\<close>

theorem base_missing_exact:
  "distinct (map problem_key (baseMissing infos))
   \<and> (\<forall>k. (\<exists>p \<in> set (baseMissing infos). problem_key p = k) \<longleftrightarrow> (\<exists>i \<in> set infos. orphan infos i \<and> ChainKey (Entry i) = k))
   \<and> (\<forall>p \<in> set (baseMissing infos).
       pr_Count p = int (length (filter (\<lambda>i. orphan infos i \<and> ChainKey (Entry i) = problem_key p) infos))
     \<and> pr_Code p = CodeBaseMissing \<and> pr_Status p = StatusError
     \<and> pr_Set p = (case find (\<lambda>i. \<not> IsDiff (Entry i) \<and> ChainKey (Entry i) = problem_key p \<and> Err i \<noteq> None) infos of
           None \<Rightarrow> no_entry | Some b \<Rightarrow> Entry b))"
proof (intro conjI allI ballI)
  let ?ps = "baseMissing infos"
  note s = base_missing_spec [of infos]
  then show d: "distinct (map problem_key ?ps)" by (simp add: base_spec_def)
  show "(\<exists>p \<in> set ?ps. problem_key p = k) \<longleftrightarrow> (\<exists>i \<in> set infos. orphan infos i \<and> ChainKey (Entry i) = k)" for k
    by (rule base_missing_keys)
  fix p assume p: "p \<in> set ?ps"
  then have one: "filter (\<lambda>q. problem_key q = problem_key p) ?ps = [p]" using d by (rule filter_key_one)
  have "count_at [] (problem_key p) = 0" by (simp add: count_at_def)
  then have "count_at ?ps (problem_key p) = int (orphans_in infos infos (problem_key p))" using s unfolding base_spec_def by simp
  then show "pr_Count p = int (length (filter (\<lambda>i. orphan infos i \<and> ChainKey (Entry i) = problem_key p) infos))"
    by (simp only: count_at_single [OF one] orphans_in_def)
  show "pr_Code p = CodeBaseMissing" "pr_Status p = StatusError"
    "pr_Set p = (case find (\<lambda>i. \<not> IsDiff (Entry i) \<and> ChainKey (Entry i) = problem_key p \<and> Err i \<noteq> None) infos of
           None \<Rightarrow> no_entry | Some b \<Rightarrow> Entry b)"
    using s p by (auto simp: base_spec_def base_problem_ok_def brokenFull_def)
qed

definition demo_orphans :: "set_info list" where
  "demo_orphans = [demo_info (demo_entry\<lparr>DiffNumber := 2\<rparr>), (demo_info demo_entry)\<lparr>Err := Some Corrupted\<rparr>, demo_info (demo_entry\<lparr>DiffNumber := 1\<rparr>)]"

lemma demo_orphan:
  "i \<in> set demo_orphans \<Longrightarrow> orphan demo_orphans i \<longleftrightarrow> DiffNumber (Entry i) \<noteq> 0" "i \<in> set demo_orphans \<Longrightarrow> ChainKey (Entry i) = ChainKey demo_entry"
  by (auto simp: demo_orphans_def orphan_def demo_info_def Complete_def IsDiff_def ChainKey_def demo_entry_def)

theorem base_missing_exact_witness:
  "\<exists>p \<in> set (baseMissing demo_orphans). problem_key p = ChainKey demo_entry \<and> pr_Count p = 2 \<and> pr_Set p = demo_entry"
proof -
  note t = base_missing_exact [of demo_orphans]
  have i: "hd demo_orphans \<in> set demo_orphans" "DiffNumber (Entry (hd demo_orphans)) \<noteq> 0" by (simp_all add: demo_orphans_def demo_info_def)
  then have "\<exists>i \<in> set demo_orphans. orphan demo_orphans i \<and> ChainKey (Entry i) = ChainKey demo_entry" using demo_orphan by blast
  then obtain p where p: "p \<in> set (baseMissing demo_orphans)" "problem_key p = ChainKey demo_entry" using t by blast
  have "filter (\<lambda>i. orphan demo_orphans i \<and> ChainKey (Entry i) = problem_key p) demo_orphans = filter (\<lambda>i. DiffNumber (Entry i) \<noteq> 0) demo_orphans"
    using demo_orphan p(2) by (intro filter_cong) auto
  moreover have "find (\<lambda>i. \<not> IsDiff (Entry i) \<and> ChainKey (Entry i) = problem_key p \<and> Err i \<noteq> None) demo_orphans
      = Some ((demo_info demo_entry)\<lparr>Err := Some Corrupted\<rparr>)"
    unfolding p(2) by (simp add: demo_orphans_def demo_info_def IsDiff_def demo_entry_def)
  ultimately have "pr_Count p = 2 \<and> pr_Set p = demo_entry" using t p(1) by (simp add: demo_orphans_def demo_info_def demo_entry_def)
  with p show ?thesis by blast
qed

section \<open>The state of the backups\<close>

lemma find_newest:
  assumes "ordered_by (newer_first E) infos" "find P infos = Some i" "j \<in> set infos" "P j"
  shows "Created E j \<le> Created E i"
proof -
  obtain k where k: "k < length infos" "i = infos ! k" "\<And>m. m < k \<Longrightarrow> \<not> P (infos ! m)" using assms(2) by (auto simp: find_Some_iff)
  obtain m where m: "m < length infos" "j = infos ! m" using assms(3) by (auto simp: in_set_conv_nth)
  with k(3) assms(4) have "k \<le> m" using not_less by blast
  then have "\<not> newer_first E j i" using sorted_wrt_nth_less [OF assms(1), of k m] m k(2) by (cases "k = m") auto
  then show ?thesis by (auto simp: newer_first_def split: if_splits)
qed

lemma newest_complete_bound:
  "0 \<le> newest_complete E infos \<and> (\<forall>i \<in> set infos. Complete i \<longrightarrow> Created E i \<le> newest_complete E infos)
   \<and> (newest_complete E infos \<noteq> 0 \<longrightarrow> (\<exists>i \<in> set infos. Complete i \<and> Created E i = newest_complete E infos))"
proof (induction infos rule: rev_induct)
  case Nil
  then show ?case by (simp add: newest_complete_def)
next
  case (snoc i infos)
  have "newest_complete E (infos @ [i]) = (if Complete i \<and> Created E i > newest_complete E infos then Created E i else newest_complete E infos)"
    by (simp add: newest_complete_def)
  with snoc show ?case by auto
qed

lemma part_status:
  "p \<in> set (baseMissing infos) \<Longrightarrow> pr_Status p = StatusError"
  "p \<in> set (fromItems items st codes) \<Longrightarrow> pr_Status p = st"
  "p \<in> set (invalidSets infos bases) \<Longrightarrow> pr_Status p = StatusError"
  "p \<in> set (verifyFailed infos v) \<Longrightarrow> pr_Status p = StatusError"
proof -
  show "p \<in> set (baseMissing infos) \<Longrightarrow> pr_Status p = StatusError"
    using base_missing_ok [of infos] by (simp add: base_problem_ok_def)
  show "p \<in> set (fromItems items st codes) \<Longrightarrow> pr_Status p = st" by (auto simp: fromItems_def problem_of_def)
  show "p \<in> set (invalidSets infos bases) \<Longrightarrow> pr_Status p = StatusError"
    by (auto simp: invalidSets_def map_filter_iff problem_of_def Let_def split: option.splits if_splits)
  show "p \<in> set (verifyFailed infos v) \<Longrightarrow> pr_Status p = StatusError"
    by (auto simp: verifyFailed_def map_filter_iff problem_of_def split: option.splits if_splits)
qed

lemma error_status: "p \<in> set (problem_errors ne ins s) \<Longrightarrow> pr_Status p = StatusError"
  unfolding problem_errors_def Let_def set_append
  by (elim UnE) (auto simp: part_status map_filter_iff problem_of_def split: option.splits)

lemma warning_part_status:
  "p \<in> set (incompleteNewest E d folders infos) \<Longrightarrow> pr_Status p = StatusWarn"
  "overdue E cfg now infos = Some p \<Longrightarrow> pr_Status p = StatusWarn"
  "skipped_problem s f = Some p \<Longrightarrow> pr_Status p = StatusWarn"
proof -
  have "p \<in> set (incomplete_of E d infos f) \<Longrightarrow> pr_Status p = StatusWarn" for f
    by (auto simp: incomplete_of_def map_filter_iff problem_of_def Let_def split: option.splits if_splits)
  then show "p \<in> set (incompleteNewest E d folders infos) \<Longrightarrow> pr_Status p = StatusWarn" by (auto simp: incompleteNewest_def)
  show "overdue E cfg now infos = Some p \<Longrightarrow> pr_Status p = StatusWarn"
    by (auto simp: overdue_def problem_of_def Let_def split: if_splits)
  show "skipped_problem s f = Some p \<Longrightarrow> pr_Status p = StatusWarn"
    by (auto simp: skipped_problem_def problem_of_def split: option.splits if_splits)
qed

lemma warning_status: "p \<in> set (problem_warnings E cfg now d ins s) \<Longrightarrow> pr_Status p = StatusWarn"
  unfolding problem_warnings_def set_append
  by (elim UnE) (auto simp: part_status warning_part_status map_filter_iff problem_of_def split: option.splits if_splits)

lemma map_filter_Nil: "List.map_filter f xs = [] \<longleftrightarrow> (\<forall>x \<in> set xs. f x = None)"
  using map_filter_iff [of _ f xs] by (metis list.set_intros(1) neq_Nil_conv not_None_eq empty_iff empty_set)

lemma protected_lists:
  fixes N cfg exeDir configPath now
  defines "ins \<equiv> inspect_env N cfg exeDir configPath" and "s \<equiv> TakeSnapshot N cfg exeDir configPath now"
  assumes "sn_State s = StateProtected"
  shows "sn_Runs s \<noteq> []" "\<not> hasStatus (sn_Problems s) StatusError" "problem_errors (he_not_exist (se_health N)) ins s = []"
    "problem_warnings (se_format N) cfg now (se_disk N (ip_backupDir ins)) ins s = []"
proof -
  note f = snapshot_fields [of N cfg exeDir configPath now, folded ins_def s_def]
  have st: "sn_Runs s \<noteq> [] \<or> blindingError (sn_Problems s)" "\<not> hasStatus (sn_Problems s) StatusError" "\<not> hasStatus (sn_Problems s) StatusWarn"
    using assms(3) unfolding f(6) stateOf_def by (auto split: if_splits)
  then show "sn_Runs s \<noteq> []" "\<not> hasStatus (sn_Problems s) StatusError" by (auto simp: blindingError_def hasStatus_def list_ex_iff)
  let ?e = "problem_errors (he_not_exist (se_health N)) ins s" and ?w = "problem_warnings (se_format N) cfg now (se_disk N (ip_backupDir ins)) ins s"
  have "p \<notin> set ?e" "p \<notin> set ?w" for p
    using st(2,3) error_status [of p] warning_status [of p] unfolding f(5) hasStatus_def list_ex_iff by auto
  then show "?e = []" "?w = []" by (metis list.set_intros(1) neq_Nil_conv)+
qed

lemma snapshot_ordered:
  assumes "is_shuffle (se_sets N)"
  shows "ordered_by (newer_first (se_format N)) (sn_Sets (TakeSnapshot N cfg exeDir configPath now))"
  using Inventory_Inr(2) [OF _ assms, of "se_format N"] unfolding snapshot_fields(1)
  by (auto simp: inspect_env_def inspect_def scanInventory_def Let_def split: prod.splits sum.splits)


definition demo_health_paths :: path_env where
  "demo_health_paths = \<lparr>pa_abs = \<lambda>_. True, pa_join = \<lambda>_ p. p, pa_clean = id, pa_volume = \<lambda>_. [], pa_base = \<lambda>_. ''Docs'', pa_lower = id,
     pa_stat = \<lambda>_. Inr True, pa_readdir = \<lambda>_. None\<rparr>"

definition demo_snapshot_env :: "bytes list \<Rightarrow> snapshot_env" where
  "demo_snapshot_env ps = \<lparr>se_format = demo_format, se_paths = demo_health_paths,
     se_health = \<lparr>he_not_exist = \<lambda>_. False, he_createTemp = None, he_removeTemp = None, he_connected = None, he_yubikeys = Inr 1,
       he_space = \<lambda>_. Inr (2 ^ 63 - 1, 2 ^ 63 - 1)\<rparr>,
     se_log = \<lparr>lo_format = \<lambda>_. [], lo_parse = \<lambda>_. None, lo_marshal = \<lambda>_. None, lo_unmarshal = \<lambda>_. None\<rparr>,
     se_disk = \<lambda>_. demo_backup_dir ps, se_sets = rev, se_runs = rev, se_chains = rev, se_logs = rev, se_header = \<lambda>_. demo_header\<rparr>"

lemma demo_no_logs: "ParseLogFileName (part_base_name demo_entry (Suc 0)) = None" "ParseLogFileName (part_base_name demo_entry 2) = None"
  by code_simp+

lemma demo_no_other:
  "\<not> IsLegacyBackupFileName (part_base_name demo_entry (Suc 0))" "\<not> IsLegacyBackupFileName (part_base_name demo_entry 2)"
  "ParseTempPartFileName (part_base_name demo_entry (Suc 0)) = None" "ParseTempPartFileName (part_base_name demo_entry 2) = None"
  by code_simp+

lemma add64_max: "add64 x y \<le> 2 ^ 63 - 1"
proof -
  have "(x + y) mod 2 ^ 64 < 2 ^ 64" "0 \<le> (x + y) mod 2 ^ 64" by simp_all
  then show ?thesis unfolding add64_def int64_def uint64_def by (simp split: if_split) linarith
qed

lemma demo_keys_fit: "KeySetMismatch demo_plan_config (demo_keyset\<lparr>ks_Slots := [demo_slot]\<rparr>) = []"
proof -
  have "\<not> HasSlotType (demo_keyset\<lparr>ks_Slots := [demo_slot]\<rparr>) SlotRecovery"
    by (simp add: HasSlotType_def SlotIndexes_def demo_slot_def slot_type_def)
  then show ?thesis
    by (simp add: KeySetMismatch_def demo_keyset_def demo_plan_config_def auth_mode_def UseYubiKey_def AuthModeUsesYubiKey_def)
qed

lemma demo_resolved: "ResolveSources demo_health_paths [''C:/Docs''] x
    = [demo_source\<lparr>normalizedPath := ''C:'' @ CHR 0x5C # ''Docs''\<rparr>]"
  by code_simp

lemma demo_snapshot:
  assumes o: "length ps = 2" "OpenSet demo_format (parts_content ps) (part_sizes ps) = Inr st" "set_Header st = demo_header"
  defines "s \<equiv> TakeSnapshot (demo_snapshot_env ps) demo_plan_config [] ''config.yaml'' 5"
  shows "\<exists>i f. sn_Sets s = [i] \<and> Complete i \<and> Entry i = demo_entry \<and> sn_Folders s = [f] \<and> BackupName (fs_Source f) = ''Docs'' \<and> sn_State s = StateProtected"
proof -
  obtain i where i: "Inventory demo_format rev (demo_backup_dir ps) = Inr [i]" "Complete i" "Entry i = demo_entry" "Header i = Some demo_header"
    using demo_inventory [OF o shuffle_id(2)] by auto
  let ?src = "demo_source\<lparr>normalizedPath := ''C:'' @ CHR 0x5C # ''Docs''\<rparr>"
  let ?ins = "inspect_env (demo_snapshot_env ps) demo_plan_config [] ''config.yaml''"
  note f = snapshot_fields [of "demo_snapshot_env ps" demo_plan_config "[]" "''config.yaml''" 5, folded s_def]
  have ds: "ip_sources ?ins = [?src]"
    by (simp add: inspect_env_def inspect_def Let_def demo_snapshot_env_def demo_plan_config_def demo_resolved demo_source_def split: prod.split)
  have sets: "sn_Sets s = [i]"
    using i(1) unfolding f(1) by (simp add: inspect_env_def inspect_def Let_def demo_snapshot_env_def scanInventory_def split: prod.split)
  obtain nxt where fo: "sn_Folders s = [folder_status_of [i] nxt ?src]" using f(4) unfolding sets ds by (auto simp: folderStatuses_def)
  have "sn_Verified s = Map.empty \<and> sn_SetFacts s = Map.empty"
    by (simp add: s_def TakeSnapshot_def Let_def readFacts_def demo_snapshot_env_def demo_backup_dir_def read_log_def demo_no_logs problems_def)
  moreover have r: "sn_Runs s \<noteq> []" using i(2) unfolding f(3) sets by (simp add: BackupRunSummaries_def demo_snapshot_env_def)
  moreover have "st_FullEstimate (sn_Storage s) \<le> 2 ^ 63 - 1 \<and> st_FreeBytes (sn_Storage s) = 2 ^ 63 - 1"
    using i fo sets ds
    by (simp add: s_def TakeSnapshot_def Let_def problems_def storage_def demo_snapshot_env_def demo_health_paths_def folderStatuses_def full_size_def
        folder_status_of_def int64_def add64_max [simplified])
  moreover have ok: "\<forall>item \<in> set (ip_items ?ins). hi_Severity item = HealthOK"
  proof -
    have iv: "ip_inventory ?ins = \<lparr>iv_infos = [i], iv_err = None, iv_legacy = [], iv_temps = []\<rparr>"
      using i(1) by (simp add: inspect_env_def inspect_def Let_def demo_snapshot_env_def scanInventory_def or_empty_def ListLegacyFiles_def
          ListTempParts_def demo_no_other demo_backup_dir_def split: prod.split)
    have "CurrentKeySet [i] = Some (demo_keyset\<lparr>ks_Slots := [demo_slot]\<rparr>)" using i(2,4) by (simp add: CurrentKeySet_def demo_header_def)
    moreover have "Err i = None" using i(2) by (simp add: Complete_def)
    ultimately have "\<forall>item \<in> set (inventoryItems (se_health (demo_snapshot_env ps)) demo_plan_config (ip_inventory ?ins)). hi_Severity item = HealthOK"
      using i(3) unfolding iv
      by (simp add: inventoryItems_def legacyAndTempItems_def ok_item_def checkKeyHealth_def demo_keys_fit buildBackupInventoryIssueItems_def
          List.map_filter_simps set_issue_def demo_entry_def IsDiff_def Let_def)
    then show ?thesis
      unfolding inspect_items Let_def ds
      by (auto simp: checkConfigFileHealth_def checkArgon2Health_def sourceItems_def source_item_def checkBackupDirectoryHealth_def probeWriteAccess_def
          checkYubiKeyHealth_def ok_item_def demo_snapshot_env_def demo_health_paths_def demo_plan_config_def demo_source_def UseYubiKey_def
          AuthModeUsesYubiKey_def auth_mode_def)
  qed
  moreover have "fromItems (ip_items ?ins) st codes = []" for st codes using ok by (simp add: fromItems_def)
  moreover have "baseMissing [i] = []" using i by (simp add: baseMissing_def demo_entry_def IsDiff_def)
  moreover have "\<not> Skip ?src" "SrcErr ?src = None" "BackupName ?src = DirectoryName (Entry i)" using i(3) by (simp_all add: demo_source_def demo_entry_def)
  moreover have "overdue demo_format demo_plan_config 5 [i] = None"
    using i by (simp add: overdue_def newest_complete_def Created_def HeaderCreated_def demo_format_def Let_def)
  moreover have "Err i = None" using i(2) by (simp add: Complete_def)
  ultimately have p: "problem_errors (\<lambda>_. False) ?ins s = []" "problem_warnings demo_format demo_plan_config 5 (demo_backup_dir ps) ?ins s = []"
    using sets fo i(2)
    by (simp_all add: problem_errors_def problem_warnings_def invalidSets_def verifyFailed_def skipped_problem_def unread_files_def
        incompleteNewest_def incomplete_of_def folder_status_of_def map_filter_Nil Let_def filter_empty_conv)
  have "sn_Problems s = []" unfolding f(5) using p by (simp add: demo_snapshot_env_def)
  then have "sn_State s = StateProtected" unfolding f(6) using r by (simp add: stateOf_def blindingError_def hasStatus_def)
  then show ?thesis using sets fo i by (simp add: folder_status_of_def demo_source_def)
qed


definition unreadable_env :: snapshot_env where
  "unreadable_env = (demo_snapshot_env [])\<lparr>se_paths := demo_health_paths\<lparr>pa_stat := \<lambda>_. Inl (IOError ''no such file'')\<rparr>\<rparr>"

theorem blocked_is_shown_witness:
  "BlocksBackup (sn_Check (TakeSnapshot unreadable_env demo_plan_config [] ''config.yaml'' 5))
   \<and> sn_State (TakeSnapshot unreadable_env demo_plan_config [] ''config.yaml'' 5) = StateError"
proof -
  let ?s = "TakeSnapshot unreadable_env demo_plan_config [] ''config.yaml'' 5"
  have "hr_errorScopes (sn_Check ?s) healthScopeConfig"
    unfolding snapshot_fields(2) buildResult_scope inspect_items Let_def
    by (auto simp: checkConfigFileHealth_def unreadable_env_def demo_snapshot_env_def demo_health_paths_def)
  then have "BlocksRestoreOrVerify (sn_Check ?s)" by (simp add: BlocksRestoreOrVerify_def)
  with blocked_is_shown [of unreadable_env demo_plan_config "[]" "''config.yaml''" 5] show ?thesis by blast
qed

end
