(* ===== verification/Spec2Isabelle.thy ===== *)
theory Spec2Isabelle
  imports Prelude Encoding Ordering Naming Crypto Parts Recovery KeySet Config Unlocking Manifest Container Catalog Plan Retention WinFile Build Restore Archive SetWriter RestorePoint PointSafety EndToEnd Facts Exclude BackupRun Sources Lock Preflight Jobs JobResults BackupStart Health Snapshot
begin

text \<open>
  RestoreSafe makes encrypted backups of folders: full backups and differentials of them, each a set of
  part files in the backup directory. A set holds a header, the encrypted data section (a TAR stream), the
  encrypted manifest and a trailer.
\<close>

end
